(* ===== verification/Mq_Prelude.thy ===== *)
theory Mq_Prelude
  imports Main "HOL-Library.Word" "HOL-Library.Char_ord" "HOL-Library.List_Lexorder"
    "HOL-Library.Product_Lexorder" "HOL-Library.AList"
begin

text \<open>
  The shared layer of the development: machine integers and Rust's checked and saturating
  arithmetic on them, the outcome type of a Rust function (\<open>Ok\<close>, \<open>Err\<close> or a panic), its two
  sequencing combinators (for values and for \<open>&mut\<close> state), byte buffers with big-endian
  fields, strings as UTF-8 bytes, and decimal text.  The facts the component proofs
  share are collected in \<open>outcome_simps\<close>, \<open>buf_simps\<close> and \<open>word_simps\<close>.
\<close>

named_theorems outcome_simps \<open>evaluation of the outcome combinators\<close>
named_theorems buf_simps \<open>reading back what was written to a byte buffer\<close>
named_theorems word_simps \<open>conversions between machine integers and natural numbers\<close>

section \<open>Machine integers\<close>

type_synonym u8 = "8 word"
type_synonym u16 = "16 word"
type_synonym u32 = "32 word"
type_synonym u64 = "64 word"

text \<open>\<open>usize\<close> values are modelled as natural numbers (the platform is 64 bit, and no buffer
  reaches \<open>usize::MAX\<close> bytes); where the source saturates, the bound is written out.\<close>

abbreviation usize_max :: nat where
  "usize_max \<equiv> 18446744073709551615"

definition checked_add :: "'a::len word \<Rightarrow> 'a word \<Rightarrow> 'a word option" where
  "checked_add a b = (if unat a + unat b < 2 ^ LENGTH('a) then Some (a + b) else None)"

definition saturating_add :: "'a::len word \<Rightarrow> 'a word \<Rightarrow> 'a word" where
  "saturating_add a b = (if unat a + unat b < 2 ^ LENGTH('a) then a + b else - 1)"

definition saturating_sub :: "'a::len word \<Rightarrow> 'a word \<Rightarrow> 'a word" where
  "saturating_sub a b = (if b \<le> a then a - b else 0)"

definition usize_saturating_add :: "nat \<Rightarrow> nat \<Rightarrow> nat" where
  "usize_saturating_add a b = min (a + b) usize_max"

definition try_from :: "nat \<Rightarrow> 'a::len word option" where
  "try_from n = (if n < 2 ^ LENGTH('a) then Some (word_of_nat n) else None)"

definition i32_try_from :: "nat \<Rightarrow> u32 option" where
  "i32_try_from n = (if n < 2 ^ 31 then Some (word_of_nat n) else None)"

lemma checked_add_Some_iff:
  "checked_add a b = Some c \<longleftrightarrow> unat a + unat b < 2 ^ LENGTH('a) \<and> c = a + (b :: 'a::len word)"
  by (auto simp: checked_add_def)

lemma checked_add_None_iff:
  "checked_add a b = None \<longleftrightarrow> 2 ^ LENGTH('a) \<le> unat a + unat (b :: 'a::len word)"
  by (auto simp: checked_add_def)

lemma unat_checked_add: "checked_add a b = Some c \<Longrightarrow> unat c = unat a + unat b"
  by (auto simp: checked_add_def unat_word_ariths split: if_splits)

lemma checked_add_fits:
  fixes a b :: "'a::len word"
  assumes "unat a + unat b < 2 ^ LENGTH('a)"
  obtains c where "checked_add a b = Some c" and "unat c = unat a + unat b"
  using assms by (simp add: checked_add_def unat_word_ariths)

lemma unat_plus_no_overflow:
  "unat a + unat b < 2 ^ LENGTH('a) \<Longrightarrow> unat (a + b :: 'a::len word) = unat a + unat b"
  by (simp add: unat_word_ariths)

lemma unat_max_word: "unat (- 1 :: 'a::len word) = 2 ^ LENGTH('a) - 1"
  by (simp add: unsigned_minus_1_eq_mask mask_eq_exp_minus_1)

lemma unat_saturating_sub: "unat (saturating_sub a b) = unat a - unat b"
  by (auto simp: saturating_sub_def unat_sub word_le_nat_alt)

lemma unat_saturating_add_le: "unat (saturating_add a b) \<le> unat a + unat b"
  by (auto simp: saturating_add_def unat_word_ariths unat_max_word)

lemma unat_saturating_add:
  "unat (saturating_add a b :: 'a::len word) = min (unat a + unat b) (2 ^ LENGTH('a) - 1)"
  by (auto simp: saturating_add_def unat_word_ariths unat_max_word)

lemma unat_word_of_nat_small [word_simps]:
  "n < 2 ^ LENGTH('a) \<Longrightarrow> unat (word_of_nat n :: 'a::len word) = n"
  by (simp add: unat_of_nat take_bit_nat_eq_self)

lemma unat_u8_lt [simp]: "unat (b :: u8) < 256"
  using unsigned_less [of b] by simp

lemma unat_u16_lt [simp]: "unat (b :: u16) < 65536"
  using unsigned_less [of b] by simp

lemma unat_u32_lt [simp]: "unat (b :: u32) < 4294967296"
  using unsigned_less [of b] by simp

lemma unat_u64_lt [simp]: "unat (b :: u64) < 18446744073709551616"
  using unsigned_less [of b] by simp

lemma try_from_Some [word_simps]:
  "n < 2 ^ LENGTH('a) \<Longrightarrow> try_from n = Some (word_of_nat n :: 'a::len word)"
  by (simp add: try_from_def)

lemma i32_try_from_Some [word_simps]: "n < 2147483648 \<Longrightarrow> i32_try_from n = Some (word_of_nat n)"
  by (simp add: i32_try_from_def)

lemma sint_word_of_nat_i32 [word_simps]:
  "n < 2147483648 \<Longrightarrow> sint (word_of_nat n :: u32) = int n"
  by (simp add: signed_of_nat signed_take_bit_int_eq_self)

section \<open>Outcomes of Rust functions\<close>

text \<open>A function returning \<open>Result<T, E>\<close> returns \<open>Ok\<close> or \<open>Err\<close>, or it panics (an index out of
  range, a read past the end of a buffer, a remainder by zero).\<close>

datatype ('a, 'e) outcome = Ok 'a | Err 'e | Panic

text \<open>The \<open>?\<close> operator: stop at the first outcome that is not \<open>Ok\<close>.\<close>

fun try_bind :: "('a, 'e) outcome \<Rightarrow> ('a \<Rightarrow> ('b, 'e) outcome) \<Rightarrow> ('b, 'e) outcome" where
  "try_bind (Ok x) f = f x"
| "try_bind (Err e) f = Err e"
| "try_bind Panic f = Panic"

text \<open>The same for a method on \<open>&mut self\<close>: the state reached so far is kept on every exit.\<close>

fun step_bind :: "('a, 'e) outcome \<times> 's \<Rightarrow> ('a \<Rightarrow> 's \<Rightarrow> ('b, 'e) outcome \<times> 's)
    \<Rightarrow> ('b, 'e) outcome \<times> 's" where
  "step_bind (Ok x, s) f = f x s"
| "step_bind (Err e, s) f = (Err e, s)"
| "step_bind (Panic, s) f = (Panic, s)"

definition ok_or :: "'a option \<Rightarrow> 'e \<Rightarrow> ('a, 'e) outcome" where
  "ok_or x e = (case x of None \<Rightarrow> Err e | Some y \<Rightarrow> Ok y)"

fun map_ok :: "('a \<Rightarrow> 'b) \<Rightarrow> ('a, 'e) outcome \<Rightarrow> ('b, 'e) outcome" where
  "map_ok f (Ok x) = Ok (f x)"
| "map_ok f (Err e) = Err e"
| "map_ok f Panic = Panic"

fun map_err :: "('e \<Rightarrow> 'f) \<Rightarrow> ('a, 'e) outcome \<Rightarrow> ('a, 'f) outcome" where
  "map_err f (Ok x) = Ok x"
| "map_err f (Err e) = Err (f e)"
| "map_err f Panic = Panic"

lemma ok_or_simps [simp, outcome_simps]: "ok_or (Some x) e = Ok x" "ok_or None e = Err e"
  by (simp_all add: ok_or_def)

lemma try_bind_eq_Ok [outcome_simps]:
  "try_bind m f = Ok y \<longleftrightarrow> (\<exists>x. m = Ok x \<and> f x = Ok y)"
  by (cases m) auto

lemma try_bind_Panic_iff: "try_bind m f = Panic \<longleftrightarrow> m = Panic \<or> (\<exists>x. m = Ok x \<and> f x = Panic)"
  by (cases m) auto

lemma ok_or_eq_Ok [outcome_simps]: "ok_or x e = Ok y \<longleftrightarrow> x = Some y"
  by (cases x) auto

lemma ok_or_not_Panic [simp]: "ok_or x e \<noteq> Panic"
  by (cases x) auto

lemma map_ok_eq_Ok [outcome_simps]: "map_ok f m = Ok y \<longleftrightarrow> (\<exists>x. m = Ok x \<and> y = f x)"
  by (cases m) auto

lemma map_ok_Panic_iff [simp]: "map_ok f m = Panic \<longleftrightarrow> m = Panic"
  by (cases m) auto

lemma map_err_eq_Ok [outcome_simps]: "map_err f m = Ok y \<longleftrightarrow> m = Ok y"
  by (cases m) auto

lemma step_bind_eq_Ok [outcome_simps]:
  "step_bind m f = (Ok y, t) \<longleftrightarrow> (\<exists>x s. m = (Ok x, s) \<and> f x s = (Ok y, t))"
  by (cases m; cases "fst m") auto

section \<open>Byte buffers with big-endian fields\<close>

text \<open>A \<open>BytesMut\<close>, a \<open>Bytes\<close> or a \<open>Vec<u8>\<close> is the list of its bytes.  \<open>put_*\<close> appends a field in
  network byte order, \<open>get_*\<close> consumes one from the front and panics when too few bytes
  remain.\<close>

type_synonym bytes = "u8 list"

fun to_be_bytes :: "nat \<Rightarrow> nat \<Rightarrow> bytes" where
  "to_be_bytes 0 x = []"
| "to_be_bytes (Suc n) x = to_be_bytes n (x div 256) @ [word_of_nat (x mod 256)]"

fun from_be_bytes :: "nat \<Rightarrow> bytes \<Rightarrow> nat" where
  "from_be_bytes acc [] = acc"
| "from_be_bytes acc (b # bs) = from_be_bytes (acc * 256 + unat b) bs"

definition put_u16 :: "u16 \<Rightarrow> bytes" where
  "put_u16 w = to_be_bytes 2 (unat w)"

definition put_u32 :: "u32 \<Rightarrow> bytes" where
  "put_u32 w = to_be_bytes 4 (unat w)"

definition put_u64 :: "u64 \<Rightarrow> bytes" where
  "put_u64 w = to_be_bytes 8 (unat w)"

definition get_be :: "nat \<Rightarrow> bytes \<Rightarrow> ('a::len word \<times> bytes, 'e) outcome" where
  "get_be n buf = (if length buf < n then Panic
     else Ok (word_of_nat (from_be_bytes 0 (take n buf)), drop n buf))"

definition get_u8 :: "bytes \<Rightarrow> (u8 \<times> bytes, 'e) outcome" where
  "get_u8 buf = (case buf of [] \<Rightarrow> Panic | b # r \<Rightarrow> Ok (b, r))"

definition get_u16 :: "bytes \<Rightarrow> (u16 \<times> bytes, 'e) outcome" where
  "get_u16 = get_be 2"

definition get_u32 :: "bytes \<Rightarrow> (u32 \<times> bytes, 'e) outcome" where
  "get_u32 = get_be 4"

definition get_u64 :: "bytes \<Rightarrow> (u64 \<times> bytes, 'e) outcome" where
  "get_u64 = get_be 8"

text \<open>\<open>split_to\<close> panics past the end; every caller checks the length first.\<close>

definition split_to :: "nat \<Rightarrow> bytes \<Rightarrow> (bytes \<times> bytes, 'e) outcome" where
  "split_to n buf = (if length buf < n then Panic else Ok (take n buf, drop n buf))"

lemma length_to_be_bytes [simp]: "length (to_be_bytes n x) = n"
  by (induction n arbitrary: x) auto

lemma from_be_bytes_append:
  "from_be_bytes acc (xs @ ys) = from_be_bytes (from_be_bytes acc xs) ys"
  by (induction xs arbitrary: acc) auto

lemma from_to_be_bytes: "from_be_bytes acc (to_be_bytes n x) = acc * 256 ^ n + x mod 256 ^ n"
proof (induction n arbitrary: x)
  case 0
  then show ?case by simp
next
  case (Suc n)
  have u: "unat (word_of_nat (x mod 256) :: u8) = x mod 256"
    by (rule unat_word_of_nat_small) simp
  have m: "x mod (256 * 256 ^ n) = 256 * (x div 256 mod 256 ^ n) + x mod 256"
    by (rule mod_mult2_eq)
  show ?case by (simp add: from_be_bytes_append Suc u m algebra_simps)
qed

lemma get_be_put [buf_simps]:
  "get_be n (to_be_bytes n x @ r) = Ok (word_of_nat (x mod 256 ^ n), r)"
  by (simp add: get_be_def from_to_be_bytes)

lemma length_put [simp]:
  "length (put_u16 a) = 2" "length (put_u32 b) = 4" "length (put_u64 c) = 8"
  by (simp_all add: put_u16_def put_u32_def put_u64_def)

lemma put_not_Nil [simp]: "put_u16 a \<noteq> []" "put_u32 b \<noteq> []" "put_u64 c \<noteq> []"
  by (simp_all flip: length_0_conv)

lemma get_u8_Cons [simp, buf_simps]: "get_u8 (b # r) = Ok (b, r)"
  by (simp add: get_u8_def)

lemma get_u16_put [simp, buf_simps]: "get_u16 (put_u16 w @ r) = Ok (w, r)"
  by (simp add: get_u16_def put_u16_def get_be_put)

lemma get_u32_put [simp, buf_simps]: "get_u32 (put_u32 w @ r) = Ok (w, r)"
  by (simp add: get_u32_def put_u32_def get_be_put)

lemma get_u64_put [simp, buf_simps]: "get_u64 (put_u64 w @ r) = Ok (w, r)"
  by (simp add: get_u64_def put_u64_def get_be_put)

lemmas get_put_end [simp, buf_simps] =
  get_u16_put [where r = "[]", simplified] get_u32_put [where r = "[]", simplified]
  get_u64_put [where r = "[]", simplified]

lemma split_to_append [simp, buf_simps]: "n = length xs \<Longrightarrow> split_to n (xs @ r) = Ok (xs, r)"
  by (simp add: split_to_def)

lemma split_to_all [simp, buf_simps]: "n = length xs \<Longrightarrow> split_to n xs = Ok (xs, [])"
  by (simp add: split_to_def)

lemma get_u8_Panic_iff [simp]: "get_u8 buf = Panic \<longleftrightarrow> buf = []"
  by (simp add: get_u8_def split: list.splits)

lemma get_Panic_iff [simp]:
  "get_u16 buf = Panic \<longleftrightarrow> length buf < 2" "get_u32 buf = Panic \<longleftrightarrow> length buf < 4"
  "get_u64 buf = Panic \<longleftrightarrow> length buf < 8" "split_to n buf = Panic \<longleftrightarrow> length buf < n"
  by (simp_all add: get_u16_def get_u32_def get_u64_def get_be_def split_to_def)

lemma get_length:
  "get_u8 buf = Ok (b, r) \<Longrightarrow> length buf = Suc (length r)"
  "get_u16 buf = Ok (w, r) \<Longrightarrow> length buf = length r + 2"
  "get_u32 buf = Ok (x, r) \<Longrightarrow> length buf = length r + 4"
  "get_u64 buf = Ok (y, r) \<Longrightarrow> length buf = length r + 8"
  "split_to n buf = Ok (z, r) \<Longrightarrow> length buf = length r + n \<and> length z = n"
  by (auto simp: get_u8_def get_u16_def get_u32_def get_u64_def get_be_def split_to_def
      split: list.splits if_splits)

lemma get_not_Err [simp]:
  "get_u8 buf \<noteq> Err e" "get_u16 buf \<noteq> Err e" "get_u32 buf \<noteq> Err e" "get_u64 buf \<noteq> Err e"
  "split_to n buf \<noteq> Err e"
  by (auto simp: get_u8_def get_u16_def get_u32_def get_u64_def get_be_def split_to_def
      split: list.splits)

section \<open>Strings as UTF-8 bytes\<close>

text \<open>A Rust \<open>String\<close> is the sequence of its UTF-8 bytes; a HOL \<open>char\<close> stands for one byte, so
  \<open>length\<close> is \<open>String::len\<close>.  \<open>String::from_utf8\<close> accepts exactly the well-formed sequences of
  the Unicode standard (no overlong forms, no surrogates, nothing above U+10FFFF).\<close>

definition byte_of_char :: "char \<Rightarrow> u8" where
  "byte_of_char c = word_of_nat (of_char c)"

definition char_of_byte :: "u8 \<Rightarrow> char" where
  "char_of_byte b = char_of (unat b)"

definition as_bytes :: "string \<Rightarrow> bytes" where
  "as_bytes s = map byte_of_char s"

definition continuation :: "u8 \<Rightarrow> bool" where
  "continuation b \<longleftrightarrow> 128 \<le> unat b \<and> unat b < 192"

fun utf8_valid :: "bytes \<Rightarrow> bool" where
  "utf8_valid [] = True"
| "utf8_valid (b # bs) =
    (let x = unat b in
     if x < 128 then utf8_valid bs
     else if 194 \<le> x \<and> x < 224 then
       (case bs of b1 # r \<Rightarrow> continuation b1 \<and> utf8_valid r | _ \<Rightarrow> False)
     else if 224 \<le> x \<and> x < 240 then
       (case bs of b1 # b2 # r \<Rightarrow>
            continuation b1 \<and> (x = 224 \<longrightarrow> 160 \<le> unat b1) \<and> (x = 237 \<longrightarrow> unat b1 < 160)
            \<and> continuation b2 \<and> utf8_valid r
        | _ \<Rightarrow> False)
     else if 240 \<le> x \<and> x < 245 then
       (case bs of b1 # b2 # b3 # r \<Rightarrow>
            continuation b1 \<and> (x = 240 \<longrightarrow> 144 \<le> unat b1) \<and> (x = 244 \<longrightarrow> unat b1 < 144)
            \<and> continuation b2 \<and> continuation b3 \<and> utf8_valid r
        | _ \<Rightarrow> False)
     else False)"

definition from_utf8 :: "bytes \<Rightarrow> string option" where
  "from_utf8 bs = (if utf8_valid bs then Some (map char_of_byte bs) else None)"

text \<open>What every value of type \<open>String\<close> satisfies.\<close>

definition utf8_string :: "string \<Rightarrow> bool" where
  "utf8_string s \<longleftrightarrow> utf8_valid (as_bytes s)"

lemma char_of_byte_of_char [simp]: "char_of_byte (byte_of_char c) = c"
proof -
  have "of_char c < (256 :: nat)" by simp
  then have "unat (word_of_nat (of_char c) :: u8) = of_char c"
    by (intro unat_word_of_nat_small) simp
  then show ?thesis by (simp add: char_of_byte_def byte_of_char_def)
qed

lemma byte_of_char_of_byte [simp]: "byte_of_char (char_of_byte b) = b"
  by (simp add: char_of_byte_def byte_of_char_def)

lemma length_as_bytes [simp]: "length (as_bytes s) = length s"
  by (simp add: as_bytes_def)

lemma map_char_of_as_bytes [simp]: "map char_of_byte (as_bytes s) = s"
  by (simp add: as_bytes_def comp_def)

lemma as_bytes_inject [simp]: "as_bytes s = as_bytes t \<longleftrightarrow> s = t"
  by (metis map_char_of_as_bytes)

lemma as_bytes_Nil_iff [simp]: "as_bytes s = [] \<longleftrightarrow> s = []"
  by (simp add: as_bytes_def)

lemma from_utf8_as_bytes [simp, buf_simps]: "utf8_string s \<Longrightarrow> from_utf8 (as_bytes s) = Some s"
  by (simp add: from_utf8_def utf8_string_def)

lemma from_utf8_Some: "from_utf8 bs = Some s \<Longrightarrow> as_bytes s = bs \<and> utf8_string s"
  by (auto simp: from_utf8_def utf8_string_def as_bytes_def comp_def split: if_splits)

lemma utf8_valid_ascii: "\<forall>b \<in> set bs. unat b < 128 \<Longrightarrow> utf8_valid bs"
  by (induction bs) auto

lemma utf8_string_Nil [simp]: "utf8_string []"
  by (simp add: utf8_string_def as_bytes_def)

text \<open>\<open>u8::is_ascii_alphanumeric\<close>, on a byte of a string.\<close>

definition is_ascii_digit :: "char \<Rightarrow> bool" where
  "is_ascii_digit c \<longleftrightarrow> CHR ''0'' \<le> c \<and> c \<le> CHR ''9''"

definition is_ascii_alphanumeric :: "char \<Rightarrow> bool" where
  "is_ascii_alphanumeric c \<longleftrightarrow> is_ascii_digit c
     \<or> (CHR ''a'' \<le> c \<and> c \<le> CHR ''z'') \<or> (CHR ''A'' \<le> c \<and> c \<le> CHR ''Z'')"

text \<open>The character test all the identifier checks of the program share.\<close>

definition id_char :: "char \<Rightarrow> bool" where
  "id_char c \<longleftrightarrow> is_ascii_alphanumeric c \<or> c = CHR ''.'' \<or> c = CHR ''_'' \<or> c = CHR ''-''"

lemma id_char_ascii: "id_char c \<Longrightarrow> unat (byte_of_char c) < 128"
proof -
  assume "id_char c"
  then have "of_char c \<le> (122 :: nat)"
    by (auto simp: id_char_def is_ascii_alphanumeric_def is_ascii_digit_def less_eq_char_def)
  then show ?thesis by (simp add: byte_of_char_def unat_word_of_nat_small)
qed

lemma utf8_string_id: "list_all id_char s \<Longrightarrow> utf8_string s"
  unfolding utf8_string_def as_bytes_def
  by (rule utf8_valid_ascii) (auto simp: list_all_iff dest: id_char_ascii)

section \<open>Decimal text\<close>

text \<open>\<open>{}\<close> formatting of an unsigned integer, and \<open>str::parse\<close> into one: an optional plus sign,
  at least one digit, nothing else, and a value that fits.\<close>

definition digit_char :: "nat \<Rightarrow> char" where
  "digit_char d = char_of (48 + d)"

definition digit_val :: "char \<Rightarrow> nat" where
  "digit_val c = of_char c - 48"

fun show_nat :: "nat \<Rightarrow> string" where
  "show_nat n = (if n < 10 then [digit_char n] else show_nat (n div 10) @ [digit_char (n mod 10)])"

declare show_nat.simps [simp del]

fun digits_val :: "nat \<Rightarrow> string \<Rightarrow> nat" where
  "digits_val acc [] = acc"
| "digits_val acc (c # cs) = digits_val (acc * 10 + digit_val c) cs"

definition parse_unsigned :: "string \<Rightarrow> 'a::len word option" where
  "parse_unsigned s =
    (let ds = (case s of c # cs \<Rightarrow> if c = CHR ''+'' then cs else s | [] \<Rightarrow> s) in
     if ds = [] \<or> \<not> list_all is_ascii_digit ds then None
     else try_from (digits_val 0 ds))"

lemma digits_val_append: "digits_val a (xs @ ys) = digits_val (digits_val a xs) ys"
  by (induction xs arbitrary: a) auto

lemma digit_char_props:
  "d < 10 \<Longrightarrow> digit_val (digit_char d) = d"
  "d < 10 \<Longrightarrow> is_ascii_digit (digit_char d)"
  by (auto simp: digit_val_def digit_char_def is_ascii_digit_def less_eq_char_def)

lemma show_nat_not_Nil [simp]: "show_nat n \<noteq> []"
  by (subst show_nat.simps) simp

lemma show_nat_digits: "list_all is_ascii_digit (show_nat n)"
proof (induction n rule: show_nat.induct)
  case (1 n)
  then show ?case by (subst show_nat.simps) (auto simp: digit_char_props)
qed

lemma digits_val_show_nat: "digits_val 0 (show_nat n) = n"
proof (induction n rule: show_nat.induct)
  case (1 n)
  then show ?case by (subst show_nat.simps) (auto simp: digits_val_append digit_char_props)
qed

lemma plus_not_digit: "\<not> is_ascii_digit (CHR ''+'')"
  by (simp add: is_ascii_digit_def less_eq_char_def)

lemma parse_unsigned_digits:
  "list_all is_ascii_digit s \<Longrightarrow> s \<noteq> [] \<Longrightarrow> parse_unsigned s = try_from (digits_val 0 s)"
  by (cases s) (auto simp: parse_unsigned_def plus_not_digit Let_def)

lemma parse_show_unsigned [simp]:
  "parse_unsigned (show_nat (unat w)) = Some (w :: 'a::len word)"
  by (simp add: parse_unsigned_digits show_nat_digits digits_val_show_nat try_from_def)

lemma show_nat_word_inj: "show_nat (unat p) = show_nat (unat q) \<longleftrightarrow> (p :: 'a::len word) = q"
  by (metis option.inject parse_show_unsigned)

lemma unat_of_nat_below: "x < unat (n :: 'a::len word) \<Longrightarrow> unat (word_of_nat x :: 'a word) = x"
  by (rule unat_word_of_nat_small, erule less_trans) (rule unsigned_less)

end
