(* ===== verification/Wire_Types.thy ===== *)
theory Wire_Types
  imports Mq_Prelude
begin

text \<open>
  The data of \<open>crates/protocol/src/lib.rs\<close>: limits, opcodes, the request and response types with
  their validating constructors, and the protocol errors.  The \<open>*_ok\<close> predicates say what
  every value of a Rust type satisfies (its strings are UTF-8, private fields went through
  the constructor).
\<close>

section \<open>Limits and opcodes\<close>

abbreviation MAX_TOPIC_NAME :: nat where "MAX_TOPIC_NAME \<equiv> 249"
abbreviation MAX_KEY_SIZE :: nat where "MAX_KEY_SIZE \<equiv> 65535"
abbreviation MAX_MESSAGE_SIZE :: nat where "MAX_MESSAGE_SIZE \<equiv> 1048576"
abbreviation MAX_FRAME_SIZE :: nat where "MAX_FRAME_SIZE \<equiv> 4194304"
abbreviation MAX_BATCH_MESSAGES :: nat where "MAX_BATCH_MESSAGES \<equiv> 1000"
abbreviation MAX_UNCOMPRESSED_BATCH_SIZE :: nat where "MAX_UNCOMPRESSED_BATCH_SIZE \<equiv> 3145728"
abbreviation MAX_FETCH_BYTES :: nat where "MAX_FETCH_BYTES \<equiv> 3145728"
abbreviation MAX_FETCH_WAIT_MS :: u32 where "MAX_FETCH_WAIT_MS \<equiv> 30000"
abbreviation MAX_CLUSTER_NODES :: nat where "MAX_CLUSTER_NODES \<equiv> 1024"
abbreviation FRAME_HEADER_SIZE :: nat where "FRAME_HEADER_SIZE \<equiv> 4"

abbreviation PRODUCE :: u8 where "PRODUCE \<equiv> 0x01"
abbreviation PRODUCE_ACK :: u8 where "PRODUCE_ACK \<equiv> 0x02"
abbreviation PRODUCE_BATCH :: u8 where "PRODUCE_BATCH \<equiv> 0x03"
abbreviation PRODUCE_BATCH_ACK :: u8 where "PRODUCE_BATCH_ACK \<equiv> 0x04"
abbreviation FETCH :: u8 where "FETCH \<equiv> 0x10"
abbreviation FETCH_RESPONSE :: u8 where "FETCH_RESPONSE \<equiv> 0x11"
abbreviation JOIN_GROUP :: u8 where "JOIN_GROUP \<equiv> 0x20"
abbreviation JOIN_GROUP_RESPONSE :: u8 where "JOIN_GROUP_RESPONSE \<equiv> 0x21"
abbreviation HEARTBEAT :: u8 where "HEARTBEAT \<equiv> 0x22"
abbreviation LEAVE_GROUP :: u8 where "LEAVE_GROUP \<equiv> 0x23"
abbreviation COMMIT_OFFSET :: u8 where "COMMIT_OFFSET \<equiv> 0x24"
abbreviation FETCH_COMMITTED_OFFSET :: u8 where "FETCH_COMMITTED_OFFSET \<equiv> 0x25"
abbreviation GROUP_ACK :: u8 where "GROUP_ACK \<equiv> 0x26"
abbreviation COMMITTED_OFFSET_RESPONSE :: u8 where "COMMITTED_OFFSET_RESPONSE \<equiv> 0x27"
abbreviation ERROR_RESPONSE :: u8 where "ERROR_RESPONSE \<equiv> 0x7f"
abbreviation GROUP_FETCH :: u8 where "GROUP_FETCH \<equiv> 0x28"
abbreviation CREATE_TOPIC :: u8 where "CREATE_TOPIC \<equiv> 0x30"
abbreviation LIST_TOPICS :: u8 where "LIST_TOPICS \<equiv> 0x31"
abbreviation DESCRIBE_TOPIC :: u8 where "DESCRIBE_TOPIC \<equiv> 0x32"
abbreviation TOPICS_RESPONSE :: u8 where "TOPICS_RESPONSE \<equiv> 0x33"
abbreviation CLUSTER_METADATA :: u8 where "CLUSTER_METADATA \<equiv> 0x40"
abbreviation CLUSTER_METADATA_RESPONSE :: u8 where "CLUSTER_METADATA_RESPONSE \<equiv> 0x41"
abbreviation PROMOTE_LEADER :: u8 where "PROMOTE_LEADER \<equiv> 0x42"
abbreviation APPLY_LEADERSHIP :: u8 where "APPLY_LEADERSHIP \<equiv> 0x43"
abbreviation LEADERSHIP_CHANGED :: u8 where "LEADERSHIP_CHANGED \<equiv> 0x44"
abbreviation PARTITION_STATUS :: u8 where "PARTITION_STATUS \<equiv> 0x45"
abbreviation PARTITION_STATUS_RESPONSE :: u8 where "PARTITION_STATUS_RESPONSE \<equiv> 0x46"
abbreviation REPLICATE_RECORD :: u8 where "REPLICATE_RECORD \<equiv> 0x50"
abbreviation REPLICATE_ACK :: u8 where "REPLICATE_ACK \<equiv> 0x51"

section \<open>Errors and enumerations\<close>

datatype protocol_error =
    InvalidFrame
  | FrameTooLarge
  | UnknownOpcode u8
  | InvalidTopic
  | TopicTooLarge
  | KeyTooLarge
  | MessageTooLarge
  | FetchTooLarge
  | FetchWaitTooLong
  | InvalidAckMode u8
  | InvalidProducerId
  | InvalidBatchCount
  | BatchTooLarge
  | InvalidCompression u8
  | InvalidCompressedBatch
  | InvalidPartitionCount
  | InvalidClusterMetadata

datatype ack_mode = Leader | Durable

fun ack_mode_code :: "ack_mode \<Rightarrow> u8" where
  "ack_mode_code Leader = 1"
| "ack_mode_code Durable = 2"

definition ack_mode_from_code :: "u8 \<Rightarrow> (ack_mode, protocol_error) outcome" where
  "ack_mode_from_code code =
    (if code = 1 then Ok Leader else if code = 2 then Ok Durable else Err (InvalidAckMode code))"

datatype compression = NoCompression | Zstd

fun compression_code :: "compression \<Rightarrow> u8" where
  "compression_code NoCompression = 0"
| "compression_code Zstd = 1"

definition compression_from_code :: "u8 \<Rightarrow> (compression, protocol_error) outcome" where
  "compression_from_code code =
    (if code = 0 then Ok NoCompression else if code = 1 then Ok Zstd
     else Err (InvalidCompression code))"

section \<open>Requests\<close>

record producer_identity =
  pi_id :: string
  pi_sequence :: u64

record produce_request =
  pr_topic :: string
  pr_key :: bytes
  pr_payload :: bytes
  pr_ack_mode :: ack_mode
  pr_producer :: "producer_identity option"
  pr_partition :: "u32 option"

record batch_record =
  br_key :: bytes
  br_payload :: bytes

record produce_batch_request =
  pb_topic :: string
  pb_records :: "batch_record list"
  pb_ack_mode :: ack_mode
  pb_compression :: compression
  pb_partition :: "u32 option"

record fetch_request =
  fr_topic :: string
  fr_partition :: u32
  fr_offset :: u64
  fr_max_bytes :: u32
  fr_max_wait_ms :: u32

record group_member_request =
  gm_group :: string
  gm_topic :: string
  gm_member :: string

record group_generation_request =
  gg_group :: string
  gg_topic :: string
  gg_member :: string
  gg_generation :: u64

record commit_offset_request =
  co_group :: string
  co_topic :: string
  co_member :: string
  co_generation :: u64
  co_partition :: u32
  co_offset :: u64

record fetch_committed_offset_request =
  fc_group :: string
  fc_topic :: string
  fc_partition :: u32

record group_fetch_request =
  gf_group :: string
  gf_topic :: string
  gf_member :: string
  gf_generation :: u64
  gf_partition :: u32
  gf_offset :: u64
  gf_max_bytes :: u32
  gf_max_wait_ms :: u32

record create_topic_request =
  ct_topic :: string
  ct_partitions :: u32

record partition_leadership =
  pl_partition :: u32
  pl_leader_id :: u32
  pl_leader_epoch :: u64
  pl_high_watermark :: u64

record promote_leader_request =
  pm_topic :: string
  pm_partition :: u32
  pm_leader_id :: u32

record apply_leadership_request =
  al_topic :: string
  al_leadership :: partition_leadership

record partition_status_request =
  ps_topic :: string
  ps_partition :: u32

datatype request =
    Produce produce_request
  | ProduceBatch produce_batch_request
  | Fetch fetch_request
  | JoinGroup group_member_request
  | Heartbeat group_generation_request
  | LeaveGroup group_generation_request
  | CommitOffset commit_offset_request
  | FetchCommittedOffset fetch_committed_offset_request
  | GroupFetch group_fetch_request
  | CreateTopic create_topic_request
  | ListTopics
  | DescribeTopic string
  | ClusterMetadata
  | PromoteLeader promote_leader_request
  | ApplyLeadership apply_leadership_request
  | PartitionStatus partition_status_request

section \<open>Responses and replication frames\<close>

record produce_ack =
  pa_partition :: u32
  pa_offset :: u64

record fetched_record =
  fd_offset :: u64
  fd_timestamp_ms :: u64
  fd_key :: "bytes option"
  fd_value :: bytes

record join_group_response =
  jg_generation :: u64
  jg_partitions :: "u32 list"

record topic_metadata =
  tm_topic :: string
  tm_partitions :: u32
  tm_leaders :: "u32 list"
  tm_leader_epochs :: "u64 list"
  tm_high_watermarks :: "u64 list"

record cluster_node =
  cn_id :: u32
  cn_host :: string
  cn_port :: u16
  cn_admin_port :: u16
  cn_replication_port :: u16

record cluster_metadata =
  cm_responding_broker_id :: u32
  cm_nodes :: "cluster_node list"

datatype response =
    RProduceAck produce_ack
  | RProduceBatchAck "produce_ack list"
  | RFetch "fetched_record list"
  | RJoinGroup join_group_response
  | RGroupAck
  | RCommittedOffset "u64 option"
  | RTopics "topic_metadata list"
  | RClusterMetadata cluster_metadata
  | RLeadershipChanged partition_leadership
  | RPartitionStatus u64
  | RError string

record replicate_record =
  rr_topic :: string
  rr_partition :: u32
  rr_offset :: u64
  rr_timestamp_ms :: u64
  rr_key :: "bytes option"
  rr_value :: bytes
  rr_durable :: bool
  rr_leader_id :: u32
  rr_leader_epoch :: u64

record replicate_ack =
  ra_partition :: u32
  ra_next_offset :: u64

section \<open>Validation and constructors\<close>

definition validate_size :: "nat \<Rightarrow> nat \<Rightarrow> protocol_error \<Rightarrow> (unit, protocol_error) outcome" where
  "validate_size actual maximum error = (if actual > maximum then Err error else Ok ())"

definition validate_topic :: "string \<Rightarrow> (unit, protocol_error) outcome" where
  "validate_topic topic =
    try_bind (validate_size (length topic) MAX_TOPIC_NAME TopicTooLarge) (\<lambda>_.
    if topic = [] \<or> take 2 topic = ''__'' then Err InvalidTopic else Ok ())"

definition validate_identifier :: "string \<Rightarrow> (unit, protocol_error) outcome" where
  "validate_identifier v =
    (if v = [] \<or> length v > MAX_TOPIC_NAME \<or> \<not> list_all id_char v
     then Err InvalidProducerId else Ok ())"

definition produce_request_new ::
    "string \<Rightarrow> bytes \<Rightarrow> bytes \<Rightarrow> ack_mode \<Rightarrow> producer_identity option
     \<Rightarrow> (produce_request, protocol_error) outcome" where
  "produce_request_new topic key payload ack_mode producer =
    try_bind (validate_topic topic) (\<lambda>_.
    try_bind (validate_size (length key) MAX_KEY_SIZE KeyTooLarge) (\<lambda>_.
    try_bind (validate_size (length payload) MAX_MESSAGE_SIZE MessageTooLarge) (\<lambda>_.
    try_bind (case producer of None \<Rightarrow> Ok () | Some p \<Rightarrow> validate_identifier (pi_id p)) (\<lambda>_.
    Ok \<lparr>pr_topic = topic, pr_key = key, pr_payload = payload, pr_ack_mode = ack_mode,
        pr_producer = producer, pr_partition = None\<rparr>))))"

fun batch_encoded_size :: "nat \<Rightarrow> batch_record list \<Rightarrow> (nat, protocol_error) outcome" where
  "batch_encoded_size enc [] = Ok enc"
| "batch_encoded_size enc (r # rs) =
    try_bind (validate_size (length (br_key r)) MAX_KEY_SIZE KeyTooLarge) (\<lambda>_.
    try_bind (validate_size (length (br_payload r)) MAX_MESSAGE_SIZE MessageTooLarge) (\<lambda>_.
    let enc' = enc + (2 + length (br_key r) + 4 + length (br_payload r)) in
    if enc' > usize_max then Err BatchTooLarge else batch_encoded_size enc' rs))"

definition produce_batch_request_new ::
    "string \<Rightarrow> batch_record list \<Rightarrow> ack_mode \<Rightarrow> compression
     \<Rightarrow> (produce_batch_request, protocol_error) outcome" where
  "produce_batch_request_new topic records ack_mode compr =
    try_bind (validate_topic topic) (\<lambda>_.
    if records = [] \<or> length records > MAX_BATCH_MESSAGES then Err InvalidBatchCount
    else try_bind (batch_encoded_size 4 records) (\<lambda>enc.
    try_bind (validate_size enc MAX_UNCOMPRESSED_BATCH_SIZE BatchTooLarge) (\<lambda>_.
    Ok \<lparr>pb_topic = topic, pb_records = records, pb_ack_mode = ack_mode,
        pb_compression = compr, pb_partition = None\<rparr>)))"

definition fetch_request_new ::
    "string \<Rightarrow> u32 \<Rightarrow> u64 \<Rightarrow> u32 \<Rightarrow> u32 \<Rightarrow> (fetch_request, protocol_error) outcome" where
  "fetch_request_new topic part offset max_bytes max_wait_ms =
    try_bind (validate_topic topic) (\<lambda>_.
    if max_bytes = 0 \<or> unat max_bytes > MAX_FETCH_BYTES then Err FetchTooLarge
    else if max_wait_ms > MAX_FETCH_WAIT_MS then Err FetchWaitTooLong
    else Ok \<lparr>fr_topic = topic, fr_partition = part, fr_offset = offset,
             fr_max_bytes = max_bytes, fr_max_wait_ms = max_wait_ms\<rparr>)"

section \<open>What the types guarantee\<close>

definition produce_request_ok :: "produce_request \<Rightarrow> bool" where
  "produce_request_ok r \<longleftrightarrow>
     utf8_string (pr_topic r) \<and> pred_option (\<lambda>p. utf8_string (pi_id p)) (pr_producer r) \<and>
     produce_request_new (pr_topic r) (pr_key r) (pr_payload r) (pr_ack_mode r) (pr_producer r)
       = Ok (r\<lparr>pr_partition := None\<rparr>)"

definition produce_batch_request_ok :: "produce_batch_request \<Rightarrow> bool" where
  "produce_batch_request_ok r \<longleftrightarrow> utf8_string (pb_topic r) \<and>
     produce_batch_request_new (pb_topic r) (pb_records r) (pb_ack_mode r) (pb_compression r)
       = Ok (r\<lparr>pb_partition := None\<rparr>)"

definition fetch_request_ok :: "fetch_request \<Rightarrow> bool" where
  "fetch_request_ok r \<longleftrightarrow> utf8_string (fr_topic r) \<and>
     fetch_request_new (fr_topic r) (fr_partition r) (fr_offset r) (fr_max_bytes r)
       (fr_max_wait_ms r) = Ok r"

fun request_ok :: "request \<Rightarrow> bool" where
  "request_ok (Produce r) = produce_request_ok r"
| "request_ok (ProduceBatch r) = produce_batch_request_ok r"
| "request_ok (Fetch r) = fetch_request_ok r"
| "request_ok (JoinGroup r) =
    (utf8_string (gm_group r) \<and> utf8_string (gm_topic r) \<and> utf8_string (gm_member r))"
| "request_ok (Heartbeat r) =
    (utf8_string (gg_group r) \<and> utf8_string (gg_topic r) \<and> utf8_string (gg_member r))"
| "request_ok (LeaveGroup r) =
    (utf8_string (gg_group r) \<and> utf8_string (gg_topic r) \<and> utf8_string (gg_member r))"
| "request_ok (CommitOffset r) =
    (utf8_string (co_group r) \<and> utf8_string (co_topic r) \<and> utf8_string (co_member r))"
| "request_ok (FetchCommittedOffset r) = (utf8_string (fc_group r) \<and> utf8_string (fc_topic r))"
| "request_ok (GroupFetch r) =
    (utf8_string (gf_group r) \<and> utf8_string (gf_topic r) \<and> utf8_string (gf_member r))"
| "request_ok (CreateTopic r) = utf8_string (ct_topic r)"
| "request_ok ListTopics = True"
| "request_ok (DescribeTopic t) = utf8_string t"
| "request_ok ClusterMetadata = True"
| "request_ok (PromoteLeader r) = utf8_string (pm_topic r)"
| "request_ok (ApplyLeadership r) = utf8_string (al_topic r)"
| "request_ok (PartitionStatus r) = utf8_string (ps_topic r)"

fun response_ok :: "response \<Rightarrow> bool" where
  "response_ok (RTopics ts) = list_all (\<lambda>t. utf8_string (tm_topic t)) ts"
| "response_ok (RClusterMetadata m) = list_all (\<lambda>n. utf8_string (cn_host n)) (cm_nodes m)"
| "response_ok (RError m) = utf8_string m"
| "response_ok _ = True"

lemma validate_size_Ok [simp, outcome_simps]:
  "validate_size a m e = Ok u \<longleftrightarrow> a \<le> m" "validate_size a m e \<noteq> Panic"
  by (auto simp: validate_size_def)

lemma validate_size_le [simp, buf_simps]: "a \<le> m \<Longrightarrow> validate_size a m e = Ok ()"
  by simp

lemma validate_topic_Ok [outcome_simps]:
  "validate_topic t = Ok u \<longleftrightarrow> length t \<le> MAX_TOPIC_NAME \<and> t \<noteq> [] \<and> take 2 t \<noteq> ''__''"
  by (auto simp: validate_topic_def outcome_simps)

lemma validate_identifier_Ok [outcome_simps]:
  "validate_identifier v = Ok u \<longleftrightarrow> v \<noteq> [] \<and> length v \<le> MAX_TOPIC_NAME \<and> list_all id_char v"
  by (auto simp: validate_identifier_def)

lemma ack_mode_roundtrip [simp]: "ack_mode_from_code (ack_mode_code m) = Ok m"
  by (cases m) (auto simp: ack_mode_from_code_def)

lemma compression_roundtrip [simp]: "compression_from_code (compression_code c) = Ok c"
  by (cases c) (auto simp: compression_from_code_def)

lemma from_code_not_Panic [simp]:
  "ack_mode_from_code x \<noteq> Panic" "compression_from_code x \<noteq> Panic"
  by (auto simp: ack_mode_from_code_def compression_from_code_def)

lemma validate_not_Panic [simp]: "validate_topic t \<noteq> Panic" "validate_identifier t \<noteq> Panic"
  by (auto simp: validate_topic_def validate_identifier_def validate_size_def)

lemma batch_encoded_size_Ok:
  "batch_encoded_size n rs = Ok m \<Longrightarrow>
     m = n + (\<Sum>r\<leftarrow>rs. 6 + length (br_key r) + length (br_payload r)) \<and>
     (\<forall>r \<in> set rs. length (br_key r) \<le> MAX_KEY_SIZE \<and> length (br_payload r) \<le> MAX_MESSAGE_SIZE)"
  by (induction rs arbitrary: n) (fastforce simp: outcome_simps Let_def split: if_splits)+

lemma batch_encoded_size_not_Panic [simp]: "batch_encoded_size n rs \<noteq> Panic"
  by (induction rs arbitrary: n) (auto simp: try_bind_Panic_iff Let_def)

end
