(* ===== verification/Wire_Frame.thy ===== *)
theory Wire_Frame
  imports Wire_Types
begin

text \<open>
  The helpers of \<open>crates/protocol/src/lib.rs\<close> every codec shares: cutting a length-prefixed frame
  off the receive buffer, bounded reads from a frame, strings, and the encoder's
  placeholder-then-patch frame length.  The locale \<open>framed_codec\<close> states what a pair of
  encoder and decoder promises to a connection that reads a byte stream in arbitrary
  pieces, and derives that no chunking changes the messages received.
\<close>

section \<open>Reading a frame\<close>

definition ensure_remaining :: "bytes \<Rightarrow> nat \<Rightarrow> (unit, protocol_error) outcome" where
  "ensure_remaining buffer required =
    (if length buffer < required then Err InvalidFrame else Ok ())"

definition ensure_empty :: "bytes \<Rightarrow> (unit, protocol_error) outcome" where
  "ensure_empty buffer = (if buffer \<noteq> [] then Err InvalidFrame else Ok ())"

definition read_bytes :: "bytes \<Rightarrow> nat \<Rightarrow> (bytes \<times> bytes, protocol_error) outcome" where
  "read_bytes buffer len = try_bind (ensure_remaining buffer len) (\<lambda>_. split_to len buffer)"

definition read_u16_len :: "bytes \<Rightarrow> (nat \<times> bytes, protocol_error) outcome" where
  "read_u16_len buffer = try_bind (ensure_remaining buffer 2) (\<lambda>_.
    try_bind (get_u16 buffer) (\<lambda>(w, buffer). Ok (unat w, buffer)))"

definition read_u32_len :: "bytes \<Rightarrow> (nat \<times> bytes, protocol_error) outcome" where
  "read_u32_len buffer = try_bind (ensure_remaining buffer 4) (\<lambda>_.
    try_bind (get_u32 buffer) (\<lambda>(w, buffer). Ok (unat w, buffer)))"

definition decode_string :: "bytes \<Rightarrow> (string \<times> bytes, protocol_error) outcome" where
  "decode_string buffer =
    try_bind (read_u16_len buffer) (\<lambda>(len, buffer).
    try_bind (read_bytes buffer len) (\<lambda>(bs, buffer).
    try_bind (ok_or (from_utf8 bs) InvalidFrame) (\<lambda>s. Ok (s, buffer))))"

text \<open>The frame header is read with \<open>u32::from_be_bytes\<close> on the first four bytes; the buffer is
  left alone until a whole frame has arrived.\<close>

definition take_frame :: "bytes \<Rightarrow> (bytes option, protocol_error) outcome \<times> bytes" where
  "take_frame buffer =
    (if length buffer < FRAME_HEADER_SIZE then (Ok None, buffer)
     else let frame_len = from_be_bytes 0 (take FRAME_HEADER_SIZE buffer) in
       if frame_len = 0 then (Err InvalidFrame, buffer)
       else if frame_len > MAX_FRAME_SIZE then (Err FrameTooLarge, buffer)
       else if length buffer < FRAME_HEADER_SIZE + frame_len then (Ok None, buffer)
       else (Ok (Some (take frame_len (drop FRAME_HEADER_SIZE buffer))),
             drop frame_len (drop FRAME_HEADER_SIZE buffer)))"

text \<open>A decoder that takes a frame off the shared buffer and then works on the frame alone.\<close>

definition on_frame :: "(bytes \<Rightarrow> ('m option, protocol_error) outcome)
    \<Rightarrow> bytes \<Rightarrow> ('m option, protocol_error) outcome \<times> bytes" where
  "on_frame decode buffer = step_bind (take_frame buffer) (\<lambda>f buffer.
    case f of None \<Rightarrow> (Ok None, buffer) | Some frame \<Rightarrow> (decode frame, buffer))"

section \<open>Writing a frame\<close>

definition encode_string :: "string \<Rightarrow> bytes \<Rightarrow> (unit, protocol_error) outcome \<times> bytes" where
  "encode_string s buffer =
    step_bind (ok_or (try_from (length s)) InvalidFrame, buffer) (\<lambda>n buffer.
    (Ok (), buffer @ put_u16 n @ as_bytes s))"

fun encode_strings :: "string list \<Rightarrow> bytes \<Rightarrow> (unit, protocol_error) outcome \<times> bytes" where
  "encode_strings [] buffer = (Ok (), buffer)"
| "encode_strings (s # ss) buffer =
    step_bind (encode_string s buffer) (\<lambda>_ buffer. encode_strings ss buffer)"

definition set_frame_len :: "bytes \<Rightarrow> nat \<Rightarrow> (unit, protocol_error) outcome \<times> bytes" where
  "set_frame_len buffer start =
    (let len = length buffer - start - FRAME_HEADER_SIZE in
     step_bind (ok_or (try_from len) FrameTooLarge, buffer) (\<lambda>n buffer.
     (Ok (), take start buffer @ put_u32 n @ drop (start + FRAME_HEADER_SIZE) buffer)))"

definition encode_string_request ::
    "u8 \<Rightarrow> string list \<Rightarrow> bytes \<Rightarrow> (nat, protocol_error) outcome \<times> bytes" where
  "encode_string_request opcode values buffer =
    (let start = length buffer in
     step_bind (encode_strings values (buffer @ put_u32 0 @ [opcode])) (\<lambda>_ buffer.
     step_bind (set_frame_len buffer start) (\<lambda>_ buffer. (Ok start, buffer))))"

definition encode_string_response ::
    "u8 \<Rightarrow> string \<Rightarrow> bytes \<Rightarrow> (unit, protocol_error) outcome \<times> bytes" where
  "encode_string_response opcode s buffer =
    (let start = length buffer in
     step_bind (encode_string s (buffer @ put_u32 0 @ [opcode])) (\<lambda>_ buffer.
     set_frame_len buffer start))"

section \<open>Facts about the helpers\<close>

lemma ensure_remaining_Ok [simp, outcome_simps]:
  "ensure_remaining b n = Ok u \<longleftrightarrow> n \<le> length b" "ensure_remaining b n \<noteq> Panic"
  by (auto simp: ensure_remaining_def)

lemma ensure_remaining_enough [simp, buf_simps]: "n \<le> length b \<Longrightarrow> ensure_remaining b n = Ok ()"
  by (simp add: ensure_remaining_def)

lemma ensure_empty_Ok [simp, outcome_simps]:
  "ensure_empty b = Ok u \<longleftrightarrow> b = []" "ensure_empty b \<noteq> Panic"
  by (auto simp: ensure_empty_def)

lemma ensure_empty_Nil [simp, buf_simps]: "ensure_empty [] = Ok ()"
  by simp

lemma read_not_Panic [simp]:
  "read_bytes b n \<noteq> Panic" "read_u16_len b \<noteq> Panic" "read_u32_len b \<noteq> Panic"
  "decode_string b \<noteq> Panic"
  by (auto simp: read_bytes_def read_u16_len_def read_u32_len_def decode_string_def
      try_bind_Panic_iff)

lemma read_bytes_append [simp, buf_simps]: "n = length xs \<Longrightarrow> read_bytes (xs @ r) n = Ok (xs, r)"
  by (simp add: read_bytes_def)

lemma read_bytes_all [simp, buf_simps]: "n = length xs \<Longrightarrow> read_bytes xs n = Ok (xs, [])"
  by (simp add: read_bytes_def)

lemma read_bytes_Ok: "read_bytes b n = Ok (x, r) \<Longrightarrow> b = x @ r \<and> length x = n"
  by (auto simp: read_bytes_def outcome_simps split_to_def split: if_splits)

lemma read_u16_len_put [simp, buf_simps]: "read_u16_len (put_u16 w @ r) = Ok (unat w, r)"
  by (simp add: read_u16_len_def)

lemma read_u32_len_put [simp, buf_simps]:
  "read_u32_len (put_u32 w @ r) = Ok (unat w, r)" "read_u32_len (put_u32 w) = Ok (unat w, [])"
  by (simp_all add: read_u32_len_def)

definition string_bytes :: "string \<Rightarrow> bytes" where
  "string_bytes s = put_u16 (word_of_nat (length s)) @ as_bytes s"

lemma length_string_bytes [simp]: "length (string_bytes s) = 2 + length s"
  by (simp add: string_bytes_def)

lemma decode_string_bytes [simp, buf_simps]:
  assumes "length s < 65536" and "utf8_string s"
  shows "decode_string (string_bytes s @ r) = Ok (s, r)"
    and "decode_string (string_bytes s) = Ok (s, [])"
  using assms
  by (simp_all add: decode_string_def string_bytes_def unat_word_of_nat_small)

lemma decode_string_Ok_utf8: "decode_string b = Ok (s, r) \<Longrightarrow> utf8_string s \<and> length s < 65536"
  by (auto simp: decode_string_def outcome_simps read_u16_len_def
      dest!: from_utf8_Some read_bytes_Ok)

lemma encode_string_Ok [outcome_simps]:
  "encode_string s b = (Ok u, b') \<longleftrightarrow> length s < 65536 \<and> b' = b @ string_bytes s"
  by (auto simp: encode_string_def string_bytes_def outcome_simps try_from_def)

lemma encode_strings_Ok [outcome_simps]:
  "encode_strings ss b = (Ok u, b') \<longleftrightarrow>
     (\<forall>s \<in> set ss. length s < 65536) \<and> b' = b @ concat (map string_bytes ss)"
  by (induction ss arbitrary: b) (auto simp: outcome_simps)

text \<open>A finished frame: the length of the body, then the body.\<close>

definition frame_of :: "bytes \<Rightarrow> bytes" where
  "frame_of body = put_u32 (word_of_nat (length body)) @ body"

lemma length_frame_of [simp]: "length (frame_of body) = 4 + length body"
  by (simp add: frame_of_def)

lemma frame_of_not_Nil [simp]: "frame_of body \<noteq> []"
  by (simp add: frame_of_def)

lemma set_frame_len_Ok [outcome_simps]:
  "set_frame_len (b @ put_u32 w @ body) (length b) = (Ok u, b') \<longleftrightarrow>
     length body < 4294967296 \<and> b' = b @ frame_of body"
  by (auto simp: set_frame_len_def outcome_simps try_from_def frame_of_def Let_def)

lemma set_frame_len_frame_of [outcome_simps]:
  "set_frame_len (b @ frame_of x @ y) (length b) = (Ok u, b') \<longleftrightarrow>
     length x + length y < 4294967296 \<and> b' = b @ frame_of (x @ y)"
  by (auto simp: set_frame_len_def outcome_simps try_from_def frame_of_def Let_def)

lemma encode_string_request_Ok [outcome_simps]:
  "encode_string_request op ss b = (Ok start, b') \<longleftrightarrow>
     (\<forall>s \<in> set ss. length s < 65536) \<and> start = length b \<and>
     length (concat (map string_bytes ss)) + 1 < 4294967296 \<and>
     b' = b @ frame_of (op # concat (map string_bytes ss))"
  by (auto simp: encode_string_request_def outcome_simps Let_def
      set_frame_len_Ok [where body = "op # concat (map string_bytes ss)", simplified])

lemma encode_string_response_Ok [outcome_simps]:
  "encode_string_response op s b = (Ok u, b') \<longleftrightarrow>
     length s < 65536 \<and> b' = b @ frame_of (op # string_bytes s)"
  by (auto simp: encode_string_response_def outcome_simps Let_def
      set_frame_len_Ok [where body = "op # string_bytes s", simplified])

lemma from_be_bytes_put_u32 [simp]: "from_be_bytes 0 (put_u32 w) = unat w"
  by (simp add: put_u32_def from_to_be_bytes)

lemma take_frame_frame_of [buf_simps]:
  assumes "body \<noteq> []" and "length body \<le> MAX_FRAME_SIZE"
  shows "take_frame (frame_of body @ rest) = (Ok (Some body), rest)"
  using assms by (simp add: take_frame_def frame_of_def unat_word_of_nat_small Let_def)

lemma take_frame_partial:
  assumes "body \<noteq> []" and "length body \<le> MAX_FRAME_SIZE" and "n < length (frame_of body)"
  shows "take_frame (take n (frame_of body)) = (Ok None, take n (frame_of body))"
  using assms by (auto simp: take_frame_def frame_of_def unat_word_of_nat_small Let_def)

lemma take_frame_shrinks: "take_frame b = (Ok (Some f), r) \<Longrightarrow> length r < length b \<and> f \<noteq> []"
  by (auto simp: take_frame_def Let_def split: if_splits)

lemma take_frame_None: "take_frame b = (Ok None, r) \<Longrightarrow> r = b"
  by (auto simp: take_frame_def Let_def split: if_splits)

lemma take_frame_not_Panic [simp]: "take_frame b \<noteq> (Panic, r)"
  by (auto simp: take_frame_def Let_def)

lemma on_frame_frame_of [buf_simps]:
  "body \<noteq> [] \<Longrightarrow> length body \<le> MAX_FRAME_SIZE \<Longrightarrow>
     on_frame decode (frame_of body @ rest) = (decode body, rest)"
  by (simp add: on_frame_def take_frame_frame_of)

lemma on_frame_partial:
  "body \<noteq> [] \<Longrightarrow> length body \<le> MAX_FRAME_SIZE \<Longrightarrow> n < length (frame_of body) \<Longrightarrow>
     on_frame decode (take n (frame_of body)) = (Ok None, take n (frame_of body))"
  by (simp add: on_frame_def take_frame_partial)

lemma on_frame_not_Panic:
  assumes "\<And>f. f \<noteq> [] \<Longrightarrow> decode f \<noteq> Panic"
  shows "fst (on_frame decode b) \<noteq> Panic"
proof -
  obtain o1 r where t: "take_frame b = (o1, r)" by fastforce
  show ?thesis
  proof (cases o1)
    case (Ok f)
    with t assms take_frame_shrinks show ?thesis
      by (auto simp: on_frame_def split: option.splits)
  qed (use t take_frame_not_Panic in \<open>auto simp: on_frame_def\<close>)
qed

section \<open>A connection reading frames from a stream\<close>

text \<open>The inner loop of \<open>handle_connection\<close>, \<open>handle_replication_connection\<close> and
  \<open>Client::request\<close>: decode messages until the decoder asks for more bytes or fails.  The
  recursion is guarded by the progress every decoder makes.\<close>

function drain :: "(bytes \<Rightarrow> ('m option, 'e) outcome \<times> bytes) \<Rightarrow> bytes
    \<Rightarrow> 'm list \<times> (unit, 'e) outcome \<times> bytes" where
  "drain decode buf =
    (case decode buf of
       (Ok (Some m), r) \<Rightarrow>
         (if length r < length buf then
            (case drain decode r of (ms, s, r') \<Rightarrow> (m # ms, s, r'))
          else ([m], Ok (), r))
     | (Ok None, r) \<Rightarrow> ([], Ok (), r)
     | (Err e, r) \<Rightarrow> ([], Err e, r)
     | (Panic, r) \<Rightarrow> ([], Panic, r))"
  by pat_completeness auto
termination
  by (relation "measure (\<lambda>(d, b). length b)") auto

declare drain.simps [simp del]

text \<open>The outer loop: append what the socket delivered to the buffer, drain, repeat; it stops
  at the first error.\<close>

fun feed :: "(bytes \<Rightarrow> ('m option, 'e) outcome \<times> bytes) \<Rightarrow> bytes \<Rightarrow> bytes list
    \<Rightarrow> 'm list \<times> (unit, 'e) outcome \<times> bytes" where
  "feed decode buf [] = ([], Ok (), buf)"
| "feed decode buf (chunk # chunks) =
    (case drain decode (buf @ chunk) of
       (ms, Ok _, r) \<Rightarrow> (case feed decode r chunks of (ms', s, r') \<Rightarrow> (ms @ ms', s, r'))
     | (ms, Err e, r) \<Rightarrow> (ms, Err e, r)
     | (ms, Panic, r) \<Rightarrow> (ms, Panic, r))"

locale framed_codec =
  fixes encode :: "'m \<Rightarrow> bytes \<Rightarrow> (unit, protocol_error) outcome \<times> bytes"
    and decode :: "bytes \<Rightarrow> ('m option, protocol_error) outcome \<times> bytes"
    and wf :: "'m \<Rightarrow> bool"
  assumes decode_empty: "decode [] = (Ok None, [])"
    and encode_frame: "wf m \<Longrightarrow> encode m buf = (Ok (), out) \<Longrightarrow>
      \<exists>frame. out = buf @ frame \<and> frame \<noteq> [] \<and>
        (\<forall>rest. decode (frame @ rest) = (Ok (Some m), rest)) \<and>
        (\<forall>n < length frame. decode (take n frame) = (Ok None, take n frame))"
begin

text \<open>The bytes of a message: what the encoder appends to an empty buffer.\<close>

definition wire_bytes :: "'m \<Rightarrow> bytes" where
  "wire_bytes m = snd (encode m [])"

definition sendable :: "'m \<Rightarrow> bool" where
  "sendable m \<longleftrightarrow> wf m \<and> fst (encode m []) = Ok ()"

lemma wire_bytes_frame:
  assumes "sendable m"
  shows "wire_bytes m \<noteq> []" and "decode (wire_bytes m @ rest) = (Ok (Some m), rest)"
    and "n < length (wire_bytes m) \<Longrightarrow> decode (take n (wire_bytes m)) = (Ok None, take n (wire_bytes m))"
proof -
  have "encode m [] = (Ok (), wire_bytes m)"
    using assms by (cases "encode m []") (simp add: sendable_def wire_bytes_def)
  with assms encode_frame [of m "[]" "wire_bytes m"] have
    "wire_bytes m \<noteq> [] \<and> (\<forall>rest. decode (wire_bytes m @ rest) = (Ok (Some m), rest)) \<and>
       (\<forall>n < length (wire_bytes m). decode (take n (wire_bytes m)) = (Ok None, take n (wire_bytes m)))"
    by (auto simp: sendable_def)
  then show "wire_bytes m \<noteq> []" and "decode (wire_bytes m @ rest) = (Ok (Some m), rest)"
    and "n < length (wire_bytes m) \<Longrightarrow> decode (take n (wire_bytes m)) = (Ok None, take n (wire_bytes m))"
    by auto
qed

lemma drain_message:
  assumes "sendable m"
  shows "drain decode (wire_bytes m @ rest) = (case drain decode rest of (ms, s, r) \<Rightarrow> (m # ms, s, r))"
  using wire_bytes_frame [OF assms] by (simp add: drain.simps [of decode "wire_bytes m @ rest"])

text \<open>A prefix of a stream of messages drains to the messages it contains in full, and keeps
  the rest.\<close>

lemma drain_prefix:
  assumes "list_all sendable ms" and "buf @ later = concat (map wire_bytes ms)"
  shows "\<exists>got todo r. drain decode buf = (got, Ok (), r) \<and> ms = got @ todo \<and>
           r @ later = concat (map wire_bytes todo) \<and> drain decode r = ([], Ok (), r)"
  using assms
proof (induction ms arbitrary: buf)
  case Nil
  then have "drain decode buf = ([], Ok (), [])"
    by (simp add: drain.simps [of decode "[]"] decode_empty)
  with Nil show ?case by auto
next
  case (Cons m ms)
  have m: "sendable m" and ms: "list_all sendable ms" using Cons.prems by auto
  have eq: "buf @ later = wire_bytes m @ concat (map wire_bytes ms)" using Cons.prems by simp
  show ?case
  proof (cases "length buf < length (wire_bytes m)")
    case True
    with eq have "buf = take (length buf) (wire_bytes m)"
      by (metis append_eq_append_conv_if less_imp_le)
    with wire_bytes_frame(3) [OF m True] have "decode buf = (Ok None, buf)" by simp
    then have "drain decode buf = ([], Ok (), buf)" by (simp add: drain.simps)
    with eq show ?thesis by (intro exI [of _ "[]"] exI [of _ "m # ms"] exI [of _ buf]) simp
  next
    case False
    then have le: "length (wire_bytes m) \<le> length buf" by simp
    define b where "b = drop (length (wire_bytes m)) buf"
    have "take (length (wire_bytes m)) (buf @ later) = wire_bytes m"
      and "drop (length (wire_bytes m)) (buf @ later) = concat (map wire_bytes ms)"
      using eq by simp_all
    with le have "take (length (wire_bytes m)) buf = wire_bytes m"
      and "b @ later = concat (map wire_bytes ms)" by (simp_all add: b_def)
    then have b: "buf = wire_bytes m @ b" "b @ later = concat (map wire_bytes ms)"
      by (metis append_take_drop_id b_def, simp)
    from Cons.IH [OF ms b(2)] obtain got todo r where
      "drain decode b = (got, Ok (), r)" "ms = got @ todo"
      "r @ later = concat (map wire_bytes todo)" "drain decode r = ([], Ok (), r)" by auto
    with drain_message [OF m, of b] b show ?thesis
      by (intro exI [of _ "m # got"] exI [of _ todo] exI [of _ r]) simp
  qed
qed

lemma feed_from:
  assumes "list_all sendable ms" and "drain decode buf = ([], Ok (), buf)"
    and "buf @ concat chunks = concat (map wire_bytes ms)"
  shows "feed decode buf chunks = (ms, Ok (), [])"
  using assms
proof (induction chunks arbitrary: buf ms)
  case Nil
  show ?case
  proof (cases ms)
    case (Cons m ms')
    with Nil drain_message [of m "concat (map wire_bytes ms')"] show ?thesis
      by (simp split: prod.splits)
  qed (use Nil in simp)
next
  case (Cons c chunks)
  then obtain got todo r where d: "drain decode (buf @ c) = (got, Ok (), r)" "ms = got @ todo"
    "r @ concat chunks = concat (map wire_bytes todo)" "drain decode r = ([], Ok (), r)"
    using drain_prefix [of ms "buf @ c" "concat chunks"] by auto
  with Cons.prems Cons.IH [of todo r] show ?case by simp
qed

text \<open>However the socket splits the stream, exactly the messages sent are received, in order,
  and nothing is left over.\<close>

lemma feed_stream:
  assumes "list_all sendable ms" and "concat chunks = concat (map wire_bytes ms)"
  shows "feed decode [] chunks = (ms, Ok (), [])"
  by (rule feed_from) (use assms in \<open>simp_all add: drain.simps [of decode "[]"] decode_empty\<close>)

end

end
