(* ===== verification/Wire_Request.thy ===== *)
theory Wire_Request
  imports Wire_Frame
begin

text \<open>
  The request half of \<open>crates/protocol/src/lib.rs\<close>: \<open>encode_request\<close> and \<open>decode_request\<close> with
  every encoder and decoder they dispatch to.  The \<open>zstd\<close> crate is a parameter, a
  pair of partial functions; \<open>zstd_roundtrips\<close> is what its documentation promises.
  The lemmas show that what is encoded decodes to the same request, that the decoder
  never panics, and that what it accepts is well formed.
\<close>

record zstd_lib =
  zstd_compress :: "bytes \<Rightarrow> bytes option"
  zstd_decompress :: "nat \<Rightarrow> bytes \<Rightarrow> bytes option"

definition zstd_roundtrips :: "zstd_lib \<Rightarrow> bool" where
  "zstd_roundtrips Z \<longleftrightarrow> (\<forall>x y cap. zstd_compress Z x = Some y \<longrightarrow> length x \<le> cap \<longrightarrow>
     zstd_decompress Z cap y = Some x)"

section \<open>Encoding\<close>

definition encode_produce :: "produce_request \<Rightarrow> bytes \<Rightarrow> (unit, protocol_error) outcome \<times> bytes"
  where
  "encode_produce request buffer =
    (let producer_len = (case pr_producer request of None \<Rightarrow> 0 | Some p \<Rightarrow> length (pi_id p));
         frame_len = 1 + 2 + length (pr_topic request) + 2 + length (pr_key request) + 4
           + length (pr_payload request) + 1 + 2 + producer_len + 8 + 5 in
     step_bind (ok_or (try_from frame_len) FrameTooLarge, buffer) (\<lambda>n buffer.
     let buffer = buffer @ put_u32 n @ [PRODUCE] in
     step_bind (ok_or (try_from (length (pr_topic request))) TopicTooLarge, buffer) (\<lambda>n buffer.
     let buffer = buffer @ put_u16 n @ as_bytes (pr_topic request) in
     step_bind (ok_or (try_from (length (pr_key request))) KeyTooLarge, buffer) (\<lambda>n buffer.
     let buffer = buffer @ put_u16 n @ pr_key request in
     step_bind (ok_or (try_from (length (pr_payload request))) MessageTooLarge, buffer) (\<lambda>n buffer.
     let buffer = buffer @ put_u32 n @ pr_payload request @ [ack_mode_code (pr_ack_mode request)] in
     step_bind (ok_or (try_from producer_len) InvalidProducerId, buffer) (\<lambda>n buffer.
     let buffer = buffer @ put_u16 n @
       (case pr_producer request of
          Some p \<Rightarrow> as_bytes (pi_id p) @ put_u64 (pi_sequence p) | None \<Rightarrow> put_u64 0) in
     (Ok (), buffer @ [if pr_partition request \<noteq> None then 1 else 0]
       @ put_u32 (case pr_partition request of None \<Rightarrow> 0 | Some q \<Rightarrow> q))))))))"

fun encode_batch_records ::
    "batch_record list \<Rightarrow> bytes \<Rightarrow> (bytes, protocol_error) outcome" where
  "encode_batch_records [] records = Ok records"
| "encode_batch_records (r # rs) records =
    try_bind (ok_or (try_from (length (br_key r))) KeyTooLarge) (\<lambda>k.
    try_bind (ok_or (try_from (length (br_payload r))) MessageTooLarge) (\<lambda>p.
    encode_batch_records rs
      (records @ put_u16 k @ br_key r @ put_u32 p @ br_payload r)))"

definition encode_produce_batch ::
    "zstd_lib \<Rightarrow> produce_batch_request \<Rightarrow> bytes \<Rightarrow> (unit, protocol_error) outcome \<times> bytes" where
  "encode_produce_batch Z request buffer =
    step_bind (ok_or (try_from (length (pb_records request))) InvalidBatchCount, buffer) (\<lambda>c buffer.
    step_bind (encode_batch_records (pb_records request) (put_u32 c), buffer) (\<lambda>records buffer.
    step_bind (case pb_compression request of
        NoCompression \<Rightarrow> Ok records
      | Zstd \<Rightarrow> ok_or (zstd_compress Z records) InvalidCompressedBatch, buffer) (\<lambda>encoded buffer.
    let start = length buffer; buffer = buffer @ put_u32 0 @ [PRODUCE_BATCH] in
    step_bind (ok_or (try_from (length (pb_topic request))) TopicTooLarge, buffer) (\<lambda>n buffer.
    let buffer = buffer @ put_u16 n @ as_bytes (pb_topic request)
      @ [ack_mode_code (pb_ack_mode request)] @ [compression_code (pb_compression request)] in
    step_bind (ok_or (try_from (length records)) BatchTooLarge, buffer) (\<lambda>n buffer.
    let buffer = buffer @ put_u32 n in
    step_bind (ok_or (try_from (length encoded)) FrameTooLarge, buffer) (\<lambda>n buffer.
    let buffer = buffer @ put_u32 n @ encoded
      @ [if pb_partition request \<noteq> None then 1 else 0]
      @ put_u32 (case pb_partition request of None \<Rightarrow> 0 | Some q \<Rightarrow> q) in
    step_bind (set_frame_len buffer start) (\<lambda>_ buffer.
    let frame_len = length buffer - start - FRAME_HEADER_SIZE in
    (validate_size frame_len MAX_FRAME_SIZE FrameTooLarge, buffer))))))))"

definition encode_fetch :: "fetch_request \<Rightarrow> bytes \<Rightarrow> (unit, protocol_error) outcome \<times> bytes" where
  "encode_fetch request buffer =
    (let frame_len = 1 + 2 + length (fr_topic request) + 4 + 8 + 4 + 4 in
     step_bind (ok_or (try_from frame_len) FrameTooLarge, buffer) (\<lambda>n buffer.
     let buffer = buffer @ put_u32 n @ [FETCH] in
     step_bind (ok_or (try_from (length (fr_topic request))) TopicTooLarge, buffer) (\<lambda>n buffer.
     (Ok (), buffer @ put_u16 n @ as_bytes (fr_topic request) @ put_u32 (fr_partition request)
       @ put_u64 (fr_offset request) @ put_u32 (fr_max_bytes request)
       @ put_u32 (fr_max_wait_ms request)))))"

definition encode_group_member ::
    "u8 \<Rightarrow> group_member_request \<Rightarrow> bytes \<Rightarrow> (unit, protocol_error) outcome \<times> bytes" where
  "encode_group_member opcode request buffer =
    step_bind (encode_string_request opcode [gm_group request, gm_topic request, gm_member request]
      buffer) (\<lambda>_ buffer. (Ok (), buffer))"

definition encode_group_generation ::
    "u8 \<Rightarrow> group_generation_request \<Rightarrow> bytes \<Rightarrow> (unit, protocol_error) outcome \<times> bytes" where
  "encode_group_generation opcode request buffer =
    step_bind (encode_string_request opcode [gg_group request, gg_topic request, gg_member request]
      buffer) (\<lambda>start buffer.
    set_frame_len (buffer @ put_u64 (gg_generation request)) start)"

definition encode_commit_offset ::
    "commit_offset_request \<Rightarrow> bytes \<Rightarrow> (unit, protocol_error) outcome \<times> bytes" where
  "encode_commit_offset request buffer =
    step_bind (encode_string_request COMMIT_OFFSET
      [co_group request, co_topic request, co_member request] buffer) (\<lambda>start buffer.
    set_frame_len (buffer @ put_u64 (co_generation request) @ put_u32 (co_partition request)
      @ put_u64 (co_offset request)) start)"

definition encode_fetch_committed ::
    "fetch_committed_offset_request \<Rightarrow> bytes \<Rightarrow> (unit, protocol_error) outcome \<times> bytes" where
  "encode_fetch_committed request buffer =
    step_bind (encode_string_request FETCH_COMMITTED_OFFSET [fc_group request, fc_topic request]
      buffer) (\<lambda>start buffer.
    set_frame_len (buffer @ put_u32 (fc_partition request)) start)"

definition encode_group_fetch ::
    "group_fetch_request \<Rightarrow> bytes \<Rightarrow> (unit, protocol_error) outcome \<times> bytes" where
  "encode_group_fetch request buffer =
    step_bind (fetch_request_new (gf_topic request) (gf_partition request) (gf_offset request)
      (gf_max_bytes request) (gf_max_wait_ms request), buffer) (\<lambda>_ buffer.
    step_bind (encode_string_request GROUP_FETCH
      [gf_group request, gf_topic request, gf_member request] buffer) (\<lambda>start buffer.
    set_frame_len (buffer @ put_u64 (gf_generation request) @ put_u32 (gf_partition request)
      @ put_u64 (gf_offset request) @ put_u32 (gf_max_bytes request)
      @ put_u32 (gf_max_wait_ms request)) start))"

definition encode_create_topic ::
    "create_topic_request \<Rightarrow> bytes \<Rightarrow> (unit, protocol_error) outcome \<times> bytes" where
  "encode_create_topic request buffer =
    step_bind (validate_topic (ct_topic request), buffer) (\<lambda>_ buffer.
    if ct_partitions request = 0 then (Err InvalidPartitionCount, buffer)
    else step_bind (encode_string_request CREATE_TOPIC [ct_topic request] buffer) (\<lambda>start buffer.
    set_frame_len (buffer @ put_u32 (ct_partitions request)) start))"

definition encode_leadership_request ::
    "u8 \<Rightarrow> string \<Rightarrow> u32 \<Rightarrow> u32 \<Rightarrow> u64 \<Rightarrow> u64 \<Rightarrow> bytes
     \<Rightarrow> (unit, protocol_error) outcome \<times> bytes" where
  "encode_leadership_request opcode topic part leader_id leader_epoch high_watermark buffer =
    step_bind (validate_topic topic, buffer) (\<lambda>_ buffer.
    let start = length buffer in
    step_bind (encode_string topic (buffer @ put_u32 0 @ [opcode])) (\<lambda>_ buffer.
    let buffer = buffer @ put_u32 part @ put_u32 leader_id in
    let buffer = (if opcode = APPLY_LEADERSHIP
      then buffer @ put_u64 leader_epoch @ put_u64 high_watermark else buffer) in
    set_frame_len buffer start))"

fun encode_request ::
    "zstd_lib \<Rightarrow> request \<Rightarrow> bytes \<Rightarrow> (unit, protocol_error) outcome \<times> bytes" where
  "encode_request Z (Produce request) buffer = encode_produce request buffer"
| "encode_request Z (ProduceBatch request) buffer = encode_produce_batch Z request buffer"
| "encode_request Z (Fetch request) buffer = encode_fetch request buffer"
| "encode_request Z (JoinGroup request) buffer = encode_group_member JOIN_GROUP request buffer"
| "encode_request Z (Heartbeat request) buffer = encode_group_generation HEARTBEAT request buffer"
| "encode_request Z (LeaveGroup request) buffer =
    encode_group_generation LEAVE_GROUP request buffer"
| "encode_request Z (CommitOffset request) buffer = encode_commit_offset request buffer"
| "encode_request Z (FetchCommittedOffset request) buffer = encode_fetch_committed request buffer"
| "encode_request Z (GroupFetch request) buffer = encode_group_fetch request buffer"
| "encode_request Z (CreateTopic request) buffer = encode_create_topic request buffer"
| "encode_request Z ListTopics buffer = (Ok (), buffer @ put_u32 1 @ [LIST_TOPICS])"
| "encode_request Z (DescribeTopic topic) buffer =
    step_bind (validate_topic topic, buffer) (\<lambda>_ buffer.
    step_bind (encode_string_request DESCRIBE_TOPIC [topic] buffer) (\<lambda>_ buffer. (Ok (), buffer)))"
| "encode_request Z ClusterMetadata buffer = (Ok (), buffer @ put_u32 1 @ [CLUSTER_METADATA])"
| "encode_request Z (PromoteLeader request) buffer =
    encode_leadership_request PROMOTE_LEADER (pm_topic request) (pm_partition request)
      (pm_leader_id request) 0 0 buffer"
| "encode_request Z (ApplyLeadership request) buffer =
    encode_leadership_request APPLY_LEADERSHIP (al_topic request)
      (pl_partition (al_leadership request)) (pl_leader_id (al_leadership request))
      (pl_leader_epoch (al_leadership request)) (pl_high_watermark (al_leadership request)) buffer"
| "encode_request Z (PartitionStatus request) buffer =
    step_bind (validate_topic (ps_topic request), buffer) (\<lambda>_ buffer.
    step_bind (encode_string_request PARTITION_STATUS [ps_topic request] buffer) (\<lambda>start buffer.
    set_frame_len (buffer @ put_u32 (ps_partition request)) start))"

section \<open>Decoding\<close>

definition decode_produce :: "bytes \<Rightarrow> (produce_request, protocol_error) outcome" where
  "decode_produce frame =
    try_bind (read_u16_len frame) (\<lambda>(topic_len, frame).
    try_bind (validate_size topic_len MAX_TOPIC_NAME TopicTooLarge) (\<lambda>_.
    try_bind (read_bytes frame topic_len) (\<lambda>(topic, frame).
    try_bind (ok_or (from_utf8 topic) InvalidTopic) (\<lambda>topic.
    if topic = [] then Err InvalidTopic else
    try_bind (read_u16_len frame) (\<lambda>(key_len, frame).
    try_bind (validate_size key_len MAX_KEY_SIZE KeyTooLarge) (\<lambda>_.
    try_bind (read_bytes frame key_len) (\<lambda>(key, frame).
    try_bind (read_u32_len frame) (\<lambda>(payload_len, frame).
    try_bind (validate_size payload_len MAX_MESSAGE_SIZE MessageTooLarge) (\<lambda>_.
    try_bind (read_bytes frame payload_len) (\<lambda>(payload, frame).
    try_bind (ensure_remaining frame 1) (\<lambda>_.
    try_bind (get_u8 frame) (\<lambda>(code, frame).
    try_bind (ack_mode_from_code code) (\<lambda>ack_mode.
    try_bind (read_u16_len frame) (\<lambda>(producer_len, frame).
    try_bind (if producer_len = 0 then
        try_bind (ensure_remaining frame 8) (\<lambda>_.
        try_bind (get_u64 frame) (\<lambda>(_, frame). Ok (None, frame)))
      else
        try_bind (read_bytes frame producer_len) (\<lambda>(pid, frame).
        try_bind (ok_or (from_utf8 pid) InvalidProducerId) (\<lambda>pid.
        try_bind (ensure_remaining frame 8) (\<lambda>_.
        try_bind (get_u64 frame) (\<lambda>(seq, frame).
        Ok (Some \<lparr>pi_id = pid, pi_sequence = seq\<rparr>, frame)))))) (\<lambda>(producer, frame).
    try_bind (ensure_remaining frame 5) (\<lambda>_.
    try_bind (get_u8 frame) (\<lambda>(has_partition, frame).
    try_bind (get_u32 frame) (\<lambda>(part, frame).
    if has_partition > 1 then Err InvalidFrame else
    if frame \<noteq> [] then Err InvalidFrame else
    try_bind (produce_request_new topic key payload ack_mode producer) (\<lambda>request.
    Ok (if has_partition = 1 then request\<lparr>pr_partition := Some part\<rparr>
        else request))))))))))))))))))))"

fun decode_batch_record_loop ::
    "nat \<Rightarrow> bytes \<Rightarrow> (batch_record list \<times> bytes, protocol_error) outcome" where
  "decode_batch_record_loop 0 encoded = Ok ([], encoded)"
| "decode_batch_record_loop (Suc count) encoded =
    try_bind (read_u16_len encoded) (\<lambda>(key_len, encoded).
    try_bind (validate_size key_len MAX_KEY_SIZE KeyTooLarge) (\<lambda>_.
    try_bind (read_bytes encoded key_len) (\<lambda>(key, encoded).
    try_bind (read_u32_len encoded) (\<lambda>(payload_len, encoded).
    try_bind (validate_size payload_len MAX_MESSAGE_SIZE MessageTooLarge) (\<lambda>_.
    try_bind (read_bytes encoded payload_len) (\<lambda>(payload, encoded).
    try_bind (decode_batch_record_loop count encoded) (\<lambda>(records, encoded).
    Ok (\<lparr>br_key = key, br_payload = payload\<rparr> # records, encoded))))))))"

definition decode_batch_records :: "bytes \<Rightarrow> (batch_record list, protocol_error) outcome" where
  "decode_batch_records encoded =
    try_bind (read_u32_len encoded) (\<lambda>(count, encoded).
    if count = 0 \<or> count > MAX_BATCH_MESSAGES then Err InvalidBatchCount else
    try_bind (decode_batch_record_loop count encoded) (\<lambda>(records, encoded).
    try_bind (ensure_empty encoded) (\<lambda>_. Ok records)))"

definition decode_produce_batch ::
    "zstd_lib \<Rightarrow> bytes \<Rightarrow> (produce_batch_request, protocol_error) outcome" where
  "decode_produce_batch Z frame =
    try_bind (read_u16_len frame) (\<lambda>(topic_len, frame).
    try_bind (validate_size topic_len MAX_TOPIC_NAME TopicTooLarge) (\<lambda>_.
    try_bind (read_bytes frame topic_len) (\<lambda>(topic, frame).
    try_bind (ok_or (from_utf8 topic) InvalidTopic) (\<lambda>topic.
    try_bind (ensure_remaining frame (1 + 1 + 4 + 4)) (\<lambda>_.
    try_bind (get_u8 frame) (\<lambda>(code, frame).
    try_bind (ack_mode_from_code code) (\<lambda>ack_mode.
    try_bind (get_u8 frame) (\<lambda>(code, frame).
    try_bind (compression_from_code code) (\<lambda>compr.
    try_bind (read_u32_len frame) (\<lambda>(uncompressed_len, frame).
    if uncompressed_len > MAX_UNCOMPRESSED_BATCH_SIZE then Err BatchTooLarge else
    try_bind (read_u32_len frame) (\<lambda>(encoded_len, frame).
    try_bind (read_bytes frame encoded_len) (\<lambda>(encoded, frame).
    try_bind (ensure_remaining frame 5) (\<lambda>_.
    try_bind (get_u8 frame) (\<lambda>(has_partition, frame).
    try_bind (get_u32 frame) (\<lambda>(part, frame).
    if has_partition > 1 then Err InvalidFrame else
    try_bind (ensure_empty frame) (\<lambda>_.
    try_bind (case compr of
        NoCompression \<Rightarrow> Ok encoded
      | Zstd \<Rightarrow> ok_or (zstd_decompress Z MAX_UNCOMPRESSED_BATCH_SIZE encoded)
          InvalidCompressedBatch) (\<lambda>decoded.
    if length decoded \<noteq> uncompressed_len then Err InvalidCompressedBatch else
    try_bind (decode_batch_records decoded) (\<lambda>records.
    try_bind (produce_batch_request_new topic records ack_mode compr) (\<lambda>request.
    Ok (if has_partition = 1 then request\<lparr>pb_partition := Some part\<rparr>
        else request))))))))))))))))))))"

definition decode_fetch :: "bytes \<Rightarrow> (fetch_request, protocol_error) outcome" where
  "decode_fetch frame =
    try_bind (read_u16_len frame) (\<lambda>(topic_len, frame).
    try_bind (validate_size topic_len MAX_TOPIC_NAME TopicTooLarge) (\<lambda>_.
    try_bind (read_bytes frame topic_len) (\<lambda>(topic, frame).
    try_bind (ok_or (from_utf8 topic) InvalidTopic) (\<lambda>topic.
    try_bind (ensure_remaining frame (4 + 8 + 4 * 2)) (\<lambda>_.
    try_bind (get_u32 frame) (\<lambda>(part, frame).
    try_bind (get_u64 frame) (\<lambda>(offset, frame).
    try_bind (get_u32 frame) (\<lambda>(max_bytes, frame).
    try_bind (get_u32 frame) (\<lambda>(max_wait_ms, frame).
    if frame \<noteq> [] then Err InvalidFrame
    else fetch_request_new topic part offset max_bytes max_wait_ms)))))))))"

definition decode_group_member :: "bytes \<Rightarrow> (group_member_request, protocol_error) outcome" where
  "decode_group_member frame =
    try_bind (decode_string frame) (\<lambda>(group, frame).
    try_bind (decode_string frame) (\<lambda>(topic, frame).
    try_bind (decode_string frame) (\<lambda>(member, frame).
    try_bind (ensure_empty frame) (\<lambda>_.
    Ok \<lparr>gm_group = group, gm_topic = topic, gm_member = member\<rparr>))))"

definition decode_group_generation ::
    "bytes \<Rightarrow> (group_generation_request, protocol_error) outcome" where
  "decode_group_generation frame =
    try_bind (decode_string frame) (\<lambda>(group, frame).
    try_bind (decode_string frame) (\<lambda>(topic, frame).
    try_bind (decode_string frame) (\<lambda>(member, frame).
    try_bind (ensure_remaining frame 8) (\<lambda>_.
    try_bind (get_u64 frame) (\<lambda>(generation, frame).
    try_bind (ensure_empty frame) (\<lambda>_.
    Ok \<lparr>gg_group = group, gg_topic = topic, gg_member = member,
        gg_generation = generation\<rparr>))))))"

definition decode_commit_offset :: "bytes \<Rightarrow> (commit_offset_request, protocol_error) outcome" where
  "decode_commit_offset frame =
    try_bind (decode_string frame) (\<lambda>(group, frame).
    try_bind (decode_string frame) (\<lambda>(topic, frame).
    try_bind (decode_string frame) (\<lambda>(member, frame).
    try_bind (ensure_remaining frame 20) (\<lambda>_.
    try_bind (get_u64 frame) (\<lambda>(generation, frame).
    try_bind (get_u32 frame) (\<lambda>(part, frame).
    try_bind (get_u64 frame) (\<lambda>(offset, frame).
    try_bind (ensure_empty frame) (\<lambda>_.
    Ok \<lparr>co_group = group, co_topic = topic, co_member = member,
        co_generation = generation, co_partition = part, co_offset = offset\<rparr>))))))))"

definition decode_fetch_committed ::
    "bytes \<Rightarrow> (fetch_committed_offset_request, protocol_error) outcome" where
  "decode_fetch_committed frame =
    try_bind (decode_string frame) (\<lambda>(group, frame).
    try_bind (decode_string frame) (\<lambda>(topic, frame).
    try_bind (ensure_remaining frame 4) (\<lambda>_.
    try_bind (get_u32 frame) (\<lambda>(part, frame).
    try_bind (ensure_empty frame) (\<lambda>_.
    Ok \<lparr>fc_group = group, fc_topic = topic, fc_partition = part\<rparr>)))))"

definition decode_group_fetch :: "bytes \<Rightarrow> (group_fetch_request, protocol_error) outcome" where
  "decode_group_fetch frame =
    try_bind (decode_string frame) (\<lambda>(group, frame).
    try_bind (decode_string frame) (\<lambda>(topic, frame).
    try_bind (decode_string frame) (\<lambda>(member, frame).
    try_bind (ensure_remaining frame 28) (\<lambda>_.
    try_bind (get_u64 frame) (\<lambda>(generation, frame).
    try_bind (get_u32 frame) (\<lambda>(part, frame).
    try_bind (get_u64 frame) (\<lambda>(offset, frame).
    try_bind (get_u32 frame) (\<lambda>(max_bytes, frame).
    try_bind (get_u32 frame) (\<lambda>(max_wait_ms, frame).
    try_bind (ensure_empty frame) (\<lambda>_.
    try_bind (fetch_request_new topic part offset max_bytes max_wait_ms) (\<lambda>_.
    Ok \<lparr>gf_group = group, gf_topic = topic, gf_member = member,
        gf_generation = generation, gf_partition = part, gf_offset = offset,
        gf_max_bytes = max_bytes, gf_max_wait_ms = max_wait_ms\<rparr>)))))))))))"

definition decode_create_topic :: "bytes \<Rightarrow> (create_topic_request, protocol_error) outcome" where
  "decode_create_topic frame =
    try_bind (decode_string frame) (\<lambda>(topic, frame).
    try_bind (ensure_remaining frame 4) (\<lambda>_.
    try_bind (get_u32 frame) (\<lambda>(partitions, frame).
    try_bind (ensure_empty frame) (\<lambda>_.
    try_bind (validate_topic topic) (\<lambda>_.
    if partitions = 0 then Err InvalidPartitionCount
    else Ok \<lparr>ct_topic = topic, ct_partitions = partitions\<rparr>)))))"

definition decode_promote_leader :: "bytes \<Rightarrow> (promote_leader_request, protocol_error) outcome" where
  "decode_promote_leader frame =
    try_bind (decode_string frame) (\<lambda>(topic, frame).
    try_bind (ensure_remaining frame 8) (\<lambda>_.
    try_bind (get_u32 frame) (\<lambda>(part, frame).
    try_bind (get_u32 frame) (\<lambda>(leader_id, frame).
    try_bind (ensure_empty frame) (\<lambda>_.
    Ok \<lparr>pm_topic = topic, pm_partition = part, pm_leader_id = leader_id\<rparr>)))))"

definition decode_apply_leadership ::
    "bytes \<Rightarrow> (apply_leadership_request, protocol_error) outcome" where
  "decode_apply_leadership frame =
    try_bind (decode_string frame) (\<lambda>(topic, frame).
    try_bind (ensure_remaining frame 24) (\<lambda>_.
    try_bind (get_u32 frame) (\<lambda>(part, frame).
    try_bind (get_u32 frame) (\<lambda>(leader_id, frame).
    try_bind (get_u64 frame) (\<lambda>(leader_epoch, frame).
    try_bind (get_u64 frame) (\<lambda>(high_watermark, frame).
    try_bind (ensure_empty frame) (\<lambda>_.
    Ok \<lparr>al_topic = topic, al_leadership = \<lparr>pl_partition = part, pl_leader_id = leader_id,
        pl_leader_epoch = leader_epoch, pl_high_watermark = high_watermark\<rparr>\<rparr>)))))))"

text \<open>\<open>decode_request\<close> after the frame has been cut off the buffer: the opcode dispatch.\<close>

definition decode_request_frame ::
    "zstd_lib \<Rightarrow> bytes \<Rightarrow> (request option, protocol_error) outcome" where
  "decode_request_frame Z frame =
    try_bind (get_u8 frame) (\<lambda>(opcode, frame).
    if opcode = PRODUCE then map_ok (Some \<circ> Produce) (decode_produce frame)
    else if opcode = PRODUCE_BATCH then map_ok (Some \<circ> ProduceBatch) (decode_produce_batch Z frame)
    else if opcode = FETCH then map_ok (Some \<circ> Fetch) (decode_fetch frame)
    else if opcode = JOIN_GROUP then map_ok (Some \<circ> JoinGroup) (decode_group_member frame)
    else if opcode = HEARTBEAT then map_ok (Some \<circ> Heartbeat) (decode_group_generation frame)
    else if opcode = LEAVE_GROUP then map_ok (Some \<circ> LeaveGroup) (decode_group_generation frame)
    else if opcode = COMMIT_OFFSET then map_ok (Some \<circ> CommitOffset) (decode_commit_offset frame)
    else if opcode = FETCH_COMMITTED_OFFSET
      then map_ok (Some \<circ> FetchCommittedOffset) (decode_fetch_committed frame)
    else if opcode = GROUP_FETCH then map_ok (Some \<circ> GroupFetch) (decode_group_fetch frame)
    else if opcode = CREATE_TOPIC then map_ok (Some \<circ> CreateTopic) (decode_create_topic frame)
    else if opcode = LIST_TOPICS \<and> frame = [] then Ok (Some ListTopics)
    else if opcode = DESCRIBE_TOPIC then
      try_bind (decode_string frame) (\<lambda>(topic, frame).
      try_bind (ensure_empty frame) (\<lambda>_.
      try_bind (validate_topic topic) (\<lambda>_. Ok (Some (DescribeTopic topic)))))
    else if opcode = CLUSTER_METADATA \<and> frame = [] then Ok (Some ClusterMetadata)
    else if opcode = PROMOTE_LEADER
      then map_ok (Some \<circ> PromoteLeader) (decode_promote_leader frame)
    else if opcode = APPLY_LEADERSHIP
      then map_ok (Some \<circ> ApplyLeadership) (decode_apply_leadership frame)
    else if opcode = PARTITION_STATUS then
      try_bind (decode_string frame) (\<lambda>(topic, frame).
      try_bind (ensure_remaining frame 4) (\<lambda>_.
      try_bind (get_u32 frame) (\<lambda>(part, frame).
      try_bind (ensure_empty frame) (\<lambda>_.
      Ok (Some (PartitionStatus \<lparr>ps_topic = topic, ps_partition = part\<rparr>))))))
    else Err (UnknownOpcode opcode))"

definition decode_request ::
    "zstd_lib \<Rightarrow> bytes \<Rightarrow> (request option, protocol_error) outcome \<times> bytes" where
  "decode_request Z = on_frame (decode_request_frame Z)"

section \<open>What is encoded decodes to the same request\<close>

text \<open>\<open>framed Z req buf out\<close>: the output extends the buffer by one frame that decodes to \<open>req\<close>.\<close>

definition framed :: "zstd_lib \<Rightarrow> request \<Rightarrow> bytes \<Rightarrow> bytes \<Rightarrow> bool" where
  "framed Z req buf out \<longleftrightarrow> (\<exists>body. out = buf @ frame_of body \<and> body \<noteq> [] \<and>
     length body \<le> MAX_FRAME_SIZE \<and> decode_request_frame Z body = Ok (Some req))"

lemma framedI:
  "out = buf @ frame_of body \<Longrightarrow> body \<noteq> [] \<Longrightarrow> length body \<le> MAX_FRAME_SIZE \<Longrightarrow>
     decode_request_frame Z body = Ok (Some req) \<Longrightarrow> framed Z req buf out"
  by (auto simp: framed_def)

lemmas request_decoders =
  decode_fetch_def decode_group_member_def decode_group_generation_def decode_commit_offset_def
  decode_fetch_committed_def decode_group_fetch_def decode_create_topic_def
  decode_promote_leader_def decode_apply_leadership_def

lemma fetch_request_ok_iff [outcome_simps]:
  "fetch_request_new t p off mb mw = Ok r \<longleftrightarrow>
     length t \<le> MAX_TOPIC_NAME \<and> t \<noteq> [] \<and> take 2 t \<noteq> ''__'' \<and> mb \<noteq> 0 \<and>
     unat mb \<le> MAX_FETCH_BYTES \<and> mw \<le> MAX_FETCH_WAIT_MS \<and>
     r = \<lparr>fr_topic = t, fr_partition = p, fr_offset = off, fr_max_bytes = mb, fr_max_wait_ms = mw\<rparr>"
  by (auto simp: fetch_request_new_def outcome_simps)

lemma encode_group_member_Ok:
  "encode_group_member op r b = (Ok u, out) \<Longrightarrow>
     length (gm_group r) < 65536 \<and> length (gm_topic r) < 65536 \<and> length (gm_member r) < 65536 \<and>
     out = b @ frame_of (op # string_bytes (gm_group r) @ string_bytes (gm_topic r)
       @ string_bytes (gm_member r))"
  by (auto simp: encode_group_member_def outcome_simps)

lemma encode_group_generation_Ok:
  "encode_group_generation op r b = (Ok u, out) \<Longrightarrow>
     length (gg_group r) < 65536 \<and> length (gg_topic r) < 65536 \<and> length (gg_member r) < 65536 \<and>
     out = b @ frame_of (op # string_bytes (gg_group r) @ string_bytes (gg_topic r)
       @ string_bytes (gg_member r) @ put_u64 (gg_generation r))"
  by (auto simp: encode_group_generation_def outcome_simps)

lemma encode_commit_offset_Ok:
  "encode_commit_offset r b = (Ok u, out) \<Longrightarrow>
     length (co_group r) < 65536 \<and> length (co_topic r) < 65536 \<and> length (co_member r) < 65536 \<and>
     out = b @ frame_of (COMMIT_OFFSET # string_bytes (co_group r) @ string_bytes (co_topic r)
       @ string_bytes (co_member r) @ put_u64 (co_generation r) @ put_u32 (co_partition r)
       @ put_u64 (co_offset r))"
  by (auto simp: encode_commit_offset_def outcome_simps)

lemma encode_fetch_committed_Ok:
  "encode_fetch_committed r b = (Ok u, out) \<Longrightarrow>
     length (fc_group r) < 65536 \<and> length (fc_topic r) < 65536 \<and>
     out = b @ frame_of (FETCH_COMMITTED_OFFSET # string_bytes (fc_group r)
       @ string_bytes (fc_topic r) @ put_u32 (fc_partition r))"
  by (auto simp: encode_fetch_committed_def outcome_simps)

lemma encode_group_fetch_Ok:
  "encode_group_fetch r b = (Ok u, out) \<Longrightarrow>
     length (gf_group r) < 65536 \<and> length (gf_topic r) < 65536 \<and> length (gf_member r) < 65536 \<and>
     (\<exists>f. fetch_request_new (gf_topic r) (gf_partition r) (gf_offset r) (gf_max_bytes r)
        (gf_max_wait_ms r) = Ok f) \<and>
     out = b @ frame_of (GROUP_FETCH # string_bytes (gf_group r) @ string_bytes (gf_topic r)
       @ string_bytes (gf_member r) @ put_u64 (gf_generation r) @ put_u32 (gf_partition r)
       @ put_u64 (gf_offset r) @ put_u32 (gf_max_bytes r) @ put_u32 (gf_max_wait_ms r))"
  by (auto simp: encode_group_fetch_def outcome_simps)

lemma encode_create_topic_Ok:
  "encode_create_topic r b = (Ok u, out) \<Longrightarrow>
     validate_topic (ct_topic r) = Ok () \<and> length (ct_topic r) < 65536 \<and> ct_partitions r \<noteq> 0 \<and>
     out = b @ frame_of (CREATE_TOPIC # string_bytes (ct_topic r) @ put_u32 (ct_partitions r))"
  by (auto simp: encode_create_topic_def outcome_simps split: if_splits)

lemma encode_leadership_request_Ok:
  "encode_leadership_request op t p l e h b = (Ok u, out) \<Longrightarrow>
     length t < 65536 \<and>
     out = b @ frame_of (op # string_bytes t @ put_u32 p @ put_u32 l
       @ (if op = APPLY_LEADERSHIP then put_u64 e @ put_u64 h else []))"
  using set_frame_len_Ok [of b 0 "op # string_bytes t @ put_u32 p @ put_u32 l
       @ (if op = APPLY_LEADERSHIP then put_u64 e @ put_u64 h else [])" u out]
  by (auto simp: encode_leadership_request_def outcome_simps Let_def split: if_splits)

lemma encode_fetch_Ok:
  "encode_fetch r b = (Ok u, out) \<Longrightarrow>
     out = b @ frame_of (FETCH # string_bytes (fr_topic r) @ put_u32 (fr_partition r)
       @ put_u64 (fr_offset r) @ put_u32 (fr_max_bytes r) @ put_u32 (fr_max_wait_ms r))"
  by (auto simp: encode_fetch_def outcome_simps Let_def try_from_def frame_of_def string_bytes_def
      split: if_splits)

lemma framed_bare:
  "framed Z ListTopics b (b @ put_u32 1 @ [LIST_TOPICS])"
  "framed Z ClusterMetadata b (b @ put_u32 1 @ [CLUSTER_METADATA])"
  by (rule framedI [where body = "[LIST_TOPICS]"];
      simp add: frame_of_def decode_request_frame_def)
     (rule framedI [where body = "[CLUSTER_METADATA]"];
      simp add: frame_of_def decode_request_frame_def)

lemma validate_topic_short: "validate_topic t = Ok u \<Longrightarrow> length t < 65536"
  by (simp add: outcome_simps)

lemma framed_describe_topic:
  assumes "utf8_string t" and "validate_topic t = Ok ()"
    and "encode_string_request DESCRIBE_TOPIC [t] b = (Ok n, out)"
  shows "framed Z (DescribeTopic t) b out"
proof (rule framedI)
  show "out = b @ frame_of (DESCRIBE_TOPIC # string_bytes t)"
    using assms(3) by (simp add: outcome_simps)
qed (use assms(1,2) validate_topic_short [OF assms(2)] in \<open>auto simp: decode_request_frame_def\<close>)

lemma framed_partition_status:
  assumes "utf8_string (ps_topic r)" and "validate_topic (ps_topic r) = Ok ()"
    and "step_bind (encode_string_request PARTITION_STATUS [ps_topic r] b) (\<lambda>start buffer.
           set_frame_len (buffer @ put_u32 (ps_partition r)) start) = (Ok u, out)"
  shows "framed Z (PartitionStatus r) b out"
proof (rule framedI)
  show "out = b @ frame_of (PARTITION_STATUS # string_bytes (ps_topic r)
      @ put_u32 (ps_partition r))"
    using assms(3) by (auto simp: outcome_simps)
qed (use assms(1,2) validate_topic_short [OF assms(2)] in \<open>auto simp: decode_request_frame_def\<close>)

lemma framed_fetch:
  assumes "fetch_request_ok r" and "encode_fetch r b = (Ok u, out)"
  shows "framed Z (Fetch r) b out"
proof -
  have f: "fetch_request_new (fr_topic r) (fr_partition r) (fr_offset r) (fr_max_bytes r)
       (fr_max_wait_ms r) = Ok r" and u: "utf8_string (fr_topic r)"
    using assms(1) by (simp_all add: fetch_request_ok_def)
  then have l: "length (fr_topic r) \<le> MAX_TOPIC_NAME" by (simp add: outcome_simps)
  show ?thesis
    by (rule framedI [OF encode_fetch_Ok [OF assms(2)]])
       (use f u l in \<open>simp_all add: decode_request_frame_def decode_fetch_def
          string_bytes_def unat_word_of_nat_small\<close>)
qed

text \<open>Every request but the two that carry message payloads.\<close>

fun carries_payload :: "request \<Rightarrow> bool" where
  "carries_payload (Produce _) = True"
| "carries_payload (ProduceBatch _) = True"
| "carries_payload _ = False"

lemmas control_encoders = encode_group_member_Ok encode_group_generation_Ok encode_commit_offset_Ok
  encode_fetch_committed_Ok encode_group_fetch_Ok encode_create_topic_Ok encode_leadership_request_Ok

lemma framed_control:
  assumes "request_ok q" and "encode_request Z q b = (Ok u, out)" and "\<not> carries_payload q"
  shows "framed Z q b out"
proof (cases q)
  case (Fetch r)
  with assms show ?thesis by (auto intro: framed_fetch)
next
  case (PartitionStatus r)
  with assms framed_partition_status [of r b u out Z] show ?thesis
    by (cases "validate_topic (ps_topic r)") auto
next
  case (DescribeTopic t)
  with assms framed_describe_topic [of t b _ out Z] show ?thesis
    by (cases "validate_topic t") (auto simp: step_bind_eq_Ok)
qed ((((use assms in \<open>auto intro: framed_bare; fail\<close>) |
      (use assms in \<open>intro framedI, auto dest!: control_encoders
        simp: decode_request_frame_def request_decoders\<close>)) [1])+)

subsection \<open>Produce and produce-batch\<close>

lemma produce_request_new_Ok [outcome_simps]:
  "produce_request_new t k v a p = Ok r \<longleftrightarrow>
     length t \<le> MAX_TOPIC_NAME \<and> t \<noteq> [] \<and> take 2 t \<noteq> ''__'' \<and> length k \<le> MAX_KEY_SIZE \<and>
     length v \<le> MAX_MESSAGE_SIZE \<and>
     (\<forall>q. p = Some q \<longrightarrow> pi_id q \<noteq> [] \<and> length (pi_id q) \<le> MAX_TOPIC_NAME \<and>
        list_all id_char (pi_id q)) \<and>
     r = \<lparr>pr_topic = t, pr_key = k, pr_payload = v, pr_ack_mode = a, pr_producer = p,
       pr_partition = None\<rparr>"
  by (cases p) (auto simp: produce_request_new_def outcome_simps)

lemma record_eta [simp]:
  "\<lparr>pi_id = pi_id p, pi_sequence = pi_sequence p\<rparr> = p"
  "\<lparr>br_key = br_key r, br_payload = br_payload r\<rparr> = r"
  by simp_all

definition producer_bytes :: "producer_identity option \<Rightarrow> bytes" where
  "producer_bytes p = (case p of None \<Rightarrow> put_u16 0 @ put_u64 0
     | Some q \<Rightarrow> string_bytes (pi_id q) @ put_u64 (pi_sequence q))"

definition partition_bytes :: "u32 option \<Rightarrow> bytes" where
  "partition_bytes p = (case p of None \<Rightarrow> 0 # put_u32 0 | Some q \<Rightarrow> 1 # put_u32 q)"

lemma encode_produce_Ok:
  assumes "encode_produce r b = (Ok u, out)"
  shows "out = b @ frame_of (PRODUCE # string_bytes (pr_topic r)
     @ put_u16 (word_of_nat (length (pr_key r))) @ pr_key r
     @ put_u32 (word_of_nat (length (pr_payload r))) @ pr_payload r
     @ [ack_mode_code (pr_ack_mode r)] @ producer_bytes (pr_producer r)
     @ partition_bytes (pr_partition r))"
  using assms
  by (auto simp: encode_produce_def outcome_simps Let_def try_from_def frame_of_def
      string_bytes_def producer_bytes_def partition_bytes_def split: if_splits option.splits)

lemma framed_produce:
  assumes "produce_request_ok r" and "encode_produce r b = (Ok u, out)"
  shows "framed Z (Produce r) b out"
proof -
  have new: "produce_request_new (pr_topic r) (pr_key r) (pr_payload r) (pr_ack_mode r)
       (pr_producer r) = Ok (r\<lparr>pr_partition := None\<rparr>)" and u: "utf8_string (pr_topic r)"
    using assms(1) by (simp_all add: produce_request_ok_def)
  from new have len: "length (pr_topic r) \<le> MAX_TOPIC_NAME" "length (pr_key r) \<le> MAX_KEY_SIZE"
    "length (pr_payload r) \<le> MAX_MESSAGE_SIZE" "pr_topic r \<noteq> []"
    and prod: "\<And>q. pr_producer r = Some q \<Longrightarrow>
      pi_id q \<noteq> [] \<and> length (pi_id q) \<le> MAX_TOPIC_NAME \<and> utf8_string (pi_id q)"
    by (auto simp: outcome_simps utf8_string_id)
  show ?thesis
    by (rule framedI [OF encode_produce_Ok [OF assms(2)]], simp,
        use len prod in \<open>auto simp: producer_bytes_def partition_bytes_def split: option.splits\<close>,
        use len prod u new in \<open>auto simp: decode_request_frame_def decode_produce_def
          producer_bytes_def partition_bytes_def string_bytes_def unat_word_of_nat_small
          split: option.splits\<close>)
qed

definition batch_record_bytes :: "batch_record \<Rightarrow> bytes" where
  "batch_record_bytes r = put_u16 (word_of_nat (length (br_key r))) @ br_key r
     @ put_u32 (word_of_nat (length (br_payload r))) @ br_payload r"

definition batch_bytes :: "batch_record list \<Rightarrow> bytes" where
  "batch_bytes rs = put_u32 (word_of_nat (length rs)) @ concat (map batch_record_bytes rs)"

lemma length_batch_record_bytes [simp]:
  "length (batch_record_bytes r) = 6 + length (br_key r) + length (br_payload r)"
  by (simp add: batch_record_bytes_def)

lemma encode_batch_records_Ok:
  "encode_batch_records rs acc = Ok out \<Longrightarrow> out = acc @ concat (map batch_record_bytes rs)"
  by (induction rs arbitrary: acc)
     (fastforce simp: outcome_simps try_from_def batch_record_bytes_def split: if_splits)+

lemma decode_batch_record_loop_bytes:
  assumes "\<forall>r \<in> set rs. length (br_key r) \<le> MAX_KEY_SIZE \<and> length (br_payload r) \<le> MAX_MESSAGE_SIZE"
  shows "decode_batch_record_loop (length rs) (concat (map batch_record_bytes rs) @ rest)
           = Ok (rs, rest)"
  using assms
  by (induction rs) (auto simp: batch_record_bytes_def unat_word_of_nat_small)

lemma decode_batch_records_bytes:
  assumes "\<forall>r \<in> set rs. length (br_key r) \<le> MAX_KEY_SIZE \<and> length (br_payload r) \<le> MAX_MESSAGE_SIZE"
    and "rs \<noteq> []" and "length rs \<le> MAX_BATCH_MESSAGES"
  shows "decode_batch_records (batch_bytes rs) = Ok rs"
  using assms decode_batch_record_loop_bytes [of rs "[]"]
  by (simp add: decode_batch_records_def batch_bytes_def unat_word_of_nat_small)

lemma produce_batch_request_new_Ok:
  assumes "produce_batch_request_new t rs a c = Ok r"
  shows "validate_topic t = Ok ()" and "rs \<noteq> []" and "length rs \<le> MAX_BATCH_MESSAGES"
    and "\<forall>r \<in> set rs. length (br_key r) \<le> MAX_KEY_SIZE \<and> length (br_payload r) \<le> MAX_MESSAGE_SIZE"
    and "length (batch_bytes rs) \<le> MAX_UNCOMPRESSED_BATCH_SIZE"
  using assms
  by (auto simp: produce_batch_request_new_def try_bind_eq_Ok batch_bytes_def length_concat
      comp_def dest!: batch_encoded_size_Ok split: if_splits)

definition batch_frame_body :: "produce_batch_request \<Rightarrow> bytes \<Rightarrow> bytes" where
  "batch_frame_body r e = PRODUCE_BATCH # string_bytes (pb_topic r)
     @ [ack_mode_code (pb_ack_mode r), compression_code (pb_compression r)]
     @ put_u32 (word_of_nat (length (batch_bytes (pb_records r))))
     @ put_u32 (word_of_nat (length e)) @ e @ partition_bytes (pb_partition r)"

lemma length_partition_bytes [simp]: "length (partition_bytes p) = 5"
  by (cases p) (auto simp: partition_bytes_def)

lemma encode_produce_batch_Ok:
  assumes "encode_produce_batch Z r b = (Ok u, out)"
  shows "\<exists>e. (pb_compression r = NoCompression \<and> e = batch_bytes (pb_records r) \<or>
       pb_compression r = Zstd \<and> zstd_compress Z (batch_bytes (pb_records r)) = Some e) \<and>
     out = b @ frame_of (batch_frame_body r e) \<and> length (batch_frame_body r e) \<le> MAX_FRAME_SIZE"
proof -
  from assms obtain recs e where
    recs: "encode_batch_records (pb_records r) (put_u32 (word_of_nat (length (pb_records r))))
        = Ok recs"
    and e: "(case pb_compression r of NoCompression \<Rightarrow> Ok recs
        | Zstd \<Rightarrow> ok_or (zstd_compress Z recs) InvalidCompressedBatch) = Ok e"
    and out: "set_frame_len (b @ put_u32 0 @ PRODUCE_BATCH #
        put_u16 (word_of_nat (length (pb_topic r))) @ as_bytes (pb_topic r)
        @ [ack_mode_code (pb_ack_mode r), compression_code (pb_compression r)]
        @ put_u32 (word_of_nat (length recs)) @ put_u32 (word_of_nat (length e)) @ e
        @ partition_bytes (pb_partition r)) (length b) = (Ok (), out)"
    and le: "length out - length b - FRAME_HEADER_SIZE \<le> MAX_FRAME_SIZE"
    by (auto simp: encode_produce_batch_def step_bind_eq_Ok ok_or_eq_Ok Let_def try_from_def
        partition_bytes_def split: if_splits option.splits)
  from encode_batch_records_Ok [OF recs] have "recs = batch_bytes (pb_records r)"
    by (simp add: batch_bytes_def)
  with e out le show ?thesis
    by (intro exI [of _ e]) (auto simp: batch_frame_body_def string_bytes_def outcome_simps
        split: compression.splits)
qed

lemma framed_produce_batch:
  assumes "produce_batch_request_ok r" and "encode_produce_batch Z r b = (Ok u, out)"
    and "zstd_roundtrips Z"
  shows "framed Z (ProduceBatch r) b out"
proof -
  from encode_produce_batch_Ok [OF assms(2)] obtain e where
    e: "pb_compression r = NoCompression \<and> e = batch_bytes (pb_records r) \<or>
       pb_compression r = Zstd \<and> zstd_compress Z (batch_bytes (pb_records r)) = Some e"
    and out: "out = b @ frame_of (batch_frame_body r e)"
    and le: "length (batch_frame_body r e) \<le> MAX_FRAME_SIZE" by blast
  have new: "produce_batch_request_new (pb_topic r) (pb_records r) (pb_ack_mode r)
       (pb_compression r) = Ok (r\<lparr>pb_partition := None\<rparr>)" and u: "utf8_string (pb_topic r)"
    using assms(1) by (simp_all add: produce_batch_request_ok_def)
  note n = produce_batch_request_new_Ok [OF new]
  have t: "length (pb_topic r) \<le> MAX_TOPIC_NAME" using n(1) by (simp add: outcome_simps)
  have d: "(case pb_compression r of NoCompression \<Rightarrow> Ok e
      | Zstd \<Rightarrow> ok_or (zstd_decompress Z MAX_UNCOMPRESSED_BATCH_SIZE e) InvalidCompressedBatch)
      = Ok (batch_bytes (pb_records r))"
    using e n(5) assms(3) by (auto simp: zstd_roundtrips_def)
  have el: "length e < 4294967296" using le by (simp add: batch_frame_body_def)
  show ?thesis
    by (rule framedI [OF out _ le], simp add: batch_frame_body_def)
       (use t u el d n(5) decode_batch_records_bytes [OF n(4,2,3)] new in
         \<open>auto simp: decode_request_frame_def decode_produce_batch_def batch_frame_body_def
           partition_bytes_def string_bytes_def unat_word_of_nat_small split: option.splits\<close>)
qed

lemma encode_request_framed:
  assumes "request_ok q" and "zstd_roundtrips Z" and "encode_request Z q b = (Ok u, out)"
  shows "framed Z q b out"
proof (cases "carries_payload q")
  case True
  with assms show ?thesis
    by (cases q) (auto intro: framed_produce framed_produce_batch)
next
  case False
  with assms show ?thesis by (intro framed_control)
qed

interpretation req: framed_codec "encode_request Z" "decode_request Z"
    "\<lambda>q. request_ok q \<and> zstd_roundtrips Z" for Z
proof unfold_locales
  show "decode_request Z [] = (Ok None, [])"
    by (simp add: decode_request_def on_frame_def take_frame_def)
next
  fix m buf out
  assume "request_ok m \<and> zstd_roundtrips Z" and "encode_request Z m buf = (Ok (), out)"
  then have "framed Z m buf out" by (auto intro: encode_request_framed)
  then obtain body where "out = buf @ frame_of body" "body \<noteq> []" "length body \<le> MAX_FRAME_SIZE"
    "decode_request_frame Z body = Ok (Some m)" by (auto simp: framed_def)
  then show "\<exists>frame. out = buf @ frame \<and> frame \<noteq> [] \<and>
      (\<forall>rest. decode_request Z (frame @ rest) = (Ok (Some m), rest)) \<and>
      (\<forall>n<length frame. decode_request Z (take n frame) = (Ok None, take n frame))"
    by (intro exI [of _ "frame_of body"])
       (auto simp: decode_request_def on_frame_frame_of on_frame_partial
         simp del: length_frame_of)
qed

section \<open>The decoder on arbitrary bytes\<close>

lemma new_not_Panic [simp]:
  "fetch_request_new t p off mb mw \<noteq> Panic" "produce_request_new t k v a pr \<noteq> Panic"
  "produce_batch_request_new t rs a c \<noteq> Panic"
  by (auto simp: fetch_request_new_def produce_request_new_def produce_batch_request_new_def
      try_bind_Panic_iff split: option.splits)

lemma decode_batch_records_not_Panic [simp]: "decode_batch_records b \<noteq> Panic"
proof -
  have "decode_batch_record_loop n e \<noteq> Panic" for n e
    by (induction n arbitrary: e) (auto simp: try_bind_Panic_iff)
  then show ?thesis by (auto simp: decode_batch_records_def try_bind_Panic_iff)
qed

lemma payload_decoders_not_Panic [simp]:
  "decode_produce f \<noteq> Panic" "decode_produce_batch Z f \<noteq> Panic"
  by (auto simp: decode_produce_def decode_produce_batch_def try_bind_Panic_iff
      dest!: get_length split: if_splits compression.splits)

lemma decode_request_frame_not_Panic: "f \<noteq> [] \<Longrightarrow> decode_request_frame Z f \<noteq> Panic"
  by (auto simp: decode_request_frame_def request_decoders try_bind_Panic_iff
      dest!: get_length split: if_splits)

text \<open>Whatever the decoder accepts satisfies what the Rust types promise: fields that went through
  the validating constructors, and UTF-8 strings.\<close>

lemma produce_request_new_fields:
  "produce_request_new t k v a p = Ok r \<Longrightarrow>
     r = \<lparr>pr_topic = t, pr_key = k, pr_payload = v, pr_ack_mode = a, pr_producer = p,
       pr_partition = None\<rparr>"
  by (auto simp: produce_request_new_def outcome_simps)

lemma produce_batch_request_new_fields:
  "produce_batch_request_new t rs a c = Ok r \<Longrightarrow>
     r = \<lparr>pb_topic = t, pb_records = rs, pb_ack_mode = a, pb_compression = c, pb_partition = None\<rparr>"
  by (auto simp: produce_batch_request_new_def outcome_simps split: if_splits)

lemma decode_produce_ok: "decode_produce f = Ok r \<Longrightarrow> produce_request_ok r"
  by (frule produce_request_new_fields | clarsimp simp: decode_produce_def produce_request_ok_def
      outcome_simps split: if_splits dest!: from_utf8_Some)+

lemma decode_produce_batch_ok:
  assumes "decode_produce_batch Z f = Ok r"
  shows "produce_batch_request_ok r"
proof -
  from assms obtain t rs a c q p where q: "produce_batch_request_new t rs a c = Ok q"
    and "utf8_string t" and "r = q \<or> r = q\<lparr>pb_partition := Some p\<rparr>"
    by (fastforce simp: decode_produce_batch_def outcome_simps split: if_splits
        dest: from_utf8_Some)
  with produce_batch_request_new_fields [OF q] show ?thesis
    by (auto simp: produce_batch_request_ok_def)
qed

lemma decode_request_frame_ok: "decode_request_frame Z f = Ok (Some q) \<Longrightarrow> request_ok q"
  by (auto simp: decode_request_frame_def request_decoders fetch_request_ok_def outcome_simps
      split: if_splits dest!: from_utf8_Some decode_string_Ok_utf8
      dest: decode_produce_ok decode_produce_batch_ok)

text \<open>Requests that are plain structures in the code, whose fields only the decoder checks.\<close>

fun request_checked :: "request \<Rightarrow> bool" where
  "request_checked (GroupFetch r) =
    (fetch_request_new (gf_topic r) (gf_partition r) (gf_offset r) (gf_max_bytes r) (gf_max_wait_ms r) =
      Ok \<lparr>fr_topic = gf_topic r, fr_partition = gf_partition r, fr_offset = gf_offset r, fr_max_bytes = gf_max_bytes r,
        fr_max_wait_ms = gf_max_wait_ms r\<rparr>)"
| "request_checked (CreateTopic r) = (validate_topic (ct_topic r) = Ok () \<and> ct_partitions r \<noteq> 0)"
| "request_checked (DescribeTopic t) = (validate_topic t = Ok ())"
| "request_checked _ = True"

lemma decode_request_frame_checked: "decode_request_frame Z f = Ok (Some q) \<Longrightarrow> request_checked q"
  by (auto simp: decode_request_frame_def request_decoders outcome_simps split: if_splits)

section \<open>Properties\<close>

text \<open>A library that satisfies the documented contract, for the witnesses: it stores the input.\<close>

definition zstd_stored :: zstd_lib where
  "zstd_stored = \<lparr>zstd_compress = Some,
     zstd_decompress = (\<lambda>cap y. if length y \<le> cap then Some y else None)\<rparr>"

definition sample_batch :: produce_batch_request where
  "sample_batch = \<lparr>pb_topic = ''orders'',
     pb_records = [\<lparr>br_key = [1], br_payload = [2, 3]\<rparr>, \<lparr>br_key = [], br_payload = []\<rparr>],
     pb_ack_mode = Durable, pb_compression = Zstd, pb_partition = Some 7\<rparr>"

definition sample_join :: group_member_request where
  "sample_join = \<lparr>gm_group = ''billing'', gm_topic = ''orders'', gm_member = ''m-1''\<rparr>"

lemma zstd_stored_roundtrips: "zstd_roundtrips zstd_stored"
  by (simp add: zstd_roundtrips_def zstd_stored_def)

lemma sample_strings_utf8:
  "utf8_string ''orders''" "utf8_string ''billing''" "utf8_string ''m-1''"
  by (rule utf8_string_id, simp add: id_char_def is_ascii_alphanumeric_def is_ascii_digit_def
      less_eq_char_def)+

lemma sample_batch_ok: "request_ok (ProduceBatch sample_batch)"
  by (simp add: produce_batch_request_ok_def sample_batch_def produce_batch_request_new_def
      validate_topic_def validate_size_def sample_strings_utf8)

lemma sample_join_ok: "request_ok (JoinGroup sample_join)"
  by (simp add: sample_join_def sample_strings_utf8)

lemma sample_batch_encodes:
  "encode_request zstd_stored (ProduceBatch sample_batch) b =
     (Ok (), snd (encode_request zstd_stored (ProduceBatch sample_batch) b))"
  by (simp add: sample_batch_def encode_produce_batch_def zstd_stored_def try_from_def Let_def
      set_frame_len_def validate_size_def)

lemma sample_join_encodes:
  "encode_request Z (JoinGroup sample_join) b =
     (Ok (), snd (encode_request Z (JoinGroup sample_join) b))"
  by (simp add: sample_join_def encode_group_member_def encode_string_request_def encode_string_def
      try_from_def Let_def set_frame_len_def)

text \<open>Whatever request the client encodes is appended to the write buffer as one frame, and the
  broker's decoder reads exactly that request from it and leaves the bytes behind it untouched.
  The only assumptions are that the request is a value the Rust type allows and that zstd
  decompresses what it compressed.\<close>

lemma request_roundtrip:
  assumes "request_ok q" and "zstd_roundtrips Z" and "encode_request Z q buf = (Ok (), out)"
  shows "\<exists>frame. out = buf @ frame \<and>
    (\<forall>rest. decode_request Z (frame @ rest) = (Ok (Some q), rest))"
  using req.encode_frame [of q Z buf out] assms by auto

text \<open>C29: The broker's read loop is insensitive to how the socket splits the stream: for any
  sequence of encodable requests and any chunking of their concatenated bytes, the loop delivers
  exactly these requests in order, without an error, and ends with an empty buffer.\<close>

theorem request_stream:
  assumes "zstd_roundtrips Z" and "list_all request_ok qs"
    and "list_all (\<lambda>q. fst (encode_request Z q []) = Ok ()) qs"
    and "concat chunks = concat (map (\<lambda>q. snd (encode_request Z q [])) qs)"
  shows "feed (decode_request Z) [] chunks = (qs, Ok (), [])"
proof (rule req.feed_stream)
  show "list_all (req.sendable Z) qs"
    unfolding list_all_iff req.sendable_def using assms by (auto simp: list_all_iff)
  show "concat chunks = concat (map (req.wire_bytes Z) qs)"
    unfolding req.wire_bytes_def using assms by simp
qed

theorem request_stream_witness:
  "feed (decode_request zstd_stored) []
     (map (\<lambda>b. [b]) (snd (encode_request zstd_stored (ProduceBatch sample_batch) [])
       @ snd (encode_request zstd_stored (JoinGroup sample_join) []))) =
     ([ProduceBatch sample_batch, JoinGroup sample_join], Ok (), [])"
proof (rule request_stream)
  have c: "concat (map (\<lambda>b. [b]) xs) = xs" for xs :: bytes by (induction xs) auto
  show "concat (map (\<lambda>b. [b]) (snd (encode_request zstd_stored (ProduceBatch sample_batch) [])
      @ snd (encode_request zstd_stored (JoinGroup sample_join) []))) =
    concat (map (\<lambda>q. snd (encode_request zstd_stored q []))
      [ProduceBatch sample_batch, JoinGroup sample_join])"
    by (simp only: c) simp
  show "list_all (\<lambda>q. fst (encode_request zstd_stored q []) = Ok ())
      [ProduceBatch sample_batch, JoinGroup sample_join]"
    unfolding list.pred_inject
    by (subst sample_batch_encodes, subst sample_join_encodes) (simp only: fst_conv simp_thms list.pred_inject)
qed (use sample_batch_ok sample_join_ok zstd_stored_roundtrips in simp_all)

text \<open>C30: On arbitrary received bytes the request decoder never panics (no read past the end of a
  frame), and every request it accepts satisfies the invariants of the request types: for produce, batch and fetch requests those
  of their constructors (valid topic and producer identifiers, sizes within the limits), for group fetches the limits of a fetch, for
  the creation and description of a topic a valid name and a partition count that is not zero, and UTF-8 strings everywhere.\<close>

theorem decode_request_safe:
  "fst (decode_request Z buf) \<noteq> Panic \<and>
   (\<forall>q r. decode_request Z buf = (Ok (Some q), r) \<longrightarrow> request_ok q \<and> request_checked q \<and> length r < length buf)"
proof
  show "fst (decode_request Z buf) \<noteq> Panic"
    unfolding decode_request_def by (rule on_frame_not_Panic) (rule decode_request_frame_not_Panic)
  show "\<forall>q r. decode_request Z buf = (Ok (Some q), r) \<longrightarrow> request_ok q \<and> request_checked q \<and> length r < length buf"
    using decode_request_frame_ok [of Z] decode_request_frame_checked [of Z]
    by (auto simp: decode_request_def on_frame_def step_bind_eq_Ok dest!: take_frame_shrinks
        split: option.splits)
qed

theorem decode_request_safe_witness:
  "\<exists>buf. decode_request zstd_stored buf = (Ok (Some (CreateTopic \<lparr>ct_topic = ''orders'', ct_partitions = 3\<rparr>)), []) \<and>
     validate_topic ''orders'' = Ok () \<and> utf8_string ''orders'' \<and> buf \<noteq> []"
proof -
  let ?q = "CreateTopic \<lparr>ct_topic = ''orders'', ct_partitions = 3\<rparr>"
  let ?buf = "frame_of (CREATE_TOPIC # string_bytes ''orders'' @ put_u32 3)"
  have "decode_request zstd_stored ?buf = (Ok (Some ?q), [])"
    using on_frame_frame_of [of "CREATE_TOPIC # string_bytes ''orders'' @ put_u32 3" "decode_request_frame zstd_stored" "[]"]
      sample_strings_utf8(1)
    by (simp add: decode_request_def decode_request_frame_def decode_create_topic_def validate_topic_def)
  with decode_request_safe [of zstd_stored ?buf] show ?thesis by (intro exI [of _ ?buf]) (simp add: frame_of_def)
qed

text \<open>A frame header that announces more than \<open>MAX_FRAME_SIZE\<close> bytes is refused as soon as its
  four bytes have arrived, whatever follows, so the buffer never has to hold the payload.\<close>

lemma oversized_frame_rejected:
  assumes "unat n > MAX_FRAME_SIZE"
  shows "decode_request Z (put_u32 n @ rest) = (Err FrameTooLarge, put_u32 n @ rest)"
  using assms by (auto simp: decode_request_def on_frame_def take_frame_def Let_def)

end
