(* ===== verification/Wire_Response.thy ===== *)
theory Wire_Response
  imports Wire_Frame
begin

text \<open>
  The response half of \<open>crates/protocol/src/lib.rs\<close>: \<open>encode_response\<close>, \<open>decode_response\<close> and the
  codecs of the list-valued bodies.  Several encoders write a frame longer than
  \<open>MAX_FRAME_SIZE\<close> without complaint, which the peer then refuses; \<open>response_wf\<close> is what a
  response must satisfy to be received.
\<close>

section \<open>Encoding\<close>

definition ack_bytes :: "produce_ack \<Rightarrow> bytes" where
  "ack_bytes ack = put_u32 (pa_partition ack) @ put_u64 (pa_offset ack)"

fun encode_fetched_records ::
    "fetched_record list \<Rightarrow> bytes \<Rightarrow> (unit, protocol_error) outcome \<times> bytes" where
  "encode_fetched_records [] buffer = (Ok (), buffer)"
| "encode_fetched_records (record # records) buffer =
    (let buffer = buffer @ put_u64 (fd_offset record) @ put_u64 (fd_timestamp_ms record) in
     step_bind (case fd_key record of
         Some key \<Rightarrow> ok_or (i32_try_from (length key)) KeyTooLarge
       | None \<Rightarrow> Ok (- 1), buffer) (\<lambda>key_len buffer.
     let buffer = buffer @ put_u32 key_len in
     step_bind (ok_or (try_from (length (fd_value record))) MessageTooLarge, buffer) (\<lambda>n buffer.
     encode_fetched_records records (buffer @ put_u32 n
       @ (case fd_key record of Some key \<Rightarrow> key | None \<Rightarrow> []) @ fd_value record))))"

definition encode_fetch_response ::
    "fetched_record list \<Rightarrow> bytes \<Rightarrow> (unit, protocol_error) outcome \<times> bytes" where
  "encode_fetch_response records buffer =
    (let frame_start = length buffer; buffer = buffer @ put_u32 0 @ [FETCH_RESPONSE] in
     step_bind (ok_or (try_from (length records)) FrameTooLarge, buffer) (\<lambda>n buffer.
     step_bind (encode_fetched_records records (buffer @ put_u32 n)) (\<lambda>_ buffer.
     let frame_len = length buffer - frame_start - FRAME_HEADER_SIZE in
     if frame_len > MAX_FRAME_SIZE then (Err FrameTooLarge, take frame_start buffer)
     else step_bind (ok_or (try_from frame_len) FrameTooLarge, buffer) (\<lambda>encoded_len buffer.
       (Ok (), take frame_start buffer @ put_u32 encoded_len
          @ drop (frame_start + FRAME_HEADER_SIZE) buffer)))))"

definition topic_metadata_ok :: "topic_metadata \<Rightarrow> bool" where
  "topic_metadata_ok t \<longleftrightarrow> tm_partitions t \<noteq> 0 \<and>
     (tm_leaders t \<noteq> [] \<longrightarrow> length (tm_leaders t) = unat (tm_partitions t)) \<and>
     length (tm_leader_epochs t) = length (tm_leaders t) \<and>
     length (tm_high_watermarks t) = length (tm_leaders t)"

fun encode_topic_entries ::
    "topic_metadata list \<Rightarrow> bytes \<Rightarrow> (unit, protocol_error) outcome \<times> bytes" where
  "encode_topic_entries [] buffer = (Ok (), buffer)"
| "encode_topic_entries (topic # topics) buffer =
    (if \<not> topic_metadata_ok topic then (Err InvalidPartitionCount, buffer)
     else step_bind (encode_string (tm_topic topic) buffer) (\<lambda>_ buffer.
       let buffer = buffer @ put_u32 (tm_partitions topic) in
       step_bind (ok_or (try_from (length (tm_leaders topic))) FrameTooLarge, buffer) (\<lambda>n buffer.
       encode_topic_entries topics (buffer @ put_u32 n
         @ concat (map put_u32 (tm_leaders topic))
         @ concat (map put_u64 (tm_leader_epochs topic))
         @ concat (map put_u64 (tm_high_watermarks topic))))))"

definition encode_topics_response ::
    "topic_metadata list \<Rightarrow> bytes \<Rightarrow> (unit, protocol_error) outcome \<times> bytes" where
  "encode_topics_response topics buffer =
    (let start = length buffer; buffer = buffer @ put_u32 0 @ [TOPICS_RESPONSE] in
     step_bind (ok_or (try_from (length topics)) FrameTooLarge, buffer) (\<lambda>n buffer.
     step_bind (encode_topic_entries topics (buffer @ put_u32 n)) (\<lambda>_ buffer.
     set_frame_len buffer start)))"

fun encode_nodes ::
    "cluster_node list \<Rightarrow> bytes \<Rightarrow> (unit, protocol_error) outcome \<times> bytes" where
  "encode_nodes [] buffer = (Ok (), buffer)"
| "encode_nodes (node # nodes) buffer =
    step_bind (encode_string (cn_host node) (buffer @ put_u32 (cn_id node))) (\<lambda>_ buffer.
    encode_nodes nodes (buffer @ put_u16 (cn_port node) @ put_u16 (cn_admin_port node)
      @ put_u16 (cn_replication_port node)))"

definition encode_cluster_metadata ::
    "cluster_metadata \<Rightarrow> bytes \<Rightarrow> (unit, protocol_error) outcome \<times> bytes" where
  "encode_cluster_metadata metadata buffer =
    (if cm_nodes metadata = [] \<or> length (cm_nodes metadata) > MAX_CLUSTER_NODES
     then (Err InvalidClusterMetadata, buffer)
     else let start = length buffer;
              buffer = buffer @ put_u32 0 @ [CLUSTER_METADATA_RESPONSE]
                @ put_u32 (cm_responding_broker_id metadata) in
       step_bind (ok_or (try_from (length (cm_nodes metadata))) FrameTooLarge, buffer) (\<lambda>n buffer.
       step_bind (encode_nodes (cm_nodes metadata) (buffer @ put_u32 n)) (\<lambda>_ buffer.
       set_frame_len buffer start)))"

text \<open>\<open>JoinGroup\<close> computes its frame length in 32 bits; the sum overflows (a panic with overflow
  checks) from about a billion partitions on.\<close>

fun encode_response :: "response \<Rightarrow> bytes \<Rightarrow> (unit, protocol_error) outcome \<times> bytes" where
  "encode_response (RProduceAck ack) buffer =
    (Ok (), buffer @ put_u32 (1 + 4 + 8) @ [PRODUCE_ACK]
      @ put_u32 (pa_partition ack) @ put_u64 (pa_offset ack))"
| "encode_response (RProduceBatchAck acks) buffer =
    (let start = length buffer; buffer = buffer @ put_u32 0 @ [PRODUCE_BATCH_ACK] in
     step_bind (ok_or (try_from (length acks)) InvalidBatchCount, buffer) (\<lambda>n buffer.
     set_frame_len (buffer @ put_u32 n @ concat (map ack_bytes acks)) start))"
| "encode_response (RFetch records) buffer = encode_fetch_response records buffer"
| "encode_response (RJoinGroup response) buffer =
    step_bind (ok_or (try_from (length (jg_partitions response)) :: u32 option) FrameTooLarge, buffer)
      (\<lambda>n buffer.
     if 1 + 8 + 4 + unat n * 4 \<ge> 2 ^ 32 then (Panic, buffer)
     else (Ok (), buffer @ put_u32 (1 + 8 + 4 + n * 4) @ [JOIN_GROUP_RESPONSE]
       @ put_u64 (jg_generation response) @ put_u32 n
       @ concat (map put_u32 (jg_partitions response))))"
| "encode_response RGroupAck buffer = (Ok (), buffer @ put_u32 1 @ [GROUP_ACK])"
| "encode_response (RCommittedOffset offset) buffer =
    (Ok (), buffer @ put_u32 (1 + 1 + 8) @ [COMMITTED_OFFSET_RESPONSE]
      @ [if offset \<noteq> None then 1 else 0]
      @ put_u64 (case offset of None \<Rightarrow> 0 | Some x \<Rightarrow> x))"
| "encode_response (RTopics topics) buffer = encode_topics_response topics buffer"
| "encode_response (RClusterMetadata metadata) buffer = encode_cluster_metadata metadata buffer"
| "encode_response (RLeadershipChanged leadership) buffer =
    (Ok (), buffer @ put_u32 (1 + 4 + 4 + 8 + 8) @ [LEADERSHIP_CHANGED]
      @ put_u32 (pl_partition leadership) @ put_u32 (pl_leader_id leadership)
      @ put_u64 (pl_leader_epoch leadership) @ put_u64 (pl_high_watermark leadership))"
| "encode_response (RPartitionStatus next_offset) buffer =
    (Ok (), buffer @ put_u32 (1 + 8) @ [PARTITION_STATUS_RESPONSE] @ put_u64 next_offset)"
| "encode_response (RError message) buffer = encode_string_response ERROR_RESPONSE message buffer"

section \<open>Decoding\<close>

definition usize_checked_mul :: "nat \<Rightarrow> nat \<Rightarrow> nat option" where
  "usize_checked_mul a b = (if a * b \<le> usize_max then Some (a * b) else None)"

text \<open>\<open>(0..count).map(|_| frame.get_*()).collect()\<close>, for each element type.\<close>

fun get_u32s :: "nat \<Rightarrow> bytes \<Rightarrow> (u32 list \<times> bytes, protocol_error) outcome" where
  "get_u32s 0 frame = Ok ([], frame)"
| "get_u32s (Suc n) frame =
    try_bind (get_u32 frame) (\<lambda>(x, frame).
    try_bind (get_u32s n frame) (\<lambda>(xs, frame). Ok (x # xs, frame)))"

fun get_u64s :: "nat \<Rightarrow> bytes \<Rightarrow> (u64 list \<times> bytes, protocol_error) outcome" where
  "get_u64s 0 frame = Ok ([], frame)"
| "get_u64s (Suc n) frame =
    try_bind (get_u64 frame) (\<lambda>(x, frame).
    try_bind (get_u64s n frame) (\<lambda>(xs, frame). Ok (x # xs, frame)))"

fun get_acks :: "nat \<Rightarrow> bytes \<Rightarrow> (produce_ack list \<times> bytes, protocol_error) outcome" where
  "get_acks 0 frame = Ok ([], frame)"
| "get_acks (Suc n) frame =
    try_bind (get_u32 frame) (\<lambda>(part, frame).
    try_bind (get_u64 frame) (\<lambda>(offset, frame).
    try_bind (get_acks n frame) (\<lambda>(acks, frame).
    Ok (\<lparr>pa_partition = part, pa_offset = offset\<rparr> # acks, frame))))"

fun decode_fetched_records ::
    "nat \<Rightarrow> bytes \<Rightarrow> (fetched_record list \<times> bytes, protocol_error) outcome" where
  "decode_fetched_records 0 frame = Ok ([], frame)"
| "decode_fetched_records (Suc count) frame =
    try_bind (ensure_remaining frame (8 * 2 + 4 + 4)) (\<lambda>_.
    try_bind (get_u64 frame) (\<lambda>(offset, frame).
    try_bind (get_u64 frame) (\<lambda>(timestamp_ms, frame).
    try_bind (get_u32 frame) (\<lambda>(key_len, frame).
    try_bind (get_u32 frame) (\<lambda>(value_len, frame).
    try_bind (if sint key_len = - 1 then Ok (None, frame)
        else if 0 \<le> sint key_len then
          try_bind (read_bytes frame (nat (sint key_len))) (\<lambda>(key, frame). Ok (Some key, frame))
        else Err InvalidFrame) (\<lambda>(key, frame).
    try_bind (read_bytes frame (unat value_len)) (\<lambda>(v, frame).
    try_bind (decode_fetched_records count frame) (\<lambda>(records, frame).
    Ok (\<lparr>fd_offset = offset, fd_timestamp_ms = timestamp_ms, fd_key = key, fd_value = v\<rparr>
        # records, frame)))))))))"

definition decode_fetch_response :: "bytes \<Rightarrow> (fetched_record list, protocol_error) outcome" where
  "decode_fetch_response frame =
    try_bind (ensure_remaining frame 4) (\<lambda>_.
    try_bind (get_u32 frame) (\<lambda>(record_count, frame).
    try_bind (decode_fetched_records (unat record_count) frame) (\<lambda>(records, frame).
    if frame \<noteq> [] then Err InvalidFrame else Ok records)))"

fun decode_topic_entries ::
    "nat \<Rightarrow> bytes \<Rightarrow> (topic_metadata list \<times> bytes, protocol_error) outcome" where
  "decode_topic_entries 0 frame = Ok ([], frame)"
| "decode_topic_entries (Suc count) frame =
    try_bind (decode_string frame) (\<lambda>(topic, frame).
    try_bind (ensure_remaining frame 8) (\<lambda>_.
    try_bind (get_u32 frame) (\<lambda>(partitions, frame).
    try_bind (read_u32_len frame) (\<lambda>(leader_count, frame).
    if partitions = 0 \<or> (leader_count \<noteq> 0 \<and> leader_count \<noteq> unat partitions)
    then Err InvalidPartitionCount else
    try_bind (ok_or (usize_checked_mul leader_count 4) InvalidFrame) (\<lambda>required.
    try_bind (ensure_remaining frame required) (\<lambda>_.
    try_bind (get_u32s leader_count frame) (\<lambda>(leaders, frame).
    try_bind (ok_or (usize_checked_mul leader_count 8) InvalidFrame) (\<lambda>required.
    try_bind (ensure_remaining frame required) (\<lambda>_.
    try_bind (get_u64s leader_count frame) (\<lambda>(leader_epochs, frame).
    try_bind (ok_or (usize_checked_mul leader_count 8) InvalidFrame) (\<lambda>required.
    try_bind (ensure_remaining frame required) (\<lambda>_.
    try_bind (get_u64s leader_count frame) (\<lambda>(high_watermarks, frame).
    try_bind (decode_topic_entries count frame) (\<lambda>(topics, frame).
    Ok (\<lparr>tm_topic = topic, tm_partitions = partitions, tm_leaders = leaders,
         tm_leader_epochs = leader_epochs, tm_high_watermarks = high_watermarks\<rparr>
        # topics, frame)))))))))))))))"

text \<open>The code reserves memory for the announced number of topics before it reads them; that this can fail is not modelled.\<close>

definition decode_topics_response :: "bytes \<Rightarrow> (topic_metadata list, protocol_error) outcome" where
  "decode_topics_response frame =
    try_bind (ensure_remaining frame 4) (\<lambda>_.
    try_bind (read_u32_len frame) (\<lambda>(count, frame).
    try_bind (decode_topic_entries count frame) (\<lambda>(topics, frame).
    try_bind (ensure_empty frame) (\<lambda>_. Ok topics))))"

fun decode_nodes :: "nat \<Rightarrow> bytes \<Rightarrow> (cluster_node list \<times> bytes, protocol_error) outcome" where
  "decode_nodes 0 frame = Ok ([], frame)"
| "decode_nodes (Suc count) frame =
    try_bind (ensure_remaining frame 4) (\<lambda>_.
    try_bind (get_u32 frame) (\<lambda>(nid, frame).
    try_bind (decode_string frame) (\<lambda>(host, frame).
    try_bind (ensure_remaining frame 6) (\<lambda>_.
    try_bind (get_u16 frame) (\<lambda>(port, frame).
    try_bind (get_u16 frame) (\<lambda>(admin_port, frame).
    try_bind (get_u16 frame) (\<lambda>(replication_port, frame).
    try_bind (decode_nodes count frame) (\<lambda>(nodes, frame).
    Ok (\<lparr>cn_id = nid, cn_host = host, cn_port = port, cn_admin_port = admin_port,
         cn_replication_port = replication_port\<rparr> # nodes, frame)))))))))"

definition decode_cluster_metadata :: "bytes \<Rightarrow> (cluster_metadata, protocol_error) outcome" where
  "decode_cluster_metadata frame =
    try_bind (ensure_remaining frame 8) (\<lambda>_.
    try_bind (get_u32 frame) (\<lambda>(responding_broker_id, frame).
    try_bind (read_u32_len frame) (\<lambda>(count, frame).
    if count = 0 \<or> count > MAX_CLUSTER_NODES then Err InvalidClusterMetadata else
    try_bind (decode_nodes count frame) (\<lambda>(nodes, frame).
    try_bind (ensure_empty frame) (\<lambda>_.
    Ok \<lparr>cm_responding_broker_id = responding_broker_id, cm_nodes = nodes\<rparr>)))))"

definition decode_batch_acks :: "bytes \<Rightarrow> (produce_ack list, protocol_error) outcome" where
  "decode_batch_acks frame =
    try_bind (ensure_remaining frame 4) (\<lambda>_.
    try_bind (get_u32 frame) (\<lambda>(count, frame).
    if count = 0 \<or> unat count > MAX_BATCH_MESSAGES then Err InvalidBatchCount else
    try_bind (ok_or (usize_checked_mul (unat count) (4 + 8)) InvalidFrame) (\<lambda>required.
    try_bind (ensure_remaining frame required) (\<lambda>_.
    try_bind (get_acks (unat count) frame) (\<lambda>(acks, frame).
    try_bind (ensure_empty frame) (\<lambda>_. Ok acks))))))"

definition decode_join_group :: "bytes \<Rightarrow> (join_group_response, protocol_error) outcome" where
  "decode_join_group frame =
    try_bind (ensure_remaining frame 12) (\<lambda>_.
    try_bind (get_u64 frame) (\<lambda>(generation, frame).
    try_bind (get_u32 frame) (\<lambda>(count, frame).
    try_bind (ok_or (usize_checked_mul (unat count) 4) FrameTooLarge) (\<lambda>required.
    try_bind (ensure_remaining frame required) (\<lambda>_.
    try_bind (get_u32s (unat count) frame) (\<lambda>(partitions, frame).
    if frame \<noteq> [] then Err InvalidFrame
    else Ok \<lparr>jg_generation = generation, jg_partitions = partitions\<rparr>))))))"

definition decode_response_frame ::
    "u8 \<Rightarrow> bytes \<Rightarrow> (response option, protocol_error) outcome" where
  "decode_response_frame opcode frame =
    (if opcode = PRODUCE_ACK then
       if length frame \<noteq> 4 + 8 then Err InvalidFrame
       else try_bind (get_u32 frame) (\<lambda>(part, frame).
         try_bind (get_u64 frame) (\<lambda>(offset, _).
         Ok (Some (RProduceAck \<lparr>pa_partition = part, pa_offset = offset\<rparr>))))
     else if opcode = PRODUCE_BATCH_ACK then map_ok (Some \<circ> RProduceBatchAck) (decode_batch_acks frame)
     else if opcode = FETCH_RESPONSE then map_ok (Some \<circ> RFetch) (decode_fetch_response frame)
     else if opcode = JOIN_GROUP_RESPONSE then map_ok (Some \<circ> RJoinGroup) (decode_join_group frame)
     else if opcode = GROUP_ACK \<and> frame = [] then Ok (Some RGroupAck)
     else if opcode = COMMITTED_OFFSET_RESPONSE then
       try_bind (ensure_remaining frame 9) (\<lambda>_.
       try_bind (get_u8 frame) (\<lambda>(found, frame).
       try_bind (get_u64 frame) (\<lambda>(offset, frame).
       if frame \<noteq> [] \<or> found > 1 then Err InvalidFrame
       else Ok (Some (RCommittedOffset (if found = 1 then Some offset else None))))))
     else if opcode = TOPICS_RESPONSE then map_ok (Some \<circ> RTopics) (decode_topics_response frame)
     else if opcode = CLUSTER_METADATA_RESPONSE
       then map_ok (Some \<circ> RClusterMetadata) (decode_cluster_metadata frame)
     else if opcode = LEADERSHIP_CHANGED \<and> length frame = 24 then
       try_bind (get_u32 frame) (\<lambda>(part, frame).
       try_bind (get_u32 frame) (\<lambda>(leader_id, frame).
       try_bind (get_u64 frame) (\<lambda>(leader_epoch, frame).
       try_bind (get_u64 frame) (\<lambda>(high_watermark, _).
       Ok (Some (RLeadershipChanged \<lparr>pl_partition = part, pl_leader_id = leader_id,
         pl_leader_epoch = leader_epoch, pl_high_watermark = high_watermark\<rparr>))))))
     else if opcode = PARTITION_STATUS_RESPONSE \<and> length frame = 8 then
       try_bind (get_u64 frame) (\<lambda>(next_offset, _). Ok (Some (RPartitionStatus next_offset)))
     else if opcode = ERROR_RESPONSE then
       try_bind (decode_string frame) (\<lambda>(message, frame).
       try_bind (ensure_empty frame) (\<lambda>_. Ok (Some (RError message))))
     else Err (UnknownOpcode opcode))"

definition take_response_frame :: "bytes \<Rightarrow> (bytes option, protocol_error) outcome \<times> bytes" where
  "take_response_frame buffer =
    (if length buffer < FRAME_HEADER_SIZE then (Ok None, buffer)
     else let frame_len = from_be_bytes 0 (take FRAME_HEADER_SIZE buffer) in
       if frame_len = 0 then (Err InvalidFrame, buffer)
       else if frame_len > MAX_FRAME_SIZE then (Err FrameTooLarge, buffer)
       else if length buffer < FRAME_HEADER_SIZE + frame_len then (Ok None, buffer)
       else let buffer = drop FRAME_HEADER_SIZE buffer in
         (Ok (Some (take frame_len buffer)), drop frame_len buffer))"

definition decode_response :: "bytes \<Rightarrow> (response option, protocol_error) outcome \<times> bytes" where
  "decode_response buffer =
    step_bind (take_response_frame buffer) (\<lambda>f buffer.
    case f of
      None \<Rightarrow> (Ok None, buffer)
    | Some frame \<Rightarrow>
        (try_bind (get_u8 frame) (\<lambda>(opcode, frame). decode_response_frame opcode frame), buffer))"

section \<open>The frame each response is sent as\<close>

definition fetched_bytes :: "fetched_record \<Rightarrow> bytes" where
  "fetched_bytes r = put_u64 (fd_offset r) @ put_u64 (fd_timestamp_ms r)
     @ put_u32 (case fd_key r of None \<Rightarrow> - 1 | Some k \<Rightarrow> word_of_nat (length k))
     @ put_u32 (word_of_nat (length (fd_value r)))
     @ (case fd_key r of None \<Rightarrow> [] | Some k \<Rightarrow> k) @ fd_value r"

definition topic_bytes :: "topic_metadata \<Rightarrow> bytes" where
  "topic_bytes t = string_bytes (tm_topic t) @ put_u32 (tm_partitions t)
     @ put_u32 (word_of_nat (length (tm_leaders t))) @ concat (map put_u32 (tm_leaders t))
     @ concat (map put_u64 (tm_leader_epochs t)) @ concat (map put_u64 (tm_high_watermarks t))"

definition node_bytes :: "cluster_node \<Rightarrow> bytes" where
  "node_bytes n = put_u32 (cn_id n) @ string_bytes (cn_host n) @ put_u16 (cn_port n)
     @ put_u16 (cn_admin_port n) @ put_u16 (cn_replication_port n)"

fun response_body :: "response \<Rightarrow> bytes" where
  "response_body (RProduceAck a) = PRODUCE_ACK # ack_bytes a"
| "response_body (RProduceBatchAck as) =
    PRODUCE_BATCH_ACK # put_u32 (word_of_nat (length as)) @ concat (map ack_bytes as)"
| "response_body (RFetch rs) =
    FETCH_RESPONSE # put_u32 (word_of_nat (length rs)) @ concat (map fetched_bytes rs)"
| "response_body (RJoinGroup j) =
    JOIN_GROUP_RESPONSE # put_u64 (jg_generation j)
      @ put_u32 (word_of_nat (length (jg_partitions j))) @ concat (map put_u32 (jg_partitions j))"
| "response_body RGroupAck = [GROUP_ACK]"
| "response_body (RCommittedOffset x) =
    [COMMITTED_OFFSET_RESPONSE, if x \<noteq> None then 1 else 0]
      @ put_u64 (case x of None \<Rightarrow> 0 | Some y \<Rightarrow> y)"
| "response_body (RTopics ts) =
    TOPICS_RESPONSE # put_u32 (word_of_nat (length ts)) @ concat (map topic_bytes ts)"
| "response_body (RClusterMetadata m) =
    CLUSTER_METADATA_RESPONSE # put_u32 (cm_responding_broker_id m)
      @ put_u32 (word_of_nat (length (cm_nodes m))) @ concat (map node_bytes (cm_nodes m))"
| "response_body (RLeadershipChanged l) =
    LEADERSHIP_CHANGED # put_u32 (pl_partition l) @ put_u32 (pl_leader_id l)
      @ put_u64 (pl_leader_epoch l) @ put_u64 (pl_high_watermark l)"
| "response_body (RPartitionStatus n) = PARTITION_STATUS_RESPONSE # put_u64 n"
| "response_body (RError m) = ERROR_RESPONSE # string_bytes m"

text \<open>A response the peer accepts: its strings are UTF-8, its frame is within the limit, and a
  batch acknowledgement has between one and \<open>MAX_BATCH_MESSAGES\<close> entries (the broker sends
  one per record of an accepted batch).\<close>

definition response_wf :: "response \<Rightarrow> bool" where
  "response_wf r \<longleftrightarrow> response_ok r \<and> length (response_body r) \<le> MAX_FRAME_SIZE \<and>
     (\<forall>acks. r = RProduceBatchAck acks \<longrightarrow> acks \<noteq> [] \<and> length acks \<le> MAX_BATCH_MESSAGES)"

section \<open>What is encoded decodes to the same response\<close>

lemma length_concat_put [simp]:
  "length (concat (map put_u32 xs)) = 4 * length xs"
  "length (concat (map put_u64 ys)) = 8 * length ys"
  "length (concat (map ack_bytes as)) = 12 * length as"
  by (induction xs, auto) (induction ys, auto, induction as, auto simp: ack_bytes_def)

lemma get_lists_put [simp]:
  "get_u32s (length xs) (concat (map put_u32 xs) @ r) = Ok (xs, r)"
  "get_u64s (length ys) (concat (map put_u64 ys) @ r) = Ok (ys, r)"
  "get_acks (length as) (concat (map ack_bytes as) @ r) = Ok (as, r)"
  by (induction xs, auto) (induction ys, auto, induction as, auto simp: ack_bytes_def)

lemmas get_lists_put_end [simp] = get_lists_put [where r = "[]", simplified]

lemma usize_checked_mul_small [simp]:
  "a < 4294967296 \<Longrightarrow> b \<le> 12 \<Longrightarrow> usize_checked_mul a b = Some (a * b)"
  using mult_mono [of a 4294967295 b 12] by (auto simp: usize_checked_mul_def)

definition fetched_sizes_ok :: "fetched_record \<Rightarrow> bool" where
  "fetched_sizes_ok r \<longleftrightarrow> pred_option (\<lambda>k. length k < 2147483648) (fd_key r) \<and>
     length (fd_value r) < 4294967296"

lemma encode_fetched_records_Ok:
  "encode_fetched_records rs b = (Ok u, out) \<Longrightarrow>
     list_all fetched_sizes_ok rs \<and> out = b @ concat (map fetched_bytes rs)"
  by (induction rs arbitrary: b)
     (fastforce simp: outcome_simps Let_def fetched_bytes_def fetched_sizes_ok_def try_from_def
       i32_try_from_def split: option.splits if_splits)+

lemma decode_fetched_record:
  assumes "fetched_sizes_ok r" and "decode_fetched_records n rest = Ok (rs, rest')"
  shows "decode_fetched_records (Suc n) (fetched_bytes r @ rest) = Ok (r # rs, rest')"
  using assms
  by (cases r; cases "fd_key r")
     (simp_all add: fetched_bytes_def fetched_sizes_ok_def unat_word_of_nat_small
       sint_word_of_nat_i32)

lemma decode_fetched_records_bytes:
  "list_all fetched_sizes_ok rs \<Longrightarrow>
     decode_fetched_records (length rs) (concat (map fetched_bytes rs)) = Ok (rs, [])"
  by (induction rs) (simp_all add: decode_fetched_record del: decode_fetched_records.simps(2))

lemma encode_topic_entries_Ok:
  "encode_topic_entries ts b = (Ok u, out) \<Longrightarrow>
     list_all topic_metadata_ok ts \<and> list_all (\<lambda>t. length (tm_topic t) < 65536) ts \<and>
     out = b @ concat (map topic_bytes ts)"
  by (induction ts arbitrary: b)
     (fastforce simp: outcome_simps Let_def topic_bytes_def try_from_def split: if_splits)+

lemma decode_topic_entry:
  assumes "topic_metadata_ok t" and "length (tm_topic t) < 65536" and "utf8_string (tm_topic t)"
    and "decode_topic_entries n rest = Ok (ts, rest')"
  shows "decode_topic_entries (Suc n) (topic_bytes t @ rest) = Ok (t # ts, rest')"
proof -
  have l: "length (tm_leaders t) < 4294967296"
    using assms(1) by (cases "tm_leaders t") (auto simp: topic_metadata_ok_def)
  have e: "length (tm_leader_epochs t) = length (tm_leaders t)"
    "length (tm_high_watermarks t) = length (tm_leaders t)"
    using assms(1) by (auto simp: topic_metadata_ok_def)
  have g: "get_u64s (length (tm_leaders t)) (concat (map put_u64 (tm_leader_epochs t)) @ r) =
        Ok (tm_leader_epochs t, r)"
    "get_u64s (length (tm_leaders t)) (concat (map put_u64 (tm_high_watermarks t)) @ r) =
        Ok (tm_high_watermarks t, r)" for r
    using get_lists_put(2) [of "tm_leader_epochs t"] get_lists_put(2) [of "tm_high_watermarks t"] e
    by auto
  show ?thesis
    using assms l e g
    by (auto simp: topic_bytes_def unat_word_of_nat_small topic_metadata_ok_def)
qed

lemma decode_topic_entries_bytes:
  "list_all topic_metadata_ok ts \<Longrightarrow> list_all (\<lambda>t. length (tm_topic t) < 65536) ts \<Longrightarrow>
     list_all (\<lambda>t. utf8_string (tm_topic t)) ts \<Longrightarrow>
     decode_topic_entries (length ts) (concat (map topic_bytes ts)) = Ok (ts, [])"
  by (induction ts) (simp_all add: decode_topic_entry del: decode_topic_entries.simps(2))

lemma encode_nodes_Ok:
  "encode_nodes ns b = (Ok u, out) \<Longrightarrow>
     list_all (\<lambda>n. length (cn_host n) < 65536) ns \<and> out = b @ concat (map node_bytes ns)"
  by (induction ns arbitrary: b) (fastforce simp: outcome_simps node_bytes_def)+

lemma decode_nodes_bytes:
  "list_all (\<lambda>n. length (cn_host n) < 65536) ns \<Longrightarrow> list_all (\<lambda>n. utf8_string (cn_host n)) ns \<Longrightarrow>
     decode_nodes (length ns) (concat (map node_bytes ns)) = Ok (ns, [])"
  by (induction ns) (auto simp: node_bytes_def)

text \<open>\<open>sent_as r b out\<close>: the output extends the buffer by the frame of \<open>r\<close>, which decodes to \<open>r\<close>.\<close>

definition sent_as :: "response \<Rightarrow> bytes \<Rightarrow> bytes \<Rightarrow> bool" where
  "sent_as r b out \<longleftrightarrow> out = b @ frame_of (response_body r) \<and>
     decode_response_frame (hd (response_body r)) (tl (response_body r)) = Ok (Some r)"

lemma sent_as_RFetch:
  assumes "encode_fetch_response rs b = (Ok u, out)"
    and "length (response_body (RFetch rs)) \<le> MAX_FRAME_SIZE"
  shows "sent_as (RFetch rs) b out"
proof -
  have n: "length rs < 4294967296"
    using assms(1) by (auto simp: encode_fetch_response_def outcome_simps Let_def try_from_def
        split: if_splits)
  then obtain mid where m: "encode_fetched_records rs (b @ put_u32 0 @ FETCH_RESPONSE
      # put_u32 (word_of_nat (length rs))) = (Ok (), mid)"
    using assms(1) by (auto simp: encode_fetch_response_def outcome_simps Let_def try_from_def
        split: if_splits)
  from encode_fetched_records_Ok [OF m] have ok: "list_all fetched_sizes_ok rs"
    and mid: "mid = b @ put_u32 0 @ response_body (RFetch rs)" by auto
  have "out = b @ frame_of (response_body (RFetch rs))"
    using assms n m mid by (simp add: encode_fetch_response_def outcome_simps Let_def try_from_def
        frame_of_def split: if_splits)
  then show ?thesis
    using n decode_fetched_records_bytes [OF ok]
    by (simp add: sent_as_def decode_response_frame_def decode_fetch_response_def
        unat_word_of_nat_small)
qed

lemma sent_as_RTopics:
  assumes "encode_topics_response ts b = (Ok u, out)" and "response_ok (RTopics ts)"
  shows "sent_as (RTopics ts) b out"
proof -
  have n: "length ts < 4294967296"
    using assms(1) by (auto simp: encode_topics_response_def outcome_simps Let_def try_from_def
        split: if_splits)
  then obtain mid where m: "encode_topic_entries ts (b @ put_u32 0 @ TOPICS_RESPONSE
      # put_u32 (word_of_nat (length ts))) = (Ok (), mid)"
    and s: "set_frame_len mid (length b) = (Ok u, out)"
    using assms(1) by (auto simp: encode_topics_response_def outcome_simps Let_def try_from_def
        split: if_splits)
  note t = encode_topic_entries_Ok [OF m]
  then have "mid = b @ put_u32 0 @ response_body (RTopics ts)" by simp
  with s have "out = b @ frame_of (response_body (RTopics ts))"
    by (simp only: set_frame_len_Ok)
  then show ?thesis
    using n t assms(2) decode_topic_entries_bytes [of ts]
    by (simp add: sent_as_def decode_response_frame_def decode_topics_response_def
        unat_word_of_nat_small)
qed

lemma sent_as_RClusterMetadata:
  assumes "encode_cluster_metadata m b = (Ok u, out)" and "response_ok (RClusterMetadata m)"
  shows "sent_as (RClusterMetadata m) b out"
proof -
  have n: "cm_nodes m \<noteq> []" "length (cm_nodes m) \<le> MAX_CLUSTER_NODES"
    using assms(1) by (auto simp: encode_cluster_metadata_def split: if_splits)
  then obtain mid where e: "encode_nodes (cm_nodes m) (b @ put_u32 0 @ CLUSTER_METADATA_RESPONSE
      # put_u32 (cm_responding_broker_id m) @ put_u32 (word_of_nat (length (cm_nodes m)))) = (Ok (), mid)"
    and s: "set_frame_len mid (length b) = (Ok u, out)"
    using assms(1)
    by (auto simp: encode_cluster_metadata_def outcome_simps Let_def try_from_def split: if_splits)
  note t = encode_nodes_Ok [OF e]
  then have "mid = b @ put_u32 0 @ response_body (RClusterMetadata m)" by simp
  with s have "out = b @ frame_of (response_body (RClusterMetadata m))"
    by (simp only: set_frame_len_Ok)
  then show ?thesis
    using n t assms(2) decode_nodes_bytes [of "cm_nodes m"]
    by (simp add: sent_as_def decode_response_frame_def decode_cluster_metadata_def
        unat_word_of_nat_small)
qed

lemma encode_response_sent_as:
  assumes "response_wf r" and "encode_response r b = (Ok u, out)"
  shows "sent_as r b out"
proof (cases r)
  case (RProduceBatchAck acks)
  with assms show ?thesis
    by (auto simp: sent_as_def response_wf_def outcome_simps Let_def try_from_def
        decode_response_frame_def decode_batch_acks_def unat_word_of_nat_small frame_of_def
        set_frame_len_def word_of_nat_eq_0_iff dest: dvd_imp_le)
next
  case (RJoinGroup j)
  with assms have "length (jg_partitions j) < 4294967296"
    by (auto simp: outcome_simps try_from_def split: if_splits)
  with RJoinGroup assms show ?thesis
    by (auto simp: sent_as_def outcome_simps try_from_def decode_response_frame_def
        decode_join_group_def unat_word_of_nat_small frame_of_def mult.commute split: if_splits)
next
  case (RError m)
  with assms show ?thesis
    by (auto simp: sent_as_def response_wf_def outcome_simps decode_response_frame_def)
next
  case (RFetch rs)
  with assms show ?thesis by (auto simp: response_wf_def intro: sent_as_RFetch)
next
  case (RTopics ts)
  with assms show ?thesis by (auto simp: response_wf_def intro: sent_as_RTopics)
next
  case (RClusterMetadata m)
  with assms show ?thesis by (auto simp: response_wf_def intro: sent_as_RClusterMetadata)
qed (use assms in \<open>auto simp: sent_as_def decode_response_frame_def frame_of_def ack_bytes_def
       split: option.splits\<close>)

section \<open>The response codec as a framed codec\<close>

lemma take_response_frame_eq: "take_response_frame = take_frame"
  by (rule ext) (simp add: take_response_frame_def take_frame_def Let_def)

definition decode_response_body :: "bytes \<Rightarrow> (response option, protocol_error) outcome" where
  "decode_response_body frame =
    try_bind (get_u8 frame) (\<lambda>(opcode, frame). decode_response_frame opcode frame)"

lemma decode_response_on_frame: "decode_response = on_frame decode_response_body"
  by (rule ext) (simp add: decode_response_def on_frame_def take_response_frame_eq
      decode_response_body_def cong: option.case_cong)

lemma response_body_not_Nil [simp]: "response_body r \<noteq> []"
  by (cases r) auto

lemma decode_response_body_sent:
  "sent_as r b out \<Longrightarrow> decode_response_body (response_body r) = Ok (Some r)"
  by (cases "response_body r") (auto simp: sent_as_def decode_response_body_def)

interpretation resp: framed_codec encode_response decode_response response_wf
proof unfold_locales
  show "decode_response [] = (Ok None, [])"
    by (simp add: decode_response_def take_response_frame_def)
next
  fix m buf out
  assume w: "response_wf m" and "encode_response m buf = (Ok (), out)"
  then have s: "sent_as m buf out" by (rule encode_response_sent_as)
  with w decode_response_body_sent [OF s]
  show "\<exists>frame. out = buf @ frame \<and> frame \<noteq> [] \<and>
      (\<forall>rest. decode_response (frame @ rest) = (Ok (Some m), rest)) \<and>
      (\<forall>n<length frame. decode_response (take n frame) = (Ok None, take n frame))"
    by (intro exI [of _ "frame_of (response_body m)"])
       (auto simp: decode_response_on_frame sent_as_def response_wf_def on_frame_frame_of
         on_frame_partial simp del: length_frame_of)
qed

section \<open>The decoder on arbitrary bytes\<close>

lemma get_lists_not_Panic [simp]:
  "4 * n \<le> length b \<Longrightarrow> get_u32s n b \<noteq> Panic" "8 * n \<le> length b \<Longrightarrow> get_u64s n b \<noteq> Panic"
  "12 * n \<le> length b \<Longrightarrow> get_acks n b \<noteq> Panic"
  by (induction n arbitrary: b; auto simp: try_bind_Panic_iff dest!: get_length)+

lemma decode_loops_not_Panic [simp]:
  "decode_fetched_records n b \<noteq> Panic" "decode_topic_entries n b \<noteq> Panic"
  "decode_nodes n b \<noteq> Panic"
  by (induction n arbitrary: b; auto simp: try_bind_Panic_iff usize_checked_mul_def ok_or_eq_Ok
      dest!: get_length split: if_splits)+

lemma response_decoders_not_Panic [simp]:
  "decode_fetch_response b \<noteq> Panic" "decode_topics_response b \<noteq> Panic"
  "decode_cluster_metadata b \<noteq> Panic" "decode_batch_acks b \<noteq> Panic" "decode_join_group b \<noteq> Panic"
  by (auto simp: decode_fetch_response_def decode_topics_response_def decode_cluster_metadata_def
      decode_batch_acks_def decode_join_group_def try_bind_Panic_iff usize_checked_mul_def
      ok_or_eq_Ok dest!: get_length split: if_splits)

lemma decode_response_frame_not_Panic [simp]: "decode_response_frame op f \<noteq> Panic"
  by (auto simp: decode_response_frame_def try_bind_Panic_iff dest!: get_length split: if_splits)

lemma decode_topic_entries_utf8:
  "decode_topic_entries n b = Ok (ts, r) \<Longrightarrow> list_all (\<lambda>t. utf8_string (tm_topic t)) ts"
  by (induction n arbitrary: b ts)
     (fastforce simp: outcome_simps split: if_splits dest!: decode_string_Ok_utf8)+

lemma decode_nodes_utf8:
  "decode_nodes n b = Ok (ns, r) \<Longrightarrow> list_all (\<lambda>n. utf8_string (cn_host n)) ns"
  by (induction n arbitrary: b ns)
     (fastforce simp: outcome_simps dest!: decode_string_Ok_utf8)+

lemma decode_response_frame_ok: "decode_response_frame op f = Ok (Some m) \<Longrightarrow> response_ok m"
  by (auto simp: decode_response_frame_def outcome_simps decode_topics_response_def
      decode_cluster_metadata_def split: if_splits
      dest!: decode_string_Ok_utf8 dest: decode_topic_entries_utf8 decode_nodes_utf8)

section \<open>Properties\<close>

definition sample_fetch :: response where
  "sample_fetch = RFetch [\<lparr>fd_offset = 4, fd_timestamp_ms = 1700, fd_key = None, fd_value = [1, 2]\<rparr>,
     \<lparr>fd_offset = 5, fd_timestamp_ms = 1701, fd_key = Some [], fd_value = []\<rparr>]"

definition sample_topics :: response where
  "sample_topics = RTopics [\<lparr>tm_topic = ''a'', tm_partitions = 2, tm_leaders = [1, 2],
     tm_leader_epochs = [3, 4], tm_high_watermarks = [5, 6]\<rparr>]"

lemma samples_wf: "response_wf sample_fetch" "response_wf sample_topics"
  by (simp_all add: response_wf_def sample_fetch_def sample_topics_def fetched_bytes_def
      topic_bytes_def utf8_string_def as_bytes_def byte_of_char_def)

lemma samples_encode:
  "encode_response sample_fetch b = (Ok (), snd (encode_response sample_fetch b))"
  "encode_response sample_topics b = (Ok (), snd (encode_response sample_topics b))"
  by (simp_all add: sample_fetch_def sample_topics_def encode_fetch_response_def
      encode_topics_response_def topic_metadata_ok_def encode_string_def try_from_def
      i32_try_from_def set_frame_len_def Let_def)

text \<open>C31: For any sequence of well-formed responses the broker encodes and any way the socket splits
  their bytes, the client's decoder delivers exactly these responses in order and consumes all
  bytes; keys that are absent and keys that are empty stay apart.\<close>

theorem response_stream:
  assumes "list_all response_wf rs" and "list_all (\<lambda>r. fst (encode_response r []) = Ok ()) rs"
    and "concat chunks = concat (map (\<lambda>r. snd (encode_response r [])) rs)"
  shows "feed decode_response [] chunks = (rs, Ok (), [])"
proof (rule resp.feed_stream)
  show "list_all resp.sendable rs"
    unfolding list_all_iff resp.sendable_def using assms by (auto simp: list_all_iff)
  show "concat chunks = concat (map resp.wire_bytes rs)"
    unfolding resp.wire_bytes_def using assms by simp
qed

theorem response_stream_witness:
  "feed decode_response [] [snd (encode_response sample_fetch []) @
       take 3 (snd (encode_response sample_topics [])),
       drop 3 (snd (encode_response sample_topics []))] = ([sample_fetch, sample_topics], Ok (), [])"
proof (rule response_stream)
  show "list_all (\<lambda>r. fst (encode_response r []) = Ok ()) [sample_fetch, sample_topics]"
    unfolding list.pred_inject
    by (subst samples_encode, subst samples_encode) (simp only: fst_conv simp_thms list.pred_inject)
qed (use samples_wf in simp_all)

text \<open>On arbitrary bytes from the broker the client's response decoder never panics, and the
  strings of every response it returns are UTF-8.\<close>

theorem decode_response_safe:
  "fst (decode_response buf) \<noteq> Panic \<and>
   (\<forall>r rest. decode_response buf = (Ok (Some r), rest) \<longrightarrow> response_ok r)"
proof
  show "fst (decode_response buf) \<noteq> Panic"
    unfolding decode_response_on_frame
    by (rule on_frame_not_Panic) (auto simp: decode_response_body_def try_bind_Panic_iff)
  show "\<forall>r rest. decode_response buf = (Ok (Some r), rest) \<longrightarrow> response_ok r"
    by (auto simp: decode_response_on_frame on_frame_def decode_response_body_def outcome_simps
        split: option.splits dest: decode_response_frame_ok)
qed

end
