(* ===== verification/Wire_Replication.thy ===== *)
theory Wire_Replication
  imports Wire_Frame
begin

text \<open>
  The broker-to-broker frames of \<open>crates/protocol/src/lib.rs\<close>: one replicated record, and the
  follower's acknowledgement.  The record frame has no separate flag for a missing key, so a
  present but empty key does not survive; \<open>replicate_ok\<close> excludes it.
\<close>

definition encode_replicate_record ::
    "replicate_record \<Rightarrow> bytes \<Rightarrow> (unit, protocol_error) outcome \<times> bytes" where
  "encode_replicate_record record buffer =
    step_bind (validate_topic (rr_topic record), buffer) (\<lambda>_ buffer.
    let key_len = (case rr_key record of None \<Rightarrow> 0 | Some key \<Rightarrow> length key) in
    step_bind (validate_size key_len MAX_KEY_SIZE KeyTooLarge, buffer) (\<lambda>_ buffer.
    step_bind (validate_size (length (rr_value record)) MAX_MESSAGE_SIZE MessageTooLarge, buffer)
      (\<lambda>_ buffer.
    let start = length buffer in
    step_bind (encode_string (rr_topic record) (buffer @ put_u32 0 @ [REPLICATE_RECORD]))
      (\<lambda>_ buffer.
    let buffer = buffer @ put_u32 (rr_partition record) @ put_u64 (rr_offset record)
      @ put_u64 (rr_timestamp_ms record) @ [if rr_durable record then 1 else 0]
      @ put_u32 (rr_leader_id record) @ put_u64 (rr_leader_epoch record) in
    step_bind (ok_or (try_from key_len) KeyTooLarge, buffer) (\<lambda>n buffer.
    let buffer = buffer @ put_u16 n @ (case rr_key record of Some key \<Rightarrow> key | None \<Rightarrow> []) in
    step_bind (ok_or (try_from (length (rr_value record))) MessageTooLarge, buffer) (\<lambda>n buffer.
    set_frame_len (buffer @ put_u32 n @ rr_value record) start))))))"

definition decode_replicate_frame :: "bytes \<Rightarrow> (replicate_record option, protocol_error) outcome"
  where
  "decode_replicate_frame frame =
    try_bind (get_u8 frame) (\<lambda>(opcode, frame).
    if opcode \<noteq> REPLICATE_RECORD then Err InvalidFrame else
    try_bind (decode_string frame) (\<lambda>(topic, frame).
    try_bind (ensure_remaining frame (4 + 8 + 8 + 1 + 4 + 8 + 2)) (\<lambda>_.
    try_bind (get_u32 frame) (\<lambda>(part, frame).
    try_bind (get_u64 frame) (\<lambda>(offset, frame).
    try_bind (get_u64 frame) (\<lambda>(timestamp_ms, frame).
    try_bind (get_u8 frame) (\<lambda>(durable, frame).
    if durable > 1 then Err InvalidFrame else
    try_bind (get_u32 frame) (\<lambda>(leader_id, frame).
    try_bind (get_u64 frame) (\<lambda>(leader_epoch, frame).
    try_bind (read_u16_len frame) (\<lambda>(key_len, frame).
    try_bind (read_bytes frame key_len) (\<lambda>(key, frame).
    try_bind (read_u32_len frame) (\<lambda>(value_len, frame).
    try_bind (validate_size value_len MAX_MESSAGE_SIZE MessageTooLarge) (\<lambda>_.
    try_bind (read_bytes frame value_len) (\<lambda>(v, frame).
    try_bind (ensure_empty frame) (\<lambda>_.
    Ok (Some \<lparr>rr_topic = topic, rr_partition = part, rr_offset = offset,
      rr_timestamp_ms = timestamp_ms, rr_key = (if key \<noteq> [] then Some key else None),
      rr_value = v, rr_durable = (durable = 1), rr_leader_id = leader_id,
      rr_leader_epoch = leader_epoch\<rparr>))))))))))))))))"

definition decode_replicate_record ::
    "bytes \<Rightarrow> (replicate_record option, protocol_error) outcome \<times> bytes" where
  "decode_replicate_record = on_frame decode_replicate_frame"

definition encode_replicate_ack ::
    "replicate_ack \<Rightarrow> bytes \<Rightarrow> (unit, protocol_error) outcome \<times> bytes" where
  "encode_replicate_ack ack buffer =
    (let start = length buffer in
     set_frame_len (buffer @ put_u32 0 @ [REPLICATE_ACK] @ put_u32 (ra_partition ack)
       @ put_u64 (ra_next_offset ack)) start)"

definition decode_ack_frame :: "bytes \<Rightarrow> (replicate_ack option, protocol_error) outcome" where
  "decode_ack_frame frame =
    (if length frame \<noteq> 1 + 4 + 8 then Err InvalidFrame
     else try_bind (get_u8 frame) (\<lambda>(opcode, frame).
       if opcode \<noteq> REPLICATE_ACK then Err InvalidFrame else
       try_bind (get_u32 frame) (\<lambda>(part, frame).
       try_bind (get_u64 frame) (\<lambda>(next_offset, _).
       Ok (Some \<lparr>ra_partition = part, ra_next_offset = next_offset\<rparr>)))))"

definition decode_replicate_ack ::
    "bytes \<Rightarrow> (replicate_ack option, protocol_error) outcome \<times> bytes" where
  "decode_replicate_ack = on_frame decode_ack_frame"

definition replicate_ok :: "replicate_record \<Rightarrow> bool" where
  "replicate_ok r \<longleftrightarrow> utf8_string (rr_topic r) \<and> rr_key r \<noteq> Some []"

section \<open>Round trips\<close>

lemma read_bytes_0 [simp]: "read_bytes b 0 = Ok ([], b)"
  by (simp add: read_bytes_def split_to_def)

definition replicate_body :: "replicate_record \<Rightarrow> bytes" where
  "replicate_body r = REPLICATE_RECORD # string_bytes (rr_topic r) @ put_u32 (rr_partition r)
     @ put_u64 (rr_offset r) @ put_u64 (rr_timestamp_ms r) @ [if rr_durable r then 1 else 0]
     @ put_u32 (rr_leader_id r) @ put_u64 (rr_leader_epoch r)
     @ put_u16 (word_of_nat (case rr_key r of None \<Rightarrow> 0 | Some k \<Rightarrow> length k))
     @ (case rr_key r of None \<Rightarrow> [] | Some k \<Rightarrow> k)
     @ put_u32 (word_of_nat (length (rr_value r))) @ rr_value r"

lemma encode_replicate_record_Ok:
  assumes "encode_replicate_record r b = (Ok u, out)"
  shows "out = b @ frame_of (replicate_body r)" and "length (rr_topic r) \<le> MAX_TOPIC_NAME"
    and "\<And>k. rr_key r = Some k \<Longrightarrow> length k \<le> MAX_KEY_SIZE"
    and "length (rr_value r) \<le> MAX_MESSAGE_SIZE"
proof -
  define mid where "mid = b @ put_u32 0 @ replicate_body r"
  have v: "length (rr_topic r) \<le> MAX_TOPIC_NAME"
    "(case rr_key r of None \<Rightarrow> 0 | Some k \<Rightarrow> length k) \<le> MAX_KEY_SIZE"
    "length (rr_value r) \<le> MAX_MESSAGE_SIZE"
    using assms by (auto simp: encode_replicate_record_def outcome_simps Let_def)
  then have "set_frame_len mid (length b) = (Ok u, out)"
    using assms by (simp add: encode_replicate_record_def step_bind_eq_Ok validate_topic_Ok Let_def
        try_from_Some encode_string_Ok replicate_body_def mid_def)
  then show "out = b @ frame_of (replicate_body r)" by (simp add: mid_def set_frame_len_Ok)
  show "length (rr_topic r) \<le> MAX_TOPIC_NAME" "length (rr_value r) \<le> MAX_MESSAGE_SIZE"
    and "\<And>k. rr_key r = Some k \<Longrightarrow> length k \<le> MAX_KEY_SIZE"
    using v by auto
qed

lemma replicate_body_short:
  "encode_replicate_record r b = (Ok u, out) \<Longrightarrow>
     replicate_body r \<noteq> [] \<and> length (replicate_body r) \<le> MAX_FRAME_SIZE"
  using encode_replicate_record_Ok [of r b u out]
  by (cases "rr_key r") (auto simp: replicate_body_def)

lemma decode_replicate_body:
  assumes "replicate_ok r" and "encode_replicate_record r b = (Ok u, out)"
  shows "decode_replicate_frame (replicate_body r) = Ok (Some r)"
  using encode_replicate_record_Ok(2-4) [OF assms(2)] assms(1)
  by (cases r; cases "rr_key r"; cases "rr_durable r")
     (simp_all add: decode_replicate_frame_def replicate_body_def replicate_ok_def
       unat_word_of_nat_small)

interpretation repl: framed_codec encode_replicate_record decode_replicate_record replicate_ok
proof unfold_locales
  show "decode_replicate_record [] = (Ok None, [])"
    by (simp add: decode_replicate_record_def on_frame_def take_frame_def)
next
  fix m buf out
  assume w: "replicate_ok m" and e: "encode_replicate_record m buf = (Ok (), out)"
  show "\<exists>frame. out = buf @ frame \<and> frame \<noteq> [] \<and>
      (\<forall>rest. decode_replicate_record (frame @ rest) = (Ok (Some m), rest)) \<and>
      (\<forall>n<length frame. decode_replicate_record (take n frame) = (Ok None, take n frame))"
    using replicate_body_short [OF e] decode_replicate_body [OF w e] encode_replicate_record_Ok(1) [OF e]
    by (intro exI [of _ "frame_of (replicate_body m)"])
       (auto simp: decode_replicate_record_def on_frame_frame_of on_frame_partial
         simp del: length_frame_of)
qed

interpretation ack: framed_codec encode_replicate_ack decode_replicate_ack "\<lambda>_. True"
proof unfold_locales
  show "decode_replicate_ack [] = (Ok None, [])"
    by (simp add: decode_replicate_ack_def on_frame_def take_frame_def)
next
  fix m :: replicate_ack and buf out
  define body where "body = REPLICATE_ACK # put_u32 (ra_partition m) @ put_u64 (ra_next_offset m)"
  assume "encode_replicate_ack m buf = (Ok (), out)"
  then have "out = buf @ frame_of body"
    by (simp add: encode_replicate_ack_def Let_def body_def
        set_frame_len_Ok [where body = "x # y" for x y, simplified])
  moreover have "body \<noteq> []" "length body \<le> MAX_FRAME_SIZE" "decode_ack_frame body = Ok (Some m)"
    by (simp_all add: body_def decode_ack_frame_def)
  ultimately show "\<exists>frame. out = buf @ frame \<and> frame \<noteq> [] \<and>
      (\<forall>rest. decode_replicate_ack (frame @ rest) = (Ok (Some m), rest)) \<and>
      (\<forall>n<length frame. decode_replicate_ack (take n frame) = (Ok None, take n frame))"
    by (intro exI [of _ "frame_of body"])
       (auto simp: decode_replicate_ack_def on_frame_frame_of on_frame_partial
         simp del: length_frame_of)
qed

section \<open>The decoders on arbitrary bytes\<close>

lemma decode_replicate_frame_not_Panic: "f \<noteq> [] \<Longrightarrow> decode_replicate_frame f \<noteq> Panic"
  by (auto simp: decode_replicate_frame_def try_bind_Panic_iff dest!: get_length split: if_splits)

lemma decode_ack_frame_not_Panic: "decode_ack_frame f \<noteq> Panic"
  by (auto simp: decode_ack_frame_def try_bind_Panic_iff dest!: get_length split: if_splits)

lemma decode_replicate_frame_ok: "decode_replicate_frame f = Ok (Some r) \<Longrightarrow> replicate_ok r"
  by (auto simp: decode_replicate_frame_def outcome_simps replicate_ok_def split: if_splits
      dest!: decode_string_Ok_utf8)

section \<open>Properties\<close>

definition sample_replicate :: replicate_record where
  "sample_replicate = \<lparr>rr_topic = ''t'', rr_partition = 1, rr_offset = 9, rr_timestamp_ms = 5,
     rr_key = Some [7], rr_value = [8, 8], rr_durable = True, rr_leader_id = 2,
     rr_leader_epoch = 3\<rparr>"

text \<open>A stream of replicated records reaches the follower as exactly the records the leader
  sent, in order, however the connection splits it, provided no record carries an empty
  (as opposed to absent) key; and the acknowledgements come back the same way.\<close>

lemma replication_stream:
  assumes "list_all replicate_ok rs"
    and "list_all (\<lambda>r. fst (encode_replicate_record r []) = Ok ()) rs"
    and "concat chunks = concat (map (\<lambda>r. snd (encode_replicate_record r [])) rs)"
    and "concat ack_chunks = concat (map (\<lambda>a. snd (encode_replicate_ack a [])) acks)"
  shows "feed decode_replicate_record [] chunks = (rs, Ok (), []) \<and>
    feed decode_replicate_ack [] ack_chunks = (acks, Ok (), [])"
proof
  have "list_all repl.sendable rs"
    unfolding list_all_iff repl.sendable_def using assms by (auto simp: list_all_iff)
  then show "feed decode_replicate_record [] chunks = (rs, Ok (), [])"
    by (rule repl.feed_stream) (use assms in \<open>simp add: repl.wire_bytes_def [abs_def]\<close>)
  have "list_all ack.sendable acks"
    by (simp add: list_all_iff ack.sendable_def encode_replicate_ack_def set_frame_len_def
        try_from_def Let_def)
  then show "feed decode_replicate_ack [] ack_chunks = (acks, Ok (), [])"
    by (rule ack.feed_stream) (use assms in \<open>simp add: ack.wire_bytes_def [abs_def]\<close>)
qed

end
