(* ===== verification/Leadership.thy ===== *)
theory Leadership
  imports Wire_Types
begin

text \<open>
  \<open>crates/broker/src/leadership.rs\<close>: the registry of partition leaders, epochs and high watermarks,
  and its metadata file.  The hash map is an association list, because it is written out in
  key order; the file is its text.  Writing the file succeeds; lock poisoning is not
  modelled.
\<close>

section \<open>Lines and fields\<close>

text \<open>\<open>str::split\<close> with a character: always at least one piece.\<close>

fun split_on :: "char \<Rightarrow> string \<Rightarrow> string list" where
  "split_on sep [] = [[]]"
| "split_on sep (c # cs) =
    (if c = sep then [] # split_on sep cs
     else case split_on sep cs of [] \<Rightarrow> [[c]] | p # ps \<Rightarrow> (c # p) # ps)"

definition strip_cr :: "string \<Rightarrow> string" where
  "strip_cr s = (if s \<noteq> [] \<and> last s = char_of (13 :: nat) then butlast s else s)"

text \<open>\<open>str::lines\<close>: a carriage return counts only in front of a newline, and nothing follows the
  last newline.\<close>

definition newline :: char where "newline = char_of (10 :: nat)"
definition tab :: char where "tab = char_of (9 :: nat)"

definition text_lines :: "string \<Rightarrow> string list" where
  "text_lines s = (let ps = split_on newline s in
     map strip_cr (butlast ps) @ (if last ps = [] then [] else [last ps]))"

section \<open>State\<close>

datatype leadership_error =
    LeadershipIo
  | InvalidMetadata
  | Poisoned
  | MissingPartition u32
  | UnknownBroker u32
  | StaleEpoch

type_synonym leadership_map = "((string \<times> u32) \<times> partition_leadership) list"

record leadership_registry =
  lr_file :: "string option"
  lr_cluster :: cluster_metadata
  lr_entries :: leadership_map

definition deterministic_leader :: "cluster_metadata \<Rightarrow> u32 \<Rightarrow> (u32, leadership_error) outcome" where
  "deterministic_leader cluster part =
    (if cm_nodes cluster = [] then Panic
     else Ok (cn_id (cm_nodes cluster ! (unat part mod length (cm_nodes cluster)))))"

section \<open>The metadata file\<close>

definition entry_line :: "(string \<times> u32) \<times> partition_leadership \<Rightarrow> string" where
  "entry_line e = fst (fst e) @ [tab] @ show_nat (unat (pl_partition (snd e))) @ [tab]
     @ show_nat (unat (pl_leader_id (snd e))) @ [tab] @ show_nat (unat (pl_leader_epoch (snd e))) @ [tab]
     @ show_nat (unat (pl_high_watermark (snd e))) @ [newline]"

definition persist_entries :: "leadership_map \<Rightarrow> string" where
  "persist_entries entries = concat (map entry_line (sort_key fst entries))"

fun parse_fields :: "string list \<Rightarrow> ((string \<times> u32) \<times> partition_leadership, leadership_error) outcome" where
  "parse_fields (topic # part # leader_id # leader_epoch # rest) =
    try_bind (ok_or (parse_unsigned part) InvalidMetadata) (\<lambda>part.
    try_bind (ok_or (parse_unsigned leader_id) InvalidMetadata) (\<lambda>leader_id.
    try_bind (ok_or (parse_unsigned leader_epoch) InvalidMetadata) (\<lambda>leader_epoch.
    try_bind (case rest of [] \<Rightarrow> Ok (- 1) | hw # _ \<Rightarrow> ok_or (parse_unsigned hw) InvalidMetadata)
      (\<lambda>high_watermark.
    if length rest > 1 then Err InvalidMetadata
    else Ok ((topic, part), \<lparr>pl_partition = part, pl_leader_id = leader_id,
           pl_leader_epoch = leader_epoch, pl_high_watermark = high_watermark\<rparr>)))))"
| "parse_fields _ = Err InvalidMetadata"

fun parse_lines :: "string list \<Rightarrow> leadership_map \<Rightarrow> (leadership_map, leadership_error) outcome" where
  "parse_lines [] entries = Ok entries"
| "parse_lines (line # lines) entries =
    try_bind (parse_fields (split_on tab line)) (\<lambda>(key, leadership).
    parse_lines lines (AList.update key leadership entries))"

definition parse_entries :: "string \<Rightarrow> (leadership_map, leadership_error) outcome" where
  "parse_entries contents = parse_lines (filter (\<lambda>line. line \<noteq> []) (text_lines contents)) []"

section \<open>Operations\<close>

definition open_registry ::
    "string option \<Rightarrow> cluster_metadata \<Rightarrow> (leadership_registry, leadership_error) outcome" where
  "open_registry file cluster =
    try_bind (case file of None \<Rightarrow> Ok [] | Some contents \<Rightarrow> parse_entries contents) (\<lambda>entries.
    Ok \<lparr>lr_file = file, lr_cluster = cluster, lr_entries = entries\<rparr>)"

definition persist :: "leadership_registry \<Rightarrow> leadership_registry" where
  "persist reg = reg\<lparr>lr_file := Some (persist_entries (lr_entries reg))\<rparr>"

text \<open>The loop of \<open>ensure_topic\<close> over the partitions, with the flag that says whether an entry was
  added.\<close>

fun ensure_partitions ::
    "string \<Rightarrow> u32 list \<Rightarrow> bool \<Rightarrow> leadership_registry
     \<Rightarrow> (bool, leadership_error) outcome \<times> leadership_registry" where
  "ensure_partitions topic [] changed reg = (Ok changed, reg)"
| "ensure_partitions topic (part # parts) changed reg =
    (if map_of (lr_entries reg) (topic, part) = None then
       step_bind (deterministic_leader (lr_cluster reg) part, reg) (\<lambda>leader_id reg.
       ensure_partitions topic parts True
         (reg\<lparr>lr_entries := AList.update (topic, part)
            \<lparr>pl_partition = part, pl_leader_id = leader_id, pl_leader_epoch = 0, pl_high_watermark = 0\<rparr>
            (lr_entries reg)\<rparr>))
     else ensure_partitions topic parts changed reg)"

definition partition_range :: "u32 \<Rightarrow> u32 list" where
  "partition_range n = map word_of_nat [0..<unat n]"

definition ensure_topic ::
    "string \<Rightarrow> u32 \<Rightarrow> leadership_registry \<Rightarrow> (unit, leadership_error) outcome \<times> leadership_registry" where
  "ensure_topic topic partitions reg =
    step_bind (ensure_partitions topic (partition_range partitions) False reg) (\<lambda>changed reg.
    (Ok (), if changed then persist reg else reg))"

definition partition_leader ::
    "leadership_registry \<Rightarrow> string \<Rightarrow> u32 \<Rightarrow> (partition_leadership, leadership_error) outcome" where
  "partition_leader reg topic part =
    ok_or (map_of (lr_entries reg) (topic, part)) (MissingPartition part)"

fun collect_leaders ::
    "leadership_registry \<Rightarrow> string \<Rightarrow> u32 list \<Rightarrow> (partition_leadership list, leadership_error) outcome" where
  "collect_leaders reg topic [] = Ok []"
| "collect_leaders reg topic (part # parts) =
    try_bind (ok_or (map_of (lr_entries reg) (topic, part)) (MissingPartition part)) (\<lambda>l.
    try_bind (collect_leaders reg topic parts) (\<lambda>ls. Ok (l # ls)))"

definition topic_leaders ::
    "string \<Rightarrow> u32 \<Rightarrow> leadership_registry
     \<Rightarrow> (partition_leadership list, leadership_error) outcome \<times> leadership_registry" where
  "topic_leaders topic partitions reg =
    step_bind (ensure_topic topic partitions reg) (\<lambda>_ reg.
    (collect_leaders reg topic (partition_range partitions), reg))"

definition stale :: "partition_leadership \<Rightarrow> partition_leadership \<Rightarrow> bool" where
  "stale leadership current \<longleftrightarrow> pl_leader_epoch leadership < pl_leader_epoch current \<or>
     (pl_leader_epoch leadership = pl_leader_epoch current \<and>
       (pl_leader_id leadership \<noteq> pl_leader_id current \<or>
        pl_high_watermark leadership < pl_high_watermark current))"

definition apply_leadership ::
    "string \<Rightarrow> partition_leadership \<Rightarrow> leadership_registry
     \<Rightarrow> (unit, leadership_error) outcome \<times> leadership_registry" where
  "apply_leadership topic leadership reg =
    (if \<not> list_ex (\<lambda>node. cn_id node = pl_leader_id leadership) (cm_nodes (lr_cluster reg))
     then (Err (UnknownBroker (pl_leader_id leadership)), reg)
     else let key = (topic, pl_partition leadership);
              inserted = (Ok (), persist (reg\<lparr>lr_entries := AList.update key leadership (lr_entries reg)\<rparr>)) in
       case map_of (lr_entries reg) key of
         Some current \<Rightarrow>
           if stale leadership current then (Err StaleEpoch, reg)
           else if leadership = current then (Ok (), reg)
           else inserted
       | None \<Rightarrow> inserted)"

definition migrate_high_watermark ::
    "string \<Rightarrow> u32 \<Rightarrow> u64 \<Rightarrow> leadership_registry
     \<Rightarrow> (unit, leadership_error) outcome \<times> leadership_registry" where
  "migrate_high_watermark topic part high_watermark reg =
    (case map_of (lr_entries reg) (topic, part) of
       None \<Rightarrow> (Err (MissingPartition part), reg)
     | Some entry \<Rightarrow>
         if pl_high_watermark entry \<noteq> - 1 then (Ok (), reg)
         else (Ok (), persist (reg\<lparr>lr_entries := AList.update (topic, part)
                (entry\<lparr>pl_high_watermark := high_watermark\<rparr>) (lr_entries reg)\<rparr>)))"

lemma set_partition_range: "set (partition_range n) = {p. p < n}"
proof -
  have "p \<in> set (partition_range n)" if "p < n" for p
    using that by (force simp: partition_range_def word_less_nat_alt intro: rev_image_eqI [of "unat p"])
  moreover have "p < n" if p: "p \<in> set (partition_range n)" for p
  proof -
    obtain x where x: "x < unat n" "p = word_of_nat x" using p by (auto simp: partition_range_def)
    then have "unat p = x" by (simp add: unat_of_nat_below)
    with x show ?thesis by (simp add: word_less_nat_alt)
  qed
  ultimately show ?thesis by auto
qed

section \<open>Text lemmas\<close>

lemma split_on_not_Nil [simp]: "split_on sep s \<noteq> []"
  by (induction s) (auto split: list.splits)

lemma split_on_no_sep: "sep \<notin> set s \<Longrightarrow> split_on sep s = [s]"
  by (induction s) auto

lemma split_on_append: "sep \<notin> set s \<Longrightarrow> split_on sep (s @ sep # t) = s # split_on sep t"
  by (induction s) auto

lemma show_nat_digit_chars: "c \<in> set (show_nat n) \<Longrightarrow> is_ascii_digit c"
  using show_nat_digits [of n] by (auto simp: list_all_iff)

lemma digit_not_control:
  "\<not> is_ascii_digit newline" "\<not> is_ascii_digit tab" "\<not> is_ascii_digit (char_of (13 :: nat))"
  by (simp_all add: is_ascii_digit_def newline_def tab_def less_eq_char_def)

lemma show_nat_no_control [simp]:
  "newline \<notin> set (show_nat n)" "tab \<notin> set (show_nat n)" "char_of (13 :: nat) \<notin> set (show_nat n)"
  using show_nat_digit_chars digit_not_control by blast+

lemma id_char_not_control:
  "\<not> id_char newline" "\<not> id_char tab" "\<not> id_char (char_of (13 :: nat))"
  by (simp_all add: id_char_def is_ascii_alphanumeric_def is_ascii_digit_def newline_def tab_def
      less_eq_char_def) (auto dest!: arg_cong [where f = "of_char :: char \<Rightarrow> nat"])

text \<open>A topic name the metadata file can carry.\<close>

definition clean :: "string \<Rightarrow> bool" where
  "clean s \<longleftrightarrow> tab \<notin> set s \<and> newline \<notin> set s"

lemma clean_id: "list_all id_char s \<Longrightarrow> clean s"
  using id_char_not_control by (auto simp: clean_def list_all_iff)

definition entry_ok :: "(string \<times> u32) \<times> partition_leadership \<Rightarrow> bool" where
  "entry_ok e \<longleftrightarrow> clean (fst (fst e)) \<and> snd (fst e) = pl_partition (snd e)"

lemma tab_not_newline [simp]: "tab \<noteq> newline" "newline \<noteq> tab"
  by (auto simp: tab_def newline_def dest!: arg_cong [where f = "of_char :: char \<Rightarrow> nat"])

lemma entry_line_shape:
  assumes "entry_ok e"
  shows "\<exists>body. entry_line e = body @ [newline] \<and> newline \<notin> set body \<and> body \<noteq> [] \<and>
    strip_cr body = body \<and> parse_fields (split_on tab body) = Ok e"
proof -
  define body where "body = fst (fst e) @ tab # show_nat (unat (pl_partition (snd e))) @ tab
     # show_nat (unat (pl_leader_id (snd e))) @ tab # show_nat (unat (pl_leader_epoch (snd e))) @ tab
     # show_nat (unat (pl_high_watermark (snd e)))"
  have "entry_line e = body @ [newline]" by (simp add: entry_line_def body_def)
  moreover have "newline \<notin> set body" "body \<noteq> []"
    using assms by (auto simp: body_def entry_ok_def clean_def)
  moreover have "last body \<in> set (show_nat (unat (pl_high_watermark (snd e))))"
    by (simp add: body_def)
  then have "strip_cr body = body" using show_nat_no_control(3) by (auto simp: strip_cr_def)
  moreover have "parse_fields (split_on tab body) = Ok e"
    using assms
    by (cases e; cases "fst e") (simp add: body_def entry_ok_def clean_def split_on_append split_on_no_sep)
  ultimately show ?thesis by blast
qed

lemma text_lines_Cons:
  "newline \<notin> set body \<Longrightarrow> text_lines (body @ newline # rest) = strip_cr body # text_lines rest"
  by (simp add: text_lines_def split_on_append Let_def)

lemma text_lines_Nil [simp]: "text_lines [] = []"
  by (simp add: text_lines_def)

lemma parse_persisted:
  "list_all entry_ok es \<Longrightarrow>
     parse_lines (filter (\<lambda>l. l \<noteq> []) (text_lines (concat (map entry_line es)))) acc =
     Ok (fold (\<lambda>(k, v) m. AList.update k v m) es acc)"
proof (induction es arbitrary: acc)
  case (Cons e es)
  then obtain body where "entry_line e = body @ [newline]" "newline \<notin> set body" "body \<noteq> []"
    "strip_cr body = body" "parse_fields (split_on tab body) = Ok e"
    using entry_line_shape [of e] by auto
  with Cons show ?case by (cases e) (simp add: text_lines_Cons)
qed simp

lemma map_of_fold_update:
  "map_of (fold (\<lambda>(k, v) m. AList.update k v m) es acc) = map_of acc ++ map_of (rev es)"
proof (induction es arbitrary: acc)
  case (Cons e es)
  then show ?case
    by (cases e) (auto simp: AList.update_conv' fun_eq_iff map_add_def split: option.splits)
qed simp

lemma map_of_rev_distinct: "distinct (map fst es) \<Longrightarrow> map_of (rev es) = map_of es"
  by (rule map_of_inject_set [THEN iffD2]) (simp_all add: rev_map [symmetric])

lemma map_of_sort_distinct:
  assumes "distinct (map fst es)"
  shows "map_of (sort_key fst es) = map_of es" and "distinct (map fst (sort_key fst es))"
proof -
  show d: "distinct (map fst (sort_key fst es))"
    using assms by (simp add: distinct_map)
  show "map_of (sort_key fst es) = map_of es"
    by (rule map_of_inject_set [THEN iffD2]) (use d assms in simp_all)
qed

text \<open>What is written is read back: the file determines the registry.\<close>

lemma parse_persist_entries:
  assumes "distinct (map fst es)" and "list_all entry_ok es"
  shows "\<exists>es'. parse_entries (persist_entries es) = Ok es' \<and> map_of es' = map_of es"
proof -
  have "list_all entry_ok (sort_key fst es)" using assms(2) by (simp add: list_all_iff)
  from parse_persisted [OF this, of "[]"] map_of_sort_distinct [OF assms(1)] show ?thesis
    by (simp add: parse_entries_def persist_entries_def map_of_fold_update map_of_rev_distinct)
qed

section \<open>Invariant\<close>

definition synced :: "leadership_registry \<Rightarrow> bool" where
  "synced reg \<longleftrightarrow> (\<exists>reg'. open_registry (lr_file reg) (lr_cluster reg) = Ok reg' \<and>
     map_of (lr_entries reg') = map_of (lr_entries reg))"

definition registry_ok :: "leadership_registry \<Rightarrow> bool" where
  "registry_ok reg \<longleftrightarrow> cm_nodes (lr_cluster reg) \<noteq> [] \<and> distinct (map fst (lr_entries reg)) \<and>
     list_all entry_ok (lr_entries reg) \<and> synced reg"

lemma list_all_update:
  "list_all P es \<Longrightarrow> P (k, v) \<Longrightarrow> list_all P (AList.update k v es)"
  by (induction es) auto

lemma persist_synced:
  assumes "distinct (map fst (lr_entries reg))" and "list_all entry_ok (lr_entries reg)"
  shows "synced (persist reg)"
  using parse_persist_entries [OF assms] by (auto simp: synced_def persist_def open_registry_def)

lemma persist_select [simp]:
  "lr_entries (persist reg) = lr_entries reg" "lr_cluster (persist reg) = lr_cluster reg"
  by (simp_all add: persist_def)

lemma update_registry_ok:
  assumes "registry_ok reg" and "entry_ok (k, v)"
  shows "registry_ok (persist (reg\<lparr>lr_entries := AList.update k v (lr_entries reg)\<rparr>))"
  using assms
  by (auto simp: registry_ok_def AList.distinct_update intro!: persist_synced list_all_update)

lemma apply_leadership_ok:
  assumes "registry_ok reg" and "clean topic"
  shows "registry_ok (snd (apply_leadership topic l reg))"
  using assms update_registry_ok [OF assms(1), of "(topic, pl_partition l)" l]
  by (auto simp: apply_leadership_def Let_def entry_ok_def split: option.splits)

text \<open>What \<open>ensure_topic\<close> makes of the map: existing entries stay, missing ones of the topic get their
  deterministic leader.\<close>

definition initial_leadership :: "cluster_metadata \<Rightarrow> u32 \<Rightarrow> partition_leadership" where
  "initial_leadership cluster part = \<lparr>pl_partition = part,
     pl_leader_id = cn_id (cm_nodes cluster ! (unat part mod length (cm_nodes cluster))),
     pl_leader_epoch = 0, pl_high_watermark = 0\<rparr>"

definition ensured :: "string \<Rightarrow> u32 list \<Rightarrow> leadership_registry \<Rightarrow> string \<times> u32 \<Rightarrow> partition_leadership option" where
  "ensured topic parts reg k = (case map_of (lr_entries reg) k of
     Some l \<Rightarrow> Some l
   | None \<Rightarrow> if k \<in> Pair topic ` set parts then Some (initial_leadership (lr_cluster reg) (snd k)) else None)"

definition entries_wf :: "leadership_registry \<Rightarrow> bool" where
  "entries_wf reg \<longleftrightarrow> cm_nodes (lr_cluster reg) \<noteq> [] \<and> distinct (map fst (lr_entries reg)) \<and>
     list_all entry_ok (lr_entries reg)"

lemma ensure_partitions_ok:
  assumes "entries_wf reg" and "clean topic"
  shows "\<exists>changed' reg'. ensure_partitions topic parts changed reg = (Ok changed', reg') \<and>
    entries_wf reg' \<and> (changed' \<or> reg' = reg) \<and> map_of (lr_entries reg') = ensured topic parts reg"
  using assms
proof (induction parts arbitrary: changed reg)
  case Nil
  then show ?case by (auto simp: ensured_def fun_eq_iff split: option.splits)
next
  case (Cons part parts)
  show ?case
  proof (cases "map_of (lr_entries reg) (topic, part)")
    case None
    define new where "new = initial_leadership (lr_cluster reg) part"
    define reg1 where "reg1 = reg\<lparr>lr_entries := AList.update (topic, part) new (lr_entries reg)\<rparr>"
    have en: "ensure_partitions topic (part # parts) changed reg = ensure_partitions topic parts True reg1"
      using None Cons.prems(1)
      by (simp add: deterministic_leader_def reg1_def new_def initial_leadership_def entries_wf_def)
    have "entry_ok ((topic, part), new)"
      using Cons.prems(2) by (simp add: entry_ok_def new_def initial_leadership_def)
    then have "entries_wf reg1"
      using Cons.prems(1) by (simp add: reg1_def AList.distinct_update list_all_update entries_wf_def)
    from Cons.IH [OF this Cons.prems(2), of True] obtain changed' reg' where
      ih: "ensure_partitions topic parts True reg1 = (Ok changed', reg')" "entries_wf reg'"
      "map_of (lr_entries reg') = ensured topic parts reg1" "changed' \<or> reg' = reg1" by auto
    have c: "changed'"
    proof -
      have "ensure_partitions topic ps True r = (Ok b, r') \<Longrightarrow> b" for ps r b r'
        by (induction ps arbitrary: r) (auto simp: outcome_simps split: if_splits)
      with ih(1) show ?thesis by blast
    qed
    have "ensured topic parts reg1 = ensured topic (part # parts) reg"
      using None
      by (auto simp: fun_eq_iff ensured_def reg1_def AList.update_conv' new_def split: option.splits)
    with ih c en show ?thesis by auto
  next
    case (Some l)
    have "ensured topic parts reg = ensured topic (part # parts) reg"
      using Some by (auto simp: fun_eq_iff ensured_def split: option.splits)
    with Cons.IH [OF Cons.prems, of changed] Some show ?thesis by simp
  qed
qed

lemma ensure_topic_spec:
  assumes "registry_ok reg" and "clean topic"
  shows "\<exists>reg'. ensure_topic topic partitions reg = (Ok (), reg') \<and> registry_ok reg' \<and>
    map_of (lr_entries reg') = ensured topic (partition_range partitions) reg"
proof -
  have wf: "entries_wf reg" using assms(1) by (auto simp: registry_ok_def entries_wf_def)
  from ensure_partitions_ok [OF wf assms(2), of "partition_range partitions" False]
  obtain changed reg' where e: "ensure_partitions topic (partition_range partitions) False reg = (Ok changed, reg')"
    and wf': "entries_wf reg'" and same: "changed \<or> reg' = reg"
    and m: "map_of (lr_entries reg') = ensured topic (partition_range partitions) reg" by blast
  define reg2 where "reg2 = (if changed then persist reg' else reg')"
  have "registry_ok reg2"
    using assms(1) wf' same persist_synced [of reg'] by (auto simp: reg2_def registry_ok_def entries_wf_def)
  moreover have "ensure_topic topic partitions reg = (Ok (), reg2)"
    by (simp add: ensure_topic_def e reg2_def)
  ultimately show ?thesis using m by (intro exI [of _ reg2]) (simp add: reg2_def)
qed

section \<open>Epoch fencing\<close>

text \<open>The contract of a leadership registry towards the replication protocol: an announcement is
  stored or refused, and it is refused when it is stale with respect to what is stored.\<close>

locale epoch_registry =
  fixes get :: "'s \<Rightarrow> 'k \<Rightarrow> partition_leadership option"
    and put :: "'m \<Rightarrow> 's \<Rightarrow> (unit, 'e) outcome \<times> 's"
    and slot :: "'m \<Rightarrow> 'k" and announced :: "'m \<Rightarrow> partition_leadership"
  assumes put_other: "k \<noteq> slot m \<Longrightarrow> get (snd (put m s)) k = get s k"
    and put_accept: "fst (put m s) = Ok () \<Longrightarrow> get (snd (put m s)) (slot m) = Some (announced m)"
    and put_reject: "fst (put m s) \<noteq> Ok () \<Longrightarrow> snd (put m s) = s"
    and put_fence: "get s (slot m) = Some current \<Longrightarrow> fst (put m s) = Ok () \<Longrightarrow>
      \<not> stale (announced m) current"
begin

fun announce :: "'m list \<Rightarrow> 's \<Rightarrow> 's" where
  "announce [] s = s"
| "announce (m # ms) s = announce ms (snd (put m s))"

lemma stale_trans: "\<not> stale b a \<Longrightarrow> \<not> stale c b \<Longrightarrow> \<not> stale c a"
  by (auto simp: stale_def)

lemma stale_refl: "\<not> stale a a"
  by (auto simp: stale_def)

lemma put_monotone:
  "get s k = Some e \<Longrightarrow> \<exists>e'. get (snd (put m s)) k = Some e' \<and> \<not> stale e' e"
  using put_other [of k m s] put_accept [of m s] put_reject [of m s] put_fence [of s m e] stale_refl
  by (cases "k = slot m"; cases "fst (put m s) = Ok ()") auto

lemma announce_monotone:
  "get s k = Some e \<Longrightarrow> \<exists>e'. get (announce ms s) k = Some e' \<and> \<not> stale e' e"
proof (induction ms arbitrary: s e)
  case Nil
  then show ?case by (simp add: stale_refl)
next
  case (Cons m ms)
  obtain e1 where "get (snd (put m s)) k = Some e1" "\<not> stale e1 e"
    using put_monotone [OF Cons.prems] by blast
  with Cons.IH stale_trans show ?case by fastforce
qed

text \<open>Once an announcement is accepted, no later one with the same epoch and another leader, and
  none with a smaller epoch, is ever accepted for the same partition.\<close>

lemma accepted_order:
  assumes "put m s = (Ok (), s1)" and "slot m' = slot m" and "fst (put m' (announce ms s1)) = Ok ()"
  shows "pl_leader_epoch (announced m) \<le> pl_leader_epoch (announced m') \<and>
    (pl_leader_epoch (announced m') = pl_leader_epoch (announced m) \<longrightarrow>
       pl_leader_id (announced m') = pl_leader_id (announced m))"
proof -
  have "get s1 (slot m) = Some (announced m)" using put_accept [of m s] assms(1) by simp
  from announce_monotone [OF this, of ms] obtain e where
    "get (announce ms s1) (slot m') = Some e" "\<not> stale e (announced m)" using assms(2) by auto
  with put_fence [OF _ assms(3)] stale_trans have "\<not> stale (announced m') (announced m)" by blast
  then show ?thesis by (auto simp: stale_def)
qed

end

interpretation registry: epoch_registry "\<lambda>reg. map_of (lr_entries reg)"
    "\<lambda>(topic, l). apply_leadership topic l" "\<lambda>(topic, l). (topic, pl_partition l)" snd
  by unfold_locales
     (auto simp: apply_leadership_def Let_def AList.update_conv' split: option.splits if_splits)

section \<open>Properties\<close>

definition sample_cluster :: cluster_metadata where
  "sample_cluster = \<lparr>cm_responding_broker_id = 1, cm_nodes =
     [\<lparr>cn_id = 1, cn_host = ''a'', cn_port = 1, cn_admin_port = 2, cn_replication_port = 3\<rparr>,
      \<lparr>cn_id = 2, cn_host = ''b'', cn_port = 1, cn_admin_port = 2, cn_replication_port = 3\<rparr>]\<rparr>"

definition sample_registry :: leadership_registry where
  "sample_registry = \<lparr>lr_file = None, lr_cluster = sample_cluster, lr_entries = []\<rparr>"

definition sample_leadership :: "u32 \<Rightarrow> u64 \<Rightarrow> partition_leadership" where
  "sample_leadership leader epoch = \<lparr>pl_partition = 0, pl_leader_id = leader, pl_leader_epoch = epoch,
     pl_high_watermark = 5\<rparr>"

lemma sample_registry_ok: "registry_ok sample_registry" "clean ''orders''"
  by (auto simp: registry_ok_def sample_registry_def sample_cluster_def synced_def open_registry_def
      clean_def tab_def newline_def dest!: arg_cong [where f = "of_char :: char \<Rightarrow> nat"])

text \<open>C24: Election safety of the registry: once it has accepted a leader for an epoch of a partition,
  it never again accepts another leader for that epoch or any announcement from a smaller epoch,
  whatever announcements arrive in between.\<close>

theorem one_leader_per_epoch:
  assumes "apply_leadership topic l reg = (Ok (), reg1)"
    and "reg2 = fold (\<lambda>(t, x) r. snd (apply_leadership t x r)) announcements reg1"
    and "fst (apply_leadership topic l' reg2) = Ok ()" and "pl_partition l' = pl_partition l"
  shows "pl_leader_epoch l \<le> pl_leader_epoch l' \<and>
    (pl_leader_epoch l' = pl_leader_epoch l \<longrightarrow> pl_leader_id l' = pl_leader_id l)"
proof -
  have "registry.announce ms r = fold (\<lambda>(t, x) r. snd (apply_leadership t x r)) ms r" for ms r
    by (induction ms arbitrary: r) auto
  with registry.accepted_order [of "(topic, l)" reg reg1 "(topic, l')" announcements] assms
  show ?thesis by simp
qed

theorem one_leader_per_epoch_witness:
  "\<exists>reg1. apply_leadership ''orders'' (sample_leadership 1 3) sample_registry = (Ok (), reg1) \<and>
     fst (apply_leadership ''orders'' (sample_leadership 2 3) reg1) \<noteq> Ok ()"
proof -
  obtain reg1 where r: "apply_leadership ''orders'' (sample_leadership 1 3) sample_registry = (Ok (), reg1)"
    by (simp add: apply_leadership_def sample_registry_def sample_cluster_def sample_leadership_def)
  moreover have "fst (apply_leadership ''orders'' (sample_leadership 2 3) reg1) \<noteq> Ok ()"
    using one_leader_per_epoch [OF r, of reg1 "[]" "sample_leadership 2 3"]
    by (auto simp: sample_leadership_def)
  ultimately show ?thesis by blast
qed

inductive registry_step :: "leadership_registry \<Rightarrow> leadership_registry \<Rightarrow> bool" where
  step_ensure: "clean topic \<Longrightarrow> registry_step reg (snd (ensure_topic topic partitions reg))"
| step_apply: "clean topic \<Longrightarrow> registry_step reg (snd (apply_leadership topic l reg))"
| step_migrate: "clean topic \<Longrightarrow> registry_step reg (snd (migrate_high_watermark topic part hw reg))"

lemma migrate_high_watermark_ok:
  assumes "registry_ok reg" and "clean topic"
  shows "registry_ok (snd (migrate_high_watermark topic part hw reg))"
proof (cases "map_of (lr_entries reg) (topic, part)")
  case (Some e)
  then have "entry_ok ((topic, part), e)"
    using assms(1) map_of_SomeD by (fastforce simp: registry_ok_def list_all_iff)
  then have "entry_ok ((topic, part), e\<lparr>pl_high_watermark := hw\<rparr>)" by (simp add: entry_ok_def)
  with update_registry_ok [OF assms(1) this] assms(1) Some show ?thesis
    by (simp add: migrate_high_watermark_def)
qed (use assms in \<open>simp add: migrate_high_watermark_def\<close>)

lemma registry_step_ok:
  assumes "registry_step reg reg'" and "registry_ok reg"
  shows "registry_ok reg'"
  using assms(1)
proof cases
  case (step_ensure topic partitions)
  with ensure_topic_spec [OF assms(2), of topic partitions] show ?thesis by auto
next
  case (step_apply topic l)
  with apply_leadership_ok [OF assms(2)] show ?thesis by simp
next
  case (step_migrate topic part hw)
  with migrate_high_watermark_ok [OF assms(2)] show ?thesis by simp
qed

text \<open>C25: The registry is durable: after any sequence of topic registrations and announcements (for
  topics whose names contain no tab or newline), reading the metadata file again gives exactly
  the entries in memory.\<close>

theorem registry_durable:
  assumes "registry_ok reg" and "registry_step\<^sup>*\<^sup>* reg reg'"
  shows "\<exists>reopened. open_registry (lr_file reg') (lr_cluster reg') = Ok reopened \<and>
    map_of (lr_entries reopened) = map_of (lr_entries reg')"
proof -
  have "registry_ok reg'" using assms(2,1) by (induction rule: rtranclp_induct) (auto intro: registry_step_ok)
  then show ?thesis by (auto simp: registry_ok_def synced_def)
qed

theorem registry_durable_witness:
  "\<exists>reopened. open_registry (lr_file (snd (ensure_topic ''orders'' 4 sample_registry)))
       (lr_cluster (snd (ensure_topic ''orders'' 4 sample_registry))) = Ok reopened \<and>
     map_of (lr_entries reopened) = map_of (lr_entries (snd (ensure_topic ''orders'' 4 sample_registry)))"
  by (rule registry_durable [OF sample_registry_ok(1)], rule r_into_rtranclp, rule step_ensure)
     (rule sample_registry_ok(2))

end
