(* ===== verification/Consumer_Groups.thy ===== *)
theory Consumer_Groups
  imports Leadership
begin

text \<open>
  \<open>crates/broker/src/groups.rs\<close>: consumer groups, their membership, partition assignment and
  committed offsets.  A clock reading is a natural number and is passed to the operations that
  call \<open>Instant::now\<close>.  Maps whose keys are enumerated are association lists; the B-tree of
  members is read in sorted order.  The offset files are addressed by the components of their
  path relative to the data directory, after the file system has resolved \<open>.\<close> and \<open>..\<close>.
\<close>

section \<open>State\<close>

datatype group_error =
    InvalidId
  | UnknownGroup
  | UnknownMember
  | StaleGeneration u64 u64
  | PartitionNotAssigned u32
  | GenerationOverflow
  | InvalidOffsetFile
  | CoordinatorPoisoned
  | GroupIo

record consumer_group =
  cg_generation :: u64
  cg_members :: "(string \<times> nat) list"
  cg_assignments :: "(string \<times> u32 list) list"
  cg_committed_offsets :: "(u32 \<times> u64) list"

type_synonym group_key = "string \<times> string"
type_synonym offset_files = "(string list \<times> string) list"

record group_coordinator =
  gc_files :: offset_files
  gc_default_partition_count :: u32
  gc_topic_partition_counts :: "(string \<times> u32) list"
  gc_session_timeout :: nat
  gc_groups :: "(group_key \<times> consumer_group) list"

record group_identity =
  gi_group :: string
  gi_topic :: string
  gi_member :: string
  gi_generation :: u64

record group_snapshot =
  gs_group :: string
  gs_topic :: string
  gs_generation :: u64
  gs_members :: nat
  gs_assigned_partitions :: nat
  gs_committed_offsets :: "(u32 \<times> u64) list"

definition empty_group :: "(u32 \<times> u64) list \<Rightarrow> consumer_group" where
  "empty_group committed = \<lparr>cg_generation = 0, cg_members = [], cg_assignments = [],
     cg_committed_offsets = committed\<rparr>"

section \<open>Offset files\<close>

text \<open>How the file system resolves the components of a path.\<close>

fun resolve :: "string list \<Rightarrow> string list \<Rightarrow> string list" where
  "resolve acc [] = acc"
| "resolve acc (c # cs) =
    (if c = ''.'' then resolve acc cs
     else if c = ''..'' \<and> acc \<noteq> [] \<and> last acc \<noteq> ''..'' then resolve (butlast acc) cs
     else resolve (acc @ [c]) cs)"

definition offset_path :: "string \<Rightarrow> string \<Rightarrow> u32 \<Rightarrow> string list" where
  "offset_path grp topic part =
    resolve [''__consumer_offsets''] [grp, topic, show_nat (unat part) @ ''.offset'']"

definition is_whitespace :: "char \<Rightarrow> bool" where
  "is_whitespace c \<longleftrightarrow> (let n = (of_char c :: nat) in n = 32 \<or> 9 \<le> n \<and> n \<le> 13)"

definition trim :: "string \<Rightarrow> string" where
  "trim s = rev (dropWhile is_whitespace (rev (dropWhile is_whitespace s)))"

definition persist_offset :: "string \<Rightarrow> string \<Rightarrow> u32 \<Rightarrow> u64 \<Rightarrow> offset_files \<Rightarrow> offset_files" where
  "persist_offset grp topic part offset files =
    AList.update (offset_path grp topic part) (show_nat (unat offset) @ [newline]) files"

definition read_offset :: "offset_files \<Rightarrow> string \<Rightarrow> string \<Rightarrow> u32 \<Rightarrow> (u64 option, group_error) outcome" where
  "read_offset files grp topic part =
    (case map_of files (offset_path grp topic part) of
       None \<Rightarrow> Ok None
     | Some contents \<Rightarrow> map_ok Some (ok_or (parse_unsigned (trim contents)) InvalidOffsetFile))"

fun load_offset_list ::
    "offset_files \<Rightarrow> string \<Rightarrow> string \<Rightarrow> u32 list \<Rightarrow> ((u32 \<times> u64) list, group_error) outcome" where
  "load_offset_list files grp topic [] = Ok []"
| "load_offset_list files grp topic (part # parts) =
    try_bind (read_offset files grp topic part) (\<lambda>found.
    try_bind (load_offset_list files grp topic parts) (\<lambda>offsets.
    Ok (case found of None \<Rightarrow> offsets | Some offset \<Rightarrow> (part, offset) # offsets)))"

definition load_offsets ::
    "offset_files \<Rightarrow> string \<Rightarrow> string \<Rightarrow> u32 \<Rightarrow> ((u32 \<times> u64) list, group_error) outcome" where
  "load_offsets files grp topic partition_count =
    load_offset_list files grp topic (partition_range partition_count)"

definition validate_id :: "string \<Rightarrow> (unit, group_error) outcome" where
  "validate_id v = (if v = [] \<or> length v > 249 \<or> \<not> list_all id_char v then Err InvalidId else Ok ())"

text \<open>\<open>recover_groups\<close>: a directory exists when a file is stored below it.\<close>

fun group_dirs :: "offset_files \<Rightarrow> group_key list" where
  "group_dirs [] = []"
| "group_dirs ((path, _) # files) =
    (case path of
       root # grp # topic # _ # _ \<Rightarrow>
         if root = ''__consumer_offsets'' then List.insert (grp, topic) (group_dirs files)
         else group_dirs files
     | _ \<Rightarrow> group_dirs files)"

fun recover_group_list ::
    "offset_files \<Rightarrow> u32 \<Rightarrow> group_key list \<Rightarrow> ((group_key \<times> consumer_group) list, group_error) outcome" where
  "recover_group_list files partition_count [] = Ok []"
| "recover_group_list files partition_count ((grp, topic) # keys) =
    try_bind (validate_id grp) (\<lambda>_.
    try_bind (validate_id topic) (\<lambda>_.
    try_bind (load_offsets files grp topic partition_count) (\<lambda>offsets.
    try_bind (recover_group_list files partition_count keys) (\<lambda>groups.
    Ok (((grp, topic), empty_group offsets) # groups)))))"

definition recover_groups ::
    "offset_files \<Rightarrow> u32 \<Rightarrow> ((group_key \<times> consumer_group) list, group_error) outcome" where
  "recover_groups files partition_count = recover_group_list files partition_count (group_dirs files)"

definition open_coordinator ::
    "offset_files \<Rightarrow> u32 \<Rightarrow> nat \<Rightarrow> (group_coordinator, group_error) outcome" where
  "open_coordinator files partition_count session_timeout =
    try_bind (recover_groups files partition_count) (\<lambda>groups.
    Ok \<lparr>gc_files = files, gc_default_partition_count = partition_count,
        gc_topic_partition_counts = [], gc_session_timeout = session_timeout,
        gc_groups = groups\<rparr>)"

section \<open>Membership and assignment\<close>

definition expire_members :: "nat \<Rightarrow> nat \<Rightarrow> consumer_group \<Rightarrow> bool \<times> consumer_group" where
  "expire_members timeout now grp =
    (let live = filter (\<lambda>(_, heartbeat). now - heartbeat \<le> timeout) (cg_members grp) in
     (length (cg_members grp) \<noteq> length live, grp\<lparr>cg_members := live\<rparr>))"

definition push_partition :: "string \<Rightarrow> u32 \<Rightarrow> (string \<times> u32 list) list \<Rightarrow> (string \<times> u32 list) list" where
  "push_partition member part assignments = AList.update member
     ((case map_of assignments member of None \<Rightarrow> [] | Some ps \<Rightarrow> ps) @ [part]) assignments"

fun assign_partitions ::
    "string list \<Rightarrow> u32 list \<Rightarrow> (string \<times> u32 list) list \<Rightarrow> (string \<times> u32 list) list" where
  "assign_partitions members [] assignments = assignments"
| "assign_partitions members (part # parts) assignments =
    assign_partitions members parts
      (push_partition (members ! (unat part mod length members)) part assignments)"

definition rebalance :: "u32 \<Rightarrow> consumer_group \<Rightarrow> (unit, group_error) outcome \<times> consumer_group" where
  "rebalance partition_count grp =
    step_bind (ok_or (checked_add (cg_generation grp) 1) GenerationOverflow, grp) (\<lambda>generation grp.
    let grp = grp\<lparr>cg_generation := generation, cg_assignments := []\<rparr> in
    if cg_members grp = [] then (Ok (), grp)
    else let members = sort (map fst (cg_members grp)) in
      (Ok (), grp\<lparr>cg_assignments :=
         assign_partitions members (partition_range partition_count) (cg_assignments grp)\<rparr>))"

definition validate_member :: "consumer_group \<Rightarrow> string \<Rightarrow> u64 \<Rightarrow> (unit, group_error) outcome" where
  "validate_member grp member generation =
    (if generation \<noteq> cg_generation grp
     then Err (StaleGeneration (cg_generation grp) generation)
     else if map_of (cg_members grp) member = None then Err UnknownMember
     else Ok ())"

definition partition_count :: "group_coordinator \<Rightarrow> string \<Rightarrow> u32" where
  "partition_count c topic = (case map_of (gc_topic_partition_counts c) topic of
     Some n \<Rightarrow> n | None \<Rightarrow> gc_default_partition_count c)"

definition set_group :: "group_key \<Rightarrow> consumer_group \<Rightarrow> group_coordinator \<Rightarrow> group_coordinator" where
  "set_group key grp c = c\<lparr>gc_groups := AList.update key grp (gc_groups c)\<rparr>"

section \<open>Operations\<close>

text \<open>A step on a grp found in the coordinator: its result, and the grp written back.\<close>

definition on_group ::
    "group_key \<Rightarrow> (consumer_group \<Rightarrow> ('a, group_error) outcome \<times> consumer_group)
     \<Rightarrow> consumer_group \<Rightarrow> group_coordinator \<Rightarrow> ('a, group_error) outcome \<times> group_coordinator" where
  "on_group key f grp c = (case f grp of (res, grp) \<Rightarrow> (res, set_group key grp c))"

definition active_group ::
    "nat \<Rightarrow> string \<Rightarrow> string \<Rightarrow> group_coordinator
     \<Rightarrow> (consumer_group, group_error) outcome \<times> group_coordinator" where
  "active_group now grp topic c =
    (case map_of (gc_groups c) (grp, topic) of
       None \<Rightarrow> (Err UnknownGroup, c)
     | Some g \<Rightarrow>
         on_group (grp, topic) (\<lambda>g.
           case expire_members (gc_session_timeout c) now g of (expired, g) \<Rightarrow>
           if expired then step_bind (rebalance (partition_count c topic) g) (\<lambda>_ g. (Ok g, g))
           else (Ok g, g)) g c)"

text \<open>The part of \<open>join\<close> that works on the group, once it is found or created.\<close>

definition join_member ::
    "nat \<Rightarrow> nat \<Rightarrow> u32 \<Rightarrow> string \<Rightarrow> consumer_group
     \<Rightarrow> (join_group_response, group_error) outcome \<times> consumer_group" where
  "join_member now timeout count member g =
    (case expire_members timeout now g of (members_expired, g) \<Rightarrow>
     let is_new = (map_of (cg_members g) member = None);
         g = g\<lparr>cg_members := AList.update member now (cg_members g)\<rparr> in
     step_bind (if is_new \<or> members_expired \<or> cg_generation g = 0
         then rebalance count g else (Ok (), g)) (\<lambda>_ g.
     (Ok \<lparr>jg_generation = cg_generation g, jg_partitions =
        (case map_of (cg_assignments g) member of Some ps \<Rightarrow> ps | None \<Rightarrow> [])\<rparr>, g)))"

definition join ::
    "nat \<Rightarrow> string \<Rightarrow> string \<Rightarrow> string \<Rightarrow> group_coordinator
     \<Rightarrow> (join_group_response, group_error) outcome \<times> group_coordinator" where
  "join now grp topic member c =
    step_bind (validate_id grp, c) (\<lambda>_ c.
    step_bind (validate_id topic, c) (\<lambda>_ c.
    step_bind (validate_id member, c) (\<lambda>_ c.
    let count = partition_count c topic; key = (grp, topic) in
    step_bind (if map_of (gc_groups c) key \<noteq> None then Ok []
        else load_offsets (gc_files c) grp topic count, c) (\<lambda>committed_offsets c.
    let g = (case map_of (gc_groups c) key of
        Some g \<Rightarrow> g | None \<Rightarrow> empty_group committed_offsets) in
    on_group key (join_member now (gc_session_timeout c) count member) g c))))"

definition heartbeat ::
    "nat \<Rightarrow> string \<Rightarrow> string \<Rightarrow> string \<Rightarrow> u64 \<Rightarrow> group_coordinator
     \<Rightarrow> (unit, group_error) outcome \<times> group_coordinator" where
  "heartbeat now grp topic member generation c =
    step_bind (active_group now grp topic c) (\<lambda>g c.
    step_bind (validate_member g member generation, c) (\<lambda>_ c.
    (Ok (), set_group (grp, topic)
       (g\<lparr>cg_members := AList.update member now (cg_members g)\<rparr>) c)))"

definition leave ::
    "nat \<Rightarrow> string \<Rightarrow> string \<Rightarrow> string \<Rightarrow> u64 \<Rightarrow> group_coordinator
     \<Rightarrow> (unit, group_error) outcome \<times> group_coordinator" where
  "leave now grp topic member generation c =
    (let count = partition_count c topic in
     step_bind (active_group now grp topic c) (\<lambda>g c.
     step_bind (validate_member g member generation, c) (\<lambda>_ c.
     on_group (grp, topic) (\<lambda>g.
       rebalance count (g\<lparr>cg_members := AList.delete member (cg_members g)\<rparr>)) g c)))"

definition check_assigned :: "consumer_group \<Rightarrow> string \<Rightarrow> u32 \<Rightarrow> (unit, group_error) outcome" where
  "check_assigned g member part =
    (if \<not> (case map_of (cg_assignments g) member of None \<Rightarrow> False | Some ps \<Rightarrow> part \<in> set ps)
     then Err (PartitionNotAssigned part) else Ok ())"

definition commit ::
    "nat \<Rightarrow> group_identity \<Rightarrow> u32 \<Rightarrow> u64 \<Rightarrow> group_coordinator
     \<Rightarrow> (unit, group_error) outcome \<times> group_coordinator" where
  "commit now identity part offset c =
    step_bind (active_group now (gi_group identity) (gi_topic identity) c) (\<lambda>g c.
    step_bind (validate_member g (gi_member identity) (gi_generation identity), c) (\<lambda>_ c.
    step_bind (check_assigned g (gi_member identity) part, c) (\<lambda>_ c.
    (Ok (), set_group (gi_group identity, gi_topic identity)
       (g\<lparr>cg_committed_offsets := AList.update part offset (cg_committed_offsets g)\<rparr>)
       (c\<lparr>gc_files := persist_offset (gi_group identity) (gi_topic identity) part offset (gc_files c)\<rparr>)))))"

definition authorize_fetch ::
    "nat \<Rightarrow> group_identity \<Rightarrow> u32 \<Rightarrow> group_coordinator
     \<Rightarrow> (unit, group_error) outcome \<times> group_coordinator" where
  "authorize_fetch now identity part c =
    step_bind (active_group now (gi_group identity) (gi_topic identity) c) (\<lambda>g c.
    step_bind (validate_member g (gi_member identity) (gi_generation identity), c) (\<lambda>_ c.
    (check_assigned g (gi_member identity) part, c)))"

definition committed_offset ::
    "group_coordinator \<Rightarrow> string \<Rightarrow> string \<Rightarrow> u32 \<Rightarrow> (u64 option, group_error) outcome" where
  "committed_offset c grp topic part =
    try_bind (validate_id grp) (\<lambda>_.
    try_bind (validate_id topic) (\<lambda>_.
    read_offset (gc_files c) grp topic part))"

fun expire_group_list ::
    "nat \<Rightarrow> group_coordinator \<Rightarrow> group_key list \<Rightarrow> (unit, group_error) outcome \<times> group_coordinator" where
  "expire_group_list now c [] = (Ok (), c)"
| "expire_group_list now c ((grp, topic) # keys) =
    (case map_of (gc_groups c) (grp, topic) of
       None \<Rightarrow> expire_group_list now c keys
     | Some g \<Rightarrow>
         step_bind (on_group (grp, topic) (\<lambda>g.
           case expire_members (gc_session_timeout c) now g of (expired, g) \<Rightarrow>
           if expired then rebalance (partition_count c topic) g else (Ok (), g)) g c)
         (\<lambda>_ c. expire_group_list now c keys))"

definition expire_sessions ::
    "nat \<Rightarrow> group_coordinator \<Rightarrow> (unit, group_error) outcome \<times> group_coordinator" where
  "expire_sessions now c = expire_group_list now c (map fst (gc_groups c))"

fun reload_offsets ::
    "string \<Rightarrow> u32 \<Rightarrow> group_coordinator \<Rightarrow> group_key list
     \<Rightarrow> (unit, group_error) outcome \<times> group_coordinator" where
  "reload_offsets topic partitions c [] = (Ok (), c)"
| "reload_offsets topic partitions c ((grp, group_topic) # keys) =
    (case map_of (gc_groups c) (grp, group_topic) of
       Some state \<Rightarrow>
         if group_topic = topic then
           step_bind (load_offsets (gc_files c) grp group_topic partitions, c) (\<lambda>offsets c.
           reload_offsets topic partitions (set_group (grp, group_topic)
             (state\<lparr>cg_committed_offsets := fold (\<lambda>(p, x) m. AList.update p x m) offsets
                (cg_committed_offsets state)\<rparr>) c) keys)
         else reload_offsets topic partitions c keys
     | None \<Rightarrow> reload_offsets topic partitions c keys)"

definition set_topic_partitions ::
    "string \<Rightarrow> u32 \<Rightarrow> group_coordinator \<Rightarrow> (unit, group_error) outcome \<times> group_coordinator" where
  "set_topic_partitions topic partitions c =
    (let c = c\<lparr>gc_topic_partition_counts := AList.update topic partitions (gc_topic_partition_counts c)\<rparr> in
     reload_offsets topic partitions c (map fst (gc_groups c)))"

definition group_snapshots :: "group_coordinator \<Rightarrow> group_snapshot list" where
  "group_snapshots c = sort_key (\<lambda>s. (gs_group s, gs_topic s))
    (map (\<lambda>((grp, topic), g).
       \<lparr>gs_group = grp, gs_topic = topic, gs_generation = cg_generation g,
        gs_members = length (cg_members g),
        gs_assigned_partitions = sum_list (map (length \<circ> snd) (cg_assignments g)),
        gs_committed_offsets = sort_key fst (cg_committed_offsets g)\<rparr>) (gc_groups c))"

section \<open>Partition assignment\<close>

definition owned :: "consumer_group \<Rightarrow> string \<Rightarrow> u32 list" where
  "owned g member = (case map_of (cg_assignments g) member of None \<Rightarrow> [] | Some ps \<Rightarrow> ps)"

definition get_list :: "(string \<times> u32 list) list \<Rightarrow> string \<Rightarrow> u32 list" where
  "get_list assignments member = (case map_of assignments member of None \<Rightarrow> [] | Some ps \<Rightarrow> ps)"

lemma owned_get_list: "owned g = get_list (cg_assignments g)"
  by (simp add: owned_def get_list_def fun_eq_iff)

lemma get_list_push:
  "get_list (push_partition m p asg) m' = get_list asg m' @ (if m' = m then [p] else [])"
  by (simp add: get_list_def push_partition_def AList.update_conv' split: option.splits)

lemma assign_partitions_owned:
  "get_list (assign_partitions members parts asg) m =
     get_list asg m @ filter (\<lambda>p. members ! (unat p mod length members) = m) parts"
  by (induction parts arbitrary: asg) (auto simp: get_list_push)

lemma residue_count:
  assumes "i < k"
  shows "length (filter (\<lambda>p. p mod k = i) [0..<n]) = (n + k - 1 - i) div k"
proof (induction n)
  case 0
  then show ?case using assms by simp
next
  case (Suc n)
  have "(n + k - i) mod k = 0 \<longleftrightarrow> n mod k = i"
  proof
    assume "n mod k = i"
    then show "(n + k - i) mod k = 0"
      using assms by (metis Nat.add_diff_assoc2 add_diff_cancel_right' less_imp_le_nat
        minus_mod_eq_mult_div mod_add_self2 mod_less_eq_dividend mod_mult_self1_is_0)
  next
    assume "(n + k - i) mod k = 0"
    then obtain q where "n + k - i = k * q" by auto
    then have "n + k = k * q + i" using assms by simp
    then show "n mod k = i" using assms by (metis mod_add_self2 mod_less mod_mult_self4)
  qed
  moreover have "n + k - i = Suc (n + k - 1 - i)" using assms by simp
  ultimately show ?case using Suc div_Suc [of "n + k - 1 - i" k] by auto
qed

lemma rebalance_members:
  assumes "cg_members g \<noteq> []" and "unat (cg_generation g) + 1 < 2 ^ 64"
  shows "\<exists>g'. rebalance n g = (Ok (), g') \<and> cg_generation g' = cg_generation g + 1 \<and>
    cg_members g' = cg_members g \<and> cg_committed_offsets g' = cg_committed_offsets g \<and>
    (\<forall>m. owned g' m = filter (\<lambda>p. sort (map fst (cg_members g)) ! (unat p mod length (cg_members g)) = m)
       (partition_range n))"
proof -
  have "checked_add (cg_generation g) 1 = Some (cg_generation g + 1)"
    using assms(2) by (simp add: checked_add_def)
  then show ?thesis
    using assms(1) by (simp add: rebalance_def Let_def owned_get_list assign_partitions_owned get_list_def [of "[]"])
qed

lemma owned_count:
  assumes "distinct ms" and "i < length ms"
  shows "length (filter (\<lambda>p. ms ! (unat p mod length ms) = ms ! i) (partition_range n)) =
    (unat n + length ms - 1 - i) div length ms"
proof -
  have "filter (\<lambda>p. ms ! (unat p mod length ms) = ms ! i) (partition_range n) =
      filter (\<lambda>p. unat p mod length ms = i) (partition_range n)"
    using assms by (intro filter_cong refl nth_eq_iff_index_eq) (auto intro: mod_less_divisor)
  also have "\<dots> = map word_of_nat (filter (\<lambda>p. p mod length ms = i) [0..<unat n])"
  proof -
    have "unat (word_of_nat x :: u32) = x" if "x < unat n" for x
      using that by (rule unat_of_nat_below)
    then have "filter (\<lambda>x. unat (word_of_nat x :: u32) mod length ms = i) [0..<unat n] =
        filter (\<lambda>p. p mod length ms = i) [0..<unat n]"
      by (intro filter_cong) simp_all
    then show ?thesis by (simp add: partition_range_def filter_map comp_def)
  qed
  finally show ?thesis using residue_count [OF assms(2)] by simp
qed

text \<open>C27: After a rebalance of a group with members every partition of the topic belongs to exactly
  one member, which is a current one, the shares of any two members differ by at most one
  partition, nothing outside the topic is assigned, and the generation has moved by one.\<close>

theorem rebalance_correct:
  assumes "cg_members g \<noteq> []" and "distinct (map fst (cg_members g))"
    and "unat (cg_generation g) + 1 < 2 ^ 64"
  shows "\<exists>g'. rebalance n g = (Ok (), g') \<and> cg_generation g' = cg_generation g + 1 \<and>
    cg_members g' = cg_members g \<and>
    (\<forall>p < n. \<exists>!m. p \<in> set (owned g' m)) \<and>
    (\<forall>m. \<forall>p \<in> set (owned g' m). p < n \<and> m \<in> fst ` set (cg_members g)) \<and>
    (\<forall>m \<in> fst ` set (cg_members g). \<forall>m' \<in> fst ` set (cg_members g).
       length (owned g' m) \<le> length (owned g' m') + 1)"
proof -
  define ms where "ms = sort (map fst (cg_members g))"
  have ms: "distinct ms" "set ms = fst ` set (cg_members g)" "length ms = length (cg_members g)"
    using assms(2) by (simp_all add: ms_def)
  have ne: "ms \<noteq> []" using ms(3) assms(1) by auto
  obtain g' where g': "rebalance n g = (Ok (), g')" "cg_generation g' = cg_generation g + 1"
    "cg_members g' = cg_members g"
    and own: "\<And>m. owned g' m = filter (\<lambda>p. ms ! (unat p mod length ms) = m) (partition_range n)"
    using rebalance_members [OF assms(1,3), of n] ms(3) by (auto simp: ms_def)
  have idx: "ms ! (unat p mod length ms) \<in> set ms" for p :: u32
    using ne by simp
  have balanced: "length (owned g' m) \<le> length (owned g' m') + 1" if mm: "m \<in> set ms" "m' \<in> set ms" for m m'
  proof -
    obtain i j where i: "i < length ms" "m = ms ! i" and j: "j < length ms" "m' = ms ! j"
      using mm by (auto simp: in_set_conv_nth)
    have "(unat n + length ms - 1 - i) div length ms \<le> (unat n + length ms - 1 - j + length ms) div length ms"
      using i(1) j(1) by (intro div_le_mono) simp
    also have "\<dots> = Suc ((unat n + length ms - 1 - j) div length ms)"
      using ne div_add_self2 [of "length ms" "unat n + length ms - 1 - j"] by simp
    finally show ?thesis
      using owned_count [OF ms(1) i(1), of n] owned_count [OF ms(1) j(1), of n]
      by (simp add: own i(2) j(2))
  qed
  show ?thesis
    using g' idx balanced by (auto simp: own set_partition_range ms(2) [symmetric])
qed

theorem rebalance_correct_witness:
  "\<exists>g'. rebalance 5 ((empty_group [])\<lparr>cg_members := [(''b'', 1), (''a'', 2)]\<rparr>) = (Ok (), g') \<and>
     cg_generation g' = 1 \<and> (\<forall>p < 5. \<exists>!m. p \<in> set (owned g' m)) \<and>
     length (owned g' ''a'') \<le> length (owned g' ''b'') + 1"
  using rebalance_correct [of "(empty_group [])\<lparr>cg_members := [(''b'', 1), (''a'', 2)]\<rparr>" 5]
  by (auto simp: empty_group_def)

section \<open>Elementary changes\<close>

text \<open>What an operation does to one group: it replaces the member table, or it rebalances.\<close>

inductive group_next :: "consumer_group \<Rightarrow> consumer_group \<Rightarrow> bool" where
  next_members: "distinct (map fst ms) \<Longrightarrow> group_next g (g\<lparr>cg_members := ms\<rparr>)"
| next_rebalance: "group_next g (snd (rebalance n g))"

text \<open>What an operation does to the coordinator, and the operations as steps.\<close>

inductive group_change :: "group_coordinator \<Rightarrow> group_coordinator \<Rightarrow> bool" where
  change_evolve: "map_of (gc_groups c) k = Some g \<Longrightarrow> group_next\<^sup>*\<^sup>* g g' \<Longrightarrow>
    group_change c (set_group k g' c)"
| change_create: "map_of (gc_groups c) (grp, topic) = None \<Longrightarrow> validate_id grp = Ok () \<Longrightarrow>
    validate_id topic = Ok () \<Longrightarrow> load_offsets (gc_files c) grp topic n = Ok offsets \<Longrightarrow>
    group_change c (set_group (grp, topic) (empty_group offsets) c)"
| change_commit: "map_of (gc_groups c) (grp, topic) = Some g \<Longrightarrow>
    group_change c (set_group (grp, topic)
      (g\<lparr>cg_committed_offsets := AList.update part offset (cg_committed_offsets g)\<rparr>)
      (c\<lparr>gc_files := persist_offset grp topic part offset (gc_files c)\<rparr>))"
| change_reload: "map_of (gc_groups c) (grp, topic) = Some g \<Longrightarrow>
    load_offsets (gc_files c) grp topic n = Ok offsets \<Longrightarrow>
    group_change c (set_group (grp, topic)
      (g\<lparr>cg_committed_offsets := fold (\<lambda>(p, x) m. AList.update p x m) offsets (cg_committed_offsets g)\<rparr>) c)"
| change_topics: "group_change c (c\<lparr>gc_topic_partition_counts := counts\<rparr>)"

inductive group_step :: "group_coordinator \<Rightarrow> group_coordinator \<Rightarrow> bool" where
  step_join: "group_step c (snd (join now grp topic member c))"
| step_heartbeat: "group_step c (snd (heartbeat now grp topic member generation c))"
| step_leave: "group_step c (snd (leave now grp topic member generation c))"
| step_commit: "group_step c (snd (commit now identity part offset c))"
| step_fetch: "group_step c (snd (authorize_fetch now identity part c))"
| step_expire: "group_step c (snd (expire_sessions now c))"
| step_topic: "group_step c (snd (set_topic_partitions topic partitions c))"

lemma map_of_set_group [simp]:
  "map_of (gc_groups (set_group k g c)) k' = (if k' = k then Some g else map_of (gc_groups c) k')"
  by (simp add: set_group_def AList.update_conv')

lemma set_group_select [simp]:
  "gc_files (set_group k g c) = gc_files c" "gc_session_timeout (set_group k g c) = gc_session_timeout c"
  "partition_count (set_group k g c) topic = partition_count c topic"
  by (simp_all add: set_group_def partition_count_def split: option.splits)

lemma set_group_twice [simp]: "set_group k g (set_group k h c) = set_group k g c"
  by (simp add: set_group_def)

lemma set_group_same: "map_of (gc_groups c) k = Some g \<Longrightarrow> set_group k g c = c"
  by (simp add: set_group_def AList.update_triv)

definition group_ok :: "consumer_group \<Rightarrow> bool" where
  "group_ok g \<longleftrightarrow> distinct (map fst (cg_members g)) \<and>
     (\<forall>m m' p. p \<in> set (owned g m) \<longrightarrow> p \<in> set (owned g m') \<longrightarrow> m = m')"

lemma rebalance_cases:
  obtains (overflow) "rebalance n g = (Err GenerationOverflow, g)"
  | (empty) "rebalance n g = (Ok (), g\<lparr>cg_generation := cg_generation g + 1, cg_assignments := []\<rparr>)"
      "cg_generation g < cg_generation g + 1"
  | (assigned) g' where "rebalance n g = (Ok (), g')" "cg_generation g' = cg_generation g + 1"
      "cg_generation g < cg_generation g + 1"
      "cg_members g' = cg_members g" "cg_committed_offsets g' = cg_committed_offsets g"
      "\<And>m. owned g' m = filter (\<lambda>p. sort (map fst (cg_members g)) ! (unat p mod length (cg_members g)) = m)
         (partition_range n)"
proof (cases "unat (cg_generation g) + 1 < 2 ^ 64")
  case False
  then show ?thesis by (intro overflow) (simp add: rebalance_def checked_add_def)
next
  case True
  then have lt: "cg_generation g < cg_generation g + 1" by (simp add: word_less_nat_alt unat_plus_no_overflow)
  show ?thesis
  proof (cases "cg_members g = []")
    case True
    show ?thesis
      by (rule empty) (use lt True \<open>unat _ + 1 < _\<close> in \<open>simp_all add: rebalance_def checked_add_def\<close>)
  next
    case False
    from rebalance_members [OF this True, of n] assigned lt show ?thesis by blast
  qed
qed

lemma owned_simps [simp]:
  "owned (g\<lparr>cg_members := ms\<rparr>) = owned g" "owned (g\<lparr>cg_committed_offsets := os\<rparr>) = owned g"
  "owned (g\<lparr>cg_generation := n, cg_assignments := []\<rparr>) m = []"
  by (simp_all add: owned_def fun_eq_iff)

lemma group_next_ok: "group_next g g' \<Longrightarrow> group_ok g \<Longrightarrow> group_ok g'"
proof (induction rule: group_next.induct)
  case (next_rebalance g n)
  then show ?case by (cases rule: rebalance_cases [of n g]) (auto simp: group_ok_def)
qed (auto simp: group_ok_def)

lemma group_next_generation:
  "group_next g g' \<Longrightarrow> cg_generation g \<le> cg_generation g' \<and>
     (cg_generation g' = cg_generation g \<longrightarrow> owned g' = owned g) \<and>
     cg_committed_offsets g' = cg_committed_offsets g"
proof (induction rule: group_next.induct)
  case (next_rebalance g n)
  then show ?case by (cases rule: rebalance_cases [of n g]) auto
qed simp

lemma group_nexts:
  assumes "group_next\<^sup>*\<^sup>* g g'" and "group_ok g"
  shows "group_ok g' \<and> cg_generation g \<le> cg_generation g' \<and>
     (cg_generation g' = cg_generation g \<longrightarrow> owned g' = owned g) \<and>
     cg_committed_offsets g' = cg_committed_offsets g"
  using assms
proof (induction rule: rtranclp_induct)
  case (step g1 g2)
  then show ?case
    using group_next_ok [of g1 g2] group_next_generation [of g1 g2] by auto
qed simp

definition groups_ok :: "group_coordinator \<Rightarrow> bool" where
  "groups_ok c \<longleftrightarrow> (\<forall>k g. map_of (gc_groups c) k = Some g \<longrightarrow> group_ok g)"

lemma group_ok_empty [simp]: "group_ok (empty_group offsets)"
  by (simp add: group_ok_def empty_group_def owned_def)

lemma group_ok_offsets [simp]: "group_ok (g\<lparr>cg_committed_offsets := os\<rparr>) = group_ok g"
  by (simp add: group_ok_def)

lemma group_change_ok:
  assumes "group_change c c'" and "groups_ok c"
  shows "groups_ok c'"
  using assms group_nexts by cases (fastforce simp: groups_ok_def)+

lemma group_changes_ok: "group_change\<^sup>*\<^sup>* c c' \<Longrightarrow> groups_ok c \<Longrightarrow> groups_ok c'"
  by (induction rule: rtranclp_induct) (auto intro: group_change_ok)

lemma evolve_once: "map_of (gc_groups c) k = Some g \<Longrightarrow> group_next\<^sup>*\<^sup>* g g' \<Longrightarrow>
    group_change\<^sup>*\<^sup>* c (set_group k g' c)"
  by (rule r_into_rtranclp, rule change_evolve)

subsection \<open>The operations are sequences of elementary changes\<close>

lemma expire_next:
  assumes "group_ok g" and "expire_members timeout now g = (expired, g')"
  shows "group_next g g'"
proof -
  have "g' = g\<lparr>cg_members := filter (\<lambda>(_, t). now - t \<le> timeout) (cg_members g)\<rparr>"
    using assms(2) by (simp add: expire_members_def Let_def)
  then show ?thesis
    using assms(1) next_members [of "filter (\<lambda>(_, t). now - t \<le> timeout) (cg_members g)" g]
    by (simp add: group_ok_def distinct_map_filter)
qed

lemma rebalance_next: "rebalance n g = (res, g') \<Longrightarrow> group_next g g'"
  using next_rebalance [of g n] by simp

lemma expire_then_rebalance:
  assumes "group_ok g" and "expire_members timeout now g = (expired, g1)"
  shows "group_next\<^sup>*\<^sup>* g (snd (if expired then rebalance n g1 else (Ok (), g1)))"
  using expire_next [OF assms] next_rebalance [of g1 n] by auto

lemma active_group_change:
  assumes "groups_ok c" and "active_group now grp topic c = (res, c')"
  shows "group_change\<^sup>*\<^sup>* c c'" and "\<And>g. res = Ok g \<Longrightarrow> map_of (gc_groups c') (grp, topic) = Some g"
proof -
  have "group_change\<^sup>*\<^sup>* c c' \<and> (\<forall>g. res = Ok g \<longrightarrow> map_of (gc_groups c') (grp, topic) = Some g)"
  proof (cases "map_of (gc_groups c) (grp, topic)")
    case None
    then show ?thesis using assms(2) by (auto simp: active_group_def)
  next
    case (Some g)
    obtain expired g1 where e: "expire_members (gc_session_timeout c) now g = (expired, g1)" by fastforce
    obtain r g2 where r: "(if expired then rebalance (partition_count c topic) g1 else (Ok (), g1)) = (r, g2)"
      by fastforce
    have "group_next\<^sup>*\<^sup>* g g2"
      using expire_then_rebalance [OF _ e, of "partition_count c topic"] assms(1) Some r
      by (simp add: groups_ok_def)
    moreover have "c' = set_group (grp, topic) g2 c" "\<forall>g. res = Ok g \<longrightarrow> g = g2"
      using assms(2) Some e r
      by (cases r; auto simp: active_group_def on_group_def split: if_splits)+
    ultimately show ?thesis using evolve_once [OF Some] by auto
  qed
  then show "group_change\<^sup>*\<^sup>* c c'" and "\<And>g. res = Ok g \<Longrightarrow> map_of (gc_groups c') (grp, topic) = Some g"
    by auto
qed

text \<open>An operation that first finds its group with \<open>active_group\<close>.\<close>

lemma on_active:
  assumes "groups_ok c"
    and "\<And>g c1. groups_ok c1 \<Longrightarrow> map_of (gc_groups c1) (grp, topic) = Some g \<Longrightarrow> group_ok g \<Longrightarrow>
      group_change\<^sup>*\<^sup>* c1 (snd (f g c1))"
  shows "group_change\<^sup>*\<^sup>* c (snd (step_bind (active_group now grp topic c) f))"
proof -
  obtain res c1 where a: "active_group now grp topic c = (res, c1)" by fastforce
  note ch = active_group_change [OF assms(1) a]
  show ?thesis
  proof (cases res)
    case (Ok g)
    then have "groups_ok c1" "map_of (gc_groups c1) (grp, topic) = Some g"
      using group_changes_ok [OF ch(1) assms(1)] ch(2) by auto
    with assms(2) have "group_change\<^sup>*\<^sup>* c1 (snd (f g c1))" by (simp add: groups_ok_def)
    with ch(1) a Ok show ?thesis by simp
  qed (use ch(1) a in auto)
qed

lemma members_next:
  "group_ok g \<Longrightarrow> group_next g (g\<lparr>cg_members := AList.update m now (cg_members g)\<rparr>)"
  "group_ok g \<Longrightarrow> group_next g (g\<lparr>cg_members := AList.delete m (cg_members g)\<rparr>)"
  by (auto simp: group_ok_def AList.distinct_update AList.distinct_delete intro!: next_members)

lemma heartbeat_changes: "groups_ok c \<Longrightarrow> group_change\<^sup>*\<^sup>* c (snd (heartbeat now grp topic member gen c))"
  unfolding heartbeat_def
  by (rule on_active)
     (auto simp: validate_member_def intro!: evolve_once members_next)

lemma authorize_fetch_changes:
  "groups_ok c \<Longrightarrow> group_change\<^sup>*\<^sup>* c (snd (authorize_fetch now identity part c))"
  unfolding authorize_fetch_def by (rule on_active) (auto simp: validate_member_def)

lemma commit_changes: "groups_ok c \<Longrightarrow> group_change\<^sup>*\<^sup>* c (snd (commit now identity part offset c))"
  unfolding commit_def
  by (rule on_active)
     (auto simp: validate_member_def check_assigned_def intro!: r_into_rtranclp change_commit)

lemma leave_changes:
  assumes "groups_ok c"
  shows "group_change\<^sup>*\<^sup>* c (snd (leave now grp topic member gen c))"
  unfolding leave_def Let_def
proof (rule on_active [OF assms])
  fix g and c1 :: group_coordinator
  assume "map_of (gc_groups c1) (grp, topic) = Some g" "group_ok g"
  moreover from \<open>group_ok g\<close> members_next(2) [of g member]
  have "group_next\<^sup>*\<^sup>* g (snd (rebalance n (g\<lparr>cg_members := AList.delete member (cg_members g)\<rparr>)))" for n
    by (meson converse_rtranclp_into_rtranclp next_rebalance r_into_rtranclp)
  ultimately show "group_change\<^sup>*\<^sup>* c1 (snd (step_bind (validate_member g member gen, c1) (\<lambda>_ c1.
      on_group (grp, topic) (\<lambda>g. rebalance (partition_count c topic)
        (g\<lparr>cg_members := AList.delete member (cg_members g)\<rparr>)) g c1)))"
    by (auto simp: validate_member_def on_group_def split: prod.splits intro!: evolve_once) (metis snd_conv)
qed

lemma snd_step_bind_pure: "snd (step_bind r (\<lambda>x s. (Ok (f s), s))) = snd r"
  by (cases r; cases "fst r") auto

lemma join_member_next:
  assumes "group_ok g"
  shows "group_next\<^sup>*\<^sup>* g (snd (join_member now timeout n member g))"
proof -
  obtain expired g1 where e: "expire_members timeout now g = (expired, g1)" by fastforce
  define g2 where "g2 = g1\<lparr>cg_members := AList.update member now (cg_members g1)\<rparr>"
  define r where "r = (if map_of (cg_members g1) member = None \<or> expired \<or> cg_generation g2 = 0
      then rebalance n g2 else (Ok (), g2))"
  note e1 = expire_next [OF assms e]
  with assms have "group_ok g1" by (rule group_next_ok [rotated])
  from members_next(1) [OF this] have "group_next g1 g2" by (simp add: g2_def)
  with e1 have "group_next\<^sup>*\<^sup>* g g2" by auto
  with next_rebalance [of g2 n] have "group_next\<^sup>*\<^sup>* g (snd r)" by (auto simp: r_def)
  moreover have "snd (join_member now timeout n member g) = snd r"
    unfolding join_member_def e Let_def prod.case g2_def [symmetric] r_def [symmetric]
    by (rule snd_step_bind_pure)
  ultimately show ?thesis by simp
qed

lemma join_changes:
  assumes "groups_ok c"
  shows "group_change\<^sup>*\<^sup>* c (snd (join now grp topic member c))"
proof (cases "validate_id grp = Ok () \<and> validate_id topic = Ok () \<and> validate_id member = Ok ()")
  case False
  then show ?thesis
    by (cases "validate_id grp"; cases "validate_id topic"; cases "validate_id member")
       (auto simp: join_def)
next
  case True
  define n where "n = partition_count c topic"
  define loaded where "loaded = (if map_of (gc_groups c) (grp, topic) \<noteq> None then Ok []
    else load_offsets (gc_files c) grp topic n)"
  show ?thesis
  proof (cases loaded)
    case (Ok offsets)
    define g where "g = (case map_of (gc_groups c) (grp, topic) of
      Some g \<Rightarrow> g | None \<Rightarrow> empty_group offsets)"
    define c1 where "c1 = set_group (grp, topic) g c"
    have c1: "group_change\<^sup>*\<^sup>* c c1"
      using True Ok change_create [of c grp topic n offsets]
      by (cases "map_of (gc_groups c) (grp, topic)")
         (auto simp: c1_def g_def loaded_def set_group_same)
    have g: "map_of (gc_groups c1) (grp, topic) = Some g" by (simp add: c1_def)
    then have ok: "group_ok g" using group_changes_ok [OF c1 assms] by (simp add: groups_ok_def)
    from evolve_once [OF g join_member_next [OF ok, of now "gc_session_timeout c" n member]] c1
    have "group_change\<^sup>*\<^sup>* c (set_group (grp, topic)
        (snd (join_member now (gc_session_timeout c) n member g)) c)"
      by (simp add: c1_def)
    moreover have "snd (join now grp topic member c) = set_group (grp, topic)
        (snd (join_member now (gc_session_timeout c) n member g)) c"
      using True Ok
      by (cases "map_of (gc_groups c) (grp, topic)")
         (auto simp: join_def Let_def on_group_def g_def n_def loaded_def split: prod.splits)
    ultimately show ?thesis by simp
  qed (use True in \<open>auto simp: join_def Let_def n_def loaded_def split: if_splits\<close>)
qed

lemma expire_group_list_changes:
  "groups_ok c \<Longrightarrow> group_change\<^sup>*\<^sup>* c (snd (expire_group_list now c keys))"
proof (induction keys arbitrary: c)
  case (Cons k keys)
  obtain grp topic where k: "k = (grp, topic)" by fastforce
  show ?case
  proof (cases "map_of (gc_groups c) (grp, topic)")
    case None
    with Cons k show ?thesis by simp
  next
    case (Some g)
    obtain expired g1 where e: "expire_members (gc_session_timeout c) now g = (expired, g1)" by fastforce
    obtain r g2 where r: "(if expired then rebalance (partition_count c topic) g1 else (Ok (), g1)) = (r, g2)"
      by fastforce
    have "group_next\<^sup>*\<^sup>* g g2"
      using expire_then_rebalance [OF _ e, of "partition_count c topic"] Cons.prems Some r
      by (simp add: groups_ok_def)
    from evolve_once [OF Some this] have ch: "group_change\<^sup>*\<^sup>* c (set_group (grp, topic) g2 c)" .
    have on: "on_group (grp, topic) (\<lambda>g. case expire_members (gc_session_timeout c) now g of (expired, g) \<Rightarrow>
        if expired then rebalance (partition_count c topic) g else (Ok (), g)) g c =
        (r, set_group (grp, topic) g2 c)"
      using e r by (simp add: on_group_def)
    show ?thesis
    proof (cases r)
      case (Ok u)
      from rtranclp_trans [OF ch Cons.IH [OF group_changes_ok [OF ch Cons.prems]]] show ?thesis
        using on Ok Some k by simp
    qed (use ch on Some k in auto)
  qed
qed simp

lemma reload_offsets_changes:
  "group_change\<^sup>*\<^sup>* c (snd (reload_offsets topic partitions c keys))"
proof (induction keys arbitrary: c)
  case (Cons k keys)
  obtain grp group_topic where k: "k = (grp, group_topic)" by fastforce
  show ?case
  proof (cases "map_of (gc_groups c) (grp, group_topic) = None \<or> group_topic \<noteq> topic")
    case True
    with Cons.IH [of c] k show ?thesis by (auto split: option.split)
  next
    case False
    then obtain g where g: "map_of (gc_groups c) (grp, group_topic) = Some g" "group_topic = topic" by auto
    show ?thesis
    proof (cases "load_offsets (gc_files c) grp group_topic partitions")
      case (Ok offsets)
      from converse_rtranclp_into_rtranclp [OF change_reload [OF g(1) Ok] Cons.IH] show ?thesis
        using g k Ok by simp
    qed (use g k in auto)
  qed
qed simp

lemma group_step_changes: "group_step c c' \<Longrightarrow> groups_ok c \<Longrightarrow> group_change\<^sup>*\<^sup>* c c'"
proof (induction rule: group_step.induct)
  case (step_topic c topic partitions)
  show ?case unfolding set_topic_partitions_def Let_def
    by (rule converse_rtranclp_into_rtranclp [OF change_topics reload_offsets_changes])
qed (simp_all add: join_changes heartbeat_changes leave_changes commit_changes authorize_fetch_changes
    expire_sessions_def expire_group_list_changes)

lemma group_steps_changes: "group_step\<^sup>*\<^sup>* c c' \<Longrightarrow> groups_ok c \<Longrightarrow> group_change\<^sup>*\<^sup>* c c'"
proof (induction rule: rtranclp_induct)
  case (step c1 c2)
  with group_step_changes [OF step.hyps(2)] group_changes_ok show ?case by fastforce
qed simp

section \<open>Fencing by generations\<close>

text \<open>The contract between a coordinator and its members: generations never go back, the
  owners of partitions change only together with the generation, and no partition has two
  owners.\<close>

locale generation_fence =
  fixes step :: "'s \<Rightarrow> 's \<Rightarrow> bool" and inv :: "'s \<Rightarrow> bool"
    and gen :: "'s \<Rightarrow> 'k \<Rightarrow> u64 option" and owner :: "'s \<Rightarrow> 'k \<Rightarrow> 'm \<Rightarrow> 'p \<Rightarrow> bool"
  assumes inv_step: "inv s \<Longrightarrow> step s s' \<Longrightarrow> inv s'"
    and gen_step: "inv s \<Longrightarrow> step s s' \<Longrightarrow> gen s k = Some n \<Longrightarrow>
      \<exists>n'. gen s' k = Some n' \<and> n \<le> n' \<and> (n' = n \<longrightarrow> owner s' k = owner s k)"
    and exclusive: "inv s \<Longrightarrow> owner s k m p \<Longrightarrow> owner s k m' p \<Longrightarrow> m = m'"
begin

lemma inv_steps: "step\<^sup>*\<^sup>* s s' \<Longrightarrow> inv s \<Longrightarrow> inv s'"
  by (induction rule: rtranclp_induct) (auto intro: inv_step)

lemma gen_steps:
  "step\<^sup>*\<^sup>* s s' \<Longrightarrow> inv s \<Longrightarrow> gen s k = Some n \<Longrightarrow>
     \<exists>n'. gen s' k = Some n' \<and> n \<le> n' \<and> (n' = n \<longrightarrow> owner s' k = owner s k)"
proof (induction rule: rtranclp_induct)
  case (step s1 s2)
  then obtain n1 where n1: "gen s1 k = Some n1" "n \<le> n1" "n1 = n \<longrightarrow> owner s1 k = owner s k" by auto
  from gen_step [OF inv_steps [OF step.hyps(1) step.prems(1)] step.hyps(2) n1(1)] n1(2,3)
  show ?case by auto
qed auto

lemma sole_owner:
  assumes "inv s" "step\<^sup>*\<^sup>* s s'" "gen s k = Some n" "gen s' k = Some n" "owner s k m p" "owner s' k m' p"
  shows "m' = m"
proof -
  from gen_steps [OF assms(2,1,3)] assms(4) have "owner s' k = owner s k" by auto
  with assms(6) have "owner s k m' p" by simp
  from exclusive [OF assms(1) this assms(5)] show ?thesis .
qed

end

definition group_generation :: "group_coordinator \<Rightarrow> group_key \<Rightarrow> u64 option" where
  "group_generation c k = map_option cg_generation (map_of (gc_groups c) k)"

definition group_owner :: "group_coordinator \<Rightarrow> group_key \<Rightarrow> string \<Rightarrow> u32 \<Rightarrow> bool" where
  "group_owner c k m p \<longleftrightarrow> (case map_of (gc_groups c) k of None \<Rightarrow> False | Some g \<Rightarrow> p \<in> set (owned g m))"

text \<open>An elementary change keeps every group and moves it forward.\<close>

lemma group_change_forward:
  assumes "group_change c c'" and "groups_ok c" and "map_of (gc_groups c) k = Some g"
  shows "\<exists>g'. map_of (gc_groups c') k = Some g' \<and> cg_generation g \<le> cg_generation g' \<and>
    (cg_generation g' = cg_generation g \<longrightarrow> owned g' = owned g)"
  using assms(1)
proof cases
  case (change_evolve k0 g0 g1)
  then have "group_ok g0" using assms(2) unfolding groups_ok_def by blast
  with group_nexts [OF change_evolve(3)] change_evolve assms(3) show ?thesis by auto
qed (use assms(3) in auto)

interpretation groups: generation_fence group_change groups_ok group_generation group_owner
proof unfold_locales
  fix c c' and k :: group_key and n
  assume "groups_ok c" "group_change c c'" "group_generation c k = Some n"
  then obtain g where g: "map_of (gc_groups c) k = Some g" "n = cg_generation g"
    by (auto simp: group_generation_def)
  from group_change_forward [OF \<open>group_change c c'\<close> \<open>groups_ok c\<close> g(1)] g
  show "\<exists>n'. group_generation c' k = Some n' \<and> n \<le> n' \<and> (n' = n \<longrightarrow> group_owner c' k = group_owner c k)"
    by (auto simp: group_generation_def group_owner_def fun_eq_iff)
next
  fix c and k :: group_key and m p m'
  assume ok: "groups_ok c" and o: "group_owner c k m p" "group_owner c k m' p"
  then obtain g where "map_of (gc_groups c) k = Some g" "p \<in> set (owned g m)" "p \<in> set (owned g m')"
    by (auto simp: group_owner_def split: option.splits)
  moreover from this(1) ok have "group_ok g" unfolding groups_ok_def by blast
  ultimately show "m = m'" unfolding group_ok_def by blast
qed (rule group_change_ok)

lemma validate_member_Ok [simp]:
  "validate_member g m n = Ok () \<longleftrightarrow> cg_generation g = n \<and> map_of (cg_members g) m \<noteq> None"
  by (auto simp: validate_member_def)

lemma check_assigned_Ok [simp]: "check_assigned g m p = Ok () \<longleftrightarrow> p \<in> set (owned g m)"
  by (auto simp: check_assigned_def owned_def split: option.splits)

lemma authorize_fetch_Ok:
  assumes "fst (authorize_fetch now identity p c) = Ok ()" and "groups_ok c"
  shows "\<exists>c'. group_change\<^sup>*\<^sup>* c c' \<and> snd (authorize_fetch now identity p c) = c' \<and>
    group_generation c' (gi_group identity, gi_topic identity) = Some (gi_generation identity) \<and>
    group_owner c' (gi_group identity, gi_topic identity) (gi_member identity) p"
proof -
  obtain c' where c': "authorize_fetch now identity p c = (Ok (), c')"
    using assms(1) by (metis prod.collapse)
  then obtain g where a: "active_group now (gi_group identity) (gi_topic identity) c = (Ok g, c')"
    "cg_generation g = gi_generation identity" "p \<in> set (owned g (gi_member identity))"
    by (auto simp: authorize_fetch_def step_bind_eq_Ok)
  from active_group_change [OF assms(2) a(1)] a c' show ?thesis
    by (auto simp: group_generation_def group_owner_def)
qed

text \<open>Committing and fetching are guarded by the same checks.\<close>

lemma commit_guard:
  "fst (commit now identity p x c) = Ok () \<longleftrightarrow> fst (authorize_fetch now identity p c) = Ok ()"
proof -
  obtain r c1 where "active_group now (gi_group identity) (gi_topic identity) c = (r, c1)" by fastforce
  then show ?thesis
    by (cases r) (auto simp: commit_def authorize_fetch_def validate_member_def check_assigned_def)
qed

lemma recover_group_list_empty:
  "recover_group_list files n keys = Ok gs \<Longrightarrow> map_of gs k = Some g \<Longrightarrow> \<exists>os. g = empty_group os"
proof (induction keys arbitrary: gs)
  case (Cons k keys)
  then show ?case by (cases k) (auto simp: try_bind_eq_Ok split: if_splits)
qed simp

lemma open_groups_ok: "open_coordinator files n timeout = Ok c \<Longrightarrow> groups_ok c"
  by (auto simp: open_coordinator_def recover_groups_def groups_ok_def try_bind_eq_Ok
      dest!: recover_group_list_empty)

definition sample_identity :: group_identity where
  "sample_identity = \<lparr>gi_group = ''g'', gi_topic = ''orders'', gi_member = ''a'', gi_generation = 1\<rparr>"

definition sample_coordinator :: group_coordinator where
  "sample_coordinator = \<lparr>gc_files = [], gc_default_partition_count = 2,
     gc_topic_partition_counts = [], gc_session_timeout = 10, gc_groups = []\<rparr>"

definition sample_joined :: group_coordinator where
  "sample_joined = snd (join 0 ''g'' ''orders'' ''a'' sample_coordinator)"

lemma sample_open: "open_coordinator [] 2 10 = Ok sample_coordinator"
  by (simp add: open_coordinator_def recover_groups_def sample_coordinator_def)

lemma sample_joined_value:
  "sample_joined = sample_coordinator\<lparr>gc_groups := [((''g'', ''orders''),
     \<lparr>cg_generation = 1, cg_members = [(''a'', 0)], cg_assignments = [(''a'', [0, 1])],
      cg_committed_offsets = []\<rparr>)]\<rparr>"
proof -
  have r: "partition_range 2 = [0, 1]" by (simp add: partition_range_def upt_rec)
  have v: "validate_id ''g'' = Ok ()" "validate_id ''orders'' = Ok ()" "validate_id ''a'' = Ok ()"
    by (simp_all add: validate_id_def id_char_def is_ascii_alphanumeric_def is_ascii_digit_def less_eq_char_def)
  have l: "load_offsets [] ''g'' ''orders'' 2 = Ok []" by (simp add: load_offsets_def r read_offset_def)
  show ?thesis
    by (simp add: sample_joined_def join_def v sample_coordinator_def partition_count_def l empty_group_def
        on_group_def join_member_def expire_members_def rebalance_def checked_add_def r push_partition_def
        set_group_def)
qed

lemma sample_step: "group_step\<^sup>*\<^sup>* sample_coordinator sample_joined"
  unfolding sample_joined_def by (rule r_into_rtranclp, rule step_join)

lemma sample_authorized: "authorize_fetch 5 sample_identity 0 sample_joined = (Ok (), sample_joined)"
  by (simp add: sample_joined_value sample_coordinator_def sample_identity_def authorize_fetch_def active_group_def
      on_group_def expire_members_def validate_member_def check_assigned_def set_group_def)

text \<open>C9: One owner per generation: once a member was allowed to fetch a partition in some
  generation, no other member is ever allowed to fetch or commit that partition in the same
  generation, whatever joins, heartbeats, departures, commits, expiries and topic changes
  happen in between.\<close>

theorem single_owner_per_generation:
  assumes "open_coordinator files n timeout = Ok c0" and "group_step\<^sup>*\<^sup>* c0 c"
    and "authorize_fetch now identity p c = (Ok (), c1)"
    and "group_step\<^sup>*\<^sup>* c1 c2"
    and "fst (authorize_fetch now' identity' p c2) = Ok () \<or> fst (commit now' identity' p x c2) = Ok ()"
    and "gi_group identity' = gi_group identity" and "gi_topic identity' = gi_topic identity"
    and "gi_generation identity' = gi_generation identity"
  shows "gi_member identity' = gi_member identity"
proof -
  let ?k = "(gi_group identity, gi_topic identity)"
  have ok: "groups_ok c"
    using open_groups_ok [OF assms(1)] group_steps_changes [OF assms(2)] group_changes_ok by blast
  from authorize_fetch_Ok [OF _ ok, of now identity p] assms(3)
  have a: "group_change\<^sup>*\<^sup>* c c1" "group_generation c1 ?k = Some (gi_generation identity)"
    "group_owner c1 ?k (gi_member identity) p" by auto
  have ok1: "groups_ok c1" using group_changes_ok [OF a(1) ok] .
  have ch: "group_change\<^sup>*\<^sup>* c1 c2" using group_steps_changes [OF assms(4) ok1] .
  from authorize_fetch_Ok [OF _ group_changes_ok [OF ch ok1], of now' identity' p] assms(5-8)
  obtain c3 where b: "group_change\<^sup>*\<^sup>* c2 c3" "group_generation c3 ?k = Some (gi_generation identity)"
    "group_owner c3 ?k (gi_member identity') p" by (auto simp: commit_guard)
  from groups.sole_owner [OF ok1 rtranclp_trans [OF ch b(1)] a(2) b(2) a(3) b(3)] show ?thesis .
qed

theorem single_owner_per_generation_witness:
  "fst (authorize_fetch 5 sample_identity 0 sample_joined) = Ok () \<and>
   fst (authorize_fetch 6 (sample_identity\<lparr>gi_member := ''b''\<rparr>) 0
     (snd (join 5 ''g'' ''orders'' ''b'' sample_joined))) \<noteq> Ok ()"
proof -
  have "group_step\<^sup>*\<^sup>* sample_joined (snd (join 5 ''g'' ''orders'' ''b'' sample_joined))"
    by (rule r_into_rtranclp, rule step_join)
  from single_owner_per_generation [OF sample_open sample_step sample_authorized this,
      of 6 "sample_identity\<lparr>gi_member := ''b''\<rparr>" 0]
  show ?thesis using sample_authorized by (auto simp: sample_identity_def)
qed

section \<open>Durability of committed offsets\<close>

text \<open>Identifiers that name a directory entry of their own, and offset files as \<open>persist_offset\<close>
  leaves them.\<close>

definition proper :: "string \<Rightarrow> bool" where
  "proper s \<longleftrightarrow> validate_id s = Ok () \<and> s \<noteq> ''.'' \<and> s \<noteq> ''..''"

definition offset_file :: "string list \<times> string \<Rightarrow> bool" where
  "offset_file f \<longleftrightarrow> (\<exists>grp topic p x. proper grp \<and> proper topic \<and>
     fst f = offset_path grp topic p \<and> snd f = show_nat (unat (x :: u64)) @ [newline])"

definition files_ok :: "offset_files \<Rightarrow> bool" where
  "files_ok files \<longleftrightarrow> list_all offset_file files"

definition offset_of :: "offset_files \<Rightarrow> string \<Rightarrow> string \<Rightarrow> u32 \<Rightarrow> u64 option" where
  "offset_of files grp topic p =
    Option.bind (map_of files (offset_path grp topic p)) (\<lambda>contents. parse_unsigned (trim contents))"

lemma file_name_not_dots: "show_nat n @ ''.offset'' \<noteq> ''.''" "show_nat n @ ''.offset'' \<noteq> ''..''"
  by (auto dest!: arg_cong [where f = length])

lemma offset_path_proper:
  "proper grp \<Longrightarrow> proper topic \<Longrightarrow>
     offset_path grp topic p = [''__consumer_offsets'', grp, topic, show_nat (unat p) @ ''.offset'']"
  by (simp add: offset_path_def proper_def file_name_not_dots)

lemma offset_path_inj:
  assumes "proper grp" "proper topic" "proper grp'" "proper topic'"
  shows "offset_path grp topic p = offset_path grp' topic' q \<longleftrightarrow> grp = grp' \<and> topic = topic' \<and> p = q"
  using assms by (auto simp: offset_path_proper show_nat_word_inj)

lemma digit_not_whitespace: "is_ascii_digit c \<Longrightarrow> \<not> is_whitespace c"
  by (auto simp: is_ascii_digit_def is_whitespace_def less_eq_char_def Let_def)

lemma dropWhile_id: "s \<noteq> [] \<Longrightarrow> \<not> P (hd s) \<Longrightarrow> dropWhile P (s @ t) = s @ t"
  by (cases s) auto

lemma trim_offset [simp]: "trim (show_nat n @ [newline]) = show_nat n"
proof -
  have d: "\<not> is_whitespace c" if "c \<in> set (show_nat n)" for c
    using show_nat_digit_chars [OF that] digit_not_whitespace by blast
  have "\<not> is_whitespace (hd (show_nat n))" "\<not> is_whitespace (hd (rev (show_nat n)))"
    by (intro d; simp add: hd_rev)+
  moreover have "is_whitespace newline" by (simp add: is_whitespace_def newline_def)
  ultimately show ?thesis
    using dropWhile_id [of "show_nat n" is_whitespace "[newline]"]
      dropWhile_id [of "rev (show_nat n)" is_whitespace "[]"]
    by (simp add: trim_def)
qed

lemma files_ok_lookup:
  assumes "files_ok files" and "map_of files path = Some contents"
  shows "\<exists>x :: u64. parse_unsigned (trim contents) = Some x"
proof -
  have "offset_file (path, contents)"
    using assms(1) map_of_SomeD [OF assms(2)] by (simp add: files_ok_def list_all_iff)
  then show ?thesis by (auto simp: offset_file_def)
qed

lemma read_offset_ok: "files_ok files \<Longrightarrow> read_offset files grp topic p = Ok (offset_of files grp topic p)"
  using files_ok_lookup [of files "offset_path grp topic p"]
  by (auto simp: read_offset_def offset_of_def split: option.splits)

lemma load_offset_list_ok:
  "files_ok files \<Longrightarrow> \<exists>offsets. load_offset_list files grp topic ps = Ok offsets \<and>
     map_of offsets = (\<lambda>p. if p \<in> set ps then offset_of files grp topic p else None)"
proof (induction ps)
  case (Cons p ps)
  then obtain offsets where o: "load_offset_list files grp topic ps = Ok offsets"
    "map_of offsets = (\<lambda>p. if p \<in> set ps then offset_of files grp topic p else None)" by auto
  with Cons.prems show ?case
    by (auto simp: read_offset_ok fun_eq_iff split: option.split)
qed auto

lemma persist_files_ok:
  "files_ok files \<Longrightarrow> proper grp \<Longrightarrow> proper topic \<Longrightarrow> files_ok (persist_offset grp topic p x files)"
  unfolding files_ok_def persist_offset_def
  by (rule list_all_update) (auto simp: offset_file_def)

lemma offset_of_persist:
  assumes "proper grp" "proper topic" "proper grp'" "proper topic'"
  shows "offset_of (persist_offset grp topic p x files) grp' topic' q =
    (if grp' = grp \<and> topic' = topic \<and> q = p then Some x else offset_of files grp' topic' q)"
  using assms by (auto simp: offset_of_def persist_offset_def AList.update_conv' offset_path_inj)

text \<open>Every offset a group holds in memory is on disk.\<close>

definition named :: "group_coordinator \<Rightarrow> bool" where
  "named c \<longleftrightarrow> (\<forall>grp topic. map_of (gc_groups c) (grp, topic) \<noteq> None \<longrightarrow> proper grp \<and> proper topic)"

definition durable :: "group_coordinator \<Rightarrow> bool" where
  "durable c \<longleftrightarrow> files_ok (gc_files c) \<and> (\<forall>grp topic g p x. map_of (gc_groups c) (grp, topic) = Some g \<longrightarrow>
     map_of (cg_committed_offsets g) p = Some x \<longrightarrow> offset_of (gc_files c) grp topic p = Some x)"

lemma load_offsets_stored:
  assumes "files_ok files" and "load_offsets files grp topic n = Ok offsets" and "map_of offsets p = Some x"
  shows "offset_of files grp topic p = Some x"
  using load_offset_list_ok [OF assms(1), of grp topic "partition_range n"] assms(2,3)
  by (auto simp: load_offsets_def split: if_splits)

lemma fold_update_lookup:
  "map_of (fold (\<lambda>(p, x) m. AList.update p x m) offsets acc) q = Some x \<Longrightarrow>
     map_of acc q = Some x \<or> (q, x) \<in> set offsets"
  by (auto simp: map_of_fold_update map_add_Some_iff dest!: map_of_SomeD)

lemma load_offsets_distinct:
  "load_offset_list files grp topic ps = Ok offsets \<Longrightarrow> (p, x) \<in> set offsets \<Longrightarrow>
     files_ok files \<Longrightarrow> offset_of files grp topic p = Some x"
  by (induction ps arbitrary: offsets)
     (fastforce simp: try_bind_eq_Ok read_offset_ok split: option.splits)+

lemma group_change_keys: "group_change c c' \<Longrightarrow> map_of (gc_groups c) k \<noteq> None \<Longrightarrow> map_of (gc_groups c') k \<noteq> None"
  by (erule group_change.cases) auto

lemma group_change_named: "group_change c c' \<Longrightarrow> named c' \<Longrightarrow> named c"
  using group_change_keys unfolding named_def by metis

lemma group_change_durable:
  assumes "group_change c c'" and "groups_ok c" and "named c'" and "durable c"
  shows "durable c'"
  using assms(1)
proof cases
  case (change_evolve k g g')
  then have "group_ok g" using assms(2) unfolding groups_ok_def by blast
  with group_nexts [OF change_evolve(3)] change_evolve assms(4) show ?thesis
    by (cases k) (auto simp: durable_def)
next
  case (change_create grp topic n offsets)
  then show ?thesis
    using assms(4) load_offsets_stored [OF _ change_create(5)] by (auto simp: durable_def empty_group_def)
next
  case (change_commit grp topic g p x)
  have pr: "proper a \<and> proper b" if "map_of (gc_groups c) (a, b) \<noteq> None" for a b
    using group_change_named [OF assms(1,3)] that by (auto simp: named_def)
  have pk: "proper grp" "proper topic" using pr change_commit by auto
  have "offset_of (persist_offset grp topic p x (gc_files c)) a b q = Some y"
    if h: "map_of (gc_groups c) (a, b) = Some h" "(a, b) \<noteq> (grp, topic)" "map_of (cg_committed_offsets h) q = Some y"
    for a b h q y
    using h assms(4) pr [of a b] offset_of_persist [OF pk, of a b p x "gc_files c" q] by (auto simp: durable_def)
  then show ?thesis
    using assms(4) change_commit pk
    by (auto simp: durable_def persist_files_ok offset_of_persist AList.update_conv' split: if_splits)
next
  case (change_reload grp topic g n offsets)
  then have "offset_of (gc_files c) grp topic p = Some x" if "(p, x) \<in> set offsets" for p x
    using assms(4) that load_offsets_distinct by (auto simp: durable_def load_offsets_def)
  then show ?thesis
    using assms(4) change_reload by (auto simp: durable_def dest!: fold_update_lookup)
next
  case (change_topics counts)
  then show ?thesis using assms(4) by (simp add: durable_def)
qed

lemma group_changes_durable:
  assumes "group_change\<^sup>*\<^sup>* c c'" and "groups_ok c" and "durable c" and "named c'"
  shows "durable c'"
  using assms
proof (induction rule: rtranclp_induct)
  case (step c1 c2)
  from group_change_durable [OF step.hyps(2) group_changes_ok [OF step.hyps(1) step.prems(1)] step.prems(3)]
    group_change_named [OF step.hyps(2) step.prems(3)] step.IH step.prems show ?case by auto
qed

subsection \<open>Recovery\<close>

lemma group_dirs_ok:
  "files_ok files \<Longrightarrow> (grp, topic) \<in> set (group_dirs files) \<Longrightarrow> proper grp \<and> proper topic"
proof (induction files)
  case (Cons f files)
  then obtain grp' topic' p where "proper grp'" "proper topic'" "fst f = offset_path grp' topic' p"
    by (auto simp: files_ok_def offset_file_def)
  with Cons show ?case by (cases f) (auto simp: offset_path_proper files_ok_def)
qed simp

lemma group_dirs_complete:
  "proper grp \<Longrightarrow> proper topic \<Longrightarrow> (offset_path grp topic p, contents) \<in> set files \<Longrightarrow>
     (grp, topic) \<in> set (group_dirs files)"
  by (induction files) (auto simp: offset_path_proper split: list.splits)

lemma recover_group_list_ok:
  assumes "files_ok files"
  shows "list_all (\<lambda>(grp, topic). proper grp \<and> proper topic) keys \<Longrightarrow>
    \<exists>gs. recover_group_list files n keys = Ok gs \<and>
      (\<forall>grp topic. map_of gs (grp, topic) = (if (grp, topic) \<in> set keys then
         (case load_offsets files grp topic n of Ok os \<Rightarrow> Some (empty_group os) | _ \<Rightarrow> None) else None))"
proof (induction keys)
  case (Cons k keys)
  obtain grp topic where k: "k = (grp, topic)" by fastforce
  obtain os where "load_offsets files grp topic n = Ok os"
    using load_offset_list_ok [OF assms, of grp topic "partition_range n"] by (auto simp: load_offsets_def)
  with Cons k show ?case by (auto simp: proper_def)
qed simp

lemma open_coordinator_ok:
  assumes "files_ok files"
  shows "\<exists>c. open_coordinator files n timeout = Ok c \<and> named c \<and> durable c \<and> gc_files c = files \<and>
    (\<forall>grp topic p x. proper grp \<longrightarrow> proper topic \<longrightarrow> offset_of files grp topic p = Some x \<longrightarrow> p < n \<longrightarrow>
      (\<exists>g. map_of (gc_groups c) (grp, topic) = Some g \<and> map_of (cg_committed_offsets g) p = Some x))"
proof -
  have "list_all (\<lambda>(grp, topic). proper grp \<and> proper topic) (group_dirs files)"
    using group_dirs_ok [OF assms] by (auto simp: list_all_iff)
  from recover_group_list_ok [OF assms this, of n] obtain gs where gs: "recover_groups files n = Ok gs"
    and map: "\<And>grp topic. map_of gs (grp, topic) = (if (grp, topic) \<in> set (group_dirs files) then
         (case load_offsets files grp topic n of Ok os \<Rightarrow> Some (empty_group os) | _ \<Rightarrow> None) else None)"
    by (auto simp: recover_groups_def)
  define c where "c = \<lparr>gc_files = files, gc_default_partition_count = n, gc_topic_partition_counts = [],
     gc_session_timeout = timeout, gc_groups = gs\<rparr>"
  have "named c" using group_dirs_ok [OF assms] by (auto simp: named_def c_def map)
  moreover have "durable c"
    using assms load_offsets_stored [OF assms]
    by (auto simp: durable_def c_def map empty_group_def split: outcome.splits if_splits)
  moreover have "\<exists>g. map_of (gc_groups c) (grp, topic) = Some g \<and> map_of (cg_committed_offsets g) p = Some x"
    if pr: "proper grp" "proper topic" and x: "offset_of files grp topic p = Some x" "p < n" for grp topic p x
  proof -
    from x(1) obtain contents where "map_of files (offset_path grp topic p) = Some contents"
      by (auto simp: offset_of_def bind_eq_Some_conv)
    from group_dirs_complete [OF pr map_of_SomeD [OF this]]
    have "(grp, topic) \<in> set (group_dirs files)" .
    moreover obtain os where "load_offsets files grp topic n = Ok os" "map_of os p = Some x"
      using load_offset_list_ok [OF assms, of grp topic "partition_range n"] x
      by (auto simp: load_offsets_def set_partition_range)
    ultimately show ?thesis by (auto simp: c_def map empty_group_def)
  qed
  ultimately show ?thesis
    by (intro exI [of _ c]) (auto simp: open_coordinator_def gs c_def)
qed

text \<open>C26: A successful commit is durable: on a coordinator reached from an opened one (whose groups and
  topics are not called \<open>.\<close> or \<open>..\<close>), the committed offset is what \<open>committed_offset\<close> then
  reports, no other committed offset changes, and a coordinator opened later on the same files
  holds it, for every partition below its partition count.\<close>

theorem commit_durable:
  assumes "files_ok files" and "open_coordinator files n timeout = Ok c0" and "group_step\<^sup>*\<^sup>* c0 c"
    and "commit now identity p x c = (Ok (), c')" and "named c'"
  shows "committed_offset c' (gi_group identity) (gi_topic identity) p = Ok (Some x) \<and>
    (\<forall>grp topic q. proper grp \<and> proper topic \<and> (grp, topic, q) \<noteq> (gi_group identity, gi_topic identity, p) \<longrightarrow>
       committed_offset c' grp topic q = committed_offset c grp topic q) \<and>
    (\<forall>m. p < m \<longrightarrow> (\<exists>r g. open_coordinator (gc_files c') m timeout = Ok r \<and>
       map_of (gc_groups r) (gi_group identity, gi_topic identity) = Some g \<and>
       map_of (cg_committed_offsets g) p = Some x))"
proof -
  let ?g = "gi_group identity" and ?t = "gi_topic identity"
  have ok0: "groups_ok c0" using open_groups_ok [OF assms(2)] .
  have ch: "group_change\<^sup>*\<^sup>* c0 c" using group_steps_changes [OF assms(3) ok0] .
  have ok: "groups_ok c" using group_changes_ok [OF ch ok0] .
  have ch': "group_change\<^sup>*\<^sup>* c c'" using commit_changes [OF ok, of now identity p x] assms(4) by simp
  obtain g c1 where a: "active_group now ?g ?t c = (Ok g, c1)"
    and c': "c' = set_group (?g, ?t) (g\<lparr>cg_committed_offsets := AList.update p x (cg_committed_offsets g)\<rparr>)
       (c1\<lparr>gc_files := persist_offset ?g ?t p x (gc_files c1)\<rparr>)"
    using assms(4) by (auto simp: commit_def step_bind_eq_Ok)
  have files: "gc_files c' = persist_offset ?g ?t p x (gc_files c)"
    using a c' by (auto simp: active_group_def on_group_def split: option.splits prod.splits if_splits)
  have "map_of (gc_groups c') (?g, ?t) \<noteq> None" by (simp add: c')
  with assms(5) have pr: "proper ?g" "proper ?t" unfolding named_def by blast+
  have "durable c0" using open_coordinator_ok [OF assms(1), of n timeout] assms(2) by auto
  from group_changes_durable [OF rtranclp_trans [OF ch ch'] ok0 this assms(5)] have "durable c'" .
  then have f': "files_ok (gc_files c')" by (simp add: durable_def)
  have "named c" using ch' assms(5) by (induction rule: converse_rtranclp_induct) (auto dest: group_change_named)
  from group_changes_durable [OF ch ok0 \<open>durable c0\<close> this] have f: "files_ok (gc_files c)"
    by (simp add: durable_def)
  have get: "committed_offset d grp topic q = Ok (offset_of (gc_files d) grp topic q)"
    if "files_ok (gc_files d)" "proper grp" "proper topic" for d grp topic q
    using that by (simp add: committed_offset_def proper_def read_offset_ok)
  have x: "offset_of (gc_files c') ?g ?t p = Some x" using offset_of_persist [OF pr pr] by (simp add: files)
  have "\<exists>r g. open_coordinator (gc_files c') m timeout = Ok r \<and>
       map_of (gc_groups r) (?g, ?t) = Some g \<and> map_of (cg_committed_offsets g) p = Some x" if "p < m" for m
    using open_coordinator_ok [OF f', of m timeout] pr x that by auto
  then show ?thesis
    using get [OF f' pr] x get [OF f'] get [OF f] offset_of_persist [OF pr] by (auto simp: files)
qed

lemma sample_proper: "proper ''g''" "proper ''orders''"
  by (simp_all add: proper_def validate_id_def id_char_def is_ascii_alphanumeric_def is_ascii_digit_def
      less_eq_char_def)

theorem commit_durable_witness:
  "\<exists>c'. commit 5 sample_identity 0 7 sample_joined = (Ok (), c') \<and>
     committed_offset c' ''g'' ''orders'' 0 = Ok (Some 7)"
proof -
  obtain c' where c': "commit 5 sample_identity 0 7 sample_joined = (Ok (), c')"
    using sample_authorized commit_guard [of 5 sample_identity 0 7 sample_joined] by (metis fst_conv surj_pair)
  have "map_of (gc_groups c') k = None" if "k \<noteq> (''g'', ''orders'')" for k
    using that c'
    by (auto simp: commit_def step_bind_eq_Ok sample_joined_value sample_identity_def active_group_def
        on_group_def set_group_def AList.update_conv' split: prod.splits if_splits)
  then have "named c'" using sample_proper by (metis named_def prod.inject)
  from commit_durable [OF _ sample_open sample_step c' this] c' show ?thesis
    by (auto simp: files_ok_def sample_identity_def)
qed

text \<open>The identifiers \<open>.\<close> and \<open>..\<close> pass validation and are joined to the offsets path as they are:
  group \<open>.\<close> on a topic and the group named like that topic on topic \<open>.\<close> share their offset
  files, and the group \<open>..\<close> stores its offsets outside the offsets directory, in
  the topic's own log directory.\<close>

theorem dot_ids_escape:
  "validate_id ''.'' = Ok () \<and> validate_id ''..'' = Ok () \<and>
   (\<forall>topic p. offset_path ''.'' topic p = offset_path topic ''.'' p) \<and>
   offset_path ''..'' ''orders'' p = [''orders'', show_nat (unat p) @ ''.offset''] \<and>
   committed_offset (c\<lparr>gc_files := persist_offset ''.'' ''orders'' p x (gc_files c)\<rparr>) ''orders'' ''.'' p = Ok (Some x)"
proof -
  have v: "validate_id ''.'' = Ok ()" "validate_id ''..'' = Ok ()" "validate_id ''orders'' = Ok ()"
    by (simp_all add: validate_id_def id_char_def is_ascii_alphanumeric_def is_ascii_digit_def less_eq_char_def)
  moreover have same: "offset_path ''.'' topic q = offset_path topic ''.'' q" for topic q
    by (simp add: offset_path_def)
  moreover have "offset_path ''..'' ''orders'' p = [''orders'', show_nat (unat p) @ ''.offset'']"
    by (simp add: offset_path_def file_name_not_dots)
  moreover have "committed_offset (c\<lparr>gc_files := persist_offset ''.'' ''orders'' p x (gc_files c)\<rparr>) ''orders'' ''.'' p
      = Ok (Some x)"
    by (simp add: committed_offset_def v read_offset_def persist_offset_def same AList.update_conv')
  ultimately show ?thesis by blast
qed

end
