(* ===== verification/Record_Codec.thy ===== *)
theory Record_Codec
  imports Mq_Prelude
begin

text \<open>
  The on-disk record format of \<open>crates/storage/src/lib.rs\<close>: \<open>encode_record\<close>, \<open>decode_record\<close> (both
  record versions) and the name validation.  The checksum function of the \<open>crc32fast\<close> crate is
  the parameter \<open>hash\<close>.  A \<open>chunk\<close> is a byte sequence that decodes to one record in front of any
  bytes and to nothing when cut short; the log theories build on that notion only.
\<close>

abbreviation MAX_RECORD_SIZE :: nat where "MAX_RECORD_SIZE \<equiv> 16777216"
abbreviation RECORD_VERSION_V1 :: u8 where "RECORD_VERSION_V1 \<equiv> 1"
abbreviation RECORD_VERSION :: u8 where "RECORD_VERSION \<equiv> 2"
abbreviation LENGTH_SIZE :: nat where "LENGTH_SIZE \<equiv> 4"
abbreviation CRC_SIZE :: nat where "CRC_SIZE \<equiv> 4"
abbreviation BODY_FIXED_SIZE :: nat where "BODY_FIXED_SIZE \<equiv> 37"
abbreviation V1_BODY_FIXED_SIZE :: nat where "V1_BODY_FIXED_SIZE \<equiv> 25"
abbreviation MIN_RECORD_SIZE :: nat where "MIN_RECORD_SIZE \<equiv> 29"

datatype io_error = NotFound | AlreadyExists

datatype storage_error =
    Io io_error
  | InvalidRecord
  | RecordTooLarge
  | ChecksumMismatch
  | UnsupportedVersion u8
  | InvalidTopic
  | TopicAlreadyExists
  | UnknownTopic
  | InvalidProducerId
  | UnexpectedProducerSequence string u64 u64
  | OffsetOverflow
  | UnexpectedOffset u64 u64
  | ReplicaDiverged u64
  | InvalidSegmentLimit
  | InvalidIndexInterval
  | MissingActiveSegment
  | InvalidSegmentName
  | InvalidPartitionName
  | UnexpectedSegmentBase u64 u64
  | IncompleteClosedSegment u64
  | InvalidTimestamp
  | InvalidReadLimit
  | UnknownPartition u32

record producer_id =
  pid_id :: string
  pid_sequence :: u64

record log_record =
  lr_key :: "bytes option"
  lr_value :: bytes
  lr_timestamp_ms :: u64
  lr_producer :: "producer_id option"

record stored_record =
  sr_offset :: u64
  sr_timestamp_ms :: u64
  sr_key :: "bytes option"
  sr_value :: bytes
  sr_producer :: "producer_id option"

section \<open>Validation\<close>

definition validate_log_topic :: "string \<Rightarrow> (unit, storage_error) outcome" where
  "validate_log_topic topic =
    (if topic = [] \<or> take 2 topic = ''__'' \<or> \<not> list_all id_char topic
     then Err InvalidTopic else Ok ())"

definition validate_producer_id :: "string \<Rightarrow> (unit, storage_error) outcome" where
  "validate_producer_id producer_id =
    (if producer_id = [] \<or> length producer_id > 249 \<or> \<not> list_all id_char producer_id
     then Err InvalidProducerId else Ok ())"

section \<open>Encoding\<close>

definition opt_len :: "'a list option \<Rightarrow> nat" where
  "opt_len x = (case x of None \<Rightarrow> 0 | Some y \<Rightarrow> length y)"

definition encode_record ::
    "(bytes \<Rightarrow> u32) \<Rightarrow> log_record \<Rightarrow> u64 \<Rightarrow> (bytes, storage_error) outcome" where
  "encode_record hash record offset =
    (let key_len = opt_len (lr_key record);
         producer_len = opt_len (map_option pid_id (lr_producer record));
         body_len = BODY_FIXED_SIZE + producer_len + key_len + length (lr_value record);
         record_len = CRC_SIZE + body_len in
     if record_len > MAX_RECORD_SIZE then Err RecordTooLarge else
     let body = [RECORD_VERSION] @ put_u64 offset @ put_u64 (lr_timestamp_ms record) in
     try_bind (case lr_producer record of
         Some producer \<Rightarrow>
           try_bind (validate_producer_id (pid_id producer)) (\<lambda>_.
           try_bind (ok_or (i32_try_from (length (pid_id producer))) RecordTooLarge) (\<lambda>n.
           Ok (body @ put_u32 n @ put_u64 (pid_sequence producer))))
       | None \<Rightarrow> Ok (body @ put_u32 (- 1) @ put_u64 0)) (\<lambda>body.
     try_bind (case lr_key record of
         Some key \<Rightarrow>
           try_bind (ok_or (i32_try_from (length key)) RecordTooLarge) (\<lambda>n. Ok (body @ put_u32 n))
       | None \<Rightarrow> Ok (body @ put_u32 (- 1))) (\<lambda>body.
     try_bind (ok_or (try_from (length (lr_value record))) RecordTooLarge) (\<lambda>n.
     let body = body @ put_u32 n;
         body = body @ (case lr_producer record of Some producer \<Rightarrow> as_bytes (pid_id producer) | None \<Rightarrow> []);
         body = body @ (case lr_key record of Some key \<Rightarrow> key | None \<Rightarrow> []);
         body = body @ lr_value record in
     try_bind (ok_or (try_from record_len) RecordTooLarge) (\<lambda>n.
     Ok (put_u32 n @ put_u32 (hash body) @ body))))))"

section \<open>Decoding\<close>

definition read_record_bytes :: "bytes \<Rightarrow> nat \<Rightarrow> (bytes \<times> bytes, storage_error) outcome" where
  "read_record_bytes buffer len = (if length buffer < len then Err InvalidRecord
     else split_to len buffer)"

text \<open>\<open>decode_record\<close> after the checksum has been read and compared.\<close>

definition decode_record_body :: "bytes \<Rightarrow> (stored_record option, storage_error) outcome" where
  "decode_record_body encoded =
    try_bind (get_u8 encoded) (\<lambda>(version, encoded).
    if version \<noteq> RECORD_VERSION_V1 \<and> version \<noteq> RECORD_VERSION
    then Err (UnsupportedVersion version) else
    try_bind (get_u64 encoded) (\<lambda>(offset, encoded).
    try_bind (get_u64 encoded) (\<lambda>(timestamp_ms, encoded).
    try_bind (if version = RECORD_VERSION then
        if length encoded < 4 + 8 then Err InvalidRecord else
        try_bind (get_u32 encoded) (\<lambda>(producer_len, encoded).
        try_bind (get_u64 encoded) (\<lambda>(seq, encoded).
        if sint producer_len = - 1 then Ok (None, encoded)
        else if 0 \<le> sint producer_len then Ok (Some (nat (sint producer_len), seq), encoded)
        else Err InvalidRecord))
      else Ok (None, encoded)) (\<lambda>(producer, encoded).
    if length encoded < 4 + 4 then Err InvalidRecord else
    try_bind (get_u32 encoded) (\<lambda>(key_len, encoded).
    try_bind (get_u32 encoded) (\<lambda>(value_len, encoded).
    try_bind (case producer of
        None \<Rightarrow> Ok (None, encoded)
      | Some (len, seq) \<Rightarrow>
          try_bind (read_record_bytes encoded len) (\<lambda>(pid, encoded).
          try_bind (ok_or (from_utf8 pid) InvalidProducerId) (\<lambda>pid.
          Ok (Some \<lparr>pid_id = pid, pid_sequence = seq\<rparr>, encoded)))) (\<lambda>(producer, encoded).
    try_bind (if sint key_len = - 1 then Ok (None, encoded)
        else if 0 \<le> sint key_len then
          try_bind (read_record_bytes encoded (nat (sint key_len))) (\<lambda>(key, encoded).
          Ok (Some key, encoded))
        else Err InvalidRecord) (\<lambda>(key, encoded).
    try_bind (read_record_bytes encoded (unat value_len)) (\<lambda>(v, encoded).
    if encoded \<noteq> [] then Err InvalidRecord else
    Ok (Some \<lparr>sr_offset = offset, sr_timestamp_ms = timestamp_ms, sr_key = key,
      sr_value = v, sr_producer = producer\<rparr>))))))))))"

definition decode_record ::
    "(bytes \<Rightarrow> u32) \<Rightarrow> bytes \<Rightarrow> (stored_record option, storage_error) outcome \<times> bytes" where
  "decode_record hash buffer =
    (if length buffer < LENGTH_SIZE then (Ok None, buffer)
     else let record_len = from_be_bytes 0 (take LENGTH_SIZE buffer) in
       if record_len < MIN_RECORD_SIZE then (Err InvalidRecord, buffer)
       else if record_len > MAX_RECORD_SIZE then (Err RecordTooLarge, buffer)
       else if length buffer < LENGTH_SIZE + record_len then (Ok None, buffer)
       else let buffer = drop LENGTH_SIZE buffer;
                encoded = take record_len buffer;
                buffer = drop record_len buffer in
         (try_bind (get_u32 encoded) (\<lambda>(expected_crc, encoded).
            if hash encoded \<noteq> expected_crc then Err ChecksumMismatch
            else decode_record_body encoded), buffer))"

section \<open>Facts about the decoder\<close>

lemma from_be_bytes_put: "from_be_bytes 0 (put_u32 w) = unat w"
  by (simp add: put_u32_def from_to_be_bytes)

lemma validate_ids_Ok [outcome_simps]:
  "validate_log_topic t = Ok u \<longleftrightarrow> t \<noteq> [] \<and> take 2 t \<noteq> ''__'' \<and> list_all id_char t"
  "validate_producer_id p = Ok u \<longleftrightarrow> p \<noteq> [] \<and> length p \<le> 249 \<and> list_all id_char p"
  "validate_log_topic t \<noteq> Panic" "validate_producer_id p \<noteq> Panic"
  by (auto simp: validate_log_topic_def validate_producer_id_def)

lemma read_record_bytes_append [simp]:
  "n = length xs \<Longrightarrow> read_record_bytes (xs @ r) n = Ok (xs, r)"
  "n = length xs \<Longrightarrow> read_record_bytes xs n = Ok (xs, [])"
  by (simp_all add: read_record_bytes_def)

lemma read_record_bytes_not_Panic [simp]: "read_record_bytes b n \<noteq> Panic"
  by (simp add: read_record_bytes_def)

lemma decode_record_layout:
  assumes "n = CRC_SIZE + length body" and "MIN_RECORD_SIZE \<le> n" and "n \<le> MAX_RECORD_SIZE"
  shows "decode_record hash (put_u32 (word_of_nat n) @ put_u32 h @ body @ rest) =
    (if hash body \<noteq> h then Err ChecksumMismatch else decode_record_body body, rest)"
proof -
  have "unat (word_of_nat n :: u32) = n" using assms(3) by (intro unat_word_of_nat_small) simp
  with assms show ?thesis by (simp add: decode_record_def Let_def from_be_bytes_put)
qed

lemma decode_record_None: "decode_record hash b = (Ok None, r) \<Longrightarrow> r = b"
  by (auto simp: decode_record_def Let_def decode_record_body_def outcome_simps split: if_splits)

lemma decode_record_shrinks:
  "decode_record hash b = (Ok (Some x), r) \<Longrightarrow>
     \<exists>c. b = c @ r \<and> 33 \<le> length c \<and> length r < length b"
  by (rule exI [of _ "take (length b - length r) b"])
     (auto simp: decode_record_def Let_def split: if_splits)

lemma decode_record_not_Panic: "fst (decode_record hash b) \<noteq> Panic"
proof -
  have body: "17 \<le> length e \<Longrightarrow> decode_record_body e \<noteq> Panic" for e
    by (auto simp: decode_record_body_def try_bind_Panic_iff dest!: get_length
        split: if_splits option.splits)
  show ?thesis
    by (auto simp: decode_record_def Let_def try_bind_Panic_iff dest!: get_length intro!: body)
qed

section \<open>Chunks\<close>

definition chunk :: "(bytes \<Rightarrow> u32) \<Rightarrow> stored_record \<Rightarrow> bytes \<Rightarrow> bool" where
  "chunk hash r c \<longleftrightarrow> 33 \<le> length c \<and>
     (\<forall>rest. decode_record hash (c @ rest) = (Ok (Some r), rest)) \<and>
     (\<forall>n < length c. decode_record hash (take n c) = (Ok None, take n c))"

text \<open>Whatever decodes to a record is a chunk: the decoder looks at nothing behind it.\<close>

lemma decode_record_chunk:
  assumes "decode_record hash b = (Ok (Some x), r)"
  shows "\<exists>c. b = c @ r \<and> chunk hash x c"
proof -
  define n where "n = from_be_bytes 0 (take 4 b)"
  have n: "29 \<le> n" "n \<le> MAX_RECORD_SIZE" "4 + n \<le> length b" "r = drop (4 + n) b"
    and d: "try_bind (get_u32 (take n (drop 4 b))) (\<lambda>(expected_crc, encoded).
        if hash encoded \<noteq> expected_crc then Err ChecksumMismatch
        else decode_record_body encoded) = Ok (Some x)"
    using assms by (auto simp: decode_record_def Let_def n_def add.commute split: if_splits)
  define c where "c = take (4 + n) b"
  have c: "length c = 4 + n" "take 4 c = take 4 b" "take n (drop 4 c) = take n (drop 4 b)"
    using n by (auto simp: c_def take_drop)
  have "decode_record hash (c @ rest) = (Ok (Some x), rest)" for rest
    using n c d by (simp add: decode_record_def Let_def n_def)
  moreover have "decode_record hash (take k c) = (Ok None, take k c)" if "k < length c" for k
    using n c that by (auto simp: decode_record_def Let_def n_def min_def)
  ultimately have "chunk hash x c" using n c by (simp add: chunk_def)
  moreover have "b = c @ r" by (simp add: c_def n)
  ultimately show ?thesis by blast
qed

definition stored_of :: "log_record \<Rightarrow> u64 \<Rightarrow> stored_record" where
  "stored_of r offset = \<lparr>sr_offset = offset, sr_timestamp_ms = lr_timestamp_ms r,
     sr_key = lr_key r, sr_value = lr_value r, sr_producer = lr_producer r\<rparr>"

definition record_body :: "log_record \<Rightarrow> u64 \<Rightarrow> bytes" where
  "record_body r offset = [RECORD_VERSION] @ put_u64 offset @ put_u64 (lr_timestamp_ms r)
     @ (case lr_producer r of
          Some p \<Rightarrow> put_u32 (word_of_nat (length (pid_id p))) @ put_u64 (pid_sequence p)
        | None \<Rightarrow> put_u32 (- 1) @ put_u64 0)
     @ put_u32 (case lr_key r of Some k \<Rightarrow> word_of_nat (length k) | None \<Rightarrow> - 1)
     @ put_u32 (word_of_nat (length (lr_value r)))
     @ (case lr_producer r of Some p \<Rightarrow> as_bytes (pid_id p) | None \<Rightarrow> [])
     @ (case lr_key r of Some k \<Rightarrow> k | None \<Rightarrow> []) @ lr_value r"

definition record_sizes_ok :: "log_record \<Rightarrow> bool" where
  "record_sizes_ok r \<longleftrightarrow>
     CRC_SIZE + (BODY_FIXED_SIZE + opt_len (map_option pid_id (lr_producer r))
       + opt_len (lr_key r) + length (lr_value r)) \<le> MAX_RECORD_SIZE \<and>
     pred_option (\<lambda>p. validate_producer_id (pid_id p) = Ok ()) (lr_producer r)"

lemma length_record_body:
  "length (record_body r offset) = BODY_FIXED_SIZE + opt_len (map_option pid_id (lr_producer r))
     + opt_len (lr_key r) + length (lr_value r)"
  by (auto simp: record_body_def opt_len_def split: option.splits)

lemma encode_record_eq:
  "encode_record hash r offset = Ok c \<longleftrightarrow> record_sizes_ok r \<and>
     c = put_u32 (word_of_nat (CRC_SIZE + length (record_body r offset)))
       @ put_u32 (hash (record_body r offset)) @ record_body r offset"
proof (cases "record_sizes_ok r")
  case True
  then have len: "length (lr_value r) < 2147483648"
    "\<And>k. lr_key r = Some k \<Longrightarrow> length k < 2147483648"
    "\<And>p. lr_producer r = Some p \<Longrightarrow> length (pid_id p) < 2147483648"
    by (auto simp: record_sizes_ok_def opt_len_def)
  have "encode_record hash r offset = Ok (put_u32 (word_of_nat (CRC_SIZE + length (record_body r offset)))
       @ put_u32 (hash (record_body r offset)) @ record_body r offset)"
    using True len
    by (cases "lr_producer r"; cases "lr_key r")
       (simp_all add: encode_record_def record_sizes_ok_def record_body_def opt_len_def
         i32_try_from_def try_from_def Let_def)
  with True show ?thesis by auto
next
  case False
  then show ?thesis
    by (auto simp: encode_record_def record_sizes_ok_def Let_def outcome_simps
        split: option.splits if_splits)
qed

lemma decode_record_body_of:
  assumes "record_sizes_ok r"
  shows "decode_record_body (record_body r offset) = Ok (Some (stored_of r offset))"
proof -
  have len: "length (lr_value r) < 2147483648"
    "\<And>k. lr_key r = Some k \<Longrightarrow> length k < 2147483648"
    "\<And>p. lr_producer r = Some p \<Longrightarrow> length (pid_id p) < 2147483648 \<and> utf8_string (pid_id p)"
    using assms by (auto simp: record_sizes_ok_def opt_len_def outcome_simps intro: utf8_string_id)
  show ?thesis
    using len
    by (cases "lr_producer r"; cases "lr_key r")
       (simp_all add: decode_record_body_def record_body_def stored_of_def sint_word_of_nat_i32
         unat_word_of_nat_small)
qed

lemma encode_record_chunk:
  assumes "encode_record hash r offset = Ok c"
  shows "chunk hash (stored_of r offset) c"
proof -
  define body where "body = record_body r offset"
  have ok: "record_sizes_ok r"
    and c: "c = put_u32 (word_of_nat (CRC_SIZE + length body)) @ put_u32 (hash body) @ body"
    using assms by (simp_all add: encode_record_eq body_def)
  have len: "37 \<le> length body" "CRC_SIZE + length body \<le> MAX_RECORD_SIZE"
    using ok by (auto simp: body_def length_record_body record_sizes_ok_def)
  have "decode_record hash c = (Ok (Some (stored_of r offset)), [])"
    using decode_record_layout [OF refl _ len(2), of hash "hash body" "[]"] len(1)
      decode_record_body_of [OF ok, of offset]
    unfolding c by (simp add: body_def)
  from decode_record_chunk [OF this] show ?thesis by simp
qed

section \<open>Properties\<close>

text \<open>A checksum to evaluate the model with: the sum of the bytes.\<close>

definition byte_sum :: "bytes \<Rightarrow> u32" where
  "byte_sum bs = sum_list (map (\<lambda>b. word_of_nat (unat b)) bs)"

definition sample_record :: log_record where
  "sample_record = \<lparr>lr_key = Some [7], lr_value = [8, 9], lr_timestamp_ms = 1000,
     lr_producer = Some \<lparr>pid_id = ''p'', pid_sequence = 0\<rparr>\<rparr>"

lemma sample_record_ok: "record_sizes_ok sample_record"
  by (simp add: sample_record_def record_sizes_ok_def opt_len_def validate_producer_id_def
      id_char_def is_ascii_alphanumeric_def is_ascii_digit_def less_eq_char_def)

text \<open>A record that was encoded for a given offset decodes, in front of any further bytes, to
  exactly that record at that offset, and the bytes behind it are left untouched; when the
  encoding is cut anywhere (a torn write), the decoder reports an incomplete record instead of
  an error and consumes nothing.\<close>

theorem record_roundtrip:
  assumes "encode_record hash r offset = Ok c"
  shows "(\<forall>rest. decode_record hash (c @ rest) = (Ok (Some (stored_of r offset)), rest)) \<and>
    (\<forall>n < length c. decode_record hash (take n c) = (Ok None, take n c))"
  using encode_record_chunk [OF assms] by (simp add: chunk_def)

text \<open>Corruption is detected: if the body of an encoded record is replaced on disk by other bytes
  of the same length whose checksum differs, decoding fails with a checksum error.\<close>

lemma record_corruption_detected:
  assumes "encode_record hash r offset = Ok (header @ body)" and "length header = LENGTH_SIZE + CRC_SIZE"
    and "length body' = length body" and "hash body' \<noteq> hash body"
  shows "fst (decode_record hash (header @ body' @ rest)) = Err ChecksumMismatch"
proof -
  define b where "b = record_body r offset"
  have ok: "record_sizes_ok r" and "header @ body =
      (put_u32 (word_of_nat (CRC_SIZE + length b)) @ put_u32 (hash b)) @ b"
    using assms(1) by (simp_all add: encode_record_eq b_def)
  moreover have "length header = length (put_u32 (word_of_nat (CRC_SIZE + length b)) @ put_u32 (hash b))"
    using assms(2) by simp
  ultimately have h: "header = put_u32 (word_of_nat (CRC_SIZE + length b)) @ put_u32 (hash b)"
    and "body = b" using append_eq_append_conv by blast+
  have "37 \<le> length b" "CRC_SIZE + length b \<le> MAX_RECORD_SIZE"
    using ok by (auto simp: b_def length_record_body record_sizes_ok_def)
  with \<open>body = b\<close> assms(3,4)
    decode_record_layout [of "CRC_SIZE + length b" body' hash "hash b" rest]
  show ?thesis by (simp add: h del: of_nat_add)
qed

end
