(* ===== verification/Partition_Log.thy ===== *)
theory Partition_Log
  imports Record_Codec
begin

text \<open>
  \<open>PartitionLog\<close> of \<open>crates/storage/src/lib.rs\<close>: the segment files of one partition, their sparse
  index, and the producer table.  The partition directory is an association list from file
  names to contents; an open file handle is the name it was opened under, and writing to it
  appends to that file.  I/O succeeds except where the directory itself makes it fail (creating
  a file that exists, opening or removing one that does not).
\<close>

section \<open>Files\<close>

type_synonym dir = "(string \<times> bytes) list"

definition write_all :: "string \<Rightarrow> bytes \<Rightarrow> dir \<Rightarrow> dir" where
  "write_all name bs d = (case map_of d name of
     None \<Rightarrow> d | Some old \<Rightarrow> AList.update name (old @ bs) d)"

definition remove_file :: "string \<Rightarrow> dir \<Rightarrow> (unit, storage_error) outcome \<times> dir" where
  "remove_file name d = (if map_of d name = None then (Err (Io NotFound), d)
     else (Ok (), AList.delete name d))"

definition create_new :: "string \<Rightarrow> dir \<Rightarrow> (unit, storage_error) outcome \<times> dir" where
  "create_new name d = (if map_of d name \<noteq> None then (Err (Io AlreadyExists), d)
     else (Ok (), AList.update name [] d))"

text \<open>\<open>Path::file_stem\<close>, \<open>Path::extension\<close> and \<open>Path::with_extension\<close> on a file name: split at the last
  dot, unless nothing stands before it.\<close>

definition rsplit_dot :: "string \<Rightarrow> (string \<times> string) option" where
  "rsplit_dot name = (case dropWhile (\<lambda>c. c \<noteq> CHR ''.'') (rev name) of
     [] \<Rightarrow> None
   | _ # st \<Rightarrow> if st = [] then None
       else Some (rev st, rev (takeWhile (\<lambda>c. c \<noteq> CHR ''.'') (rev name))))"

definition extension :: "string \<Rightarrow> string option" where
  "extension name = map_option snd (rsplit_dot name)"

definition file_stem :: "string \<Rightarrow> string" where
  "file_stem name = (case rsplit_dot name of None \<Rightarrow> name | Some (st, _) \<Rightarrow> st)"

definition with_extension :: "string \<Rightarrow> string \<Rightarrow> string" where
  "with_extension name ext = file_stem name @ CHR ''.'' # ext"

section \<open>State\<close>

record index_entry =
  ie_offset :: u64
  ie_position :: u64

record segment_metadata =
  sg_base_offset :: u64
  sg_path :: string
  sg_len :: u64
  sg_index :: "index_entry list"

record partition_log =
  lg_next_offset :: u64
  lg_max_segment_bytes :: u64
  lg_index_interval_bytes :: u64
  lg_dir :: dir
  lg_segments :: "segment_metadata list"
  lg_active_file :: string
  lg_active_index_file :: string
  lg_producer_state :: "string \<rightharpoonup> u64 \<times> u64"

section \<open>Segments\<close>

definition pad20 :: "string \<Rightarrow> string" where
  "pad20 s = replicate (20 - length s) (CHR ''0'') @ s"

definition segment_file :: "u64 \<Rightarrow> string" where
  "segment_file base_offset = pad20 (show_nat (unat base_offset)) @ ''.log''"

definition index_path :: "string \<Rightarrow> string" where
  "index_path log_path = with_extension log_path ''idx''"

definition create_segment :: "u64 \<Rightarrow> dir \<Rightarrow> (segment_metadata, storage_error) outcome \<times> dir" where
  "create_segment base_offset d =
    (let path = segment_file base_offset in
     step_bind (create_new path d) (\<lambda>_ d.
     step_bind (create_new (index_path path) d) (\<lambda>_ d.
     (Ok \<lparr>sg_base_offset = base_offset, sg_path = path, sg_len = 0, sg_index = []\<rparr>, d))))"

definition encode_index_entry :: "u64 \<Rightarrow> u64 \<Rightarrow> bytes" where
  "encode_index_entry offset position = put_u64 offset @ put_u64 position"

definition rewrite_index :: "segment_metadata \<Rightarrow> dir \<Rightarrow> dir" where
  "rewrite_index segment d = AList.update (index_path (sg_path segment))
     (concat (map (\<lambda>e. encode_index_entry (ie_offset e) (ie_position e)) (sg_index segment))) d"

fun discover_entries :: "dir \<Rightarrow> (segment_metadata list, storage_error) outcome" where
  "discover_entries [] = Ok []"
| "discover_entries ((name, contents) # d) =
    (if extension name \<noteq> Some ''log'' then discover_entries d
     else let stem = file_stem name in
       if length stem \<noteq> 20 \<or> \<not> list_all is_ascii_digit stem then Err InvalidSegmentName
       else try_bind (ok_or (parse_unsigned stem) InvalidSegmentName) (\<lambda>base_offset.
         try_bind (discover_entries d) (\<lambda>segments.
         Ok (\<lparr>sg_base_offset = base_offset, sg_path = name, sg_len = word_of_nat (length contents),
              sg_index = []\<rparr> # segments))))"

definition discover_segments :: "dir \<Rightarrow> (segment_metadata list, storage_error) outcome" where
  "discover_segments d = map_ok (sort_key sg_base_offset) (discover_entries d)"

section \<open>Recovery\<close>

definition needs_index :: "u64 \<Rightarrow> index_entry list \<Rightarrow> u64 \<Rightarrow> bool" where
  "needs_index interval index position \<longleftrightarrow>
     index = [] \<or> interval \<le> saturating_sub position (ie_position (last index))"

text \<open>The sequence rule of \<open>append\<close> and \<open>recover_segment\<close>: a known producer continues with the next
  number, a new one starts at zero.\<close>

definition check_sequence ::
    "(string \<rightharpoonup> u64 \<times> u64) \<Rightarrow> producer_id \<Rightarrow> (unit, storage_error) outcome" where
  "check_sequence state producer =
    (case state (pid_id producer) of
       Some (seq, _) \<Rightarrow>
         if pid_sequence producer \<noteq> saturating_add seq 1
         then Err (UnexpectedProducerSequence (pid_id producer) (saturating_add seq 1)
                (pid_sequence producer))
         else Ok ()
     | None \<Rightarrow>
         if pid_sequence producer \<noteq> 0
         then Err (UnexpectedProducerSequence (pid_id producer) 0 (pid_sequence producer))
         else Ok ())"

definition recover_producer ::
    "(string \<rightharpoonup> u64 \<times> u64) \<Rightarrow> stored_record \<Rightarrow> (string \<rightharpoonup> u64 \<times> u64, storage_error) outcome" where
  "recover_producer state record =
    (case sr_producer record of
       None \<Rightarrow> Ok state
     | Some producer \<Rightarrow>
         try_bind (validate_producer_id (pid_id producer)) (\<lambda>_.
         try_bind (check_sequence state producer) (\<lambda>_.
         Ok (state(pid_id producer \<mapsto> (pid_sequence producer, sr_offset record))))))"

function recover_loop ::
    "(bytes \<Rightarrow> u32) \<Rightarrow> nat \<Rightarrow> u64 \<Rightarrow> bytes \<Rightarrow> u64 \<Rightarrow> index_entry list \<Rightarrow> (string \<rightharpoonup> u64 \<times> u64)
     \<Rightarrow> ((u64 \<times> u64 \<times> index_entry list) \<times> (string \<rightharpoonup> u64 \<times> u64), storage_error) outcome" where
  "recover_loop hash total_len interval buffer next_offset index state =
    try_bind (ok_or (try_from (total_len - length buffer)) RecordTooLarge) (\<lambda>position.
    case decode_record hash buffer of
      (Ok (Some record), buffer') \<Rightarrow>
        if sr_offset record \<noteq> next_offset
        then Err (UnexpectedOffset next_offset (sr_offset record))
        else try_bind (recover_producer state record) (\<lambda>state.
          let index = (if needs_index interval index position
            then index @ [\<lparr>ie_offset = sr_offset record, ie_position = position\<rparr>] else index) in
          try_bind (ok_or (checked_add next_offset 1) OffsetOverflow) (\<lambda>next_offset.
          recover_loop hash total_len interval buffer' next_offset index state))
    | (Ok None, _) \<Rightarrow> Ok ((next_offset, position, index), state)
    | (Err e, _) \<Rightarrow> Err e
    | (Panic, _) \<Rightarrow> Panic)"
  by pat_completeness auto
termination
  by (relation "measure (\<lambda>(_, _, _, b, _). length b)") (auto dest!: decode_record_shrinks [OF sym])

declare recover_loop.simps [simp del]

definition recover_segment ::
    "(bytes \<Rightarrow> u32) \<Rightarrow> dir \<Rightarrow> string \<Rightarrow> u64 \<Rightarrow> u64 \<Rightarrow> (string \<rightharpoonup> u64 \<times> u64)
     \<Rightarrow> ((u64 \<times> u64 \<times> index_entry list) \<times> (string \<rightharpoonup> u64 \<times> u64), storage_error) outcome" where
  "recover_segment hash d path next_offset interval state =
    try_bind (ok_or (map_of d path) (Io NotFound)) (\<lambda>contents.
    recover_loop hash (length contents) interval contents next_offset [] state)"

fun open_segments ::
    "(bytes \<Rightarrow> u32) \<Rightarrow> u64 \<Rightarrow> segment_metadata list \<Rightarrow> u64 \<Rightarrow> (string \<rightharpoonup> u64 \<times> u64) \<Rightarrow> dir
     \<Rightarrow> (segment_metadata list \<times> u64 \<times> (string \<rightharpoonup> u64 \<times> u64), storage_error) outcome \<times> dir" where
  "open_segments hash interval [] next_offset state d = (Ok ([], next_offset, state), d)"
| "open_segments hash interval (segment # rest) next_offset state d =
    (if sg_base_offset segment \<noteq> next_offset
     then (Err (UnexpectedSegmentBase next_offset (sg_base_offset segment)), d)
     else step_bind (recover_segment hash d (sg_path segment) next_offset interval state, d)
       (\<lambda>((recovered_offset, valid_len, recovered_index), state) d.
       if valid_len < sg_len segment \<and> rest \<noteq> []
       then (Err (IncompleteClosedSegment (sg_base_offset segment)), d)
       else let d = (if valid_len < sg_len segment
               then AList.update (sg_path segment)
                 (take (unat valid_len) (the (map_of d (sg_path segment)))) d
               else d);
             segment = segment\<lparr>sg_len := (if valid_len < sg_len segment then valid_len
               else sg_len segment), sg_index := recovered_index\<rparr>;
             d = rewrite_index segment d in
         step_bind (open_segments hash interval rest recovered_offset state d)
           (\<lambda>(segments, next_offset, state) d. (Ok (segment # segments, next_offset, state), d))))"

definition open_log ::
    "(bytes \<Rightarrow> u32) \<Rightarrow> string \<Rightarrow> u64 \<Rightarrow> u64 \<Rightarrow> dir \<Rightarrow> (partition_log, storage_error) outcome \<times> dir" where
  "open_log hash topic max_segment_bytes interval d =
    step_bind (validate_log_topic topic, d) (\<lambda>_ d.
    if max_segment_bytes = 0 then (Err InvalidSegmentLimit, d)
    else if interval = 0 then (Err InvalidIndexInterval, d)
    else step_bind (discover_segments d, d) (\<lambda>segments d.
    step_bind (if segments = [] then
        step_bind (create_segment 0 d) (\<lambda>s d. (Ok [s], d))
      else (Ok segments, d)) (\<lambda>segments d.
    step_bind (open_segments hash interval segments 0 Map.empty d)
      (\<lambda>(segments, next_offset, state) d.
    let active_path = sg_path (last segments) in
    if map_of d active_path = None \<or> map_of d (index_path active_path) = None
    then (Err (Io NotFound), d)
    else (Ok \<lparr>lg_next_offset = next_offset, lg_max_segment_bytes = max_segment_bytes,
           lg_index_interval_bytes = interval, lg_dir = d, lg_segments = segments,
           lg_active_file = active_path, lg_active_index_file = index_path active_path,
           lg_producer_state = state\<rparr>, d)))))"

section \<open>Appending\<close>

definition rotate :: "partition_log \<Rightarrow> (unit, storage_error) outcome \<times> partition_log" where
  "rotate l =
    (case create_segment (lg_next_offset l) (lg_dir l) of (res, d) \<Rightarrow>
     step_bind (res, l\<lparr>lg_dir := d\<rparr>) (\<lambda>segment l.
     (Ok (), l\<lparr>lg_active_file := sg_path segment,
        lg_active_index_file := index_path (sg_path segment),
        lg_segments := lg_segments l @ [segment]\<rparr>)))"

text \<open>The producer check of \<open>append\<close>: \<open>Some offset\<close> is a duplicate of the producer's last record,
  acknowledged with its offset and not written again.\<close>

definition producer_duplicate ::
    "(string \<rightharpoonup> u64 \<times> u64) \<Rightarrow> log_record \<Rightarrow> (u64 option, storage_error) outcome" where
  "producer_duplicate state record =
    (case lr_producer record of
       None \<Rightarrow> Ok None
     | Some producer \<Rightarrow>
         try_bind (validate_producer_id (pid_id producer)) (\<lambda>_.
         case state (pid_id producer) of
           Some (seq, offset) \<Rightarrow>
             if seq = pid_sequence producer then Ok (Some offset)
             else try_bind (check_sequence state producer) (\<lambda>_. Ok None)
         | None \<Rightarrow> try_bind (check_sequence state producer) (\<lambda>_. Ok None)))"

text \<open>\<open>append\<close> from the choice of the active segment on: index entry, record, bookkeeping.\<close>

definition append_active ::
    "u64 \<Rightarrow> bytes \<Rightarrow> u64 \<Rightarrow> log_record \<Rightarrow> partition_log
     \<Rightarrow> (u64, storage_error) outcome \<times> partition_log" where
  "append_active offset encoded encoded_len record l =
    (if lg_segments l = [] then (Err MissingActiveSegment, l)
     else let active = last (lg_segments l);
              position = sg_len active;
              should_index = needs_index (lg_index_interval_bytes l) (sg_index active) position;
              l = (if should_index
                then l\<lparr>lg_dir := write_all (lg_active_index_file l)
                       (encode_index_entry offset position) (lg_dir l)\<rparr>
                else l);
              l = l\<lparr>lg_dir := write_all (lg_active_file l) encoded (lg_dir l)\<rparr> in
     step_bind (ok_or (checked_add (sg_len active) encoded_len) RecordTooLarge, l) (\<lambda>new_len l.
     let active = active\<lparr>sg_len := new_len, sg_index := (if should_index
           then sg_index active @ [\<lparr>ie_offset = offset, ie_position = position\<rparr>]
           else sg_index active)\<rparr>;
         l = l\<lparr>lg_segments := butlast (lg_segments l) @ [active]\<rparr> in
     step_bind (ok_or (checked_add (lg_next_offset l) 1) OffsetOverflow, l) (\<lambda>next_offset l.
     (Ok offset, l\<lparr>lg_next_offset := next_offset,
        lg_producer_state := (case lr_producer record of
            Some producer \<Rightarrow>
              (lg_producer_state l)(pid_id producer \<mapsto> (pid_sequence producer, offset))
          | None \<Rightarrow> lg_producer_state l)\<rparr>))))"

definition append_new ::
    "(bytes \<Rightarrow> u32) \<Rightarrow> log_record \<Rightarrow> partition_log \<Rightarrow> (u64, storage_error) outcome \<times> partition_log"
  where
  "append_new hash record l =
    (let offset = lg_next_offset l in
     step_bind (encode_record hash record offset, l) (\<lambda>encoded l.
     step_bind (ok_or (try_from (length encoded)) RecordTooLarge, l) (\<lambda>encoded_len l.
     if lg_segments l = [] then (Err MissingActiveSegment, l)
     else let active = last (lg_segments l) in
     step_bind (if sg_len active \<noteq> 0 \<and>
           saturating_add (sg_len active) encoded_len > lg_max_segment_bytes l
         then rotate l else (Ok (), l)) (\<lambda>_ l.
     append_active offset encoded encoded_len record l))))"

definition append_log ::
    "(bytes \<Rightarrow> u32) \<Rightarrow> log_record \<Rightarrow> partition_log \<Rightarrow> (u64, storage_error) outcome \<times> partition_log"
  where
  "append_log hash record l =
    step_bind (producer_duplicate (lg_producer_state l) record, l) (\<lambda>dup l.
    case dup of Some offset \<Rightarrow> (Ok offset, l) | None \<Rightarrow> append_new hash record l)"

section \<open>Reading\<close>

text \<open>\<open>partition_point\<close> on the index, whose entries are sorted by offset.\<close>

definition read_position :: "segment_metadata \<Rightarrow> u64 \<Rightarrow> nat" where
  "read_position segment offset =
    (let n = length (takeWhile (\<lambda>e. ie_offset e \<le> offset) (sg_index segment)) in
     if n = 0 then 0 else unat (ie_position (sg_index segment ! (n - 1))))"

text \<open>The record loop over one segment; the flag says that the byte budget is used up and the
  whole read returns.\<close>

function read_buffer ::
    "(bytes \<Rightarrow> u32) \<Rightarrow> u64 \<Rightarrow> nat \<Rightarrow> bytes \<Rightarrow> stored_record list \<Rightarrow> nat
     \<Rightarrow> (stored_record list \<times> nat \<times> bool, storage_error) outcome" where
  "read_buffer hash offset max_bytes buffer records bytes_read =
    (if buffer = [] then Ok (records, bytes_read, False)
     else case decode_record hash buffer of
       (Ok (Some record), buffer') \<Rightarrow>
         let encoded_size = length buffer - length buffer' in
         if sr_offset record < offset
         then read_buffer hash offset max_bytes buffer' records bytes_read
         else if records \<noteq> [] \<and> usize_saturating_add bytes_read encoded_size > max_bytes
         then Ok (records, bytes_read, True)
         else read_buffer hash offset max_bytes buffer' (records @ [record])
           (usize_saturating_add bytes_read encoded_size)
     | (Ok None, _) \<Rightarrow> Err InvalidRecord
     | (Err e, _) \<Rightarrow> Err e
     | (Panic, _) \<Rightarrow> Panic)"
  by pat_completeness auto
termination
  by (relation "measure (\<lambda>(_, _, _, b, _). length b)") (auto dest!: decode_record_shrinks [OF sym])

declare read_buffer.simps [simp del]

fun read_segments ::
    "(bytes \<Rightarrow> u32) \<Rightarrow> u64 \<Rightarrow> nat \<Rightarrow> dir \<Rightarrow> segment_metadata list \<Rightarrow> stored_record list \<Rightarrow> nat
     \<Rightarrow> (stored_record list, storage_error) outcome" where
  "read_segments hash offset max_bytes d [] records bytes_read = Ok records"
| "read_segments hash offset max_bytes d (segment # rest) records bytes_read =
    (if (case rest of [] \<Rightarrow> False | following # _ \<Rightarrow> sg_base_offset following \<le> offset)
     then read_segments hash offset max_bytes d rest records bytes_read
     else try_bind (ok_or (map_of d (sg_path segment)) (Io NotFound)) (\<lambda>contents.
       try_bind (read_buffer hash offset max_bytes (drop (read_position segment offset) contents)
           records bytes_read) (\<lambda>(records, bytes_read, stop).
       if stop then Ok records
       else read_segments hash offset max_bytes d rest records bytes_read)))"

definition read_log ::
    "(bytes \<Rightarrow> u32) \<Rightarrow> partition_log \<Rightarrow> u64 \<Rightarrow> nat \<Rightarrow> (stored_record list, storage_error) outcome" where
  "read_log hash l offset max_bytes =
    (if max_bytes = 0 then Err InvalidReadLimit
     else read_segments hash offset max_bytes (lg_dir l) (lg_segments l) [] 0)"

section \<open>Replication, truncation and retention\<close>

definition append_replica ::
    "(bytes \<Rightarrow> u32) \<Rightarrow> u64 \<Rightarrow> log_record \<Rightarrow> partition_log
     \<Rightarrow> (u64, storage_error) outcome \<times> partition_log" where
  "append_replica hash offset record l =
    (if offset < lg_next_offset l then
       step_bind (read_log hash l offset MAX_RECORD_SIZE, l) (\<lambda>records l.
       step_bind (ok_or (List.find (\<lambda>r. sr_offset r = offset) records) (ReplicaDiverged offset), l)
         (\<lambda>existing l.
       if sr_timestamp_ms existing = lr_timestamp_ms record \<and> sr_key existing = lr_key record
          \<and> sr_value existing = lr_value record
       then (Ok offset, l) else (Err (ReplicaDiverged offset), l)))
     else if offset \<noteq> lg_next_offset l
     then (Err (UnexpectedOffset (lg_next_offset l) offset), l)
     else append_log hash record l)"

fun remove_segments :: "segment_metadata list \<Rightarrow> dir \<Rightarrow> (unit, storage_error) outcome \<times> dir" where
  "remove_segments [] d = (Ok (), d)"
| "remove_segments (segment # rest) d =
    step_bind (remove_file (index_path (sg_path segment)) d) (\<lambda>_ d.
    step_bind (remove_file (sg_path segment) d) (\<lambda>_ d. remove_segments rest d))"

definition record_of_stored :: "stored_record \<Rightarrow> log_record" where
  "record_of_stored s = \<lparr>lr_key = sr_key s, lr_value = sr_value s,
     lr_timestamp_ms = sr_timestamp_ms s, lr_producer = sr_producer s\<rparr>"

fun append_all ::
    "(bytes \<Rightarrow> u32) \<Rightarrow> stored_record list \<Rightarrow> partition_log
     \<Rightarrow> (unit, storage_error) outcome \<times> partition_log" where
  "append_all hash [] l = (Ok (), l)"
| "append_all hash (stored # rest) l =
    step_bind (append_log hash (record_of_stored stored) l) (\<lambda>_ l. append_all hash rest l)"

definition truncate_to ::
    "(bytes \<Rightarrow> u32) \<Rightarrow> u64 \<Rightarrow> partition_log \<Rightarrow> (unit, storage_error) outcome \<times> partition_log" where
  "truncate_to hash offset l =
    (if offset > lg_next_offset l then (Err (UnexpectedOffset (lg_next_offset l) offset), l)
     else if offset = lg_next_offset l then (Ok (), l)
     else step_bind (read_log hash l 0 usize_max, l) (\<lambda>records l.
       let retained = filter (\<lambda>r. sr_offset r < offset) records in
       case remove_segments (lg_segments l) (lg_dir l) of (res, d) \<Rightarrow>
       step_bind (res, l\<lparr>lg_dir := d\<rparr>) (\<lambda>_ l.
       case create_segment 0 (lg_dir l) of (res, d) \<Rightarrow>
       step_bind (res, l\<lparr>lg_dir := d\<rparr>) (\<lambda>segment l.
       append_all hash retained
         (l\<lparr>lg_active_file := sg_path segment, lg_active_index_file := index_path (sg_path segment),
            lg_segments := [segment], lg_next_offset := 0, lg_producer_state := Map.empty\<rparr>)))))"

fun log_size_bytes :: "segment_metadata list \<Rightarrow> (u64, storage_error) outcome" where
  "log_size_bytes [] = Ok 0"
| "log_size_bytes (s # ss) =
    try_bind (log_size_bytes ss) (\<lambda>n. case checked_add (sg_len s) n of None \<Rightarrow> Panic | Some m \<Rightarrow> Ok m)"

definition low_watermark :: "partition_log \<Rightarrow> u64" where
  "low_watermark l = (case lg_segments l of [] \<Rightarrow> lg_next_offset l | s # _ \<Rightarrow> sg_base_offset s)"

text \<open>\<open>apply_retention\<close>: \<open>elapsed\<close> gives the time since a file was last modified (\<open>None\<close> when the
  clock went backwards).\<close>

fun retention_loop ::
    "(string \<Rightarrow> nat option) \<Rightarrow> u64 option \<Rightarrow> nat option \<Rightarrow> u64 \<Rightarrow> nat \<Rightarrow> segment_metadata list \<Rightarrow> dir
     \<Rightarrow> (nat, storage_error) outcome \<times> segment_metadata list \<times> dir" where
  "retention_loop elapsed max_bytes max_age total_bytes removed (segment # following # rest) d =
    step_bind (case max_age of
        None \<Rightarrow> Ok False
      | Some age \<Rightarrow> if map_of d (sg_path segment) = None then Err (Io NotFound)
          else Ok (case elapsed (sg_path segment) of None \<Rightarrow> False | Some e \<Rightarrow> age \<le> e),
      (segment # following # rest, d)) (\<lambda>expired s.
    if \<not> (case max_bytes of None \<Rightarrow> False | Some limit \<Rightarrow> total_bytes > limit) \<and> \<not> expired
    then (Ok removed, s)
    else case remove_file (index_path (sg_path segment)) (snd s) of (res, d) \<Rightarrow>
      step_bind (res, (segment # following # rest, d)) (\<lambda>_ s.
      case remove_file (sg_path segment) (snd s) of (res, d) \<Rightarrow>
      step_bind (res, (segment # following # rest, d)) (\<lambda>_ s.
      retention_loop elapsed max_bytes max_age (saturating_sub total_bytes (sg_len segment))
        (removed + 1) (following # rest) (snd s))))"
| "retention_loop elapsed max_bytes max_age total_bytes removed segments d =
    (Ok removed, (segments, d))"

definition apply_retention ::
    "(string \<Rightarrow> nat option) \<Rightarrow> u64 option \<Rightarrow> nat option \<Rightarrow> partition_log
     \<Rightarrow> (nat, storage_error) outcome \<times> partition_log" where
  "apply_retention elapsed max_bytes max_age l =
    step_bind (log_size_bytes (lg_segments l), l) (\<lambda>total_bytes l.
    case retention_loop elapsed max_bytes max_age total_bytes 0 (lg_segments l) (lg_dir l) of
      (res, (segments, d)) \<Rightarrow> (res, l\<lparr>lg_segments := segments, lg_dir := d\<rparr>))"

end
