(* ===== verification/Log_Files.thy ===== *)
theory Log_Files
  imports Partition_Log
begin

text \<open>
  Facts about the partition directory: the file names of segments and indexes are distinct and
  parse back to the base offset, and what the file operations change and keep.
\<close>

section \<open>File names\<close>

lemma length_show_nat: "n < 10 ^ Suc k \<Longrightarrow> length (show_nat n) \<le> Suc k"
proof (induction k arbitrary: n)
  case 0
  then show ?case by (simp add: show_nat.simps [of n])
next
  case (Suc k)
  then have "n div 10 < 10 ^ Suc k" by (simp add: div_less_iff_less_mult mult.commute)
  with Suc.IH show ?case by (simp add: show_nat.simps [of n])
qed

lemma length_pad20: "length (pad20 (show_nat (unat (b :: u64)))) = 20"
  using length_show_nat [of "unat b" 19] unat_u64_lt [of b] by (simp add: pad20_def)

lemma digits_val_zeros: "digits_val 0 (replicate k (CHR ''0'') @ s) = digits_val 0 s"
  by (induction k) (auto simp: digit_val_def)

lemma pad20_digits: "list_all is_ascii_digit (pad20 (show_nat n))"
  using show_nat_digits [of n]
  by (auto simp: pad20_def list_all_iff is_ascii_digit_def less_eq_char_def)

lemma parse_pad20: "parse_unsigned (pad20 (show_nat (unat b))) = Some (b :: 'a::len word)"
proof -
  have "pad20 (show_nat (unat b)) \<noteq> []" by (simp add: pad20_def)
  then have "parse_unsigned (pad20 (show_nat (unat b))) =
      (try_from (digits_val 0 (pad20 (show_nat (unat b)))) :: 'a word option)"
    by (simp add: parse_unsigned_digits pad20_digits)
  then show ?thesis by (simp add: pad20_def digits_val_zeros digits_val_show_nat try_from_def)
qed

lemma pad20_inject [simp]:
  "pad20 (show_nat (unat b)) = pad20 (show_nat (unat c)) \<longleftrightarrow> b = (c :: u64)"
  by (metis option.inject parse_pad20)

lemma rsplit_dot_append:
  assumes "CHR ''.'' \<notin> set ext" and "st \<noteq> []"
  shows "rsplit_dot (st @ CHR ''.'' # ext) = Some (st, ext)"
proof -
  have "dropWhile (\<lambda>c. c \<noteq> CHR ''.'') (rev ext @ CHR ''.'' # rev st) = CHR ''.'' # rev st"
    "takeWhile (\<lambda>c. c \<noteq> CHR ''.'') (rev ext @ CHR ''.'' # rev st) = rev ext"
    using assms(1) by (subst dropWhile_append2, auto) (subst takeWhile_append2, auto)
  with assms(2) show ?thesis by (simp add: rsplit_dot_def)
qed

lemma pad20_not_Nil [simp]: "pad20 (show_nat n) \<noteq> []"
  by (simp add: pad20_def)

lemma segment_file_name:
  "rsplit_dot (segment_file b) = Some (pad20 (show_nat (unat b)), ''log'')"
  unfolding segment_file_def by (rule rsplit_dot_append) simp_all

lemma index_path_segment: "index_path (segment_file b) = pad20 (show_nat (unat b)) @ ''.idx''"
  by (simp add: index_path_def with_extension_def file_stem_def segment_file_name)

lemma index_file_name:
  "rsplit_dot (index_path (segment_file b)) = Some (pad20 (show_nat (unat b)), ''idx'')"
  unfolding index_path_segment by (rule rsplit_dot_append) simp_all

lemma file_name_parts [simp]:
  "extension (segment_file b) = Some ''log''" "extension (index_path (segment_file b)) = Some ''idx''"
  "file_stem (segment_file b) = pad20 (show_nat (unat b))"
  by (simp_all add: extension_def file_stem_def segment_file_name index_file_name)

lemma segment_file_inject [simp]:
  "segment_file b = segment_file c \<longleftrightarrow> b = c"
  "index_path (segment_file b) = index_path (segment_file c) \<longleftrightarrow> b = c"
  "segment_file b \<noteq> index_path (segment_file c)" "index_path (segment_file c) \<noteq> segment_file b"
proof -
  show "segment_file b \<noteq> index_path (segment_file c)" "index_path (segment_file c) \<noteq> segment_file b"
    by (auto dest: arg_cong [where f = extension])
qed (simp add: segment_file_def, simp add: index_path_segment)

section \<open>File operations\<close>

lemma map_of_update [simp]: "map_of (AList.update k v d) = (map_of d)(k \<mapsto> v)"
  by (rule AList.update_conv')

lemma map_of_delete [simp]: "map_of (AList.delete k d) = (map_of d)(k := None)"
  by (rule AList.delete_conv')

lemma write_all_Some:
  "map_of d name = Some old \<Longrightarrow> map_of (write_all name bs d) = (map_of d)(name \<mapsto> old @ bs)"
  by (simp add: write_all_def)

lemma distinct_files [simp]:
  "distinct (map fst d) \<Longrightarrow> distinct (map fst (AList.update k v d))"
  "distinct (map fst d) \<Longrightarrow> distinct (map fst (AList.delete k d))"
  "distinct (map fst d) \<Longrightarrow> distinct (map fst (write_all k v d))"
  by (auto simp: write_all_def AList.distinct_update AList.distinct_delete split: option.splits)

lemma create_new_Ok:
  "create_new name d = (Ok u, d') \<longleftrightarrow> map_of d name = None \<and> d' = AList.update name [] d"
  by (auto simp: create_new_def)

lemma remove_file_Ok:
  "remove_file name d = (Ok u, d') \<longleftrightarrow> map_of d name \<noteq> None \<and> d' = AList.delete name d"
  by (auto simp: remove_file_def)

lemma create_segment_fresh:
  assumes "map_of d (segment_file b) = None" and "map_of d (index_path (segment_file b)) = None"
  shows "create_segment b d =
    (Ok \<lparr>sg_base_offset = b, sg_path = segment_file b, sg_len = 0, sg_index = []\<rparr>,
     AList.update (index_path (segment_file b)) [] (AList.update (segment_file b) [] d))"
  using assms by (simp add: create_segment_def create_new_def Let_def)

end
