(* ===== verification/Log_Invariant.thy ===== *)
theory Log_Invariant
  imports Log_Files
begin

text \<open>
  The representation invariant of \<open>PartitionLog\<close>.  The abstract state of a log is its history, the
  list of all records ever appended with the bytes each was stored as, and the low
  watermark, below which retention has removed records.  \<open>log_rep\<close> relates it to the concrete
  state: segment files, sparse indexes, producer table, directory.  Then: reading and
  appending implement the abstract operations.
\<close>

type_synonym entry = "stored_record \<times> bytes"

definition bytes_of :: "entry list \<Rightarrow> bytes" where
  "bytes_of es = concat (map snd es)"

fun entries_ok :: "(bytes \<Rightarrow> u32) \<Rightarrow> nat \<Rightarrow> entry list \<Rightarrow> bool" where
  "entries_ok hash n [] = True"
| "entries_ok hash n ((r, c) # es) =
    (chunk hash r c \<and> unat (sr_offset r) = n \<and> entries_ok hash (Suc n) es)"

definition index_ok :: "nat \<Rightarrow> entry list \<Rightarrow> index_entry list \<Rightarrow> bool" where
  "index_ok n es index \<longleftrightarrow> sorted_wrt (<) (map ie_offset index) \<and>
     (\<forall>e \<in> set index. \<exists>pre post. es = pre @ post \<and> post \<noteq> [] \<and>
        unat (ie_offset e) = n + length pre \<and> unat (ie_position e) = length (bytes_of pre))"

definition index_bytes :: "index_entry list \<Rightarrow> bytes" where
  "index_bytes index = concat (map (\<lambda>e. encode_index_entry (ie_offset e) (ie_position e)) index)"

definition segment_rep ::
    "(bytes \<Rightarrow> u32) \<Rightarrow> dir \<Rightarrow> nat \<Rightarrow> segment_metadata \<Rightarrow> entry list \<Rightarrow> bool" where
  "segment_rep hash d n s es \<longleftrightarrow>
     unat (sg_base_offset s) = n \<and> sg_path s = segment_file (sg_base_offset s) \<and>
     map_of d (sg_path s) = Some (bytes_of es) \<and> unat (sg_len s) = length (bytes_of es) \<and>
     entries_ok hash n es \<and> index_ok n es (sg_index s) \<and>
     map_of d (index_path (sg_path s)) = Some (index_bytes (sg_index s))"

text \<open>The closed segments: none is empty, and each starts where the one before it ends.\<close>

fun closed_rep ::
    "(bytes \<Rightarrow> u32) \<Rightarrow> dir \<Rightarrow> nat \<Rightarrow> segment_metadata list \<Rightarrow> entry list list \<Rightarrow> bool" where
  "closed_rep hash d n [] [] = True"
| "closed_rep hash d n (s # ss) (es # ess) =
    (segment_rep hash d n s es \<and> es \<noteq> [] \<and> closed_rep hash d (n + length es) ss ess)"
| "closed_rep hash d n _ _ = False"

definition dir_ok :: "dir \<Rightarrow> segment_metadata list \<Rightarrow> bool" where
  "dir_ok d segments \<longleftrightarrow> distinct (map fst d) \<and>
     (\<forall>name. map_of d name \<noteq> None \<longrightarrow> extension name = Some ''log'' \<or> extension name = Some ''idx'' \<longrightarrow>
        (\<exists>s \<in> set segments. name = sg_path s \<or> name = index_path (sg_path s)))"

definition note_producer ::
    "(string \<rightharpoonup> u64 \<times> u64) \<Rightarrow> stored_record \<Rightarrow> (string \<rightharpoonup> u64 \<times> u64)" where
  "note_producer state r = (case sr_producer r of
     None \<Rightarrow> state | Some p \<Rightarrow> state(pid_id p \<mapsto> (pid_sequence p, sr_offset r)))"

abbreviation producers :: "stored_record list \<Rightarrow> (string \<rightharpoonup> u64 \<times> u64)" where
  "producers \<equiv> foldl note_producer Map.empty"

definition producer_ok :: "(string \<rightharpoonup> u64 \<times> u64) \<Rightarrow> producer_id option \<Rightarrow> bool" where
  "producer_ok state producer \<longleftrightarrow> (case producer of
     None \<Rightarrow> True
   | Some p \<Rightarrow> validate_producer_id (pid_id p) = Ok () \<and> check_sequence state p = Ok () \<and>
       map_option fst (state (pid_id p)) \<noteq> Some (pid_sequence p))"

fun seqs_ok :: "(string \<rightharpoonup> u64 \<times> u64) \<Rightarrow> stored_record list \<Rightarrow> bool" where
  "seqs_ok state [] = True"
| "seqs_ok state (r # rs) =
    (producer_ok state (sr_producer r) \<and> seqs_ok (note_producer state r) rs)"

definition log_rep :: "(bytes \<Rightarrow> u32) \<Rightarrow> entry list \<Rightarrow> nat \<Rightarrow> partition_log \<Rightarrow> bool" where
  "log_rep hash hist low l \<longleftrightarrow>
     entries_ok hash 0 hist \<and> seqs_ok Map.empty (map fst hist) \<and>
     lg_producer_state l = producers (map fst hist) \<and> unat (lg_next_offset l) = length hist \<and>
     low \<le> length hist \<and> dir_ok (lg_dir l) (lg_segments l) \<and>
     lg_max_segment_bytes l \<noteq> 0 \<and> lg_index_interval_bytes l \<noteq> 0 \<and>
     (\<exists>closed active ess es. lg_segments l = closed @ [active] \<and>
        drop low hist = concat ess @ es \<and> closed_rep hash (lg_dir l) low closed ess \<and>
        segment_rep hash (lg_dir l) (low + length (concat ess)) active es \<and>
        lg_active_file l = sg_path active \<and> lg_active_index_file l = index_path (sg_path active))"

section \<open>Entries\<close>

lemma bytes_of_simps [simp]:
  "bytes_of [] = []" "bytes_of (e # es) = snd e @ bytes_of es"
  "bytes_of (xs @ ys) = bytes_of xs @ bytes_of ys"
  by (simp_all add: bytes_of_def)

lemma chunk_not_Nil [simp]: "chunk hash r c \<Longrightarrow> c \<noteq> []"
  by (auto simp: chunk_def)

lemma entries_ok_append [simp]:
  "entries_ok hash n (xs @ ys) \<longleftrightarrow> entries_ok hash n xs \<and> entries_ok hash (n + length xs) ys"
  by (induction xs arbitrary: n) auto

lemma entries_ok_offset:
  "entries_ok hash n es \<Longrightarrow> (r, c) \<in> set es \<Longrightarrow>
     n \<le> unat (sr_offset r) \<and> unat (sr_offset r) < n + length es"
  by (induction es arbitrary: n) fastforce+

lemma entries_ok_nth:
  "entries_ok hash n es \<Longrightarrow> i < length es \<Longrightarrow> unat (sr_offset (fst (es ! i))) = n + i"
proof (induction es arbitrary: n i)
  case (Cons e es)
  then show ?case by (cases e; cases i) auto
qed simp

lemma entries_bytes_empty: "entries_ok hash n es \<Longrightarrow> bytes_of es = [] \<longleftrightarrow> es = []"
  by (cases es) (auto simp: chunk_def)

lemma entries_bytes_length: "entries_ok hash n es \<Longrightarrow> length es \<le> length (bytes_of es)"
proof (induction es arbitrary: n)
  case (Cons e es)
  obtain r c where e: "e = (r, c)" by fastforce
  then have "33 \<le> length c" using Cons.prems by (simp add: chunk_def)
  with Cons e show ?case by fastforce
qed simp

lemma decode_first:
  "entries_ok hash n ((r, c) # es) \<Longrightarrow>
     decode_record hash (bytes_of ((r, c) # es) @ tail) = (Ok (Some r), bytes_of es @ tail)"
  by (simp add: chunk_def)

lemma segment_repD:
  assumes "segment_rep hash d n s es"
  shows "unat (sg_base_offset s) = n" and "sg_path s = segment_file (sg_base_offset s)"
    and "map_of d (sg_path s) = Some (bytes_of es)" and "unat (sg_len s) = length (bytes_of es)"
    and "entries_ok hash n es" and "index_ok n es (sg_index s)"
    and "map_of d (index_path (sg_path s)) = Some (index_bytes (sg_index s))"
  using assms unfolding segment_rep_def by blast+

section \<open>Reading\<close>

text \<open>The reference semantics of a read: the records from the requested offset on; the first one
  in any case, further ones while the sum of their encoded sizes stays within the limit.\<close>

fun take_budget :: "nat \<Rightarrow> nat \<Rightarrow> entry list \<Rightarrow> stored_record list" where
  "take_budget max_bytes used [] = []"
| "take_budget max_bytes used ((r, c) # es) =
    (if used \<noteq> 0 \<and> usize_saturating_add used (length c) > max_bytes then []
     else r # take_budget max_bytes (usize_saturating_add used (length c)) es)"

definition read_spec :: "u64 \<Rightarrow> nat \<Rightarrow> entry list \<Rightarrow> stored_record list" where
  "read_spec offset max_bytes es =
    take_budget max_bytes 0 (filter (\<lambda>(r, c). offset \<le> sr_offset r) es)"

text \<open>The same with the accumulators of the loop.\<close>

fun scan :: "u64 \<Rightarrow> nat \<Rightarrow> entry list \<Rightarrow> stored_record list \<Rightarrow> nat \<Rightarrow> stored_record list \<times> nat \<times> bool"
  where
  "scan offset max_bytes [] records used = (records, used, False)"
| "scan offset max_bytes ((r, c) # es) records used =
    (if sr_offset r < offset then scan offset max_bytes es records used
     else if records \<noteq> [] \<and> usize_saturating_add used (length c) > max_bytes
     then (records, used, True)
     else scan offset max_bytes es (records @ [r]) (usize_saturating_add used (length c)))"

lemma scan_append:
  "scan offset m (xs @ ys) records used = (case scan offset m xs records used of
     (records', used', stop) \<Rightarrow> if stop then (records', used', True) else scan offset m ys records' used')"
  by (induction xs arbitrary: records used) auto

lemma scan_below:
  "\<forall>(r, c) \<in> set es. sr_offset r < offset \<Longrightarrow> scan offset m es records used = (records, used, False)"
  by (induction es) auto

lemma scan_take_budget:
  assumes "entries_ok hash n es" and "records = [] \<longleftrightarrow> used = 0"
  shows "fst (scan offset m es records used) =
    records @ take_budget m used (filter (\<lambda>(r, c). offset \<le> sr_offset r) es)"
  using assms
proof (induction es arbitrary: n records used)
  case (Cons e es)
  obtain r c where e: "e = (r, c)" by fastforce
  then have "0 < length c" using Cons.prems by (auto simp: chunk_def)
  then have "usize_saturating_add used (length c) \<noteq> 0" by (simp add: usize_saturating_add_def)
  with Cons e show ?case by (auto simp: not_less not_le)
qed simp

lemma read_buffer_entries:
  "entries_ok hash n es \<Longrightarrow>
     read_buffer hash offset m (bytes_of es) records used = Ok (scan offset m es records used)"
proof (induction es arbitrary: n records used)
  case Nil
  then show ?case by (simp add: read_buffer.simps)
next
  case (Cons e es)
  obtain r c where e: "e = (r, c)" by fastforce
  have d: "decode_record hash (c @ bytes_of es) = (Ok (Some r), bytes_of es)"
    and c: "c @ bytes_of es \<noteq> []" and es: "entries_ok hash (Suc n) es"
    using Cons.prems by (auto simp: e chunk_def)
  show ?case
    using Cons.IH [OF es] c by (subst read_buffer.simps) (auto simp: e d Let_def)
qed

lemma read_position_entries:
  assumes "segment_rep hash d n s es"
  shows "\<exists>pre post. es = pre @ post \<and> read_position s offset = length (bytes_of pre) \<and>
    (\<forall>(r, c) \<in> set pre. sr_offset r < offset)"
proof -
  define k where "k = length (takeWhile (\<lambda>e. ie_offset e \<le> offset) (sg_index s))"
  have rp: "read_position s offset = (if k = 0 then 0 else unat (ie_position (sg_index s ! (k - 1))))"
    by (simp add: read_position_def k_def Let_def)
  show ?thesis
  proof (cases "k = 0")
    case True
    with rp show ?thesis by (intro exI [of _ "[]"] exI [of _ es]) simp
  next
    case False
    define e where "e = sg_index s ! (k - 1)"
    have "e = takeWhile (\<lambda>e. ie_offset e \<le> offset) (sg_index s) ! (k - 1)"
      unfolding e_def by (rule takeWhile_nth [symmetric]) (use False in \<open>simp add: k_def\<close>)
    then have in_tw: "e \<in> set (takeWhile (\<lambda>e. ie_offset e \<le> offset) (sg_index s))"
      using False by (simp add: k_def)
    then have le: "ie_offset e \<le> offset" and mem: "e \<in> set (sg_index s)"
      by (auto dest: set_takeWhileD)
    from mem assms obtain pre post where p: "es = pre @ post" "unat (ie_offset e) = n + length pre"
      "unat (ie_position e) = length (bytes_of pre)"
      by (auto simp: segment_rep_def index_ok_def)
    have "entries_ok hash n pre" using assms p by (simp add: segment_rep_def)
    then have "\<forall>(r, c) \<in> set pre. sr_offset r < offset"
      using entries_ok_offset [of hash n pre] p(2) le by (fastforce simp: word_less_nat_alt word_le_nat_alt)
    with p rp False show ?thesis by (intro exI [of _ pre] exI [of _ post]) (simp add: e_def)
  qed
qed

lemma read_segment_entries:
  assumes "segment_rep hash d n s es"
  shows "read_buffer hash offset m (drop (read_position s offset) (bytes_of es)) records used =
    Ok (scan offset m es records used)"
proof -
  obtain pre post where p: "es = pre @ post" "read_position s offset = length (bytes_of pre)"
    "\<forall>(r, c) \<in> set pre. sr_offset r < offset"
    using read_position_entries [OF assms] by blast
  have "entries_ok hash (n + length pre) post" using assms p(1) by (simp add: segment_rep_def)
  with p show ?thesis by (simp add: read_buffer_entries scan_append scan_below)
qed

lemma read_segments_entries:
  assumes "closed_rep hash d n closed ess"
    and "segment_rep hash d (n + length (concat ess)) active es"
  shows "read_segments hash offset m d (closed @ [active]) records used =
    Ok (fst (scan offset m (concat ess @ es) records used))"
  using assms
proof (induction closed arbitrary: n ess records used)
  case Nil
  then have ess: "ess = []" by (cases ess) auto
  then have "map_of d (sg_path active) = Some (bytes_of es)" using Nil segment_repD(3) by blast
  with Nil read_segment_entries [of hash d n active es offset m records used] show ?case
    by (cases "scan offset m es records used") (simp add: ess)
next
  case (Cons s ss)
  then obtain es1 ess1 where ess: "ess = es1 # ess1" by (cases ess) auto
  have s: "segment_rep hash d n s es1" and ne: "es1 \<noteq> []"
    and ss: "closed_rep hash d (n + length es1) ss ess1"
    using Cons.prems by (auto simp: ess)
  have act: "segment_rep hash d (n + length es1 + length (concat ess1)) active es"
    using Cons.prems by (simp add: ess add.assoc)
  note IH = Cons.IH [OF ss act]
  define fol where "fol = hd (ss @ [active])"
  have skip: "(case ss @ [active] of [] \<Rightarrow> False | f # _ \<Rightarrow> sg_base_offset f \<le> offset) \<longleftrightarrow>
      sg_base_offset fol \<le> offset" by (cases ss) (auto simp: fol_def)
  have base: "unat (sg_base_offset fol) = n + length es1"
    using ss act by (cases ss; cases ess1) (auto simp: fol_def segment_rep_def)
  show ?case
  proof (cases "sg_base_offset fol \<le> offset")
    case True
    have "entries_ok hash n es1" using s by (simp add: segment_rep_def)
    then have "\<forall>(r, c) \<in> set es1. sr_offset r < offset"
      using entries_ok_offset [of hash n es1] base True
      by (fastforce simp: word_less_nat_alt word_le_nat_alt)
    then have "scan offset m (concat ess @ es) records used =
        scan offset m (concat ess1 @ es) records used"
      by (simp add: ess scan_append scan_below)
    with True IH show ?thesis by (simp add: skip)
  next
    case False
    note segment_repD(3) [OF s]
    with False IH read_segment_entries [OF s, of offset m records used] show ?thesis
      by (cases "scan offset m es1 records used") (simp add: ess scan_append skip)
  qed
qed

lemma read_log_spec:
  assumes "log_rep hash hist low l" and "max_bytes \<noteq> 0"
  shows "read_log hash l offset max_bytes = Ok (read_spec offset max_bytes (drop low hist))"
proof -
  obtain closed active ess es where r: "lg_segments l = closed @ [active]"
    "drop low hist = concat ess @ es" "closed_rep hash (lg_dir l) low closed ess"
    "segment_rep hash (lg_dir l) (low + length (concat ess)) active es"
    using assms(1) by (auto simp: log_rep_def)
  have "entries_ok hash 0 (take low hist @ drop low hist)" using assms(1) by (simp add: log_rep_def)
  then have "entries_ok hash (length (take low hist)) (drop low hist)"
    unfolding entries_ok_append by simp
  then show ?thesis
    using assms(2) read_segments_entries [OF r(3,4), of offset max_bytes "[]" 0]
      scan_take_budget [of hash _ "drop low hist" "[]" 0 offset max_bytes]
    by (simp add: read_log_def r(1,2) read_spec_def)
qed

end
