(* ===== verification/Log_Append.thy ===== *)
theory Log_Append
  imports Log_Invariant
begin

text \<open>
  Appending to a partition log: what \<open>append\<close> and \<open>rotate\<close> do to the abstract history, that
  they keep the representation invariant, and that a rejected record changes nothing.
\<close>

section \<open>Closed segments\<close>

lemma closed_rep_base:
  "closed_rep hash d n ss ess \<Longrightarrow> s \<in> set ss \<Longrightarrow>
     sg_path s = segment_file (sg_base_offset s) \<and> n \<le> unat (sg_base_offset s) \<and>
     unat (sg_base_offset s) < n + length (concat ess)"
proof (induction hash d n ss ess rule: closed_rep.induct)
  case (2 hash d n s' ss es ess)
  then have "unat (sg_base_offset s') = n" "sg_path s' = segment_file (sg_base_offset s')"
    using segment_repD(1,2) by auto
  with 2 show ?case by fastforce
qed auto

lemma segment_rep_frame:
  assumes "segment_rep hash d n s es"
    and "map_of d' (segment_file (sg_base_offset s)) = map_of d (segment_file (sg_base_offset s))"
    and "map_of d' (index_path (segment_file (sg_base_offset s))) =
      map_of d (index_path (segment_file (sg_base_offset s)))"
  shows "segment_rep hash d' n s es"
  using segment_repD [OF assms(1)] assms(2,3) by (simp add: segment_rep_def)

lemma closed_rep_frame:
  assumes "closed_rep hash d n ss ess"
    and "\<And>b. n \<le> unat b \<Longrightarrow> unat b < n + length (concat ess) \<Longrightarrow>
      map_of d' (segment_file b) = map_of d (segment_file b) \<and>
      map_of d' (index_path (segment_file b)) = map_of d (index_path (segment_file b))"
  shows "closed_rep hash d' n ss ess"
  using assms
proof (induction hash d n ss ess rule: closed_rep.induct)
  case (2 hash d n s ss es ess)
  have s: "segment_rep hash d n s es" and ne: "es \<noteq> []" using 2(2) by auto
  have "unat (sg_base_offset s) < n + length (concat (es # ess))"
    using segment_repD(1) [OF s] ne by (cases es) auto
  then have "segment_rep hash d' n s es"
    using 2(3) [of "sg_base_offset s"] segment_repD(1) [OF s] segment_rep_frame [OF s] by simp
  moreover have "closed_rep hash d' (n + length es) ss ess"
    using 2 by (simp add: add.assoc)
  ultimately show ?case using ne by simp
qed auto

lemma closed_rep_snoc:
  "closed_rep hash d n ss ess \<Longrightarrow> segment_rep hash d (n + length (concat ess)) s es \<Longrightarrow> es \<noteq> [] \<Longrightarrow>
     closed_rep hash d n (ss @ [s]) (ess @ [es])"
  by (induction hash d n ss ess rule: closed_rep.induct) (auto simp: add.assoc)

section \<open>Growing a segment\<close>

lemma index_ok_grow: "index_ok n es index \<Longrightarrow> index_ok n (es @ [e]) index"
  unfolding index_ok_def by (metis append.assoc append_is_Nil_conv)

lemma index_ok_bound:
  "index_ok n es index \<Longrightarrow> e \<in> set index \<Longrightarrow> unat (ie_offset e) < n + length es"
  unfolding index_ok_def by (metis add_less_cancel_left length_append length_greater_0_conv
      less_add_same_cancel1)

lemma index_ok_snoc:
  assumes "index_ok n es index" and "unat off = n + length es" and "unat pos = length (bytes_of es)"
  shows "index_ok n (es @ [e]) (index @ [\<lparr>ie_offset = off, ie_position = pos\<rparr>])"
proof -
  have "\<forall>x \<in> set index. ie_offset x < off"
    using index_ok_bound [OF assms(1)] assms(2) by (simp add: word_less_nat_alt)
  then have "sorted_wrt (<) (map ie_offset (index @ [\<lparr>ie_offset = off, ie_position = pos\<rparr>]))"
    using assms(1) by (simp add: index_ok_def sorted_wrt_append)
  with index_ok_grow [OF assms(1), of e] assms(2,3) show ?thesis
    unfolding index_ok_def by (auto intro: exI [of _ es])
qed

lemma index_bytes_snoc [simp]:
  "index_bytes [] = []"
  "index_bytes (index @ [\<lparr>ie_offset = off, ie_position = pos\<rparr>]) =
     index_bytes index @ encode_index_entry off pos"
  by (simp_all add: index_bytes_def)

lemma segment_rep_append:
  assumes "segment_rep hash d n s es" and "chunk hash r c" and "unat (sr_offset r) = n + length es"
    and "map_of d' (sg_path s) = Some (bytes_of es @ c)"
    and "map_of d' (index_path (sg_path s)) = Some (index_bytes index)"
    and "index = sg_index s \<or> index = sg_index s @ [\<lparr>ie_offset = sr_offset r, ie_position = sg_len s\<rparr>]"
    and "unat len = length (bytes_of es) + length c"
  shows "segment_rep hash d' n (s\<lparr>sg_len := len, sg_index := index\<rparr>) (es @ [(r, c)])"
proof -
  note s = segment_repD [OF assms(1)]
  have "index_ok n (es @ [(r, c)]) index"
    using assms(6) index_ok_grow [OF s(6)] index_ok_snoc [OF s(6) assms(3) s(4)] by blast
  with s assms(2-5,7) show ?thesis by (simp add: segment_rep_def)
qed

section \<open>The producer table\<close>

lemma seqs_ok_append [simp]:
  "seqs_ok state (xs @ ys) \<longleftrightarrow> seqs_ok state xs \<and> seqs_ok (foldl note_producer state xs) ys"
  by (induction xs arbitrary: state) auto

lemma producer_duplicate_None:
  "producer_duplicate state r = Ok None \<longleftrightarrow> producer_ok state (lr_producer r)"
proof (cases "lr_producer r")
  case (Some p)
  then show ?thesis
    by (cases "state (pid_id p)")
       (auto simp: producer_duplicate_def producer_ok_def outcome_simps split: if_splits)
qed (simp add: producer_duplicate_def producer_ok_def)

section \<open>Appending\<close>

text \<open>Room for one more record: the history with it stays below the 64-bit limits of offsets and
  file sizes.\<close>

definition room :: "entry list \<Rightarrow> bytes \<Rightarrow> bool" where
  "room hist c \<longleftrightarrow> length (bytes_of hist) + length c < 2 ^ 64"

lemma log_repE:
  assumes "log_rep hash hist low l"
  obtains closed active ess es where "lg_segments l = closed @ [active]"
    "drop low hist = concat ess @ es" "closed_rep hash (lg_dir l) low closed ess"
    "segment_rep hash (lg_dir l) (low + length (concat ess)) active es"
    "lg_active_file l = sg_path active" "lg_active_index_file l = index_path (sg_path active)"
    "length hist = low + length (concat ess) + length es"
proof -
  from assms obtain closed active ess es where r: "lg_segments l = closed @ [active]"
    "drop low hist = concat ess @ es" "closed_rep hash (lg_dir l) low closed ess"
    "segment_rep hash (lg_dir l) (low + length (concat ess)) active es"
    "lg_active_file l = sg_path active" "lg_active_index_file l = index_path (sg_path active)"
    and low: "low \<le> length hist" by (auto simp: log_rep_def)
  moreover have "length (drop low hist) = length (concat ess @ es)" by (simp only: r(2))
  then have "length hist = low + length (concat ess) + length es"
    using low unfolding length_drop length_append by linarith
  ultimately show ?thesis using that by blast
qed

lemma log_repD:
  assumes "log_rep hash hist low l"
  shows "entries_ok hash 0 hist" "seqs_ok Map.empty (map fst hist)"
    "lg_producer_state l = producers (map fst hist)" "unat (lg_next_offset l) = length hist"
    "low \<le> length hist" "dir_ok (lg_dir l) (lg_segments l)" "lg_max_segment_bytes l \<noteq> 0"
    "lg_index_interval_bytes l \<noteq> 0" "lg_segments l \<noteq> []"
  using assms unfolding log_rep_def by (blast | force)+

lemma log_repI:
  assumes "entries_ok hash 0 hist" "seqs_ok Map.empty (map fst hist)"
    "lg_producer_state l = producers (map fst hist)" "unat (lg_next_offset l) = length hist"
    "low \<le> length hist" "dir_ok (lg_dir l) (lg_segments l)" "lg_max_segment_bytes l \<noteq> 0"
    "lg_index_interval_bytes l \<noteq> 0" "lg_segments l = closed @ [active]"
    "drop low hist = concat ess @ es" "closed_rep hash (lg_dir l) low closed ess"
    "segment_rep hash (lg_dir l) (low + length (concat ess)) active es"
    "lg_active_file l = sg_path active" "lg_active_index_file l = index_path (sg_path active)"
  shows "log_rep hash hist low l"
  using assms unfolding log_rep_def by blast

lemma dir_ok_fresh:
  assumes "dir_ok d segs" and "\<forall>s \<in> set segs. sg_path s = segment_file (sg_base_offset s) \<and> sg_base_offset s \<noteq> b"
  shows "map_of d (segment_file b) = None" and "map_of d (index_path (segment_file b)) = None"
  using assms unfolding dir_ok_def by (metis file_name_parts(1) segment_file_inject(1,3),
    metis file_name_parts(2) segment_file_inject(2,4))

lemma dir_ok_frame:
  assumes "dir_ok d segs" and "distinct (map fst d')" and "sg_path ` set segs \<subseteq> sg_path ` set segs'"
    and "\<And>name. map_of d' name \<noteq> None \<Longrightarrow> map_of d name \<noteq> None \<or>
      (\<exists>s \<in> set segs'. name = sg_path s \<or> name = index_path (sg_path s))"
  shows "dir_ok d' segs'"
proof -
  have "\<exists>s \<in> set segs'. name = sg_path s \<or> name = index_path (sg_path s)"
    if "map_of d' name \<noteq> None" "extension name = Some ''log'' \<or> extension name = Some ''idx''" for name
    using assms(1,3) assms(4) [OF that(1)] that(2) unfolding dir_ok_def by fastforce
  with assms(2) show ?thesis unfolding dir_ok_def by blast
qed

lemma rotate_rep:
  assumes rep: "log_rep hash hist low l" and "sg_len (last (lg_segments l)) \<noteq> 0"
  shows "\<exists>l'. rotate l = (Ok (), l') \<and> log_rep hash hist low l' \<and>
    lg_next_offset l' = lg_next_offset l \<and> lg_producer_state l' = lg_producer_state l"
proof -
  from log_repE [OF rep] obtain closed active ess es where r: "lg_segments l = closed @ [active]"
    "drop low hist = concat ess @ es" "closed_rep hash (lg_dir l) low closed ess"
    "segment_rep hash (lg_dir l) (low + length (concat ess)) active es"
    "length hist = low + length (concat ess) + length es" by metis
  note a = segment_repD [OF r(4)]
  have nx: "unat (lg_next_offset l) = length hist" and dir: "dir_ok (lg_dir l) (lg_segments l)"
    using rep by (auto simp: log_rep_def)
  have "bytes_of es \<noteq> []" using assms(2) a(4) by (auto simp: r(1) unat_eq_0)
  then have ne: "es \<noteq> []" by auto
  define b where "b = lg_next_offset l"
  have old: "\<forall>s \<in> set (lg_segments l). sg_path s = segment_file (sg_base_offset s) \<and> sg_base_offset s \<noteq> b"
    using closed_rep_base [OF r(3)] a(1,2) r(1,5) ne nx by (fastforce simp: b_def)
  note fresh = dir_ok_fresh [OF dir old]
  define seg where "seg = \<lparr>sg_base_offset = b, sg_path = segment_file b, sg_len = 0, sg_index = []\<rparr>"
  define d where "d = AList.update (index_path (segment_file b)) [] (AList.update (segment_file b) [] (lg_dir l))"
  define l' where "l' = l\<lparr>lg_dir := d, lg_active_file := segment_file b,
    lg_active_index_file := index_path (segment_file b), lg_segments := lg_segments l @ [seg]\<rparr>"
  have "rotate l = (Ok (), l')"
    using create_segment_fresh [OF fresh]
    by (simp add: rotate_def l'_def d_def seg_def flip: b_def)
  moreover have "log_rep hash hist low l'"
  proof -
    have frame: "map_of d (segment_file x) = map_of (lg_dir l) (segment_file x) \<and>
        map_of d (index_path (segment_file x)) = map_of (lg_dir l) (index_path (segment_file x))"
      if "unat x < length hist" for x using that nx by (auto simp: d_def b_def)
    have "closed_rep hash (lg_dir l) low (closed @ [active]) (ess @ [es])"
      using closed_rep_snoc [OF r(3,4) ne] .
    then have c: "closed_rep hash d low (closed @ [active]) (ess @ [es])"
      by (rule closed_rep_frame) (use frame r(5) in auto)
    have s: "segment_rep hash d (low + length (concat (ess @ [es]))) seg []"
      using nx r(5) by (simp add: segment_rep_def seg_def d_def index_ok_def b_def)
    have "dir_ok d (lg_segments l @ [seg])"
      using dir unfolding dir_ok_def d_def seg_def by auto
    with log_repD [OF rep] r(1,2) c s show ?thesis
      by (intro log_repI [of _ _ _ _ "closed @ [active]" seg "ess @ [es]" "[]"])
         (simp_all add: l'_def seg_def)
  qed
  ultimately show ?thesis by (auto simp: l'_def)
qed

text \<open>The log after an append to the active segment represents the extended history: \<open>d\<close> is the
  directory with the chunk, and possibly an index entry, written.\<close>

lemma log_rep_push:
  assumes rep: "log_rep hash hist low l" and chk: "chunk hash (fst e) (snd e)"
    and off: "sr_offset (fst e) = lg_next_offset l" and prod: "seqs_ok Map.empty (map fst (hist @ [e]))"
    and seg: "lg_segments l = closed @ [active]" "drop low hist = concat ess @ es"
      "closed_rep hash (lg_dir l) low closed ess"
      "segment_rep hash (lg_dir l) (low + length (concat ess)) active es"
      "lg_active_file l = sg_path active" "lg_active_index_file l = index_path (sg_path active)"
      "length hist = low + length (concat ess) + length es"
    and d: "distinct (map fst d)" "map_of d = (map_of (lg_dir l))
        (index_path (sg_path active) \<mapsto> index_bytes idx, sg_path active \<mapsto> bytes_of es @ snd e)"
    and idx: "idx = sg_index active \<or> idx = sg_index active @ [\<lparr>ie_offset = sr_offset (fst e), ie_position = sg_len active\<rparr>]"
    and len: "unat len = length (bytes_of es) + length (snd e)" and nx: "unat nx = Suc (length hist)"
  shows "log_rep hash (hist @ [e]) low (l\<lparr>lg_dir := d,
    lg_segments := closed @ [active\<lparr>sg_len := len, sg_index := idx\<rparr>], lg_next_offset := nx,
    lg_producer_state := note_producer (lg_producer_state l) (fst e)\<rparr>)"
proof -
  note rd = log_repD [OF rep] and a = segment_repD [OF seg(4)]
  let ?act = "active\<lparr>sg_len := len, sg_index := idx\<rparr>"
  have p: "sg_path active \<noteq> index_path (sg_path active)" using a(2) by simp
  have dok: "dir_ok d (closed @ [?act])"
    by (rule dir_ok_frame [OF rd(6) d(1)]) (auto simp: seg(1) d(2) split: if_splits)
  have c: "closed_rep hash d low closed ess"
    by (rule closed_rep_frame [OF seg(3)]) (use a(1,2) in \<open>auto simp: d(2)\<close>)
  have s: "segment_rep hash d (low + length (concat ess)) ?act (es @ [(fst e, snd e)])"
    by (rule segment_rep_append [OF seg(4) chk]) (use rd(4) seg(7) p len idx off in \<open>auto simp: d(2)\<close>)
  have h: "entries_ok hash 0 (hist @ [e])" "drop low (hist @ [e]) = concat ess @ es @ [e]"
    using rd(1-5) chk seg(2) off by (cases e; auto)+
  show ?thesis
    using rd h prod c s dok nx
    by (intro log_repI [of _ _ _ _ closed ?act ess "es @ [e]"]) (simp_all add: seg(5,6))
qed

lemma append_active_rep:
  assumes rep: "log_rep hash hist low l" and enc: "encode_record hash r (lg_next_offset l) = Ok c"
    and len: "unat len = length c" and fits: "room hist c"
    and prod: "producer_ok (lg_producer_state l) (lr_producer r)"
  shows "\<exists>l'. append_active (lg_next_offset l) c len r l = (Ok (lg_next_offset l), l') \<and>
    log_rep hash (hist @ [(stored_of r (lg_next_offset l), c)]) low l'"
proof -
  define off where "off = lg_next_offset l"
  note rd = log_repD [OF rep]
  from log_repE [OF rep] obtain closed active ess es where seg: "lg_segments l = closed @ [active]"
    "drop low hist = concat ess @ es" "closed_rep hash (lg_dir l) low closed ess"
    "segment_rep hash (lg_dir l) (low + length (concat ess)) active es"
    "lg_active_file l = sg_path active" "lg_active_index_file l = index_path (sg_path active)"
    "length hist = low + length (concat ess) + length es" by metis
  note a = segment_repD [OF seg(4)]
  have chk: "chunk hash (stored_of r off) c" using encode_record_chunk enc by (simp add: off_def)
  have pos: "33 \<le> length c" using chk by (simp add: chunk_def)
  have hb: "length hist \<le> length (bytes_of hist)" using rd(1) by (rule entries_bytes_length)
  have "hist = take low hist @ concat ess @ es" using seg(2) by (metis append_take_drop_id)
  then have "bytes_of hist = bytes_of (take low hist) @ bytes_of (concat ess) @ bytes_of es"
    by (metis bytes_of_simps(3))
  then have eb: "length (bytes_of es) \<le> length (bytes_of hist)" by simp
  obtain len' where len': "checked_add (sg_len active) len = Some len'"
    and ulen': "unat len' = length (bytes_of es) + length c"
    using checked_add_fits [of "sg_len active" len] fits eb a(4) len by (auto simp: room_def)
  obtain nx where nx: "checked_add off 1 = Some nx" and unx: "unat nx = Suc (length hist)"
    using checked_add_fits [of off 1] fits hb pos rd(4) by (auto simp: room_def off_def)
  define ix where "ix = needs_index (lg_index_interval_bytes l) (sg_index active) (sg_len active)"
  define idx where "idx = (if ix then sg_index active @ [\<lparr>ie_offset = off, ie_position = sg_len active\<rparr>]
    else sg_index active)"
  define d1 where "d1 = (if ix then write_all (index_path (sg_path active))
    (encode_index_entry off (sg_len active)) (lg_dir l) else lg_dir l)"
  define d where "d = write_all (sg_path active) c d1"
  define l' where "l' = l\<lparr>lg_dir := d, lg_segments := closed @ [active\<lparr>sg_len := len', sg_index := idx\<rparr>],
    lg_next_offset := nx, lg_producer_state := note_producer (lg_producer_state l) (stored_of r off)\<rparr>"
  have "append_active off c len r l = (Ok off, l')"
    using len' nx seg(1,5,6)
    by (cases "lr_producer r") (simp_all add: append_active_def Let_def l'_def idx_def d_def d1_def ix_def off_def
         note_producer_def stored_of_def)
  moreover have m1: "map_of d1 = (map_of (lg_dir l))(index_path (sg_path active) \<mapsto> index_bytes idx)"
    using a(7) by (auto simp: d1_def idx_def write_all_Some)
  have "log_rep hash (hist @ [(stored_of r off, c)]) low l'"
    using log_rep_push [OF rep _ _ _ seg, of "(stored_of r off, c)" d idx len' nx] rd chk prod a(2,3) m1 ulen' unx
    by (auto simp: l'_def d_def d1_def idx_def dir_ok_def write_all_Some stored_of_def off_def)
  ultimately show ?thesis by (auto simp: off_def)
qed

lemma append_new_rep:
  assumes rep: "log_rep hash hist low l" and enc: "encode_record hash r (lg_next_offset l) = Ok c"
    and fits: "room hist c" and prod: "producer_ok (lg_producer_state l) (lr_producer r)"
  shows "\<exists>l'. append_new hash r l = (Ok (lg_next_offset l), l') \<and>
    log_rep hash (hist @ [(stored_of r (lg_next_offset l), c)]) low l'"
proof -
  define len :: u64 where "len = word_of_nat (length c)"
  have lc: "length c < 2 ^ 64" using fits by (simp add: room_def)
  then have len: "unat len = length c" "try_from (length c) = Some len"
    by (simp_all add: len_def unat_word_of_nat_small try_from_def)
  define full where "full \<longleftrightarrow> sg_len (last (lg_segments l)) \<noteq> 0 \<and>
    saturating_add (sg_len (last (lg_segments l))) len > lg_max_segment_bytes l"
  have "\<exists>l1. (if full then rotate l else (Ok (), l)) = (Ok (), l1) \<and> log_rep hash hist low l1 \<and>
      lg_next_offset l1 = lg_next_offset l \<and> lg_producer_state l1 = lg_producer_state l"
    using rep rotate_rep [OF rep] by (cases full) (auto simp: full_def)
  then obtain l1 where l1: "(if full then rotate l else (Ok (), l)) = (Ok (), l1)"
    "log_rep hash hist low l1" "lg_next_offset l1 = lg_next_offset l"
    "lg_producer_state l1 = lg_producer_state l" by blast
  have "append_new hash r l = append_active (lg_next_offset l) c len r l1"
    using enc len(2) log_repD(9) [OF rep] l1(1) by (simp add: append_new_def Let_def full_def)
  with append_active_rep [OF l1(2) _ len(1) fits] enc prod l1(3,4) show ?thesis by simp
qed

lemma producers_Some:
  assumes "producers rs pid = Some (seq, off)"
  shows "\<exists>r \<in> set rs. sr_producer r = Some \<lparr>pid_id = pid, pid_sequence = seq\<rparr> \<and> sr_offset r = off"
  using assms
proof (induction rs rule: rev_induct)
  case (snoc r rs)
  then show ?case
    by (cases "sr_producer r") (auto simp: note_producer_def split: if_splits)
qed simp

lemma producer_duplicate_Some:
  assumes "producer_duplicate (producers rs) r = Ok (Some off)"
  shows "lr_producer r \<noteq> None \<and> (\<exists>x \<in> set rs. sr_producer x = lr_producer r \<and> sr_offset x = off)"
proof -
  from assms obtain p where p: "lr_producer r = Some p"
    by (auto simp: producer_duplicate_def split: option.splits)
  then have "producers rs (pid_id p) = Some (pid_sequence p, off)"
    using assms by (auto simp: producer_duplicate_def outcome_simps split: option.splits if_splits)
  from producers_Some [OF this] p show ?thesis by force
qed

lemma producer_duplicate_not_Panic: "producer_duplicate state r \<noteq> Panic"
  by (auto simp: producer_duplicate_def check_sequence_def validate_producer_id_def
      try_bind_Panic_iff split: option.splits)

lemma encode_record_not_Panic: "encode_record hash r off \<noteq> Panic"
  by (auto simp: encode_record_def Let_def try_bind_Panic_iff validate_producer_id_def
      split: option.splits)

lemma encode_record_room:
  assumes "encode_record hash r off = Ok c" and "length (bytes_of hist) + MAX_RECORD_SIZE + 4 < 2 ^ 64"
  shows "room hist c"
  using assms by (auto simp: encode_record_eq room_def record_sizes_ok_def length_record_body)

section \<open>A new partition\<close>

definition fresh_log :: "u64 \<Rightarrow> u64 \<Rightarrow> partition_log" where
  "fresh_log max_segment_bytes interval =
    \<lparr>lg_next_offset = 0, lg_max_segment_bytes = max_segment_bytes,
     lg_index_interval_bytes = interval,
     lg_dir = [(segment_file 0, []), (index_path (segment_file 0), [])],
     lg_segments = [\<lparr>sg_base_offset = 0, sg_path = segment_file 0, sg_len = 0, sg_index = []\<rparr>],
     lg_active_file = segment_file 0, lg_active_index_file = index_path (segment_file 0),
     lg_producer_state = Map.empty\<rparr>"

lemma fresh_log_rep:
  "max_segment_bytes \<noteq> 0 \<Longrightarrow> interval \<noteq> 0 \<Longrightarrow> log_rep hash [] 0 (fresh_log max_segment_bytes interval)"
  by (rule log_repI [where closed = "[]" and ess = "[]" and es = "[]"])
     (auto simp: fresh_log_def dir_ok_def segment_rep_def index_ok_def)

lemma sample_append:
  "\<exists>l'. append_log byte_sum sample_record (fresh_log 1024 256) = (Ok 0, l')"
proof -
  have "encode_record byte_sum sample_record 0 =
      Ok (put_u32 (word_of_nat (CRC_SIZE + length (record_body sample_record 0)))
       @ put_u32 (byte_sum (record_body sample_record 0)) @ record_body sample_record 0)"
    by (simp add: encode_record_eq sample_record_ok)
  then obtain c where c: "encode_record byte_sum sample_record 0 = Ok c" by blast
  have n: "lg_next_offset (fresh_log 1024 256) = 0" "lg_producer_state (fresh_log 1024 256) = Map.empty"
    by (simp_all add: fresh_log_def)
  have p: "producer_ok Map.empty (lr_producer sample_record)"
    using sample_record_ok by (simp add: producer_ok_def sample_record_def record_sizes_ok_def
        check_sequence_def)
  have "room [] c" by (rule encode_record_room [OF c]) simp
  from append_new_rep [OF fresh_log_rep, of 1024 256 byte_sum sample_record c, unfolded n, OF _ _ c this p]
  obtain l' where "append_new byte_sum sample_record (fresh_log 1024 256) = (Ok 0, l')" by auto
  with p show ?thesis by (simp add: append_log_def n flip: producer_duplicate_None)
qed

section \<open>Properties\<close>

text \<open>C19: What a call of \<open>append\<close> on a well-formed log can do, on every branch: it either acknowledges
  a duplicate with the offset of the record the same producer stored under the same sequence
  number, leaving the log as it is; or stores the record under the next offset, keeping every
  earlier record and all the structure of the log (segments, sparse index, producer table,
  directory); or rejects it and leaves the log as it is.  It never panics.\<close>

theorem append_log_outcome:
  assumes "log_rep hash hist low l" and "length (bytes_of hist) + MAX_RECORD_SIZE + 4 < 2 ^ 64"
  shows "case append_log hash r l of
      (Ok off, l') \<Rightarrow>
        l' = l \<and> lr_producer r \<noteq> None \<and>
          (\<exists>x \<in> set (map fst hist). sr_producer x = lr_producer r \<and> sr_offset x = off) \<or>
        unat off = length hist \<and> (\<exists>c. log_rep hash (hist @ [(stored_of r off, c)]) low l')
    | (Err _, l') \<Rightarrow> l' = l
    | (Panic, _) \<Rightarrow> False"
proof -
  note rd = log_repD [OF assms(1)]
  consider (err) e where "producer_duplicate (lg_producer_state l) r = Err e"
    | (dup) off where "producer_duplicate (lg_producer_state l) r = Ok (Some off)"
    | (new) "producer_duplicate (lg_producer_state l) r = Ok None"
    using producer_duplicate_not_Panic
    by (metis not_None_eq outcome.exhaust)
  then show ?thesis
  proof cases
    case err
    then show ?thesis by (simp add: append_log_def)
  next
    case dup
    with producer_duplicate_Some [of "map fst hist" r off] rd(3) show ?thesis
      by (simp add: append_log_def)
  next
    case new
    show ?thesis
    proof (cases "encode_record hash r (lg_next_offset l)")
      case (Ok c)
      have "producer_ok (lg_producer_state l) (lr_producer r)"
        using new by (simp add: producer_duplicate_None)
      from append_new_rep [OF assms(1) Ok encode_record_room [OF Ok assms(2)] this]
      obtain l' where "append_new hash r l = (Ok (lg_next_offset l), l')"
        "log_rep hash (hist @ [(stored_of r (lg_next_offset l), c)]) low l'" by blast
      with new rd(4) show ?thesis by (auto simp: append_log_def)
    qed (use new encode_record_not_Panic in \<open>simp_all add: append_log_def append_new_def Let_def\<close>)
  qed
qed

theorem append_log_outcome_witness:
  "\<exists>l' c. append_log byte_sum sample_record (fresh_log 1024 256) = (Ok 0, l') \<and>
     log_rep byte_sum [(stored_of sample_record 0, c)] 0 l'"
proof -
  obtain l' where "append_log byte_sum sample_record (fresh_log 1024 256) = (Ok 0, l')"
    using sample_append by blast
  with append_log_outcome [OF fresh_log_rep [of 1024 256 byte_sum], of sample_record]
  show ?thesis by simp
qed

text \<open>A record of valid size whose producer continues its sequence (or that has no producer) is
  always accepted: it is stored under the next offset and a subsequent read from that offset
  returns exactly this record.\<close>

lemma append_then_read:
  assumes "log_rep hash hist low l" and "length (bytes_of hist) + MAX_RECORD_SIZE + 4 < 2 ^ 64"
    and "record_sizes_ok r" and "producer_ok (lg_producer_state l) (lr_producer r)"
    and "max_bytes \<noteq> 0"
  shows "\<exists>l'. append_log hash r l = (Ok (lg_next_offset l), l') \<and>
    lg_next_offset l' = lg_next_offset l + 1 \<and>
    read_log hash l' (lg_next_offset l) max_bytes = Ok [stored_of r (lg_next_offset l)]"
proof -
  define off where "off = lg_next_offset l"
  note rd = log_repD [OF assms(1)]
  obtain c where c: "encode_record hash r off = Ok c" using assms(3) encode_record_eq by blast
  obtain l' where l': "append_new hash r l = (Ok off, l')"
    and rep: "log_rep hash (hist @ [(stored_of r off, c)]) low l'"
    using append_new_rep [OF assms(1) _ encode_record_room [OF c assms(2)] assms(4)] c
    by (auto simp: off_def)
  note rd' = log_repD [OF rep]
  have "unat (lg_next_offset l') = Suc (unat off)" using rd(4) rd'(4) by (simp add: off_def)
  moreover have "Suc (unat off) < 2 ^ 64" using calculation unat_u64_lt [of "lg_next_offset l'"] by simp
  ultimately have n: "lg_next_offset l' = off + 1"
    using unat_plus_no_overflow [of off 1] by (simp add: word_unat_eq_iff)
  have old: "sr_offset x < off" if "(x, y) \<in> set (drop low hist)" for x y
    using entries_ok_offset [OF rd(1)] in_set_dropD [OF that] rd(4)
    by (fastforce simp: off_def word_less_nat_alt)
  then have "filter (\<lambda>(x, y). off \<le> sr_offset x) (drop low hist) = []"
    by (fastforce simp: filter_empty_conv)
  then have "read_spec off max_bytes (drop low (hist @ [(stored_of r off, c)])) = [stored_of r off]"
    using rd(5) by (simp add: read_spec_def stored_of_def)
  with l' n read_log_spec [OF rep assms(5), of off] assms(4) show ?thesis
    by (auto simp: append_log_def off_def producer_duplicate_None [symmetric])
qed

text \<open>C20: Reading a well-formed log through its segments and sparse indexes returns what scanning the
  whole retained history would: the records with at least the requested offset in order, cut
  after the byte budget, but never empty while there is such a record.\<close>

theorem read_log_correct:
  assumes "log_rep hash hist low l"
  shows "read_log hash l offset max_bytes =
    (if max_bytes = 0 then Err InvalidReadLimit else Ok (read_spec offset max_bytes (drop low hist)))"
  using read_log_spec [OF assms] by (simp add: read_log_def)

text \<open>C35: Producer retries are idempotent: sending a record again right after it was accepted returns
  the same offset and changes nothing, whatever the state of the log.\<close>

theorem append_log_idempotent:
  assumes "append_log hash r l = (Ok off, l')" and "lr_producer r \<noteq> None"
  shows "append_log hash r l' = (Ok off, l')"
proof -
  obtain p where p: "lr_producer r = Some p" using assms(2) by blast
  obtain dup where d: "producer_duplicate (lg_producer_state l) r = Ok dup"
    using assms(1) by (auto simp: append_log_def outcome_simps)
  then have v: "validate_producer_id (pid_id p) = Ok ()"
    by (auto simp: producer_duplicate_def p outcome_simps)
  show ?thesis
  proof (cases dup)
    case (Some x)
    with assms(1) d have "l' = l" by (simp add: append_log_def)
    with assms(1) show ?thesis by simp
  next
    case None
    then have "append_new hash r l = (Ok off, l')" using assms(1) d by (simp add: append_log_def)
    then have "lg_producer_state l' (pid_id p) = Some (pid_sequence p, off)"
      by (auto simp: append_new_def append_active_def outcome_simps Let_def p split: if_splits)
    then have "producer_duplicate (lg_producer_state l') r = Ok (Some off)"
      using v by (simp add: producer_duplicate_def p)
    then show ?thesis by (simp add: append_log_def)
  qed
qed

theorem append_log_idempotent_witness:
  "\<exists>l'. append_log byte_sum sample_record (fresh_log 1024 256) = (Ok 0, l') \<and>
     append_log byte_sum sample_record l' = (Ok 0, l')"
proof -
  obtain l' where "append_log byte_sum sample_record (fresh_log 1024 256) = (Ok 0, l')"
    using sample_append by blast
  moreover from this have "append_log byte_sum sample_record l' = (Ok 0, l')"
    by (rule append_log_idempotent) (simp add: sample_record_def)
  ultimately show ?thesis by blast
qed

end
