(* ===== verification/Log_Recovery.thy ===== *)
theory Log_Recovery
  imports Log_Append
begin

text \<open>
  Opening a partition: \<open>discover_segments\<close>, \<open>recover_segment\<close> and \<open>PartitionLog::open\<close> on a directory
  left behind by a crash.  The history survives, a torn record at the end is cut off, and the
  indexes are rebuilt.  A directory from which retention has removed the first segment cannot be
  opened again.
\<close>

section \<open>Recovering one segment\<close>

lemma recover_producer_ok:
  "producer_ok state (sr_producer r) \<Longrightarrow> recover_producer state r = Ok (note_producer state r)"
  by (cases "sr_producer r") (auto simp: recover_producer_def producer_ok_def note_producer_def)

lemma recover_loop_entries:
  assumes "entries_ok hash (n + length pre) es" and "seqs_ok state (map fst es)"
    and "decode_record hash tail = (Ok None, tail)"
    and "tot = length (bytes_of pre) + length (bytes_of es) + length tail" and "tot < 2 ^ 64"
    and "unat nxt = n + length pre" and "n + length pre + length es < 2 ^ 64"
    and "index_ok n pre index"
  shows "\<exists>nxt' vlen index'. recover_loop hash tot interval (bytes_of es @ tail) nxt index state =
      Ok ((nxt', vlen, index'), foldl note_producer state (map fst es)) \<and>
    unat nxt' = n + length pre + length es \<and> unat vlen = length (bytes_of pre) + length (bytes_of es) \<and>
    index_ok n (pre @ es) index'"
  using assms
proof (induction es arbitrary: pre nxt index state)
  case Nil
  then show ?case
    by (subst recover_loop.simps) (auto simp: try_from_def unat_word_of_nat_small)
next
  case (Cons e es)
  obtain r c where e: "e = (r, c)" by fastforce
  define pos :: u64 where "pos = word_of_nat (length (bytes_of pre))"
  have pos: "unat pos = length (bytes_of pre)" "try_from (length (bytes_of pre)) = Some pos"
    using Cons.prems(4,5) by (simp_all add: pos_def unat_word_of_nat_small try_from_def)
  have d: "decode_record hash (c @ bytes_of es @ tail) = (Ok (Some r), bytes_of es @ tail)"
    and off: "unat (sr_offset r) = n + length pre"
    using Cons.prems(1) by (auto simp: e chunk_def)
  then have r: "sr_offset r = nxt" using Cons.prems(6) by (simp add: word_unat_eq_iff)
  obtain nxt1 where nxt1: "checked_add nxt 1 = Some nxt1" "unat nxt1 = n + length (pre @ [e])"
    using checked_add_fits [of nxt 1] Cons.prems(6,7) by auto
  define ix where "ix = (if needs_index interval index pos
    then index @ [\<lparr>ie_offset = sr_offset r, ie_position = pos\<rparr>] else index)"
  have ix: "index_ok n (pre @ [e]) ix"
    using Cons.prems(8) off pos(1) index_ok_grow index_ok_snoc by (auto simp: ix_def)
  have st: "recover_producer state r = Ok (note_producer state r)"
    using Cons.prems(2) by (simp add: e recover_producer_ok)
  have "recover_loop hash tot interval (bytes_of (e # es) @ tail) nxt index state =
      recover_loop hash tot interval (bytes_of es @ tail) nxt1 ix (note_producer state r)"
    using Cons.prems(4) pos(2) d r st nxt1(1)
    by (subst recover_loop.simps) (simp add: e Let_def ix_def)
  moreover have "\<exists>nxt' vlen index'. recover_loop hash tot interval (bytes_of es @ tail) nxt1 ix
        (note_producer state r) =
      Ok ((nxt', vlen, index'), foldl note_producer (note_producer state r) (map fst es)) \<and>
    unat nxt' = n + length (pre @ [e]) + length es \<and>
    unat vlen = length (bytes_of (pre @ [e])) + length (bytes_of es) \<and>
    index_ok n ((pre @ [e]) @ es) index'"
    by (rule Cons.IH) (use Cons.prems nxt1(2) ix in \<open>simp_all add: e\<close>)
  ultimately show ?case by (auto simp: e)
qed

lemma recover_segment_entries:
  assumes "map_of d path = Some (bytes_of es @ tail)" and "entries_ok hash n es"
    and "seqs_ok state (map fst es)" and "decode_record hash tail = (Ok None, tail)"
    and "length (bytes_of es) + length tail < 2 ^ 64" and "unat nxt = n" and "n + length es < 2 ^ 64"
  obtains nxt' vlen index' where "recover_segment hash d path nxt interval state =
      Ok ((nxt', vlen, index'), foldl note_producer state (map fst es))"
    "unat nxt' = n + length es" "unat vlen = length (bytes_of es)" "index_ok n es index'"
  using recover_loop_entries [of hash n "[]" es state tail "length (bytes_of es) + length tail" nxt "[]" interval]
    assms by (auto simp: recover_segment_def index_ok_def)

section \<open>Discovering the segments\<close>

definition raw_segment :: "dir \<Rightarrow> u64 \<Rightarrow> segment_metadata" where
  "raw_segment d b = \<lparr>sg_base_offset = b, sg_path = segment_file b,
     sg_len = word_of_nat (length (the (map_of d (segment_file b)))), sg_index = []\<rparr>"

lemma raw_segment_select:
  "sg_base_offset (raw_segment d b) = b" "sg_path (raw_segment d b) = segment_file b"
  by (simp_all add: raw_segment_def)

lemma discover_entries_ok:
  assumes "\<forall>(name, contents) \<in> set d. extension name = Some ''log'' \<longrightarrow> (\<exists>b. name = segment_file b)"
  shows "discover_entries d = Ok (map (\<lambda>(name, contents). \<lparr>sg_base_offset = the (parse_unsigned (file_stem name)),
      sg_path = name, sg_len = word_of_nat (length contents), sg_index = []\<rparr>)
    (filter (\<lambda>(name, contents). extension name = Some ''log'') d))"
  using assms
proof (induction d)
  case (Cons f d)
  obtain name contents where f: "f = (name, contents)" by fastforce
  show ?case
  proof (cases "extension name = Some ''log''")
    case True
    then obtain b where "name = segment_file b" using Cons.prems f by auto
    with Cons f show ?thesis by (simp add: Let_def length_pad20 pad20_digits parse_pad20)
  qed (use Cons f in simp)
qed simp

text \<open>The entries of the directory that are segments, as \<open>discover_segments\<close> reads them.\<close>

lemma discover_entries_raw:
  assumes "distinct (map fst d)"
    and "\<And>name. extension name = Some ''log'' \<Longrightarrow> map_of d name \<noteq> None \<longleftrightarrow> name \<in> segment_file ` set bs"
  shows "\<exists>segs. discover_entries d = Ok segs \<and> set segs = raw_segment d ` set bs \<and> distinct (map sg_path segs)"
proof -
  define ds where "ds = filter (\<lambda>(name, contents). extension name = Some ''log'') d"
  define mk where "mk = (\<lambda>(name, contents :: bytes). \<lparr>sg_base_offset = the (parse_unsigned (file_stem name)) :: u64,
      sg_path = name, sg_len = word_of_nat (length contents), sg_index = []\<rparr>)"
  have ds: "(name, c) \<in> set ds \<longleftrightarrow> extension name = Some ''log'' \<and> map_of d name = Some c" for name c
    using assms(1) by (auto simp: ds_def)
  have log: "\<exists>b \<in> set bs. name = segment_file b" if "(name, c) \<in> set ds" for name c
    using that assms(2) ds by blast
  have e: "discover_entries d = Ok (map mk ds)"
    unfolding mk_def ds_def
    by (rule discover_entries_ok) (use log in \<open>fastforce simp: ds_def\<close>)
  have mk: "mk (name, c) = raw_segment d b" if "name = segment_file b" "map_of d name = Some c" for name c b
    using that by (simp add: mk_def raw_segment_def parse_pad20)
  have sub: "mk f \<in> raw_segment d ` set bs" if f: "f \<in> set ds" for f
  proof -
    obtain name c where fc: "f = (name, c)" by (cases f)
    with f log obtain b where b: "b \<in> set bs" "name = segment_file b" by blast
    have "map_of d name = Some c" using f ds fc by blast
    with b fc mk show ?thesis by blast
  qed
  have sup: "raw_segment d b \<in> mk ` set ds" if b: "b \<in> set bs" for b
  proof -
    obtain c where c: "map_of d (segment_file b) = Some c"
      using assms(2) [of "segment_file b"] b by auto
    then have "(segment_file b, c) \<in> set ds" by (simp add: ds)
    with mk [OF refl c] show ?thesis by (metis image_eqI)
  qed
  have "distinct (map fst ds)" using assms(1) unfolding ds_def by (rule distinct_map_filter)
  moreover have "sg_path (mk f) = fst f" for f by (cases f) (simp add: mk_def)
  ultimately have "distinct (map sg_path (map mk ds))" by (simp add: comp_def)
  with e sub sup show ?thesis by (intro exI [of _ "map mk ds"]) auto
qed

lemma discover_segments_bases:
  assumes "distinct (map fst d)" and "sorted_wrt (<) bs"
    and "\<And>name. extension name = Some ''log'' \<Longrightarrow> map_of d name \<noteq> None \<longleftrightarrow> name \<in> segment_file ` set bs"
  shows "discover_segments d = Ok (map (raw_segment d) bs)"
proof -
  obtain segs where segs: "discover_entries d = Ok segs" "set segs = raw_segment d ` set bs" "distinct (map sg_path segs)"
    using discover_entries_raw [OF assms(1,3)] by blast
  have inj: "inj_on sg_base_offset (raw_segment d ` set bs)"
    by (auto simp: inj_on_def raw_segment_def)
  have "distinct segs" using segs(3) unfolding distinct_map [of sg_path] by blast
  then have dist: "distinct (map sg_base_offset segs)" using inj segs(2) by (simp add: distinct_map)
  have bs: "map (sg_base_offset \<circ> raw_segment d) bs = bs"
    by (simp add: comp_def raw_segment_def)
  have "sort_key sg_base_offset segs = map (raw_segment d) bs"
  proof (rule map_sorted_distinct_set_unique [where f = sg_base_offset])
    show "inj_on sg_base_offset (set (sort_key sg_base_offset segs) \<union> set (map (raw_segment d) bs))"
      using inj segs(2) by simp
    show "sorted (map sg_base_offset (map (raw_segment d) bs))"
      "distinct (map sg_base_offset (map (raw_segment d) bs))"
      using assms(2) by (simp_all add: bs strict_sorted_iff)
    show "distinct (map sg_base_offset (sort_key sg_base_offset segs))"
      using dist unfolding distinct_map [of sg_base_offset] by simp
  qed (use segs(2) in auto)
  then show ?thesis by (simp add: discover_segments_def segs(1))
qed

section \<open>Opening\<close>

text \<open>The files a partition directory holds for segments with the given bases: complete records in
  all of them, then possibly a torn one at the end of the last.\<close>

fun files_rep :: "(bytes \<Rightarrow> u32) \<Rightarrow> dir \<Rightarrow> nat \<Rightarrow> u64 list \<Rightarrow> entry list list \<Rightarrow> bytes \<Rightarrow> bool" where
  "files_rep hash d n [b] [es] tail \<longleftrightarrow> unat b = n \<and> entries_ok hash n es \<and>
     map_of d (segment_file b) = Some (bytes_of es @ tail)"
| "files_rep hash d n (b # b' # bs) (es # es' # ess) tail \<longleftrightarrow> unat b = n \<and> entries_ok hash n es \<and>
     es \<noteq> [] \<and> map_of d (segment_file b) = Some (bytes_of es) \<and>
     files_rep hash d (n + length es) (b' # bs) (es' # ess) tail"
| "files_rep hash d n _ _ tail \<longleftrightarrow> False"

lemma files_rep_frame:
  "files_rep hash d n bs ess tail \<Longrightarrow>
     (\<And>b. b \<in> set bs \<Longrightarrow> map_of d' (segment_file b) = map_of d (segment_file b)) \<Longrightarrow>
     files_rep hash d' n bs ess tail"
  by (induction hash d n bs ess tail rule: files_rep.induct) auto

text \<open>All segments, closed and active, after recovery.\<close>

definition opened :: "(bytes \<Rightarrow> u32) \<Rightarrow> dir \<Rightarrow> nat \<Rightarrow> u64 list \<Rightarrow> segment_metadata list \<Rightarrow> entry list list \<Rightarrow> bool"
  where
  "opened hash d n bs segs ess \<longleftrightarrow> map sg_base_offset segs = bs \<and> segs \<noteq> [] \<and> length ess = length segs \<and>
     closed_rep hash d n (butlast segs) (butlast ess) \<and>
     segment_rep hash d (n + length (concat (butlast ess))) (last segs) (last ess)"

lemma open_one:
  assumes "map_of d (segment_file b) = Some (bytes_of es @ tail)" and "entries_ok hash n es"
    and "seqs_ok state (map fst es)" and "decode_record hash tail = (Ok None, tail)"
    and "length (bytes_of es) + length tail < 2 ^ 64" and "unat b = n" and "n + length es < 2 ^ 64"
    and "tail = [] \<or> rest = []"
  obtains nxt' s d' where
    "open_segments hash interval (raw_segment d b # rest) b state d =
       step_bind (open_segments hash interval rest nxt' (foldl note_producer state (map fst es)) d')
         (\<lambda>(segments, next_offset, state) d. (Ok (s # segments, next_offset, state), d))"
    "unat nxt' = n + length es" "segment_rep hash d' n s es" "sg_base_offset s = b"
    "map_of d' = (map_of d)(segment_file b \<mapsto> bytes_of es,
       index_path (segment_file b) \<mapsto> index_bytes (sg_index s))"
    "distinct (map fst d) \<Longrightarrow> distinct (map fst d')"
proof -
  obtain nxt' vlen ix where r: "recover_segment hash d (segment_file b) b interval state =
      Ok ((nxt', vlen, ix), foldl note_producer state (map fst es))"
    and n: "unat nxt' = n + length es" and v: "unat vlen = length (bytes_of es)"
    and ix: "index_ok n es ix"
    using recover_segment_entries [OF assms(1-7)] by blast
  define torn where "torn \<longleftrightarrow> tail \<noteq> []"
  have raw: "unat (sg_len (raw_segment d b)) = length (bytes_of es) + length tail"
    using assms(1,5) unat_word_of_nat_small [of "length (bytes_of es @ tail)", where 'a = 64]
    by (simp add: raw_segment_def)
  then have cmp: "vlen < sg_len (raw_segment d b) \<longleftrightarrow> torn"
    using v by (simp add: torn_def word_less_nat_alt)
  define d1 where "d1 = (if torn then AList.update (segment_file b)
    (take (unat vlen) (the (map_of d (segment_file b)))) d else d)"
  define s where "s = (raw_segment d b)\<lparr>sg_len := if torn then vlen else sg_len (raw_segment d b),
    sg_index := ix\<rparr>"
  define d' where "d' = rewrite_index s d1"
  have m: "map_of d' = (map_of d)(segment_file b \<mapsto> bytes_of es,
      index_path (segment_file b) \<mapsto> index_bytes ix)"
    using assms(1) v
    by (auto simp: d'_def d1_def rewrite_index_def index_bytes_def s_def raw_segment_def torn_def)
  have l: "unat (sg_len s) = length (bytes_of es)"
    using raw v by (simp add: s_def torn_def)
  have rep: "segment_rep hash d' n s es"
    using assms(2,6) ix l by (simp add: segment_rep_def m s_def raw_segment_def)
  have o: "open_segments hash interval (raw_segment d b # rest) b state d =
       step_bind (open_segments hash interval rest nxt' (foldl note_producer state (map fst es)) d')
         (\<lambda>(segments, next_offset, state) d. (Ok (s # segments, next_offset, state), d))"
    using r assms(8)
    by (cases torn) (simp_all add: cmp raw_segment_select d'_def d1_def s_def Let_def torn_def)
  have i: "sg_index s = ix" "sg_base_offset s = b" by (simp_all add: s_def raw_segment_def)
  have dist: "distinct (map fst d) \<Longrightarrow> distinct (map fst d')"
    by (simp add: d'_def d1_def rewrite_index_def)
  show thesis
    by (rule that [OF o n rep i(2) _ dist]) (simp_all add: m i)
qed

lemma files_rep_bases:
  "files_rep hash d n bs ess tail \<Longrightarrow> sorted_wrt (<) bs \<and> (\<forall>b \<in> set bs. n \<le> unat b) \<and> bs \<noteq> []"
proof (induction hash d n bs ess tail rule: files_rep.induct)
  case (2 hash d n b b' bs es es' ess tail)
  then have a: "\<forall>x \<in> set (b' # bs). n + length es \<le> unat x" and b: "unat b = n" "0 < length es"
    by auto
  have "b < x \<and> n \<le> unat x" if "x \<in> set (b' # bs)" for x
    using bspec [OF a that] b unfolding word_less_nat_alt by linarith
  with 2 show ?case by auto
qed auto

definition untouched :: "dir \<Rightarrow> dir \<Rightarrow> nat \<Rightarrow> bool" where
  "untouched d d' n \<longleftrightarrow> (\<forall>b. unat b < n \<longrightarrow>
     map_of d' (segment_file b) = map_of d (segment_file b) \<and>
     map_of d' (index_path (segment_file b)) = map_of d (index_path (segment_file b)))"

definition no_new_files :: "dir \<Rightarrow> dir \<Rightarrow> u64 list \<Rightarrow> bool" where
  "no_new_files d d' bs \<longleftrightarrow> (distinct (map fst d) \<longrightarrow> distinct (map fst d')) \<and>
     (\<forall>name. map_of d' name \<noteq> None \<longrightarrow>
        map_of d name \<noteq> None \<or> (\<exists>b \<in> set bs. name = index_path (segment_file b)))"

text \<open>Opening one more segment in front of opened ones: the files it wrote are its own.\<close>

lemma opened_Cons:
  assumes seg: "segment_rep hash d1 n s es" "sg_base_offset s = b" "unat b = n" "es \<noteq> []"
    and dir: "map_of d1 = (map_of d)(segment_file b \<mapsto> bytes_of es, index_path (segment_file b) \<mapsto> index_bytes ix)"
      "distinct (map fst d) \<Longrightarrow> distinct (map fst d1)" "map_of d (segment_file b) \<noteq> None"
    and rest: "opened hash d2 (n + length es) bs segs (es' # ess')" "untouched d1 d2 (n + length es)" "no_new_files d1 d2 bs"
  shows "opened hash d2 n (b # bs) (s # segs) (es # es' # ess')" "untouched d d2 n" "no_new_files d d2 (b # bs)"
proof -
  have "unat b < n + length es" using seg(3,4) by simp
  then have "segment_rep hash d2 n s es"
    using segment_rep_frame [OF seg(1)] rest(2) seg(2) by (auto simp: untouched_def)
  then show "opened hash d2 n (b # bs) (s # segs) (es # es' # ess')"
    using rest(1) seg(2,4) by (auto simp: opened_def add.assoc)
  show "untouched d d2 n" using rest(2) seg(3) unfolding untouched_def dir(1) by auto
  have "map_of d name \<noteq> None \<or> (\<exists>x \<in> set (b # bs). name = index_path (segment_file x))"
    if "map_of d2 name \<noteq> None" for name
  proof -
    have "map_of d1 name \<noteq> None \<or> (\<exists>x \<in> set bs. name = index_path (segment_file x))"
      using rest(3) that unfolding no_new_files_def by blast
    then show ?thesis using dir(3) unfolding dir(1) by (auto split: if_splits)
  qed
  with rest(3) dir(2) show "no_new_files d d2 (b # bs)" unfolding no_new_files_def by blast
qed

lemma open_segments_single:
  assumes "files_rep hash d n [b] [es] tail" and "seqs_ok state (map fst es)"
    and "decode_record hash tail = (Ok None, tail)"
    and "length (bytes_of es) + length tail < 2 ^ 64" and "n + length es < 2 ^ 64"
  shows "\<exists>segs nxt' d'. open_segments hash interval [raw_segment d b] b state d =
      (Ok (segs, nxt', foldl note_producer state (map fst es)), d') \<and>
    opened hash d' n [b] segs [es] \<and> unat nxt' = n + length es \<and> untouched d d' n \<and> no_new_files d d' [b]"
proof -
  have f: "map_of d (segment_file b) = Some (bytes_of es @ tail)" "entries_ok hash n es" "unat b = n"
    using assms(1) by auto
  obtain nxt' s d' where o: "open_segments hash interval (raw_segment d b # []) b state d =
     step_bind (open_segments hash interval [] nxt' (foldl note_producer state (map fst es)) d')
       (\<lambda>(segments, next_offset, state) d. (Ok (s # segments, next_offset, state), d))"
    "unat nxt' = n + length es" "segment_rep hash d' n s es" "sg_base_offset s = b"
    "map_of d' = (map_of d)(segment_file b \<mapsto> bytes_of es,
     index_path (segment_file b) \<mapsto> index_bytes (sg_index s))"
    "distinct (map fst d) \<Longrightarrow> distinct (map fst d')"
    by (rule open_one [where rest = "[]" and tail = tail and n = n and es = es])
       (use assms f in auto)
  show ?thesis
    using o f by (intro exI [of _ "[s]"] exI [of _ nxt'] exI [of _ d'])
      (auto simp: opened_def untouched_def no_new_files_def split: if_splits)
qed

lemma open_segments_rep:
  assumes "files_rep hash d n bs ess tail" and "seqs_ok state (map fst (concat ess))"
    and "decode_record hash tail = (Ok None, tail)"
    and "length (bytes_of (concat ess)) + length tail < 2 ^ 64" and "n + length (concat ess) < 2 ^ 64"
  shows "\<exists>segs nxt' d'. open_segments hash interval (map (raw_segment d) bs) (hd bs) state d =
      (Ok (segs, nxt', foldl note_producer state (map fst (concat ess))), d') \<and>
    opened hash d' n bs segs ess \<and> unat nxt' = n + length (concat ess) \<and>
    untouched d d' n \<and> no_new_files d d' bs"
  using assms
proof (induction bs arbitrary: d n ess state)
  case Nil
  then show ?case by simp
next
  case (Cons b bs)
  show ?case
  proof (cases bs)
    case Nil
    then obtain es where "ess = [es]" using Cons.prems(1)
      by (cases "(hash, d, n, b # bs, ess, tail)" rule: files_rep.cases) auto
    then show ?thesis using open_segments_single [of hash d n b es tail state interval] Cons.prems Nil by simp
  next
    case bs: (Cons b' bs')
    obtain es es' ess' where ess: "ess = es # es' # ess'"
      using Cons.prems(1) bs by (cases "(hash, d, n, b # bs, ess, tail)" rule: files_rep.cases) auto
    have f: "unat b = n" "entries_ok hash n es" "es \<noteq> []"
      "map_of d (segment_file b) = Some (bytes_of es @ [])"
      "files_rep hash d (n + length es) bs (es' # ess') tail"
      using Cons.prems(1) by (simp_all add: bs ess)
    obtain nxt' s d1 where o: "open_segments hash interval (raw_segment d b # map (raw_segment d) bs) b state d =
       step_bind (open_segments hash interval (map (raw_segment d) bs) nxt' (foldl note_producer state (map fst es)) d1)
         (\<lambda>(segments, next_offset, state) d. (Ok (s # segments, next_offset, state), d))"
      "unat nxt' = n + length es" "segment_rep hash d1 n s es" "sg_base_offset s = b"
      "map_of d1 = (map_of d)(segment_file b \<mapsto> bytes_of es,
       index_path (segment_file b) \<mapsto> index_bytes (sg_index s))"
      "distinct (map fst d) \<Longrightarrow> distinct (map fst d1)"
      by (rule open_one [OF f(4,2), where rest = "map (raw_segment d) bs"])
         (use Cons.prems f ess in \<open>auto simp: decode_record_def\<close>)
    have ne: "x \<noteq> b" if "x \<in> set bs" for x using that f(1,3) files_rep_bases [OF f(5)] by fastforce
    have raw: "map (raw_segment d) bs = map (raw_segment d1) bs"
      using ne by (auto simp: raw_segment_def o(5))
    have fr: "files_rep hash d1 (n + length es) bs (es' # ess') tail"
      by (rule files_rep_frame [OF f(5)]) (use ne in \<open>simp add: o(5)\<close>)
    have "unat (hd bs) = n + length es" using f(5) bs by (cases bs'; cases ess') auto
    then have b': "nxt' = hd bs" using o(2) by (simp add: word_unat_eq_iff)
    obtain segs nxt2 d2 where ih: "open_segments hash interval (map (raw_segment d1) bs) (hd bs)
        (foldl note_producer state (map fst es)) d1 =
        (Ok (segs, nxt2, foldl note_producer (foldl note_producer state (map fst es))
           (map fst (concat (es' # ess')))), d2)"
      and n2: "unat nxt2 = n + length es + length (concat (es' # ess'))"
      and rest: "opened hash d2 (n + length es) bs segs (es' # ess')" "untouched d1 d2 (n + length es)" "no_new_files d1 d2 bs"
      using Cons.IH [OF fr, of "foldl note_producer state (map fst es)"] Cons.prems ess by auto
    note seg = opened_Cons [OF o(3,4) f(1,3) o(5,6) _ rest]
    show ?thesis
      using o(1) ih n2 seg f(4) by (intro exI [of _ "s # segs"] exI [of _ nxt2] exI [of _ d2])
        (simp add: raw b' ess)
  qed
qed

section \<open>After a crash\<close>

text \<open>What a crash can leave of a log: all complete records, possibly followed by a proper prefix
  (\<open>tail\<close>) of the record being written, and index files in any state.\<close>

definition crashed :: "(bytes \<Rightarrow> u32) \<Rightarrow> partition_log \<Rightarrow> bytes \<Rightarrow> dir \<Rightarrow> bool" where
  "crashed hash l tail d \<longleftrightarrow> distinct (map fst d) \<and>
     (\<exists>r c n. chunk hash r c \<and> n < length c \<and> tail = take n c) \<and>
     (\<forall>name. extension name = Some ''log'' \<longrightarrow> map_of d name =
        (if name = lg_active_file l then map_option (\<lambda>old. old @ tail) (map_of (lg_dir l) name)
         else map_of (lg_dir l) name)) \<and>
     (\<forall>name. extension name = Some ''idx'' \<longrightarrow> map_of d name \<noteq> None \<longrightarrow> map_of (lg_dir l) name \<noteq> None)"

lemma files_rep_of_log:
  assumes "closed_rep hash d n closed ess" and "segment_rep hash d (n + length (concat ess)) active es"
    and "map_of d' (sg_path active) = Some (bytes_of es @ tail)"
    and "\<And>s. s \<in> set closed \<Longrightarrow> map_of d' (sg_path s) = map_of d (sg_path s)"
  shows "files_rep hash d' n (map sg_base_offset (closed @ [active])) (ess @ [es]) tail"
  using assms
proof (induction closed arbitrary: n ess)
  case Nil
  then have "ess = []" by (cases ess) auto
  with Nil show ?case using segment_repD [OF Nil(2)] by simp
next
  case (Cons s ss)
  obtain es1 ess1 where ess: "ess = es1 # ess1" using Cons.prems(1) by (cases ess) auto
  have s: "segment_rep hash d n s es1" "es1 \<noteq> []" using Cons.prems(1) by (auto simp: ess)
  have "files_rep hash d' (n + length es1) (map sg_base_offset (ss @ [active])) (ess1 @ [es]) tail"
    using Cons.prems by (intro Cons.IH) (auto simp: ess add.assoc)
  moreover have "map_of d' (segment_file (sg_base_offset s)) = Some (bytes_of es1)"
    using Cons.prems(4) [of s] segment_repD(2,3) [OF s(1)] by simp
  ultimately show ?case
    using segment_repD(1,5) [OF s(1)] s(2) by (cases ss; cases ess1) (auto simp: ess)
qed

lemma log_file_of_segment:
  assumes "log_rep hash hist low l" and "extension name = Some ''log''"
  shows "map_of (lg_dir l) name \<noteq> None \<longleftrightarrow> name \<in> segment_file ` set (map sg_base_offset (lg_segments l))"
proof -
  from log_repE [OF assms(1)] obtain closed active ess es where r: "lg_segments l = closed @ [active]"
    "closed_rep hash (lg_dir l) low closed ess"
    "segment_rep hash (lg_dir l) (low + length (concat ess)) active es" by metis
  have all: "\<exists>es n. segment_rep hash (lg_dir l) n s es" if "s \<in> set (lg_segments l)" for s
  proof -
    have "s \<in> set closed \<Longrightarrow> \<exists>es n. segment_rep hash (lg_dir l) n s es"
      using r(2) by (induction hash "lg_dir l" low closed ess rule: closed_rep.induct) auto
    with that r(1,3) show ?thesis by auto
  qed
  show ?thesis
  proof
    assume "map_of (lg_dir l) name \<noteq> None"
    then obtain s where s: "s \<in> set (lg_segments l)" "name = sg_path s \<or> name = index_path (sg_path s)"
      using log_repD(6) [OF assms(1)] assms(2) unfolding dir_ok_def by blast
    moreover obtain es n where "segment_rep hash (lg_dir l) n s es" using all s(1) by blast
    ultimately have "name = segment_file (sg_base_offset s)"
      using assms(2) segment_repD(2) by fastforce
    with s(1) show "name \<in> segment_file ` set (map sg_base_offset (lg_segments l))" by simp
  next
    assume "name \<in> segment_file ` set (map sg_base_offset (lg_segments l))"
    then obtain s where "s \<in> set (lg_segments l)" "name = segment_file (sg_base_offset s)" by auto
    with all segment_repD(2,3) show "map_of (lg_dir l) name \<noteq> None" by fastforce
  qed
qed

lemma crashed_files:
  assumes "log_rep hash hist low l" and "crashed hash l tail d"
  obtains ess where "files_rep hash d low (map sg_base_offset (lg_segments l)) ess tail"
    "concat ess = drop low hist" "ess \<noteq> []"
    "discover_segments d = Ok (map (raw_segment d) (map sg_base_offset (lg_segments l)))"
    "decode_record hash tail = (Ok None, tail)"
proof -
  from log_repE [OF assms(1)] obtain closed active ess es where r: "lg_segments l = closed @ [active]"
    "drop low hist = concat ess @ es" "closed_rep hash (lg_dir l) low closed ess"
    "segment_rep hash (lg_dir l) (low + length (concat ess)) active es"
    "lg_active_file l = sg_path active" by metis
  have dist: "distinct (map fst d)" and t: "\<exists>r c n. chunk hash r c \<and> n < length c \<and> tail = take n c"
    and logs: "\<And>name. extension name = Some ''log'' \<Longrightarrow> map_of d name =
        (if name = lg_active_file l then map_option (\<lambda>old. old @ tail) (map_of (lg_dir l) name)
         else map_of (lg_dir l) name)"
    using assms(2) unfolding crashed_def by blast+
  note a = segment_repD [OF r(4)]
  have cl: "sg_path s = segment_file (sg_base_offset s) \<and> sg_path s \<noteq> sg_path active" if "s \<in> set closed" for s
    using closed_rep_base [OF r(3) that] a(1,2) by auto
  have f: "files_rep hash d low (map sg_base_offset (lg_segments l)) (ess @ [es]) tail"
    unfolding r(1)
  proof (rule files_rep_of_log [OF r(3,4)])
    show "map_of d (sg_path active) = Some (bytes_of es @ tail)"
      using logs [of "sg_path active"] a(2,3) r(5) by simp
    show "map_of d (sg_path s) = map_of (lg_dir l) (sg_path s)" if "s \<in> set closed" for s
      using logs [of "sg_path s"] cl [OF that] r(5) by (metis file_name_parts(1))
  qed
  have "discover_segments d = Ok (map (raw_segment d) (map sg_base_offset (lg_segments l)))"
  proof (rule discover_segments_bases [OF dist])
    show "sorted_wrt (<) (map sg_base_offset (lg_segments l))" using files_rep_bases [OF f] by blast
    show "map_of d name \<noteq> None \<longleftrightarrow> name \<in> segment_file ` set (map sg_base_offset (lg_segments l))"
      if "extension name = Some ''log''" for name
      using logs [OF that] log_file_of_segment [OF assms(1) that] by (auto split: if_splits)
  qed
  moreover have "decode_record hash tail = (Ok None, tail)" using t by (auto simp: chunk_def)
  ultimately show thesis using that [OF f] r(2) by simp
qed

lemma files_rep_hd: "files_rep hash d n bs ess tail \<Longrightarrow> unat (hd bs) = n"
  by (cases "(hash, d, n, bs, ess, tail)" rule: files_rep.cases) auto

lemma opened_paths:
  assumes "opened hash d n bs segs ess" and "s \<in> set segs"
  shows "sg_path s = segment_file (sg_base_offset s)"
proof -
  have "s \<in> set (butlast segs) \<or> s = last segs"
    using assms by (metis append_butlast_last_id empty_iff empty_set in_set_conv_decomp_first
        insert_iff list.simps(15) set_append Un_iff opened_def)
  with assms(1) show ?thesis
    using closed_rep_base segment_repD(2) unfolding opened_def by blast
qed

lemma opened_dir_ok:
  assumes rep: "log_rep hash hist low l" and cr: "crashed hash l tail d"
    and op: "opened hash d' n (map sg_base_offset (lg_segments l)) segs ess"
    and nn: "no_new_files d d' (map sg_base_offset (lg_segments l))"
  shows "dir_ok d' segs"
proof -
  define bs where "bs = map sg_base_offset (lg_segments l)"
  have "set bs = sg_base_offset ` set segs"
    using op unfolding opened_def bs_def by (metis list.set_map)
  then have segs: "\<exists>s \<in> set segs. sg_path s = segment_file b" if "b \<in> set bs" for b
    using opened_paths [OF op] that by auto
  have old: "name \<in> segment_file ` set bs \<or> name \<in> (index_path \<circ> segment_file) ` set bs"
    if m: "map_of (lg_dir l) name \<noteq> None" and e: "extension name = Some ''log'' \<or> extension name = Some ''idx''" for name
  proof -
    obtain s where s: "s \<in> set (lg_segments l)" "name = sg_path s \<or> name = index_path (sg_path s)"
      using log_repD(6) [OF rep] m e unfolding dir_ok_def by blast
    have "sg_path s = segment_file (sg_base_offset s)"
    proof -
      from log_repE [OF rep] obtain closed active ess es where "lg_segments l = closed @ [active]"
        "closed_rep hash (lg_dir l) low closed ess"
        "segment_rep hash (lg_dir l) (low + length (concat ess)) active es" by metis
      with s(1) closed_rep_base segment_repD(2) show ?thesis by fastforce
    qed
    with s show ?thesis by (auto simp: bs_def)
  qed
  have "\<exists>s \<in> set segs. name = sg_path s \<or> name = index_path (sg_path s)"
    if n: "map_of d' name \<noteq> None" and e: "extension name = Some ''log'' \<or> extension name = Some ''idx''" for name
  proof -
    have "map_of d name \<noteq> None \<or> (\<exists>b \<in> set bs. name = index_path (segment_file b))"
      using nn n unfolding no_new_files_def bs_def by blast
    moreover have "map_of d name \<noteq> None \<Longrightarrow> map_of (lg_dir l) name \<noteq> None"
      using cr e unfolding crashed_def by (metis option.map_disc_iff)
    ultimately have "name \<in> segment_file ` set bs \<or> name \<in> (index_path \<circ> segment_file) ` set bs"
      using old [OF _ e] by auto
    then obtain b where "b \<in> set bs" "name = segment_file b \<or> name = index_path (segment_file b)"
      by auto
    with segs show ?thesis by metis
  qed
  moreover have "distinct (map fst d')" using nn cr unfolding no_new_files_def crashed_def by blast
  ultimately show ?thesis unfolding dir_ok_def by blast
qed

lemma open_log_crashed:
  assumes rep: "log_rep hash hist 0 l" and cr: "crashed hash l tail d"
    and top: "validate_log_topic topic = Ok ()" and set: "max_segment_bytes \<noteq> 0" "interval \<noteq> 0"
    and fits: "length (bytes_of hist) + length tail < 2 ^ 64"
  shows "\<exists>l' d'. open_log hash topic max_segment_bytes interval d = (Ok l', d') \<and>
    lg_dir l' = d' \<and> log_rep hash hist 0 l'"
proof -
  define bs where "bs = map sg_base_offset (lg_segments l)"
  note rd = log_repD [OF rep]
  obtain ess where f: "files_rep hash d 0 bs ess tail" and hist: "concat ess = hist" and ne: "ess \<noteq> []"
    and disc: "discover_segments d = Ok (map (raw_segment d) bs)"
    and tl: "decode_record hash tail = (Ok None, tail)"
    using crashed_files [OF rep cr] unfolding bs_def by auto
  have bs0: "bs \<noteq> []" "hd bs = 0"
    using rd(9) files_rep_hd [OF f] by (auto simp: bs_def unat_eq_0)
  have "length hist \<le> length (bytes_of hist)" using rd(1) by (rule entries_bytes_length)
  then obtain segs nxt d' where o: "open_segments hash interval (map (raw_segment d) bs) 0 Map.empty d =
      (Ok (segs, nxt, producers (map fst hist)), d')"
    and op: "opened hash d' 0 bs segs ess" and nx: "unat nxt = length hist"
    and nn: "no_new_files d d' bs"
    using open_segments_rep [OF f, of Map.empty interval] rd(2) tl fits bs0(2) hist by auto
  define act where "act = last segs"
  have sr: "segment_rep hash d' (length (concat (butlast ess))) act (last ess)" and s0: "segs \<noteq> []"
    and cr': "closed_rep hash d' 0 (butlast segs) (butlast ess)"
    using op by (auto simp: opened_def act_def)
  define l' where "l' = \<lparr>lg_next_offset = nxt, lg_max_segment_bytes = max_segment_bytes,
    lg_index_interval_bytes = interval, lg_dir = d', lg_segments = segs,
    lg_active_file = sg_path act, lg_active_index_file = index_path (sg_path act),
    lg_producer_state = producers (map fst hist)\<rparr>"
  have "open_log hash topic max_segment_bytes interval d = (Ok l', d')"
    using top set disc bs0(1) o segment_repD(3,7) [OF sr]
    by (simp add: open_log_def Let_def l'_def flip: act_def)
  moreover have "log_rep hash hist 0 l'"
  proof (rule log_repI [where closed = "butlast segs" and active = act and ess = "butlast ess" and es = "last ess"])
    show "dir_ok (lg_dir l') (lg_segments l')"
      using opened_dir_ok [OF rep cr] op nn unfolding bs_def l'_def by simp
    show "drop 0 hist = concat (butlast ess) @ last ess"
      using ne hist by (metis append_butlast_last_id concat_append concat.simps append_Nil2 drop_0)
    show "segment_rep hash (lg_dir l') (0 + length (concat (butlast ess))) act (last ess)"
      using sr by (simp add: l'_def)
  qed (use rd(1,2) nx set cr' s0 in \<open>simp_all add: l'_def act_def\<close>)
  ultimately show ?thesis by (auto simp: l'_def)
qed

section \<open>Properties\<close>

text \<open>C11: Crash recovery of a log from which retention has removed nothing: opening the directory left by a crash
  succeeds and yields a well-formed log with exactly the records appended before the crash, whatever prefix of the
  record being written had reached the disk and whatever state the index files were in.  (A log without its first
  segment cannot be opened, see \<open>reopen_after_retention_fails\<close>.)\<close>

theorem open_after_crash:
  assumes "log_rep hash hist 0 l" and "crashed hash l tail d" and "validate_log_topic topic = Ok ()"
    and "max_segment_bytes \<noteq> 0" and "interval \<noteq> 0" and "length (bytes_of hist) + length tail < 2 ^ 64"
    and "max_bytes \<noteq> 0"
  shows "\<exists>l' d'. open_log hash topic max_segment_bytes interval d = (Ok l', d') \<and>
    log_rep hash hist 0 l' \<and> lg_next_offset l' = lg_next_offset l \<and>
    lg_producer_state l' = lg_producer_state l \<and>
    (\<forall>offset. read_log hash l' offset max_bytes = read_log hash l offset max_bytes)"
proof -
  obtain l' d' where o: "open_log hash topic max_segment_bytes interval d = (Ok l', d')"
    and rep': "log_rep hash hist 0 l'"
    using open_log_crashed [OF assms(1-6)] by blast
  note rd = log_repD [OF assms(1)] and rd' = log_repD [OF rep']
  have "lg_next_offset l' = lg_next_offset l" using rd(4) rd'(4) by (simp add: word_unat_eq_iff)
  with o rep' rd(3) rd'(3) read_log_spec [OF assms(1,7)] read_log_spec [OF rep' assms(7)]
  show ?thesis by auto
qed

theorem open_after_crash_witness:
  "\<exists>c l' d'. encode_record byte_sum sample_record 0 = Ok c \<and>
     open_log byte_sum ''t'' 1024 256 [(segment_file 0, take 40 c)] = (Ok l', d') \<and>
     log_rep byte_sum [] 0 l'"
proof -
  obtain c where c: "encode_record byte_sum sample_record 0 = Ok c"
    using encode_record_eq sample_record_ok by blast
  have len: "length c = 49"
    using c by (simp add: encode_record_eq length_record_body sample_record_def opt_len_def)
  then have "crashed byte_sum (fresh_log 1024 256) (take 40 c) [(segment_file 0, take 40 c)]"
    using encode_record_chunk [OF c] unfolding crashed_def fresh_log_def by force
  moreover have "validate_log_topic ''t'' = Ok ()"
    by (simp add: validate_log_topic_def id_char_def is_ascii_alphanumeric_def less_eq_char_def)
  ultimately show ?thesis
    using open_after_crash [OF fresh_log_rep [of 1024 256 byte_sum], of "take 40 c"
        "[(segment_file 0, take 40 c)]" "''t''" 1024 256 1] c len
    by auto
qed

end
