(* ===== verification/Log_Maintenance.thy ===== *)
theory Log_Maintenance
  imports Log_Recovery "HOL-Library.Sublist"
begin

text \<open>
  Retention, truncation and replica appends.  Retention drops whole segments from the front
  and keeps the rest of the log as it is.  Truncation rewrites a prefix; on a log that has
  never been trimmed this is the prefix of the history, on a trimmed one the surviving records
  are renumbered.
\<close>

section \<open>Retention\<close>

lemma log_size_bytes_ok:
  assumes "closed_rep hash d n closed ess" and "segment_rep hash d m active es"
    and "length (bytes_of (concat ess @ es)) < 2 ^ 64"
  shows "\<exists>t. log_size_bytes (closed @ [active]) = Ok t \<and> unat t = length (bytes_of (concat ess @ es))"
  using assms
proof (induction closed arbitrary: n ess)
  case Nil
  then have "ess = []" by (cases ess) auto
  with Nil segment_repD(4) [OF Nil(2)] show ?case
    by (auto simp: checked_add_def unat_word_ariths)
next
  case (Cons s ss)
  obtain es1 ess1 where ess: "ess = es1 # ess1" using Cons.prems(1) by (cases ess) auto
  have s: "segment_rep hash d n s es1" using Cons.prems(1) by (simp add: ess)
  obtain t where t: "log_size_bytes (ss @ [active]) = Ok t" "unat t = length (bytes_of (concat ess1 @ es))"
    using Cons.IH [of "n + length es1" ess1] Cons.prems by (auto simp: ess)
  obtain u where "checked_add (sg_len s) t = Some u" "unat u = unat (sg_len s) + unat t"
    using checked_add_fits [of "sg_len s" t] t(2) segment_repD(4) [OF s] Cons.prems(3) by (auto simp: ess)
  with t segment_repD(4) [OF s] show ?case by (simp add: ess)
qed

text \<open>The directory without the two files of the first segment.\<close>

lemma drop_first_segment:
  assumes "closed_rep hash d n (s # ss) (es # ess)"
    and "segment_rep hash d (n + length (concat (es # ess))) active es'"
    and "dir_ok d (s # ss @ [active])"
    and "d' = AList.delete (sg_path s) (AList.delete (index_path (sg_path s)) d)"
  shows "closed_rep hash d' (n + length es) ss ess"
    and "segment_rep hash d' (n + length es + length (concat ess)) active es'"
    and "dir_ok d' (ss @ [active])"
proof -
  have s: "segment_rep hash d n s es" "es \<noteq> []" and cl: "closed_rep hash d (n + length es) ss ess"
    using assms(1) by auto
  note b = segment_repD(1,2) [OF s(1)]
  have same: "map_of d' (segment_file x) = map_of d (segment_file x) \<and>
      map_of d' (index_path (segment_file x)) = map_of d (index_path (segment_file x))"
    if "n + length es \<le> unat x" for x
    using that b s(2) by (auto simp: assms(4))
  show "closed_rep hash d' (n + length es) ss ess"
    by (rule closed_rep_frame [OF cl]) (use same in blast)
  have a: "segment_rep hash d (n + length es + length (concat ess)) active es'"
    using assms(2) by (simp add: add.assoc)
  show "segment_rep hash d' (n + length es + length (concat ess)) active es'"
    by (rule segment_rep_frame [OF a]) (use same [of "sg_base_offset active"] segment_repD(1) [OF a] in simp_all)
  show "dir_ok d' (ss @ [active])"
  proof -
    have "\<exists>x \<in> set (ss @ [active]). name = sg_path x \<or> name = index_path (sg_path x)"
      if m: "map_of d' name \<noteq> None"
        and e: "extension name = Some ''log'' \<or> extension name = Some ''idx''" for name
    proof -
      have "map_of d name \<noteq> None" "name \<noteq> sg_path s" "name \<noteq> index_path (sg_path s)"
        using m by (auto simp: assms(4) split: if_splits)
      with assms(3) e show ?thesis unfolding dir_ok_def by (metis set_ConsD)
    qed
    moreover have "distinct (map fst d')" using assms(3) by (simp add: dir_ok_def assms(4))
    ultimately show ?thesis unfolding dir_ok_def by blast
  qed
qed

lemma retention_loop_rep:
  assumes "closed_rep hash d n closed ess" and "segment_rep hash d (n + length (concat ess)) active es"
    and "dir_ok d (closed @ [active])" and "unat tot = length (bytes_of (concat ess @ es))"
  shows "\<exists>k d'. retention_loop elapsed mb ma tot removed (closed @ [active]) d =
      (Ok (removed + k), (drop k closed @ [active], d')) \<and> k \<le> length closed \<and>
    closed_rep hash d' (n + length (concat (take k ess))) (drop k closed) (drop k ess) \<and>
    segment_rep hash d' (n + length (concat ess)) active es \<and> dir_ok d' (drop k closed @ [active]) \<and>
    (\<forall>limit. mb = Some limit \<longrightarrow> k = length closed \<or>
       length (bytes_of (concat (drop k ess) @ es)) \<le> unat limit)"
  using assms
proof (induction closed arbitrary: d n ess tot removed)
  case Nil
  then show ?case by (intro exI [of _ 0] exI [of _ d]) auto
next
  case (Cons s ss)
  obtain es1 ess1 where ess: "ess = es1 # ess1" using Cons.prems(1) by (cases ess) auto
  have s: "segment_rep hash d n s es1" using Cons.prems(1) by (simp add: ess)
  obtain f rest where sp: "ss @ [active] = f # rest" by (cases ss) auto
  define expired where "expired \<longleftrightarrow> (case ma of None \<Rightarrow> False | Some age \<Rightarrow>
    (case elapsed (sg_path s) of None \<Rightarrow> False | Some e \<Rightarrow> age \<le> e))"
  define over where "over \<longleftrightarrow> (case mb of None \<Rightarrow> False | Some limit \<Rightarrow> tot > limit)"
  have ex: "(case ma of None \<Rightarrow> Ok False | Some age \<Rightarrow> if map_of d (sg_path s) = None then Err (Io NotFound)
      else Ok (case elapsed (sg_path s) of None \<Rightarrow> False | Some e \<Rightarrow> age \<le> e)) = Ok expired"
    using segment_repD(3) [OF s] by (auto simp: expired_def split: option.splits)
  show ?case
  proof (cases "over \<or> expired")
    case False
    then have "retention_loop elapsed mb ma tot removed ((s # ss) @ [active]) d =
        (Ok removed, ((s # ss) @ [active], d))"
      by (simp add: sp ex over_def [symmetric] del: retention_loop.simps(2))
    with Cons.prems False show ?thesis
      by (intro exI [of _ 0] exI [of _ d]) (auto simp: over_def word_less_nat_alt not_less ess)
  next
    case True
    define d' where "d' = AList.delete (sg_path s) (AList.delete (index_path (sg_path s)) d)"
    note dr = drop_first_segment [OF Cons.prems(1) [unfolded ess] Cons.prems(2) [unfolded ess]
        Cons.prems(3) [simplified] d'_def]
    have rm: "remove_file (index_path (sg_path s)) d = (Ok (), AList.delete (index_path (sg_path s)) d)"
      "remove_file (sg_path s) (AList.delete (index_path (sg_path s)) d) = (Ok (), d')"
      using segment_repD(2,3,7) [OF s] by (auto simp: remove_file_def d'_def)
    have "retention_loop elapsed mb ma tot removed ((s # ss) @ [active]) d =
        retention_loop elapsed mb ma (saturating_sub tot (sg_len s)) (Suc removed) (ss @ [active]) d'"
      using True by (auto simp: sp ex rm over_def [symmetric])
    moreover have "unat (saturating_sub tot (sg_len s)) = length (bytes_of (concat ess1 @ es))"
      using Cons.prems(4) segment_repD(4) [OF s] by (simp add: unat_saturating_sub ess)
    from Cons.IH [OF dr this, of "Suc removed"] obtain k d2 where
      "retention_loop elapsed mb ma (saturating_sub tot (sg_len s)) (Suc removed) (ss @ [active]) d' =
        (Ok (Suc removed + k), (drop k ss @ [active], d2))" "k \<le> length ss"
      "closed_rep hash d2 (n + length es1 + length (concat (take k ess1))) (drop k ss) (drop k ess1)"
      "segment_rep hash d2 (n + length es1 + length (concat ess1)) active es"
      "dir_ok d2 (drop k ss @ [active])"
      "\<forall>limit. mb = Some limit \<longrightarrow> k = length ss \<or>
         length (bytes_of (concat (drop k ess1) @ es)) \<le> unat limit" by blast
    ultimately show ?thesis
      by (intro exI [of _ "Suc k"] exI [of _ d2]) (simp add: ess add.assoc)
  qed
qed

lemma closed_rep_length: "closed_rep hash d n closed ess \<Longrightarrow> length ess = length closed"
  by (induction hash d n closed ess rule: closed_rep.induct) auto

lemma apply_retention_rep:
  assumes rep: "log_rep hash hist low l" and "length (bytes_of hist) < 2 ^ 64"
  shows "\<exists>k l' low'. apply_retention elapsed mb ma l = (Ok k, l') \<and> low \<le> low' \<and>
    log_rep hash hist low' l' \<and> lg_segments l' = drop k (lg_segments l) \<and> k < length (lg_segments l) \<and>
    (\<forall>limit. mb = Some limit \<longrightarrow> length (lg_segments l') = 1 \<or>
       length (bytes_of (drop low' hist)) \<le> unat limit)"
proof -
  note rd = log_repD [OF rep]
  from log_repE [OF rep] obtain closed active ess es where r: "lg_segments l = closed @ [active]"
    "drop low hist = concat ess @ es" "closed_rep hash (lg_dir l) low closed ess"
    "segment_rep hash (lg_dir l) (low + length (concat ess)) active es"
    "lg_active_file l = sg_path active" "lg_active_index_file l = index_path (sg_path active)"
    "length hist = low + length (concat ess) + length es" by metis
  have "bytes_of hist = bytes_of (take low hist) @ bytes_of (drop low hist)"
    by (metis append_take_drop_id bytes_of_simps(3))
  then have "length (bytes_of (concat ess @ es)) < 2 ^ 64" using assms(2) r(2) by simp
  then obtain t where t: "log_size_bytes (lg_segments l) = Ok t"
    "unat t = length (bytes_of (concat ess @ es))"
    using log_size_bytes_ok [OF r(3,4)] r(1) by auto
  obtain k d' where k: "retention_loop elapsed mb ma t 0 (closed @ [active]) (lg_dir l) =
      (Ok (0 + k), (drop k closed @ [active], d'))" "k \<le> length closed"
    "closed_rep hash d' (low + length (concat (take k ess))) (drop k closed) (drop k ess)"
    "segment_rep hash d' (low + length (concat ess)) active es" "dir_ok d' (drop k closed @ [active])"
    "\<forall>limit. mb = Some limit \<longrightarrow> k = length closed \<or>
       length (bytes_of (concat (drop k ess) @ es)) \<le> unat limit"
    using retention_loop_rep [OF r(3,4) _ t(2)] rd(6) r(1) by metis
  define low' where "low' = low + length (concat (take k ess))"
  define l' where "l' = l\<lparr>lg_segments := drop k closed @ [active], lg_dir := d'\<rparr>"
  have cat: "concat ess = concat (take k ess) @ concat (drop k ess)"
    by (metis append_take_drop_id concat_append)
  have "drop low' hist = drop (length (concat (take k ess))) (drop low hist)"
    by (simp add: low'_def add.commute)
  then have drp: "drop low' hist = concat (drop k ess) @ es" unfolding r(2) cat by simp
  have "apply_retention elapsed mb ma l = (Ok k, l')"
    using t(1) k(1) r(1) by (simp add: apply_retention_def l'_def)
  moreover have "log_rep hash hist low' l'"
  proof (rule log_repI [where closed = "drop k closed" and ess = "drop k ess" and es = es and active = active])
    show "low' \<le> length hist" using r(7) by (simp add: low'_def cat)
    have "low' + length (concat (drop k ess)) = low + length (concat ess)" by (simp add: low'_def cat)
    then show "segment_rep hash (lg_dir l') (low' + length (concat (drop k ess))) active es"
      using k(4) by (simp only: l'_def) simp
  qed (use rd k(3,5) drp r(5,6) in \<open>simp_all add: l'_def low'_def\<close>)
  ultimately show ?thesis
    using k(2,6) drp r(1) closed_rep_length [OF r(3)]
    by (intro exI [of _ k] exI [of _ l'] exI [of _ low']) (auto simp: l'_def low'_def)
qed

section \<open>Truncation\<close>

lemma take_budget_all: "take_budget usize_max used es = map fst es"
  by (induction es arbitrary: used) (auto simp: usize_saturating_add_def)

lemma read_spec_all: "read_spec 0 usize_max es = map fst es"
  by (simp add: read_spec_def take_budget_all case_prod_beta)

text \<open>The records as \<open>truncate_to\<close> writes them back: offsets are assigned anew.\<close>

fun renumber :: "nat \<Rightarrow> stored_record list \<Rightarrow> stored_record list" where
  "renumber n [] = []"
| "renumber n (r # rs) = r\<lparr>sr_offset := word_of_nat n\<rparr> # renumber (Suc n) rs"

lemma length_renumber [simp]: "length (renumber n rs) = length rs"
  by (induction rs arbitrary: n) auto

lemma renumber_consecutive:
  "entries_ok hash n es \<Longrightarrow> renumber n (map fst es) = map fst es"
proof (induction es arbitrary: n)
  case (Cons e es)
  then show ?case by (cases e; cases "fst e") auto
qed simp

lemma stored_of_record: "stored_of (record_of_stored r) off = r\<lparr>sr_offset := off\<rparr>"
  by (simp add: stored_of_def record_of_stored_def)

lemma encode_record_length: "encode_record hash r off = Ok c \<Longrightarrow> length c \<le> MAX_RECORD_SIZE + 4"
  by (auto simp: encode_record_eq record_sizes_ok_def length_record_body)

lemma append_all_rep:
  assumes "log_rep hash h low l" and "seqs_ok (producers (map fst h)) (renumber (length h) rs)"
    and "\<forall>r \<in> set rs. record_sizes_ok (record_of_stored r)"
    and "length (bytes_of h) + length rs * (MAX_RECORD_SIZE + 4) < 2 ^ 64"
  shows "\<exists>l' h'. append_all hash rs l = (Ok (), l') \<and> log_rep hash (h @ h') low l' \<and>
    map fst h' = renumber (length h) rs"
  using assms
proof (induction rs arbitrary: h l)
  case Nil
  then show ?case by (intro exI [of _ l] exI [of _ "[]"]) simp
next
  case (Cons r rs)
  define q where "q = record_of_stored r"
  define off where "off = lg_next_offset l"
  note rd = log_repD [OF Cons.prems(1)]
  obtain c where c: "encode_record hash q off = Ok c"
    using Cons.prems(3) encode_record_eq q_def by auto
  have len: "length c \<le> MAX_RECORD_SIZE + 4" using encode_record_length [OF c] .
  have off: "off = word_of_nat (length h)" using rd(4) [symmetric] by (simp add: off_def)
  have st: "stored_of q off = r\<lparr>sr_offset := word_of_nat (length h)\<rparr>"
    by (simp add: q_def stored_of_record off)
  have p: "producer_ok (lg_producer_state l) (lr_producer q)"
    using Cons.prems(2) rd(3) by (simp add: q_def record_of_stored_def)
  have "room h c" using Cons.prems(4) len by (simp add: room_def)
  then obtain l1 where l1: "append_new hash q l = (Ok off, l1)"
    and rep1: "log_rep hash (h @ [(stored_of q off, c)]) low l1"
    using append_new_rep [OF Cons.prems(1) _ _ p] c off_def by blast
  have "\<exists>l' h'. append_all hash rs l1 = (Ok (), l') \<and>
      log_rep hash ((h @ [(stored_of q off, c)]) @ h') low l' \<and>
      map fst h' = renumber (length (h @ [(stored_of q off, c)])) rs"
    by (rule Cons.IH [OF rep1]) (use Cons.prems(2-4) len st in \<open>auto simp: st\<close>)
  then obtain l' h' where ih: "append_all hash rs l1 = (Ok (), l')"
    "log_rep hash (h @ (stored_of q off, c) # h') low l'" "map fst h' = renumber (Suc (length h)) rs"
    by auto
  have "append_log hash q l = (Ok off, l1)"
    using p l1 by (simp add: append_log_def flip: producer_duplicate_None)
  with ih st show ?case
    by (intro exI [of _ l'] exI [of _ "(stored_of q off, c) # h'"]) (simp flip: q_def)
qed

text \<open>Removing every segment leaves a directory without segment or index files.\<close>

definition segment_files :: "dir \<Rightarrow> segment_metadata list \<Rightarrow> bool" where
  "segment_files d segs \<longleftrightarrow> distinct (map sg_base_offset segs) \<and>
     (\<forall>s \<in> set segs. sg_path s = segment_file (sg_base_offset s) \<and>
        map_of d (sg_path s) \<noteq> None \<and> map_of d (index_path (sg_path s)) \<noteq> None)"

lemma remove_segments_all:
  assumes "segment_files d segs" and "dir_ok d segs"
  shows "\<exists>d'. remove_segments segs d = (Ok (), d') \<and> dir_ok d' []"
  using assms
proof (induction segs arbitrary: d)
  case (Cons s ss)
  define d' where "d' = AList.delete (sg_path s) (AList.delete (index_path (sg_path s)) d)"
  have p: "sg_path s = segment_file (sg_base_offset s)" "map_of d (sg_path s) \<noteq> None"
    "map_of d (index_path (sg_path s)) \<noteq> None"
    using Cons.prems(1) by (auto simp: segment_files_def)
  then have rm: "remove_file (index_path (sg_path s)) d = (Ok (), AList.delete (index_path (sg_path s)) d)"
    "remove_file (sg_path s) (AList.delete (index_path (sg_path s)) d) = (Ok (), d')"
    by (auto simp: remove_file_def d'_def)
  have "segment_files d' ss"
    using Cons.prems(1) p(1) unfolding segment_files_def d'_def by (auto simp: image_iff)
  moreover have "dir_ok d' ss"
  proof -
    have "\<exists>x \<in> set ss. name = sg_path x \<or> name = index_path (sg_path x)"
      if m: "map_of d' name \<noteq> None"
        and e: "extension name = Some ''log'' \<or> extension name = Some ''idx''" for name
    proof -
      have "map_of d name \<noteq> None" "name \<noteq> sg_path s" "name \<noteq> index_path (sg_path s)"
        using m by (auto simp: d'_def split: if_splits)
      with Cons.prems(2) e show ?thesis unfolding dir_ok_def by (metis set_ConsD)
    qed
    moreover have "distinct (map fst d')" using Cons.prems(2) by (simp add: dir_ok_def d'_def)
    ultimately show ?thesis unfolding dir_ok_def by blast
  qed
  ultimately show ?case using Cons.IH rm by simp
qed simp

lemma log_rep_segment_files: "log_rep hash hist low l \<Longrightarrow> segment_files (lg_dir l) (lg_segments l)"
proof -
  assume rep: "log_rep hash hist low l"
  from log_repE [OF rep] obtain closed active ess es where r: "lg_segments l = closed @ [active]"
    "closed_rep hash (lg_dir l) low closed ess"
    "segment_rep hash (lg_dir l) (low + length (concat ess)) active es" by metis
  have "distinct (map sg_base_offset closed) \<and> (\<forall>s \<in> set closed. sg_path s = segment_file (sg_base_offset s) \<and>
      map_of (lg_dir l) (sg_path s) \<noteq> None \<and> map_of (lg_dir l) (index_path (sg_path s)) \<noteq> None)"
    using r(2)
  proof (induction hash "lg_dir l" low closed ess rule: closed_rep.induct)
    case (2 hash n s ss es ess)
    note s = segment_repD [of hash "lg_dir l" n s es]
    have "sg_base_offset s \<notin> sg_base_offset ` set ss"
      using closed_rep_base [of hash "lg_dir l" "n + length es" ss ess] 2 s(1) by fastforce
    with 2 s(2,3,7) show ?case by auto
  qed auto
  moreover have "sg_base_offset active \<notin> sg_base_offset ` set closed"
    using closed_rep_base [OF r(2)] segment_repD(1) [OF r(3)] by fastforce
  ultimately show ?thesis
    using segment_repD(2,3,7) [OF r(3)] by (auto simp: segment_files_def r(1))
qed

lemma truncate_to_restart:
  assumes rep: "log_rep hash hist low l" and off: "unat offset < length hist"
    and rs: "rs = map fst (take (unat offset - low) (drop low hist))"
  shows "\<exists>l1. truncate_to hash offset l = append_all hash rs l1 \<and> log_rep hash [] 0 l1"
proof -
  note rd = log_repD [OF rep]
  have lt: "offset < lg_next_offset l" using off rd(4) by (simp add: word_less_nat_alt)
  have read: "read_log hash l 0 usize_max = Ok (map fst (drop low hist))"
    using read_log_spec [OF rep] by (simp add: read_spec_all)
  have e: "entries_ok hash low (drop low hist)"
  proof -
    have "entries_ok hash 0 (take low hist @ drop low hist)" using rd(1) by simp
    then show ?thesis unfolding entries_ok_append using rd(5) by simp
  qed
  have flt: "filter (\<lambda>r. sr_offset r < offset) (map fst (drop low hist)) = rs"
  proof -
    have "filter (\<lambda>r. sr_offset r < offset) (map fst es) = map fst (take (unat offset - n) es)"
      if "entries_ok hash n es" for n es
      using that
    proof (induction es arbitrary: n)
      case (Cons x xs)
      then show ?case
        by (cases x) (auto simp: word_less_nat_alt take_Cons')
    qed simp
    with e rs show ?thesis by blast
  qed
  obtain d where d: "remove_segments (lg_segments l) (lg_dir l) = (Ok (), d)" "dir_ok d []"
    using remove_segments_all [OF log_rep_segment_files [OF rep] rd(6)] by blast
  have fresh: "map_of d (segment_file 0) = None" "map_of d (index_path (segment_file 0)) = None"
    using dir_ok_fresh [OF d(2)] by simp_all
  define seg where "seg = \<lparr>sg_base_offset = 0, sg_path = segment_file 0, sg_len = 0, sg_index = []\<rparr>"
  define d' where "d' = AList.update (index_path (segment_file 0)) [] (AList.update (segment_file 0) [] d)"
  define l1 where "l1 = l\<lparr>lg_dir := d', lg_active_file := segment_file 0,
    lg_active_index_file := index_path (segment_file 0), lg_segments := [seg], lg_next_offset := 0,
    lg_producer_state := Map.empty\<rparr>"
  have "\<not> lg_next_offset l < offset" "offset \<noteq> lg_next_offset l" using lt by auto
  then have tr: "truncate_to hash offset l = append_all hash rs l1"
    using read flt d(1) create_segment_fresh [OF fresh]
    by (simp add: truncate_to_def Let_def l1_def d'_def seg_def)
  have "dir_ok d' [seg]"
    using d(2) by (rule dir_ok_frame) (use d(2) in \<open>auto simp: d'_def seg_def dir_ok_def\<close>)
  then have "log_rep hash [] 0 l1"
    by (intro log_repI [where closed = "[]" and active = seg and ess = "[]" and es = "[]"])
       (use rd(7,8) in \<open>simp_all add: l1_def segment_rep_def index_ok_def seg_def d'_def\<close>)
  with tr show ?thesis by blast
qed

lemma truncate_to_rep:
  assumes rep: "log_rep hash hist low l" and off: "unat offset < length hist"
    and rs: "rs = map fst (take (unat offset - low) (drop low hist))"
    and seqs: "seqs_ok Map.empty (renumber 0 rs)"
    and sizes: "\<forall>r \<in> set rs. record_sizes_ok (record_of_stored r)"
    and fits: "length rs * (MAX_RECORD_SIZE + 4) < 2 ^ 64"
  shows "\<exists>l' h'. truncate_to hash offset l = (Ok (), l') \<and> log_rep hash h' 0 l' \<and>
    map fst h' = renumber 0 rs"
proof -
  obtain l1 where "truncate_to hash offset l = append_all hash rs l1" "log_rep hash [] 0 l1"
    using truncate_to_restart [OF rep off rs] by blast
  with append_all_rep [of hash "[]" 0 l1 rs] seqs sizes fits show ?thesis by auto
qed

section \<open>Replica appends\<close>

definition same_content :: "stored_record \<Rightarrow> log_record \<Rightarrow> bool" where
  "same_content x r \<longleftrightarrow> sr_timestamp_ms x = lr_timestamp_ms r \<and> sr_key x = lr_key r \<and> sr_value x = lr_value r"

lemma truncate_to_prefix:
  assumes "log_rep hash hist 0 l" and "unat offset < length hist"
    and "\<forall>r \<in> set (map fst hist). record_sizes_ok (record_of_stored r)"
    and "length hist * (MAX_RECORD_SIZE + 4) < 2 ^ 64"
  shows "\<exists>l' hist'. truncate_to hash offset l = (Ok (), l') \<and> log_rep hash hist' 0 l' \<and>
    map fst hist' = take (unat offset) (map fst hist) \<and> lg_next_offset l' = offset"
proof -
  define rs where "rs = map fst (take (unat offset - 0) (drop 0 hist))"
  have e: "entries_ok hash 0 (take (unat offset) hist @ drop (unat offset) hist)"
    and "seqs_ok Map.empty (map fst (take (unat offset) hist @ drop (unat offset) hist))"
    using log_repD(1,2) [OF assms(1)] by simp_all
  then have s: "seqs_ok Map.empty rs" unfolding map_append seqs_ok_append by (simp add: rs_def)
  have "entries_ok hash 0 (take (unat offset) hist)" using e unfolding entries_ok_append by blast
  then have rn: "renumber 0 rs = rs" using renumber_consecutive by (simp add: rs_def)
  have "length rs * (MAX_RECORD_SIZE + 4) \<le> length hist * (MAX_RECORD_SIZE + 4)"
    by (rule mult_le_mono1) (simp add: rs_def)
  then have fits: "length rs * (MAX_RECORD_SIZE + 4) < 2 ^ 64" using assms(4) by (rule le_less_trans)
  have sizes: "\<forall>r \<in> set rs. record_sizes_ok (record_of_stored r)"
    using assms(3) in_set_takeD by (fastforce simp: rs_def)
  have "seqs_ok Map.empty (renumber 0 rs)" using s rn by simp
  from truncate_to_rep [OF assms(1,2) rs_def this sizes fits] obtain l' h' where
    t: "truncate_to hash offset l = (Ok (), l')" "log_rep hash h' 0 l'" "map fst h' = rs"
    using rn by auto
  have "length h' = unat offset" using arg_cong [OF t(3), of length] assms(2) by (simp add: rs_def)
  then have "lg_next_offset l' = offset" using log_repD(4) [OF t(2)] by (simp add: word_unat_eq_iff)
  with t show ?thesis by (auto simp: rs_def take_map)
qed

lemma filter_from_offset:
  "entries_ok hash n es \<Longrightarrow>
     filter (\<lambda>(r, c). offset \<le> sr_offset r) es = drop (unat offset - n) es"
proof (induction es arbitrary: n)
  case (Cons e es)
  then show ?case
    by (cases e) (auto simp: word_le_nat_alt drop_Cons' not_le)
qed simp

lemma append_replica_known:
  assumes rep: "log_rep hash hist low l" and "low \<le> unat offset" and "unat offset < length hist"
  shows "append_replica hash offset r l =
    (if same_content (fst (hist ! unat offset)) r then Ok offset else Err (ReplicaDiverged offset), l)"
proof -
  note rd = log_repD [OF rep]
  have "offset < lg_next_offset l" using assms(3) rd(4) by (simp add: word_less_nat_alt)
  moreover have "entries_ok hash (length (take low hist)) (drop low hist)"
    using rd(1) entries_ok_append [of hash 0 "take low hist" "drop low hist"] by simp
  then have "filter (\<lambda>(r, c). offset \<le> sr_offset r) (drop low hist) = drop (unat offset) hist"
    using assms(2) rd(5) by (simp add: filter_from_offset)
  then have "read_spec offset MAX_RECORD_SIZE (drop low hist) =
      take_budget MAX_RECORD_SIZE 0 (hist ! unat offset # drop (Suc (unat offset)) hist)"
    using assms(3) by (simp add: read_spec_def Cons_nth_drop_Suc)
  moreover have "sr_offset (fst (hist ! unat offset)) = offset"
    using entries_ok_nth [OF rd(1) assms(3)] by (simp add: word_unat_eq_iff)
  ultimately show ?thesis
    using read_log_spec [OF rep, of MAX_RECORD_SIZE offset]
    by (cases "hist ! unat offset") (auto simp: append_replica_def same_content_def)
qed

text \<open>What a follower's log promises to the replication protocol, as an interface: the content of
  the log is a list, a record for the next position extends it, a record for a known position
  is confirmed or refused without changing anything, and a gap is refused.\<close>

locale replica_store =
  fixes holds :: "'l \<Rightarrow> 'c list \<Rightarrow> bool"
    and put :: "u64 \<Rightarrow> 'r \<Rightarrow> 'l \<Rightarrow> (u64, 'e) outcome \<times> 'l"
    and content :: "'r \<Rightarrow> 'c" and acceptable :: "'r \<Rightarrow> bool" and capacity :: nat
  assumes put_next: "holds l xs \<Longrightarrow> unat off = length xs \<Longrightarrow> acceptable r \<Longrightarrow> length xs < capacity \<Longrightarrow>
      \<exists>l'. put off r l = (Ok off, l') \<and> holds l' (xs @ [content r])"
    and put_known: "holds l xs \<Longrightarrow> unat off < length xs \<Longrightarrow> snd (put off r l) = l"
    and put_same: "holds l xs \<Longrightarrow> unat off < length xs \<Longrightarrow> xs ! unat off = content r \<Longrightarrow>
      fst (put off r l) = Ok off"
    and put_gap: "holds l xs \<Longrightarrow> length xs < unat off \<Longrightarrow> snd (put off r l) = l"
begin

text \<open>A follower that receives messages \<open>(off, r)\<close> in any order and number, each carrying what the
  leader's log \<open>ys\<close> has at that position, always holds a prefix of the leader's log.\<close>

fun receive :: "(u64 \<times> 'r) list \<Rightarrow> 'l \<Rightarrow> 'l" where
  "receive [] l = l"
| "receive ((off, r) # ms) l = receive ms (snd (put off r l))"

definition from_leader :: "'c list \<Rightarrow> u64 \<times> 'r \<Rightarrow> bool" where
  "from_leader ys m \<longleftrightarrow> acceptable (snd m) \<and> unat (fst m) < length ys \<and> ys ! unat (fst m) = content (snd m)"

lemma receive_step:
  assumes "holds l (take k ys)" and "from_leader ys (off, r)" and "length ys \<le> capacity" and "k \<le> length ys"
  shows "\<exists>k'. k \<le> k' \<and> k' \<le> length ys \<and> holds (snd (put off r l)) (take k' ys) \<and>
    (unat off \<le> k \<longrightarrow> unat off < k' \<and> fst (put off r l) = Ok off)"
proof -
  have m: "acceptable r" "unat off < length ys" "ys ! unat off = content r"
    using assms(2) by (auto simp: from_leader_def)
  consider "unat off < k" | "unat off = k" | "k < unat off" by linarith
  then show ?thesis
  proof cases
    case 1
    with put_known [OF assms(1)] put_same [OF assms(1)] assms m show ?thesis
      by (intro exI [of _ k]) auto
  next
    case 2
    with put_next [OF assms(1) _ m(1), of off] assms m obtain l' where
      "put off r l = (Ok off, l')" "holds l' (take k ys @ [content r])" by auto
    with 2 m show ?thesis
      by (intro exI [of _ "Suc k"]) (auto simp: take_Suc_conv_app_nth)
  next
    case 3
    with put_gap [OF assms(1), of off] assms m show ?thesis by (intro exI [of _ k]) auto
  qed
qed

lemma receive_prefix:
  assumes "holds l (take k ys)" and "\<forall>m \<in> set ms. from_leader ys m" and "length ys \<le> capacity"
    and "k \<le> length ys"
  shows "\<exists>k'. k \<le> k' \<and> k' \<le> length ys \<and> holds (receive ms l) (take k' ys)"
  using assms
proof (induction ms arbitrary: l k)
  case (Cons m ms)
  obtain off r where m: "m = (off, r)" by fastforce
  from receive_step [OF Cons.prems(1) _ Cons.prems(3,4), of off r] Cons.prems(2) obtain k1 where
    "k \<le> k1" "k1 \<le> length ys" "holds (snd (put off r l)) (take k1 ys)" by (auto simp: m)
  with Cons.IH [of "snd (put off r l)" k1] Cons.prems show ?case by (auto simp: m) (meson le_trans)
qed auto

text \<open>If the messages for all missing positions arrive in order (others may be interleaved), the
  follower ends up with the whole log.\<close>

lemma receive_complete:
  assumes "holds l (take k ys)" and "\<forall>m \<in> set ms. from_leader ys m" and "length ys \<le> capacity"
    and "k \<le> length ys" and "subseq (map word_of_nat [k..<length ys]) (map fst ms)"
    and "length ys < 2 ^ 64"
  shows "holds (receive ms l) ys"
  using assms
proof (induction ms arbitrary: l k)
  case Nil
  then show ?case by (auto dest!: list_emb_Nil2)
next
  case (Cons m ms)
  obtain off r where m: "m = (off, r)" by fastforce
  from receive_step [OF Cons.prems(1) _ Cons.prems(3,4), of off r] Cons.prems(2) obtain k1 where
    k1: "k \<le> k1" "k1 \<le> length ys" "holds (snd (put off r l)) (take k1 ys)"
      "unat off \<le> k \<Longrightarrow> unat off < k1" by (auto simp: m)
  have suf: "subseq (map word_of_nat [k1..<length ys]) (map word_of_nat [j..<length ys])" if "j \<le> k1" for j
  proof -
    have "[j..<length ys] = [j..<k1] @ [k1..<length ys]"
      using that k1(2) by (metis le_Suc_ex upt_add_eq_append)
    then show ?thesis by (simp add: list_emb_append2)
  qed
  have "subseq (map word_of_nat [k1..<length ys]) (map fst ms)"
  proof (cases "k < length ys \<and> off = word_of_nat k")
    case True
    then have "unat off = k" using Cons.prems(6) by (simp add: unat_word_of_nat_small)
    then have "Suc k \<le> k1" using k1(4) by simp
    moreover have "subseq (map word_of_nat [Suc k..<length ys]) (map fst ms)"
      using Cons.prems(5) True by (simp add: m upt_conv_Cons)
    ultimately show ?thesis using suf subseq_order.order_trans by blast
  next
    case False
    then have "subseq (map word_of_nat [k..<length ys]) (map fst ms)"
      using Cons.prems(5) by (cases "k < length ys") (auto simp: m upt_conv_Cons subseq_Cons2_neq)
    with suf [OF k1(1)] show ?thesis using subseq_order.order_trans by blast
  qed
  with Cons.IH [OF k1(3)] Cons.prems k1(2) show ?case by (simp add: m)
qed

end

type_synonym content = "u64 \<times> bytes option \<times> bytes"

definition stored_content :: "stored_record \<Rightarrow> content" where
  "stored_content x = (sr_timestamp_ms x, sr_key x, sr_value x)"

definition record_content :: "log_record \<Rightarrow> content" where
  "record_content r = (lr_timestamp_ms r, lr_key r, lr_value r)"

text \<open>The records a follower accepts: of valid size, and without a producer, since the replication
  frame carries none.\<close>

definition replica_record :: "log_record \<Rightarrow> bool" where
  "replica_record r \<longleftrightarrow> record_sizes_ok r \<and> lr_producer r = None"

definition log_holds :: "(bytes \<Rightarrow> u32) \<Rightarrow> partition_log \<Rightarrow> content list \<Rightarrow> bool" where
  "log_holds hash l xs \<longleftrightarrow> (\<exists>hist. log_rep hash hist 0 l \<and> map (stored_content \<circ> fst) hist = xs \<and>
     length (bytes_of hist) \<le> length hist * (MAX_RECORD_SIZE + 4))"

definition log_capacity :: nat where
  "log_capacity = (2 ^ 64 - 1) div (MAX_RECORD_SIZE + 4)"

lemma log_capacity_room:
  assumes "n < log_capacity" and "b \<le> n * (MAX_RECORD_SIZE + 4)"
  shows "b + MAX_RECORD_SIZE + 4 < 2 ^ 64"
proof -
  have "Suc n * (MAX_RECORD_SIZE + 4) \<le> log_capacity * (MAX_RECORD_SIZE + 4)"
    using assms(1) by (intro mult_le_mono1) simp
  also have "\<dots> \<le> 2 ^ 64 - 1" unfolding log_capacity_def by (rule div_times_less_eq_dividend)
  finally show ?thesis using assms(2) by simp
qed

lemma append_replica_next:
  assumes rep: "log_rep hash hist low l" and "unat offset = length hist" and r: "replica_record r"
    and fits: "length (bytes_of hist) + MAX_RECORD_SIZE + 4 < 2 ^ 64"
  shows "\<exists>l' c. append_replica hash offset r l = (Ok offset, l') \<and>
    log_rep hash (hist @ [(stored_of r offset, c)]) low l' \<and> length c \<le> MAX_RECORD_SIZE + 4"
proof -
  have off: "offset = lg_next_offset l"
    using assms(2) log_repD(4) [OF rep] by (simp add: word_unat_eq_iff)
  obtain c where c: "encode_record hash r offset = Ok c"
    using r encode_record_eq by (auto simp: replica_record_def)
  have p: "producer_ok (lg_producer_state l) (lr_producer r)"
    using r by (simp add: replica_record_def producer_ok_def)
  obtain l' where "append_new hash r l = (Ok offset, l')"
    "log_rep hash (hist @ [(stored_of r offset, c)]) low l'"
    using append_new_rep [OF rep _ encode_record_room [OF c fits] p] c off by auto
  moreover have "append_replica hash offset r l = append_new hash r l"
    using p by (simp add: append_replica_def append_log_def off flip: producer_duplicate_None)
  ultimately show ?thesis using encode_record_length [OF c] by auto
qed

lemma append_replica_unknown:
  assumes "log_rep hash hist low l" and "length hist < unat offset"
  shows "append_replica hash offset r l = (Err (UnexpectedOffset (lg_next_offset l) offset), l)"
  using assms log_repD(4) [OF assms(1)] by (auto simp: append_replica_def word_less_nat_alt)

interpretation follower: replica_store "log_holds hash" "append_replica hash" record_content
    replica_record log_capacity for hash
proof unfold_locales
  fix l xs r and off :: u64
  assume h: "log_holds hash l xs" and off: "unat off = length xs" and r: "replica_record r"
    and cap: "length xs < log_capacity"
  then obtain hist where rep: "log_rep hash hist 0 l" and xs: "map (stored_content \<circ> fst) hist = xs"
    and b: "length (bytes_of hist) \<le> length hist * (MAX_RECORD_SIZE + 4)"
    by (auto simp: log_holds_def)
  have len: "length hist = length xs" using xs by auto
  obtain l' c where a: "append_replica hash off r l = (Ok off, l')"
    "log_rep hash (hist @ [(stored_of r off, c)]) 0 l'" "length c \<le> MAX_RECORD_SIZE + 4"
    using append_replica_next [OF rep _ r log_capacity_room [of "length hist"]] off cap b len by metis
  have "log_holds hash l' (xs @ [record_content r])"
    unfolding log_holds_def
    by (rule exI [of _ "hist @ [(stored_of r off, c)]"])
       (use a b xs in \<open>auto simp: stored_content_def record_content_def stored_of_def\<close>)
  with a(1) show "\<exists>l'. append_replica hash off r l = (Ok off, l') \<and> log_holds hash l' (xs @ [record_content r])"
    by blast
next
  fix l xs r and off :: u64
  assume h: "log_holds hash l xs" and off: "unat off < length xs"
  then obtain hist where rep: "log_rep hash hist 0 l" and xs: "map (stored_content \<circ> fst) hist = xs"
    by (auto simp: log_holds_def)
  have "unat off < length hist" using off xs by auto
  note k = append_replica_known [OF rep _ this, of r]
  then show "snd (append_replica hash off r l) = l" by simp
  assume "xs ! unat off = record_content r"
  with k \<open>unat off < length hist\<close> xs show "fst (append_replica hash off r l) = Ok off"
    by (auto simp: same_content_def stored_content_def record_content_def)
next
  fix l xs r and off :: u64
  assume "log_holds hash l xs" and "length xs < unat off"
  then show "snd (append_replica hash off r l) = l"
    by (auto simp: log_holds_def append_replica_unknown)
qed

section \<open>A sample log\<close>

text \<open>Three stored records, and a log with one segment that holds those from \<open>low\<close> on.\<close>

definition plain_record :: log_record where
  "plain_record = \<lparr>lr_key = None, lr_value = [5], lr_timestamp_ms = 7, lr_producer = None\<rparr>"

definition sample_entry :: "nat \<Rightarrow> entry" where
  "sample_entry n = (stored_of plain_record (word_of_nat n),
     put_u32 (word_of_nat (CRC_SIZE + length (record_body plain_record (word_of_nat n))))
       @ put_u32 (byte_sum (record_body plain_record (word_of_nat n)))
       @ record_body plain_record (word_of_nat n))"

definition sample_hist :: "entry list" where
  "sample_hist = [sample_entry 0, sample_entry 1, sample_entry 2]"

definition single_log :: "nat \<Rightarrow> partition_log" where
  "single_log low =
    (let b = word_of_nat low; es = drop low sample_hist;
         index = [\<lparr>ie_offset = b, ie_position = 0\<rparr>] in
     \<lparr>lg_next_offset = 3, lg_max_segment_bytes = 1024, lg_index_interval_bytes = 256,
      lg_dir = [(segment_file b, bytes_of es), (index_path (segment_file b), index_bytes index)],
      lg_segments = [\<lparr>sg_base_offset = b, sg_path = segment_file b,
        sg_len = word_of_nat (length (bytes_of es)), sg_index = index\<rparr>],
      lg_active_file = segment_file b, lg_active_index_file = index_path (segment_file b),
      lg_producer_state = Map.empty\<rparr>)"

lemma plain_record_ok: "record_sizes_ok plain_record" "replica_record plain_record"
  by (simp_all add: plain_record_def record_sizes_ok_def opt_len_def replica_record_def)

lemma sample_entry_chunk: "chunk byte_sum (fst (sample_entry n)) (snd (sample_entry n))"
  using encode_record_chunk [of byte_sum plain_record "word_of_nat n"]
  by (simp add: sample_entry_def encode_record_eq plain_record_ok)

lemma sample_entry_length: "length (snd (sample_entry n)) = 46"
  by (simp add: sample_entry_def length_record_body plain_record_def opt_len_def)

lemma entries_ok_Cons:
  "entries_ok hash n (e # es) \<longleftrightarrow>
     chunk hash (fst e) (snd e) \<and> unat (sr_offset (fst e)) = n \<and> entries_ok hash (Suc n) es"
  by (cases e) auto

lemma sample_hist_ok:
  "entries_ok byte_sum 0 sample_hist" "seqs_ok Map.empty (map fst sample_hist)"
  "producers (map fst sample_hist) = Map.empty" "length (bytes_of sample_hist) = 138"
  "\<forall>r \<in> set (map fst sample_hist). record_sizes_ok (record_of_stored r) \<and> sr_producer r = None"
proof -
  have o: "sr_offset (fst (sample_entry n)) = word_of_nat n" "sr_producer (fst (sample_entry n)) = None"
    and r: "record_of_stored (fst (sample_entry n)) = plain_record" for n
    by (simp_all add: sample_entry_def stored_of_def plain_record_def record_of_stored_def)
  show "entries_ok byte_sum 0 sample_hist"
    using sample_entry_chunk [of 0] sample_entry_chunk [of 1] sample_entry_chunk [of 2] o(1) [of 0] o(1) [of 1] o(1) [of 2]
    by (simp add: sample_hist_def entries_ok_Cons)
  show "seqs_ok Map.empty (map fst sample_hist)" "producers (map fst sample_hist) = Map.empty"
    "length (bytes_of sample_hist) = 138"
    "\<forall>r \<in> set (map fst sample_hist). record_sizes_ok (record_of_stored r) \<and> sr_producer r = None"
    by (simp_all add: sample_hist_def o r producer_ok_def note_producer_def sample_entry_length plain_record_ok)
qed

lemma single_log_rep:
  assumes "low < 3"
  shows "log_rep byte_sum sample_hist low (single_log low)"
proof -
  have len: "length sample_hist = 3" by (simp add: sample_hist_def)
  have ne: "drop low sample_hist \<noteq> []" using assms len by simp
  have "bytes_of sample_hist = bytes_of (take low sample_hist) @ bytes_of (drop low sample_hist)"
    by (metis append_take_drop_id bytes_of_simps(3))
  then have "length (bytes_of (drop low sample_hist)) \<le> 138" using sample_hist_ok(4) by simp
  then have u: "unat (word_of_nat (length (bytes_of (drop low sample_hist))) :: u64) =
      length (bytes_of (drop low sample_hist))"
    by (intro unat_word_of_nat_small) simp
  have b: "unat (word_of_nat low :: u64) = low" using assms by (intro unat_word_of_nat_small) simp
  have e: "entries_ok byte_sum low (drop low sample_hist)"
    using entries_ok_append [of byte_sum 0 "take low sample_hist" "drop low sample_hist"]
      sample_hist_ok(1) assms len by simp
  have ix: "index_ok low (drop low sample_hist) [\<lparr>ie_offset = word_of_nat low, ie_position = 0\<rparr>]"
    using ne b by (auto simp: index_ok_def intro!: exI [of _ "[]"])
  show ?thesis
    by (rule log_repI [where closed = "[]" and ess = "[]" and es = "drop low sample_hist"
          and active = "hd (lg_segments (single_log low))"])
       (use sample_hist_ok len assms e ix u b in \<open>auto simp: single_log_def Let_def dir_ok_def segment_rep_def\<close>)
qed

text \<open>The same records in two segments.\<close>

definition split_log :: partition_log where
  "split_log =
    (let segment = (\<lambda>b es. \<lparr>sg_base_offset = b, sg_path = segment_file b, sg_len = word_of_nat (length (bytes_of es)),
           sg_index = [\<lparr>ie_offset = b, ie_position = 0\<rparr>]\<rparr>);
         files = (\<lambda>b es. [(segment_file b, bytes_of es), (index_path (segment_file b), index_bytes [\<lparr>ie_offset = b, ie_position = 0\<rparr>])]) in
     \<lparr>lg_next_offset = 3, lg_max_segment_bytes = 64, lg_index_interval_bytes = 256,
      lg_dir = files 0 [sample_entry 0] @ files 1 [sample_entry 1, sample_entry 2],
      lg_segments = [segment 0 [sample_entry 0], segment 1 [sample_entry 1, sample_entry 2]],
      lg_active_file = segment_file 1, lg_active_index_file = index_path (segment_file 1), lg_producer_state = Map.empty\<rparr>)"

lemma split_log_rep: "log_rep byte_sum sample_hist 0 split_log"
proof -
  let ?a = "[sample_entry 0]" and ?b = "[sample_entry 1, sample_entry 2]"
  have e: "entries_ok byte_sum 0 ?a" "entries_ok byte_sum 1 ?b" using sample_hist_ok(1) by (simp_all add: sample_hist_def entries_ok_Cons)
  have ix: "index_ok 0 ?a [\<lparr>ie_offset = 0, ie_position = 0\<rparr>]" "index_ok 1 ?b [\<lparr>ie_offset = 1, ie_position = 0\<rparr>]"
    by (auto simp: index_ok_def intro!: exI [of _ "[]"])
  show ?thesis
    by (rule log_repI [where closed = "[hd (lg_segments split_log)]" and ess = "[?a]" and es = ?b
          and active = "last (lg_segments split_log)"])
       (use sample_hist_ok e ix sample_entry_length in
         \<open>auto simp: split_log_def Let_def dir_ok_def segment_rep_def sample_hist_def\<close>)
qed

section \<open>Properties\<close>

text \<open>C38: A log whose first segments were removed by retention cannot be opened again: \<open>open\<close> insists
  on a segment that starts at offset zero and fails on the oldest one it finds.\<close>

theorem reopen_after_retention_fails:
  assumes "log_rep hash hist low l" and "0 < low" and "crashed hash l [] d"
    and "validate_log_topic topic = Ok ()" and "max_segment_bytes \<noteq> 0" and "interval \<noteq> 0"
  shows "open_log hash topic max_segment_bytes interval d =
    (Err (UnexpectedSegmentBase 0 (low_watermark l)), d)"
proof -
  obtain s ss where s: "lg_segments l = s # ss" using log_repD(9) [OF assms(1)] by (cases "lg_segments l") auto
  obtain ess where f: "files_rep hash d low (map sg_base_offset (lg_segments l)) ess []"
    and disc: "discover_segments d = Ok (map (raw_segment d) (map sg_base_offset (lg_segments l)))"
    using crashed_files [OF assms(1,3)] by metis
  have "unat (sg_base_offset s) = low" using files_rep_hd [OF f] s by simp
  with assms(2) have "sg_base_offset s \<noteq> 0" by auto
  with disc s assms(4-6) show ?thesis
    by (simp add: open_log_def raw_segment_select low_watermark_def)
qed

theorem reopen_after_retention_fails_witness:
  "open_log byte_sum ''t'' 1024 256 (lg_dir (single_log 1)) =
     (Err (UnexpectedSegmentBase 0 1), lg_dir (single_log 1))"
proof -
  have "crashed byte_sum (single_log 1) [] (lg_dir (single_log 1))"
    using sample_entry_chunk [of 0]
    by (auto simp: crashed_def single_log_def Let_def sample_entry_length
        intro!: exI [of _ "fst (sample_entry 0)"] exI [of _ "snd (sample_entry 0)"] exI [of _ 0]
        dest: chunk_not_Nil)
  moreover have "validate_log_topic ''t'' = Ok ()"
    by (simp add: validate_log_topic_def id_char_def is_ascii_alphanumeric_def less_eq_char_def)
  moreover have "low_watermark (single_log 1) = 1" by (simp add: low_watermark_def single_log_def Let_def)
  ultimately show ?thesis
    using reopen_after_retention_fails [OF single_log_rep, of 1] by simp
qed

text \<open>C36: Retention removes whole segments from the front of the log and nothing else: the remaining
  log is well formed with the same history, its next offset and producer table are unchanged,
  the active segment always stays, and when a size limit is set the log is within it afterwards
  unless only the active segment is left.\<close>

theorem apply_retention_correct:
  assumes "log_rep hash hist low l" and "length (bytes_of hist) < 2 ^ 64"
  shows "\<exists>k l' low'. apply_retention elapsed max_bytes max_age l = (Ok k, l') \<and> low \<le> low' \<and>
    log_rep hash hist low' l' \<and> lg_segments l' = drop k (lg_segments l) \<and>
    last (lg_segments l') = last (lg_segments l) \<and> lg_next_offset l' = lg_next_offset l \<and>
    lg_producer_state l' = lg_producer_state l \<and>
    (\<forall>limit. max_bytes = Some limit \<longrightarrow> length (lg_segments l') = 1 \<or>
       length (bytes_of (drop low' hist)) \<le> unat limit)"
proof -
  from apply_retention_rep [OF assms, of elapsed max_bytes max_age] obtain k l' low' where
    r: "apply_retention elapsed max_bytes max_age l = (Ok k, l')" "low \<le> low'"
    "log_rep hash hist low' l'" "lg_segments l' = drop k (lg_segments l)" "k < length (lg_segments l)"
    "\<forall>limit. max_bytes = Some limit \<longrightarrow> length (lg_segments l') = 1 \<or>
       length (bytes_of (drop low' hist)) \<le> unat limit" by blast
  have "lg_next_offset l' = lg_next_offset l"
    using log_repD(4) [OF r(3)] log_repD(4) [OF assms(1)] by (simp add: word_unat_eq_iff)
  moreover have "lg_producer_state l' = lg_producer_state l"
    using log_repD(3) [OF r(3)] log_repD(3) [OF assms(1)] by simp
  ultimately show ?thesis using r by (intro exI [of _ k] exI [of _ l'] exI [of _ low']) auto
qed

theorem apply_retention_correct_witness:
  "\<exists>k l' low'. apply_retention (\<lambda>_. None) (Some 100) None split_log = (Ok k, l') \<and> log_rep byte_sum sample_hist low' l' \<and>
    lg_segments l' = drop k (lg_segments split_log) \<and> lg_next_offset l' = 3 \<and>
    (length (lg_segments l') = 1 \<or> length (bytes_of (drop low' sample_hist)) \<le> 100)"
proof -
  have "length (bytes_of sample_hist) < 2 ^ 64" using sample_hist_ok(4) by simp
  moreover have "lg_next_offset split_log = 3" by (simp add: split_log_def Let_def)
  ultimately show ?thesis
    using apply_retention_correct [OF split_log_rep, of "\<lambda>_. None" "Some 100" None] by auto
qed

theorem read_log_correct_witness:
  "read_log byte_sum split_log 1 100 = Ok [fst (sample_entry 1), fst (sample_entry 2)]"
proof -
  have "read_spec 1 100 (drop 0 sample_hist) = [fst (sample_entry 1), fst (sample_entry 2)]"
  proof -
    have "sr_offset (fst (sample_entry n)) = word_of_nat n" for n by (simp add: sample_entry_def stored_of_def)
    then have "read_spec 1 100 (drop 0 sample_hist) = take_budget 100 0 [sample_entry 1, sample_entry 2]"
      by (simp add: read_spec_def sample_hist_def case_prod_beta)
    also have "\<dots> = [fst (sample_entry 1), fst (sample_entry 2)]"
      using sample_entry_length [of 1] sample_entry_length [of 2]
      by (cases "sample_entry 1"; cases "sample_entry 2") (simp add: usize_saturating_add_def)
    finally show ?thesis .
  qed
  with read_log_correct [OF split_log_rep, of 1 100] show ?thesis by simp
qed

text \<open>Truncating a log that retention has not touched keeps exactly the records below the given
  offset, with their offsets, and appends continue there.\<close>

lemma truncate_to_correct:
  assumes "log_rep hash hist 0 l" and "unat offset < length hist"
    and "\<forall>r \<in> set (map fst hist). record_sizes_ok (record_of_stored r)"
    and "length hist * (MAX_RECORD_SIZE + 4) < 2 ^ 64"
  shows "\<exists>l' hist'. truncate_to hash offset l = (Ok (), l') \<and> log_rep hash hist' 0 l' \<and>
    map fst hist' = take (unat offset) (map fst hist) \<and> lg_next_offset l' = offset"
  by (rule truncate_to_prefix [OF assms])

text \<open>On a log whose front was removed by retention, truncation does not do what its name says:
  the surviving records are renumbered from zero, so the next offset afterwards is smaller than
  the requested one and every record is found under a different offset than before.\<close>

theorem truncate_after_retention_renumbers:
  assumes "log_rep hash hist low l" and "0 < low" and "low < unat offset" and "unat offset < length hist"
    and "\<forall>r \<in> set (map fst hist). record_sizes_ok (record_of_stored r) \<and> sr_producer r = None"
    and "length hist * (MAX_RECORD_SIZE + 4) < 2 ^ 64"
  shows "\<exists>l'. truncate_to hash offset l = (Ok (), l') \<and> unat (lg_next_offset l') = unat offset - low \<and>
    lg_next_offset l' \<noteq> offset \<and>
    read_log hash l' 0 1 = Ok [(fst (hist ! low))\<lparr>sr_offset := 0\<rparr>]"
proof -
  define rs where "rs = map fst (take (unat offset - low) (drop low hist))"
  have sub: "set rs \<subseteq> set (map fst hist)"
    using set_take_subset [of "unat offset - low" "drop low hist"] set_drop_subset [of low hist]
    by (auto simp: rs_def)
  have np: "\<forall>r \<in> set rs. sr_producer r = None" using sub assms(5) by blast
  have "seqs_ok state (renumber n xs)" if "\<forall>r \<in> set xs. sr_producer r = None" for state n xs
    using that by (induction xs arbitrary: state n) (auto simp: producer_ok_def)
  with np have seqs: "seqs_ok Map.empty (renumber 0 rs)" by blast
  have len: "length rs = unat offset - low" using assms(4) by (auto simp: rs_def)
  have "length rs * (MAX_RECORD_SIZE + 4) \<le> length hist * (MAX_RECORD_SIZE + 4)"
    by (rule mult_le_mono1) (simp add: rs_def)
  then have fits: "length rs * (MAX_RECORD_SIZE + 4) < 2 ^ 64" using assms(6) by (rule le_less_trans)
  have sizes: "\<forall>r \<in> set rs. record_sizes_ok (record_of_stored r)" using sub assms(5) by blast
  from truncate_to_rep [OF assms(1,4) rs_def seqs sizes fits] obtain l' h' where
    t: "truncate_to hash offset l = (Ok (), l')" "log_rep hash h' 0 l'" "map fst h' = renumber 0 rs"
    by blast
  have n: "unat (lg_next_offset l') = unat offset - low"
    using log_repD(4) [OF t(2)] arg_cong [OF t(3), of length] len by simp
  have "rs = fst (hist ! low) # map fst (take (unat offset - low - 1) (drop (Suc low) hist))"
    using assms(3,4) by (cases "unat offset - low") (auto simp: rs_def simp flip: Cons_nth_drop_Suc)
  then obtain c h'' where h': "h' = ((fst (hist ! low))\<lparr>sr_offset := 0\<rparr>, c) # h''"
    using t(3) by (cases h') auto
  have "chunk hash (fst (h' ! 0)) c" using log_repD(1) [OF t(2)] h' by simp
  moreover have "\<forall>(r, c) \<in> set h''. 33 \<le> length c"
  proof -
    have "entries_ok hash m es \<Longrightarrow> \<forall>(r, c) \<in> set es. 33 \<le> length c" for m es
      by (induction es arbitrary: m) (fastforce simp: chunk_def)+
    with log_repD(1) [OF t(2)] h' show ?thesis by (metis entries_ok.simps(2))
  qed
  ultimately have "read_spec 0 1 h' = [(fst (hist ! low))\<lparr>sr_offset := 0\<rparr>]"
    by (cases h'') (auto simp: read_spec_def h' chunk_def usize_saturating_add_def case_prod_beta)
  with read_log_spec [OF t(2), of 1 0] have "read_log hash l' 0 1 = Ok [(fst (hist ! low))\<lparr>sr_offset := 0\<rparr>]"
    by simp
  moreover have "lg_next_offset l' \<noteq> offset" using n assms(2,3) by auto
  ultimately show ?thesis using t(1) n by blast
qed

text \<open>C12: Replication converges: a follower whose log holds a prefix of the leader's records and that
  receives replication messages in any order, with repetitions and gaps, always holds a prefix
  of the leader's records at least as long as before; and if the missing records arrive in
  order among them, it ends up with all of them.\<close>

theorem follower_converges:
  assumes "log_holds hash l (take k ys)" and "k \<le> length ys" and "length ys \<le> log_capacity"
    and "\<forall>(off, r) \<in> set ms. replica_record r \<and> unat off < length ys \<and> ys ! unat off = record_content r"
  shows "\<exists>k'. k \<le> k' \<and> k' \<le> length ys \<and>
      log_holds hash (fold (\<lambda>(off, r) l. snd (append_replica hash off r l)) ms l) (take k' ys) \<and>
      (subseq (map word_of_nat [k..<length ys]) (map fst ms) \<longrightarrow> k' = length ys)"
proof -
  have recv: "follower.receive hash ms l = fold (\<lambda>(off, r) l. snd (append_replica hash off r l)) ms l"
    by (induction ms arbitrary: l) auto
  have fl: "\<forall>m \<in> set ms. follower.from_leader ys m"
    using assms(4) by (auto simp: follower.from_leader_def)
  have small: "length ys < 2 ^ 64"
    using assms(3) by (simp add: log_capacity_def)
  show ?thesis
  proof (cases "subseq (map word_of_nat [k..<length ys]) (map fst ms)")
    case True
    with follower.receive_complete [OF assms(1) fl assms(3,2) _ small] assms(2) show ?thesis
      by (intro exI [of _ "length ys"]) (simp add: recv)
  next
    case False
    with follower.receive_prefix [OF assms(1) fl assms(3,2)] show ?thesis by (auto simp: recv)
  qed
qed

theorem follower_converges_witness:
  "log_holds byte_sum (fold (\<lambda>(off, r) l. snd (append_replica byte_sum off r l))
     [(1, plain_record), (0, plain_record), (0, plain_record), (1, plain_record)] (fresh_log 1024 256))
     [record_content plain_record, record_content plain_record]"
proof -
  define ys where "ys = [record_content plain_record, record_content plain_record]"
  define ms :: "(u64 \<times> log_record) list" where
    "ms = [(1, plain_record), (0, plain_record), (0, plain_record), (1, plain_record)]"
  have "log_holds byte_sum (fresh_log 1024 256) (take 0 ys)"
    unfolding log_holds_def using fresh_log_rep [of 1024 256 byte_sum] by (intro exI [of _ "[]"]) simp
  moreover have "\<forall>(off, r) \<in> set ms. replica_record r \<and> unat off < length ys \<and> ys ! unat off = record_content r"
    by (simp add: ms_def ys_def plain_record_ok)
  moreover have "subseq (map word_of_nat [0..<length ys]) (map fst ms)"
    by (simp add: ys_def ms_def upt_rec)
  moreover have "length ys \<le> log_capacity" by (simp add: ys_def log_capacity_def)
  ultimately show ?thesis using follower_converges [of byte_sum "fresh_log 1024 256" 0 ys ms]
    by (auto simp: ms_def ys_def)
qed

text \<open>A follower refuses to overwrite: a message for a position it already has is confirmed when
  the content is the same and otherwise refused as diverged, a message beyond the end is refused as a
  gap, and in all three cases the log is unchanged.\<close>

lemma append_replica_guards:
  assumes "log_rep hash hist low l" and "low \<le> unat offset" and "unat offset \<noteq> length hist"
  shows "append_replica hash offset r l =
    (if unat offset < length hist then
       if same_content (fst (hist ! unat offset)) r then Ok offset else Err (ReplicaDiverged offset)
     else Err (UnexpectedOffset (lg_next_offset l) offset), l)"
  using append_replica_known [OF assms(1,2)] append_replica_unknown [OF assms(1)] assms(3) by auto

end
