(* ===== verification/Log_Service.thy ===== *)
theory Log_Service
  imports Log_Maintenance
begin

text \<open>
  What a partition log promises to the storage worker that owns it, without its representation: a
  log in good order stays in good order under every operation and no operation panics, as
  long as the record count stays below \<open>log_capacity\<close>; appending only extends what can be
  read.
\<close>

section \<open>Logs in good order\<close>

definition log_view :: "(bytes \<Rightarrow> u32) \<Rightarrow> entry list \<Rightarrow> nat \<Rightarrow> partition_log \<Rightarrow> bool" where
  "log_view hash hist low l \<longleftrightarrow> log_rep hash hist low l \<and>
     length (bytes_of hist) \<le> length hist * (MAX_RECORD_SIZE + 4)"

definition log_fine :: "(bytes \<Rightarrow> u32) \<Rightarrow> partition_log \<Rightarrow> bool" where
  "log_fine hash l \<longleftrightarrow> (\<exists>hist low. log_view hash hist low l)"

definition log_room :: "nat \<Rightarrow> partition_log \<Rightarrow> bool" where
  "log_room n l \<longleftrightarrow> unat (lg_next_offset l) + n \<le> log_capacity"

text \<open>\<open>l'\<close> holds what \<open>l\<close> holds, and possibly more records behind it.\<close>

definition log_extends :: "(bytes \<Rightarrow> u32) \<Rightarrow> partition_log \<Rightarrow> partition_log \<Rightarrow> bool" where
  "log_extends hash l l' \<longleftrightarrow> (\<forall>hist low. log_view hash hist low l \<longrightarrow> (\<exists>ext. log_view hash (hist @ ext) low l'))"

lemma log_extends_refl [simp]: "log_extends hash l l"
  unfolding log_extends_def by (metis append_Nil2)

lemma log_extends_trans: "log_extends hash l l' \<Longrightarrow> log_extends hash l' l'' \<Longrightarrow> log_extends hash l l''"
  unfolding log_extends_def by (metis append_assoc)

lemma log_viewD:
  assumes "log_view hash hist low l" and "log_room n l"
  shows "log_rep hash hist low l" "length hist = unat (lg_next_offset l)" "length hist + n \<le> log_capacity"
    "n \<noteq> 0 \<Longrightarrow> length (bytes_of hist) + MAX_RECORD_SIZE + 4 < 2 ^ 64"
  using assms log_repD(4) [of hash hist low l] log_capacity_room [of "length hist" "length (bytes_of hist)"]
  by (auto simp: log_view_def log_room_def)

lemma fresh_log_fine: "m \<noteq> 0 \<Longrightarrow> i \<noteq> 0 \<Longrightarrow> log_fine hash (fresh_log m i)"
  using fresh_log_rep [of m i hash] by (auto simp: log_fine_def log_view_def)

lemma open_log_empty:
  assumes "validate_log_topic topic = Ok ()" "m \<noteq> 0" "i \<noteq> 0"
  shows "open_log hash topic m i [] = (Ok (fresh_log m i), lg_dir (fresh_log m i))"
proof -
  have "index_path (segment_file 0) \<noteq> segment_file 0" by simp
  moreover have "decode_record hash [] = (Ok None, [])" by (simp add: decode_record_def)
  ultimately show ?thesis
    using assms
    by (simp add: open_log_def discover_segments_def create_segment_def create_new_def
        recover_segment_def recover_loop.simps rewrite_index_def fresh_log_def Let_def
        try_from_def)
qed

section \<open>Appending\<close>

text \<open>The three ways an append can end.\<close>

lemma append_log_cases:
  assumes rep: "log_rep hash hist low l" and fits: "length (bytes_of hist) + MAX_RECORD_SIZE + 4 < 2 ^ 64"
  obtains (stored) c l' where "append_log hash r l = (Ok (lg_next_offset l), l')"
      "log_rep hash (hist @ [(stored_of r (lg_next_offset l), c)]) low l'" "length c \<le> MAX_RECORD_SIZE + 4"
  | (known) off where "append_log hash r l = (Ok off, l)" "lr_producer r \<noteq> None"
  | (refused) e where "append_log hash r l = (Err e, l)"
proof (cases "producer_duplicate (lg_producer_state l) r")
  case (Ok dup)
  show ?thesis
  proof (cases dup)
    case (Some off)
    have "lr_producer r \<noteq> None" using Ok Some by (auto simp: producer_duplicate_def split: option.splits)
    with Ok Some known show ?thesis by (simp add: append_log_def)
  next
    case None
    show ?thesis
    proof (cases "encode_record hash r (lg_next_offset l)")
      case Enc: (Ok c)
      have "producer_ok (lg_producer_state l) (lr_producer r)"
        using Ok None by (simp add: producer_duplicate_None)
      from append_new_rep [OF rep Enc encode_record_room [OF Enc fits] this] stored encode_record_length [OF Enc]
      show ?thesis using Ok None by (auto simp: append_log_def)
    qed (use Ok None refused encode_record_not_Panic in \<open>auto simp: append_log_def append_new_def Let_def\<close>)
  qed
qed (use refused producer_duplicate_not_Panic in \<open>auto simp: append_log_def\<close>)

lemma append_log_view:
  assumes "log_view hash hist low l" and "log_room (Suc n) l" and "append_log hash r l = (res, l')"
  shows "res \<noteq> Panic \<and> log_room n l' \<and> (\<exists>ext. log_view hash (hist @ ext) low l')"
proof -
  note v = log_viewD [OF assms(1,2)]
  have b: "length (bytes_of hist) \<le> length hist * (MAX_RECORD_SIZE + 4)"
    using assms(1) by (simp add: log_view_def)
  from v(4) have "length (bytes_of hist) + MAX_RECORD_SIZE + 4 < 2 ^ 64" by simp
  from v(1) this show ?thesis
  proof (cases rule: append_log_cases [where r = r])
    case (stored c l1)
    then have l1: "res = Ok (lg_next_offset l)" "l1 = l'" using assms(3) by auto
    have "unat (lg_next_offset l') = Suc (length hist)" using log_repD(4) [OF stored(2)] l1 by simp
    moreover have "log_view hash (hist @ [(stored_of r (lg_next_offset l), c)]) low l'"
      using stored(2,3) b l1 by (simp add: log_view_def)
    ultimately show ?thesis using v(2,3) l1 by (auto simp: log_room_def)
  next
    case (known off)
    then show ?thesis using assms v(2,3) by (auto simp: log_room_def intro: exI [of _ "[]"])
  next
    case (refused e)
    then show ?thesis using assms v(2,3) by (auto simp: log_room_def intro: exI [of _ "[]"])
  qed
qed

lemma append_log_fine:
  assumes "log_fine hash l" and "log_room (Suc n) l" and "append_log hash r l = (res, l')"
  shows "res \<noteq> Panic" "log_fine hash l'" "log_room n l'" "log_extends hash l l'"
  using assms append_log_view [OF _ assms(2,3)] unfolding log_fine_def log_extends_def by blast+

lemma append_log_accepts:
  assumes "log_fine hash l" and "log_room (Suc n) l" and "replica_record r"
  shows "\<exists>l'. append_log hash r l = (Ok (lg_next_offset l), l')"
proof -
  obtain hist low where v: "log_view hash hist low l" using assms(1) by (auto simp: log_fine_def)
  note vd = log_viewD [OF v assms(2)]
  from append_replica_next [OF vd(1) vd(2) [symmetric] assms(3)] vd(4) show ?thesis
    by (auto simp: append_replica_def)
qed

lemma read_log_fine: "log_fine hash l \<Longrightarrow> read_log hash l offset max_bytes \<noteq> Panic"
  using read_log_spec [of hash _ _ l max_bytes offset]
  by (cases "max_bytes = 0") (auto simp: log_fine_def log_view_def read_log_def)

lemma append_replica_fine:
  assumes "log_fine hash l" and "log_room (Suc n) l" and "append_replica hash offset r l = (res, l')"
  shows "res \<noteq> Panic" "log_fine hash l'" "log_room n l'" "log_extends hash l l'"
proof -
  have room: "log_room n l" using assms(2) by (simp add: log_room_def)
  have "res \<noteq> Panic \<and> log_fine hash l' \<and> log_room n l' \<and> log_extends hash l l'"
  proof (cases "offset = lg_next_offset l")
    case True
    with assms(3) have "append_log hash r l = (res, l')" by (simp add: append_replica_def)
    from append_log_fine [OF assms(1,2) this] show ?thesis by blast
  next
    case False
    then have "l' = l \<and> res \<noteq> Panic"
      using assms(3) read_log_fine [OF assms(1), of offset MAX_RECORD_SIZE]
      by (cases "read_log hash l offset MAX_RECORD_SIZE"; 
          cases "List.find (\<lambda>r. sr_offset r = offset) (case read_log hash l offset MAX_RECORD_SIZE of Ok rs \<Rightarrow> rs)")
         (auto simp: append_replica_def split: if_splits)
    with assms(1) room show ?thesis by simp
  qed
  then show "res \<noteq> Panic" "log_fine hash l'" "log_room n l'" "log_extends hash l l'" by blast+
qed

section \<open>Maintenance\<close>

lemma append_all_fine:
  assumes "log_fine hash l" and "log_room (length rs + n) l" and "append_all hash rs l = (res, l')"
  shows "res \<noteq> Panic \<and> log_fine hash l' \<and> log_room n l'"
  using assms
proof (induction rs arbitrary: l)
  case (Cons r rs)
  obtain res1 l1 where a: "append_log hash (record_of_stored r) l = (res1, l1)" by fastforce
  note f = append_log_fine [OF Cons.prems(1) _ a, of "length rs + n"]
  show ?case
  proof (cases res1)
    case (Ok off)
    with Cons.IH [of l1] f a Cons.prems show ?thesis by auto
  next
    case (Err e)
    with f a Cons.prems show ?thesis by (auto simp: log_room_def)
  next
    case Panic
    with f a Cons.prems show ?thesis by auto
  qed
qed auto

lemma truncate_to_fine:
  assumes "log_fine hash l" and "log_room n l" and "truncate_to hash offset l = (res, l')"
  shows "res \<noteq> Panic" "log_fine hash l'" "log_room n l'"
proof -
  obtain hist low where v: "log_view hash hist low l" using assms(1) by (auto simp: log_fine_def)
  note vd = log_viewD [OF v assms(2)]
  have "res \<noteq> Panic \<and> log_fine hash l' \<and> log_room n l'"
  proof (cases "unat offset < length hist")
    case False
    then have "\<not> offset < lg_next_offset l" using vd(2) by (simp add: word_less_nat_alt)
    then have "l' = l \<and> res \<noteq> Panic"
      using assms(3) by (auto simp: truncate_to_def split: if_splits)
    with assms show ?thesis by simp
  next
    case True
    define rs where "rs = map fst (take (unat offset - low) (drop low hist))"
    obtain l1 where l1: "truncate_to hash offset l = append_all hash rs l1" "log_rep hash [] 0 l1"
      using truncate_to_restart [OF vd(1) True rs_def] by blast
    have "log_fine hash l1" using l1(2) by (auto simp: log_fine_def log_view_def intro!: exI [of _ "[]"])
    moreover have "log_room (length rs + n) l1"
      using log_repD(4) [OF l1(2)] vd(3) by (simp add: log_room_def rs_def)
    ultimately show ?thesis using append_all_fine l1(1) assms(3) by metis
  qed
  then show "res \<noteq> Panic" "log_fine hash l'" "log_room n l'" by blast+
qed

lemma log_room_bytes:
  "log_view hash hist low l \<Longrightarrow> log_room n l \<Longrightarrow> length (bytes_of hist) < 2 ^ 64"
proof -
  assume v: "log_view hash hist low l" and "log_room n l"
  then have "length hist * (MAX_RECORD_SIZE + 4) \<le> log_capacity * (MAX_RECORD_SIZE + 4)"
    using log_viewD(3) by (intro mult_le_mono1) force
  also have "\<dots> \<le> 2 ^ 64 - 1" unfolding log_capacity_def by (rule div_times_less_eq_dividend)
  finally show ?thesis using v by (simp add: log_view_def)
qed

lemma apply_retention_fine:
  assumes "log_fine hash l" and "log_room n l" and "apply_retention elapsed mb ma l = (res, l')"
  shows "\<exists>k. res = Ok k" "log_fine hash l'" "log_room n l'"
proof -
  obtain hist low where v: "log_view hash hist low l" using assms(1) by (auto simp: log_fine_def)
  from apply_retention_rep [OF log_viewD(1) [OF v assms(2)] log_room_bytes [OF v assms(2)], of elapsed mb ma]
  obtain k low' where r: "res = Ok k" "log_rep hash hist low' l'" using assms(3) by auto
  then show "\<exists>k. res = Ok k" by blast
  show "log_fine hash l'" using r(2) v by (auto simp: log_fine_def log_view_def)
  show "log_room n l'"
    using log_repD(4) [OF r(2)] log_viewD(3) [OF v assms(2)] by (simp add: log_room_def)
qed

lemma log_size_fine:
  assumes "log_fine hash l" and "log_room n l"
  shows "\<exists>b. log_size_bytes (lg_segments l) = Ok b"
proof -
  obtain b l' where "apply_retention (\<lambda>_. None) None None l = (Ok b, l')"
    using apply_retention_fine(1) [OF assms] by (metis surj_pair)
  then show ?thesis by (auto simp: apply_retention_def step_bind_eq_Ok)
qed

section \<open>Reading back\<close>

lemma read_log_first:
  assumes "log_rep hash hist low l" and "low \<le> unat offset" and "unat offset < length hist" and "max_bytes \<noteq> 0"
  shows "\<exists>rest. read_log hash l offset max_bytes = Ok (fst (hist ! unat offset) # rest)"
proof -
  note rd = log_repD [OF assms(1)]
  have "entries_ok hash (length (take low hist)) (drop low hist)"
    using rd(1) entries_ok_append [of hash 0 "take low hist" "drop low hist"] by simp
  then have "filter (\<lambda>(r, c). offset \<le> sr_offset r) (drop low hist) = drop (unat offset) hist"
    using assms(2) rd(5) by (simp add: filter_from_offset)
  then have "read_spec offset max_bytes (drop low hist) =
      take_budget max_bytes 0 (hist ! unat offset # drop (Suc (unat offset)) hist)"
    using assms(3) by (simp add: read_spec_def Cons_nth_drop_Suc)
  then show ?thesis
    using read_log_spec [OF assms(1,4), of offset] by (cases "hist ! unat offset") auto
qed

text \<open>A record that was stored is what a read from its offset returns first, also after more
  appends.\<close>

lemma append_log_readable:
  assumes "log_fine hash l" and "log_room (Suc n) l" and "append_log hash r l = (Ok off, l1)"
    and "lr_producer r = None" and "log_extends hash l1 l2" and "max_bytes \<noteq> 0"
  shows "\<exists>rest. read_log hash l2 off max_bytes = Ok (stored_of r off # rest)"
proof -
  obtain hist low where v: "log_view hash hist low l" using assms(1) by (auto simp: log_fine_def)
  note vd = log_viewD [OF v assms(2)]
  have fits: "length (bytes_of hist) + MAX_RECORD_SIZE + 4 < 2 ^ 64" using vd(4) by simp
  from vd(1) fits obtain c where c: "off = lg_next_offset l"
    "log_rep hash (hist @ [(stored_of r off, c)]) low l1" "length c \<le> MAX_RECORD_SIZE + 4"
    by (cases rule: append_log_cases [where r = r]) (use assms(3,4) in auto)
  have "log_view hash (hist @ [(stored_of r off, c)]) low l1"
    using c v by (simp add: log_view_def)
  with assms(5) obtain ext where "log_view hash ((hist @ [(stored_of r off, c)]) @ ext) low l2"
    unfolding log_extends_def by blast
  then have rep: "log_rep hash (hist @ (stored_of r off, c) # ext) low l2" by (simp add: log_view_def)
  have "low \<le> unat off" "unat off = length hist" using c(1) vd(2) log_repD(5) [OF vd(1)] by auto
  with read_log_first [OF rep _ _ assms(6), of off] show ?thesis by simp
qed

end
