(* ===== verification/Storage_Worker.thy ===== *)
theory Storage_Worker
  imports Log_Service Leadership
begin

text \<open>
  The storage worker of \<open>crates/broker/src/lib.rs\<close> (lines 2205 to 2806) and the partition discovery of
  \<open>crates/storage/src/lib.rs\<close>: one thread that owns all partition logs and executes the
  storage commands one at a time.  The data directory is a list of partition directories,
  addressed by topic and by the name of the partition directory; a log that is open
  carries its own directory.  The CRC-32 of \<open>crc32fast\<close>, used for records and for routing keys,
  is the parameter \<open>hash\<close>; the wall clock and file ages are arguments.  Metrics have
  no influence on the worker and are modelled elsewhere.
\<close>

section \<open>State\<close>

record storage_settings =
  st_max_segment_bytes :: u64
  st_index_interval_bytes :: u64
  st_default_partition_count :: u32
  st_retention_bytes :: "u64 option"
  st_retention_age :: "nat option"
  st_auto_create_topics :: bool

type_synonym partition_key = "string \<times> u32"
type_synonym partition_logs = "(partition_key \<times> partition_log) list"

record storage_worker =
  sw_disk :: "((string \<times> string) \<times> dir) list"
  sw_meta :: "(string \<times> string) list"
  sw_logs :: partition_logs
  sw_topics :: "(string \<times> u32) list"
  sw_round_robin :: "(string \<times> u32) list"

record append_input =
  ai_topic :: string
  ai_partition :: "u32 option"
  ai_key :: bytes
  ai_value :: bytes
  ai_ack_mode :: ack_mode
  ai_producer :: "producer_id option"

record batch_append_input =
  bi_topic :: string
  bi_partition :: "u32 option"
  bi_records :: "batch_record list"
  bi_ack_mode :: ack_mode

record partition_snapshot =
  sn_topic :: string
  sn_partition :: u32
  sn_high_watermark :: u64
  sn_log_end_offset :: u64
  sn_low_watermark :: u64
  sn_log_size_bytes :: u64
  sn_segments :: nat

type_synonym 'a worker_result = "('a, storage_error) outcome \<times> storage_worker"

definition put_log :: "partition_key \<Rightarrow> partition_log \<Rightarrow> storage_worker \<Rightarrow> storage_worker" where
  "put_log key log w = w\<lparr>sw_logs := AList.update key log (sw_logs w)\<rparr>"

section \<open>Topics\<close>

text \<open>\<open>PartitionLog::open\<close> in the data directory: the partition directory is made once the
  arguments are valid.\<close>

definition open_partition ::
    "(bytes \<Rightarrow> u32) \<Rightarrow> storage_settings \<Rightarrow> string \<Rightarrow> u32 \<Rightarrow> storage_worker \<Rightarrow> partition_log worker_result" where
  "open_partition hash settings topic part w =
    (let name = (topic, show_nat (unat part));
         d = (case map_of (sw_disk w) name of None \<Rightarrow> [] | Some d \<Rightarrow> d) in
     case open_log hash topic (st_max_segment_bytes settings) (st_index_interval_bytes settings) d of
       (res, d') \<Rightarrow>
         (res, if validate_log_topic topic = Ok () \<and> st_max_segment_bytes settings \<noteq> 0 \<and>
                  st_index_interval_bytes settings \<noteq> 0
               then w\<lparr>sw_disk := AList.update name d' (sw_disk w)\<rparr> else w))"

definition persist_topic_metadata :: "string \<Rightarrow> u32 \<Rightarrow> storage_worker \<Rightarrow> storage_worker" where
  "persist_topic_metadata topic partitions w =
    w\<lparr>sw_meta := AList.update topic (''partitions='' @ show_nat (unat partitions) @ [newline]) (sw_meta w)\<rparr>"

fun create_partitions ::
    "(bytes \<Rightarrow> u32) \<Rightarrow> storage_settings \<Rightarrow> string \<Rightarrow> u32 list \<Rightarrow> storage_worker \<Rightarrow> unit worker_result" where
  "create_partitions hash settings topic [] w = (Ok (), w)"
| "create_partitions hash settings topic (part # parts) w =
    (if map_of (sw_logs w) (topic, part) \<noteq> None then create_partitions hash settings topic parts w
     else step_bind (open_partition hash settings topic part w) (\<lambda>log w.
       create_partitions hash settings topic parts (put_log (topic, part) log w)))"

definition bare_topic :: "string \<Rightarrow> u32 \<Rightarrow> topic_metadata" where
  "bare_topic topic partitions = \<lparr>tm_topic = topic, tm_partitions = partitions, tm_leaders = [],
     tm_leader_epochs = [], tm_high_watermarks = []\<rparr>"

definition create_topic ::
    "(bytes \<Rightarrow> u32) \<Rightarrow> storage_settings \<Rightarrow> string \<Rightarrow> u32 \<Rightarrow> storage_worker \<Rightarrow> topic_metadata worker_result" where
  "create_topic hash settings topic partitions w =
    (if partitions = 0 then (Err storage_error.InvalidTopic, w)
     else if map_of (sw_topics w) topic \<noteq> None then (Err TopicAlreadyExists, w)
     else step_bind (create_partitions hash settings topic (partition_range partitions) w) (\<lambda>_ w.
       let w = persist_topic_metadata topic partitions w in
       (Ok (bare_topic topic partitions), w\<lparr>sw_topics := AList.update topic partitions (sw_topics w)\<rparr>)))"

definition worker_ensure_topic ::
    "(bytes \<Rightarrow> u32) \<Rightarrow> storage_settings \<Rightarrow> string \<Rightarrow> storage_worker \<Rightarrow> u32 worker_result" where
  "worker_ensure_topic hash settings topic w =
    (case map_of (sw_topics w) topic of
       Some partitions \<Rightarrow> (Ok partitions, w)
     | None \<Rightarrow>
         if \<not> st_auto_create_topics settings then (Err UnknownTopic, w)
         else step_bind (create_topic hash settings topic (st_default_partition_count settings) w)
           (\<lambda>metadata w. (Ok (tm_partitions metadata), w)))"

definition storage_topic_metadata :: "storage_worker \<Rightarrow> topic_metadata list" where
  "storage_topic_metadata w = sort_key tm_topic (map (\<lambda>(topic, n). bare_topic topic n) (sw_topics w))"

section \<open>Appending\<close>

definition select_partition ::
    "(bytes \<Rightarrow> u32) \<Rightarrow> u32 \<Rightarrow> string \<Rightarrow> bytes option \<Rightarrow> storage_worker \<Rightarrow> u32 worker_result" where
  "select_partition hash count topic key w =
    (if count = 0 then (Panic, w)
     else case key of
       Some key \<Rightarrow> (Ok (hash key mod count), w)
     | None \<Rightarrow>
         let part = (case map_of (sw_round_robin w) topic of None \<Rightarrow> 0 | Some n \<Rightarrow> n) in
         (case checked_add part 1 of
            None \<Rightarrow> (Panic, w)
          | Some n \<Rightarrow> (Ok part, w\<lparr>sw_round_robin := AList.update topic (n mod count) (sw_round_robin w)\<rparr>)))"

text \<open>The wall clock in milliseconds since the epoch, \<open>None\<close> before it.\<close>

definition timestamp :: "nat option \<Rightarrow> (u64, storage_error) outcome" where
  "timestamp clock = try_bind (ok_or clock InvalidTimestamp) (\<lambda>ms. ok_or (try_from ms) InvalidTimestamp)"

definition routing_key :: "append_input \<Rightarrow> bytes option" where
  "routing_key input = (if ai_key input = [] then map_option (\<lambda>p. as_bytes (pid_id p)) (ai_producer input)
     else Some (ai_key input))"

definition choose_partition ::
    "(bytes \<Rightarrow> u32) \<Rightarrow> u32 \<Rightarrow> append_input \<Rightarrow> storage_worker \<Rightarrow> u32 worker_result" where
  "choose_partition hash count input w =
    (case ai_partition input of
       Some part \<Rightarrow> if count \<le> part then (Err (UnknownPartition part), w) else (Ok part, w)
     | None \<Rightarrow> select_partition hash count (ai_topic input) (routing_key input) w)"

definition input_record :: "append_input \<Rightarrow> u64 \<Rightarrow> log_record" where
  "input_record input timestamp_ms = \<lparr>lr_key = (if ai_key input = [] then None else Some (ai_key input)),
     lr_value = ai_value input, lr_timestamp_ms = timestamp_ms, lr_producer = ai_producer input\<rparr>"

definition append_to_partition ::
    "(bytes \<Rightarrow> u32) \<Rightarrow> nat option \<Rightarrow> append_input \<Rightarrow> u32 \<Rightarrow> storage_worker \<Rightarrow> produce_ack worker_result" where
  "append_to_partition hash clock input part w =
    (let key = (ai_topic input, part) in
     step_bind (ok_or (map_of (sw_logs w) key) storage_error.InvalidTopic, w) (\<lambda>log w.
     step_bind (timestamp clock, w) (\<lambda>timestamp_ms w.
     case append_log hash (input_record input timestamp_ms) log of (res, log) \<Rightarrow>
     step_bind (res, put_log key log w) (\<lambda>offset w.
     (Ok \<lparr>pa_partition = part, pa_offset = offset\<rparr>, w)))))"

definition append_record ::
    "(bytes \<Rightarrow> u32) \<Rightarrow> storage_settings \<Rightarrow> nat option \<Rightarrow> append_input \<Rightarrow> storage_worker
     \<Rightarrow> produce_ack worker_result" where
  "append_record hash settings clock input w =
    step_bind (worker_ensure_topic hash settings (ai_topic input) w) (\<lambda>count w.
    step_bind (choose_partition hash count input w) (\<lambda>part w.
    append_to_partition hash clock input part w))"

definition batch_input :: "batch_append_input \<Rightarrow> batch_record \<Rightarrow> append_input" where
  "batch_input input r = \<lparr>ai_topic = bi_topic input, ai_partition = bi_partition input,
     ai_key = br_key r, ai_value = br_payload r, ai_ack_mode = Leader, ai_producer = None\<rparr>"

fun append_inputs ::
    "(bytes \<Rightarrow> u32) \<Rightarrow> storage_settings \<Rightarrow> nat option \<Rightarrow> append_input list \<Rightarrow> storage_worker
     \<Rightarrow> produce_ack list worker_result" where
  "append_inputs hash settings clock [] w = (Ok [], w)"
| "append_inputs hash settings clock (input # inputs) w =
    step_bind (append_record hash settings clock input w) (\<lambda>ack w.
    step_bind (append_inputs hash settings clock inputs w) (\<lambda>acks w. (Ok (ack # acks), w)))"

text \<open>The flush loop of a durable batch changes no data, but it looks up every log it flushes.\<close>

fun sync_partitions :: "string \<Rightarrow> u32 list \<Rightarrow> storage_worker \<Rightarrow> (unit, storage_error) outcome" where
  "sync_partitions topic [] w = Ok ()"
| "sync_partitions topic (part # parts) w =
    try_bind (ok_or (map_of (sw_logs w) (topic, part)) storage_error.InvalidTopic) (\<lambda>_.
    sync_partitions topic parts w)"

definition append_batch_records ::
    "(bytes \<Rightarrow> u32) \<Rightarrow> storage_settings \<Rightarrow> nat option \<Rightarrow> batch_append_input \<Rightarrow> storage_worker
     \<Rightarrow> produce_ack list worker_result" where
  "append_batch_records hash settings clock input w =
    step_bind (append_inputs hash settings clock (map (batch_input input) (bi_records input)) w) (\<lambda>acks w.
    step_bind (if bi_ack_mode input = Durable
        then sync_partitions (bi_topic input) (remdups_adj (sort (map pa_partition acks))) w
        else Ok (), w) (\<lambda>_ w.
    (Ok acks, w)))"

definition replica_input :: "replicate_record \<Rightarrow> log_record" where
  "replica_input r = \<lparr>lr_key = rr_key r, lr_value = rr_value r, lr_timestamp_ms = rr_timestamp_ms r,
     lr_producer = None\<rparr>"

definition worker_append_replica ::
    "(bytes \<Rightarrow> u32) \<Rightarrow> replicate_record \<Rightarrow> storage_worker \<Rightarrow> u64 worker_result" where
  "worker_append_replica hash replicated w =
    step_bind (ok_or (map_of (sw_topics w) (rr_topic replicated)) UnknownTopic, w) (\<lambda>count w.
    if count \<le> rr_partition replicated then (Err (UnknownPartition (rr_partition replicated)), w)
    else let key = (rr_topic replicated, rr_partition replicated) in
    step_bind (ok_or (map_of (sw_logs w) key) storage_error.InvalidTopic, w) (\<lambda>log w.
    case append_replica hash (rr_offset replicated) (replica_input replicated) log of (res, log) \<Rightarrow>
    step_bind (res, put_log key log w) (\<lambda>_ w.
    (Ok (lg_next_offset log), w))))"

section \<open>Reading and maintenance\<close>

definition fetched_of :: "stored_record \<Rightarrow> fetched_record" where
  "fetched_of r = \<lparr>fd_offset = sr_offset r, fd_timestamp_ms = sr_timestamp_ms r, fd_key = sr_key r,
     fd_value = sr_value r\<rparr>"

definition read_records ::
    "(bytes \<Rightarrow> u32) \<Rightarrow> storage_settings \<Rightarrow> string \<Rightarrow> u32 \<Rightarrow> u64 \<Rightarrow> u32 \<Rightarrow> storage_worker
     \<Rightarrow> fetched_record list worker_result" where
  "read_records hash settings topic part offset max_bytes w =
    step_bind (worker_ensure_topic hash settings topic w) (\<lambda>count w.
    step_bind (if map_of (sw_logs w) (topic, part) = None then
        (if count \<le> part then (Err (UnknownPartition part), w)
         else step_bind (open_partition hash settings topic part w) (\<lambda>log w.
           (Ok (), put_log (topic, part) log w)))
      else (Ok (), w)) (\<lambda>_ w.
    step_bind (ok_or (map_of (sw_logs w) (topic, part)) storage_error.InvalidTopic, w) (\<lambda>log w.
    (map_ok (map fetched_of) (read_log hash log offset (unat max_bytes)), w))))"

definition partition_offset :: "storage_worker \<Rightarrow> string \<Rightarrow> u32 \<Rightarrow> (u64, storage_error) outcome" where
  "partition_offset w topic part =
    map_ok lg_next_offset (ok_or (map_of (sw_logs w) (topic, part)) (UnknownPartition part))"

definition truncate_partition ::
    "(bytes \<Rightarrow> u32) \<Rightarrow> string \<Rightarrow> u32 \<Rightarrow> u64 \<Rightarrow> storage_worker \<Rightarrow> unit worker_result" where
  "truncate_partition hash topic part offset w =
    step_bind (ok_or (map_of (sw_logs w) (topic, part)) (UnknownPartition part), w) (\<lambda>log w.
    case truncate_to hash offset log of (res, log) \<Rightarrow> (res, put_log (topic, part) log w))"

definition snapshot_log :: "partition_key \<times> partition_log \<Rightarrow> (partition_snapshot, storage_error) outcome" where
  "snapshot_log e = (case e of ((topic, part), log) \<Rightarrow>
    map_ok (\<lambda>bytes. \<lparr>sn_topic = topic, sn_partition = part, sn_high_watermark = lg_next_offset log,
      sn_log_end_offset = lg_next_offset log, sn_low_watermark = low_watermark log,
      sn_log_size_bytes = bytes, sn_segments = length (lg_segments log)\<rparr>)
      (log_size_bytes (lg_segments log)))"

fun snapshot_list ::
    "partition_logs \<Rightarrow> (partition_snapshot list, storage_error) outcome" where
  "snapshot_list [] = Ok []"
| "snapshot_list (e # es) = try_bind (snapshot_log e) (\<lambda>s. map_ok ((#) s) (snapshot_list es))"

definition snapshot_logs :: "storage_worker \<Rightarrow> (partition_snapshot list, storage_error) outcome" where
  "snapshot_logs w = map_ok (sort_key (\<lambda>s. (sn_topic s, sn_partition s))) (snapshot_list (sw_logs w))"

text \<open>Retention runs over all logs; a failure is logged and the next log is taken.  The result
  is the number of segments removed, which goes to the metrics.\<close>

fun retain_logs ::
    "(partition_key \<Rightarrow> string \<Rightarrow> nat option) \<Rightarrow> storage_settings \<Rightarrow> partition_key list \<Rightarrow> storage_worker
     \<Rightarrow> nat worker_result" where
  "retain_logs elapsed settings [] w = (Ok 0, w)"
| "retain_logs elapsed settings (key # keys) w =
    (case map_of (sw_logs w) key of
       None \<Rightarrow> retain_logs elapsed settings keys w
     | Some log \<Rightarrow>
         (case apply_retention (elapsed key) (st_retention_bytes settings) (st_retention_age settings) log of
            (Ok removed, log) \<Rightarrow>
              step_bind (retain_logs elapsed settings keys (put_log key log w)) (\<lambda>n w. (Ok (removed + n), w))
          | (Err _, log) \<Rightarrow> retain_logs elapsed settings keys (put_log key log w)
          | (Panic, log) \<Rightarrow> (Panic, put_log key log w)))"

definition worker_apply_retention ::
    "(partition_key \<Rightarrow> string \<Rightarrow> nat option) \<Rightarrow> storage_settings \<Rightarrow> storage_worker \<Rightarrow> nat worker_result" where
  "worker_apply_retention elapsed settings w = retain_logs elapsed settings (map fst (sw_logs w)) w"

section \<open>Recovery\<close>

fun discover_dirs :: "(string \<times> string) list \<Rightarrow> (partition_key list, storage_error) outcome" where
  "discover_dirs [] = Ok []"
| "discover_dirs ((topic, name) # dirs) =
    (if take 2 topic = ''__'' then discover_dirs dirs
     else try_bind (validate_log_topic topic) (\<lambda>_.
       try_bind (ok_or (parse_unsigned name) InvalidPartitionName) (\<lambda>part.
       map_ok ((#) (topic, part)) (discover_dirs dirs))))"

definition discover_partitions ::
    "((string \<times> string) \<times> dir) list \<Rightarrow> (partition_key list, storage_error) outcome" where
  "discover_partitions disk = map_ok sort (discover_dirs (map fst disk))"

fun recover_logs ::
    "(bytes \<Rightarrow> u32) \<Rightarrow> storage_settings \<Rightarrow> partition_key list \<Rightarrow> storage_worker \<Rightarrow> unit worker_result" where
  "recover_logs hash settings [] w = (Ok (), w)"
| "recover_logs hash settings ((topic, part) # keys) w =
    step_bind (open_partition hash settings topic part w) (\<lambda>log w.
    case checked_add part 1 of
      None \<Rightarrow> (Panic, put_log (topic, part) log w)
    | Some n \<Rightarrow>
        recover_logs hash settings keys ((put_log (topic, part) log w)\<lparr>sw_topics :=
          AList.update topic (case map_of (sw_topics w) topic of None \<Rightarrow> n | Some count \<Rightarrow> max count n)
            (sw_topics w)\<rparr>))"

definition recover_storage ::
    "(bytes \<Rightarrow> u32) \<Rightarrow> storage_settings \<Rightarrow> ((string \<times> string) \<times> dir) list \<Rightarrow> (string \<times> string) list
     \<Rightarrow> unit worker_result" where
  "recover_storage hash settings disk meta =
    (let w = \<lparr>sw_disk = disk, sw_meta = meta, sw_logs = [], sw_topics = [], sw_round_robin = []\<rparr> in
     step_bind (discover_partitions disk, w) (\<lambda>identities w.
     step_bind (recover_logs hash settings identities w) (\<lambda>_ w.
     (Ok (), fold (\<lambda>(topic, n). persist_topic_metadata topic n) (sw_topics w) w))))"

section \<open>Commands\<close>

datatype storage_command =
    CmdCreateTopic string u32
  | CmdListTopics
  | CmdAppend append_input
  | CmdAppendBatch batch_append_input
  | CmdRead string u32 u64 u32
  | CmdReplicate replicate_record
  | CmdPartitionOffset string u32
  | CmdTruncate string u32 u64
  | CmdSnapshot
  | CmdApplyRetention

datatype storage_reply =
    RepTopic topic_metadata
  | RepTopics "topic_metadata list"
  | RepAck produce_ack
  | RepAcks "produce_ack list"
  | RepRecords "fetched_record list"
  | RepOffset u64
  | RepUnit
  | RepSnapshot "partition_snapshot list"

definition reply :: "('a \<Rightarrow> storage_reply) \<Rightarrow> 'a worker_result \<Rightarrow> storage_reply worker_result" where
  "reply f r = (map_ok f (fst r), snd r)"

text \<open>One turn of the command loop of \<open>run_storage_worker\<close>.\<close>

fun run_command ::
    "(bytes \<Rightarrow> u32) \<Rightarrow> storage_settings \<Rightarrow> nat option \<Rightarrow> (partition_key \<Rightarrow> string \<Rightarrow> nat option)
     \<Rightarrow> storage_command \<Rightarrow> storage_worker \<Rightarrow> storage_reply worker_result" where
  "run_command hash settings clock elapsed (CmdCreateTopic topic partitions) w =
    reply RepTopic (create_topic hash settings topic partitions w)"
| "run_command hash settings clock elapsed CmdListTopics w =
    reply RepTopics (Ok (storage_topic_metadata w), w)"
| "run_command hash settings clock elapsed (CmdAppend input) w =
    reply RepAck (append_record hash settings clock input w)"
| "run_command hash settings clock elapsed (CmdAppendBatch input) w =
    reply RepAcks (append_batch_records hash settings clock input w)"
| "run_command hash settings clock elapsed (CmdRead topic part offset max_bytes) w =
    reply RepRecords (read_records hash settings topic part offset max_bytes w)"
| "run_command hash settings clock elapsed (CmdReplicate r) w =
    reply RepOffset (worker_append_replica hash r w)"
| "run_command hash settings clock elapsed (CmdPartitionOffset topic part) w =
    reply RepOffset (partition_offset w topic part, w)"
| "run_command hash settings clock elapsed (CmdTruncate topic part offset) w =
    reply (\<lambda>_. RepUnit) (truncate_partition hash topic part offset w)"
| "run_command hash settings clock elapsed CmdSnapshot w =
    reply RepSnapshot (snapshot_logs w, w)"
| "run_command hash settings clock elapsed CmdApplyRetention w =
    reply (\<lambda>_. RepUnit) (worker_apply_retention elapsed settings w)"

section \<open>Invariant\<close>

definition settings_ok :: "storage_settings \<Rightarrow> bool" where
  "settings_ok settings \<longleftrightarrow> st_max_segment_bytes settings \<noteq> 0 \<and> st_index_interval_bytes settings \<noteq> 0"

text \<open>Every open log is in good order, every topic has a log for each of its partitions, what
  is on disk is open, and the round-robin counters are partitions of their topic.\<close>

definition worker_ok :: "(bytes \<Rightarrow> u32) \<Rightarrow> storage_worker \<Rightarrow> bool" where
  "worker_ok hash w \<longleftrightarrow> distinct (map fst (sw_logs w)) \<and>
     (\<forall>topic p log. map_of (sw_logs w) (topic, p) = Some log \<longrightarrow> log_fine hash log) \<and>
     (\<forall>topic n. map_of (sw_topics w) topic = Some n \<longrightarrow>
        n \<noteq> 0 \<and> (\<forall>p < n. map_of (sw_logs w) (topic, p) \<noteq> None)) \<and>
     (\<forall>topic p. map_of (sw_logs w) (topic, p) = None \<longrightarrow> map_of (sw_disk w) (topic, show_nat (unat p)) = None) \<and>
     (\<forall>topic k. map_of (sw_round_robin w) topic = Some k \<longrightarrow>
        (\<exists>n. map_of (sw_topics w) topic = Some n \<and> k < n))"

definition worker_room :: "nat \<Rightarrow> storage_worker \<Rightarrow> bool" where
  "worker_room n w \<longleftrightarrow> n \<le> log_capacity \<and>
     (\<forall>topic p log. map_of (sw_logs w) (topic, p) = Some log \<longrightarrow> log_room n log)"

definition worker_extends :: "(bytes \<Rightarrow> u32) \<Rightarrow> storage_worker \<Rightarrow> storage_worker \<Rightarrow> bool" where
  "worker_extends hash w w' \<longleftrightarrow>
     (\<forall>topic n. map_of (sw_topics w) topic = Some n \<longrightarrow> map_of (sw_topics w') topic = Some n) \<and>
     (\<forall>topic p log. map_of (sw_logs w) (topic, p) = Some log \<longrightarrow>
     (\<exists>log'. map_of (sw_logs w') (topic, p) = Some log' \<and> log_extends hash log log'))"

lemma worker_extends_refl [simp]: "worker_extends hash w w"
  by (simp add: worker_extends_def)

lemma worker_extends_trans:
  "worker_extends hash w w' \<Longrightarrow> worker_extends hash w' w'' \<Longrightarrow> worker_extends hash w w''"
  unfolding worker_extends_def by (meson log_extends_trans)

lemma map_of_put_log [simp]:
  "map_of (sw_logs (put_log k log w)) k' = (if k' = k then Some log else map_of (sw_logs w) k')"
  by (simp add: put_log_def AList.update_conv')

lemma put_log_select [simp]:
  "sw_topics (put_log k log w) = sw_topics w" "sw_disk (put_log k log w) = sw_disk w"
  "sw_round_robin (put_log k log w) = sw_round_robin w" "sw_meta (put_log k log w) = sw_meta w"
  by (simp_all add: put_log_def)

lemma put_log_distinct [simp]:
  "distinct (map fst (sw_logs w)) \<Longrightarrow> distinct (map fst (sw_logs (put_log k log w)))"
  by (simp add: put_log_def AList.distinct_update)

text \<open>Replacing an open log by one in good order.\<close>

lemma put_log_ok:
  assumes "worker_ok hash w" and "map_of (sw_logs w) (topic, p) \<noteq> None" and "log_fine hash log"
  shows "worker_ok hash (put_log (topic, p) log w)"
  using assms unfolding worker_ok_def by auto

lemma put_log_room: "worker_room n w \<Longrightarrow> log_room n log \<Longrightarrow> worker_room n (put_log k log w)"
  by (cases k) (auto simp: worker_room_def)

lemma put_log_extends:
  "map_of (sw_logs w) k = Some log \<Longrightarrow> log_extends hash log log' \<Longrightarrow> worker_extends hash w (put_log k log' w)"
  by (cases k) (auto simp: worker_extends_def)

lemma worker_room_mono: "worker_room n w \<Longrightarrow> m \<le> n \<Longrightarrow> worker_room m w"
  unfolding worker_room_def log_room_def by fastforce

text \<open>Opening a partition that is not open yet: its directory is new.\<close>

lemma open_partition_new:
  assumes "worker_ok hash w" and "map_of (sw_logs w) (topic, p) = None" and "settings_ok settings"
  shows "if validate_log_topic topic = Ok ()
    then open_partition hash settings topic p w =
      (Ok (fresh_log (st_max_segment_bytes settings) (st_index_interval_bytes settings)),
       w\<lparr>sw_disk := AList.update (topic, show_nat (unat p))
          (lg_dir (fresh_log (st_max_segment_bytes settings) (st_index_interval_bytes settings))) (sw_disk w)\<rparr>)
    else \<exists>e. open_partition hash settings topic p w = (Err e, w)"
proof -
  have d: "map_of (sw_disk w) (topic, show_nat (unat p)) = None" using assms(1,2) by (simp add: worker_ok_def)
  show ?thesis
  proof (cases "validate_log_topic topic = Ok ()")
    case True
    with open_log_empty [OF True] assms(3) d show ?thesis
      by (simp add: open_partition_def settings_ok_def)
  next
    case False
    then obtain e where "validate_log_topic topic = Err e"
      by (auto simp: validate_log_topic_def split: if_splits)
    with d show ?thesis by (simp add: open_partition_def open_log_def)
  qed
qed

definition opened_worker :: "storage_settings \<Rightarrow> string \<Rightarrow> u32 \<Rightarrow> storage_worker \<Rightarrow> storage_worker" where
  "opened_worker settings topic p w =
    (let log = fresh_log (st_max_segment_bytes settings) (st_index_interval_bytes settings) in
     put_log (topic, p) log (w\<lparr>sw_disk := AList.update (topic, show_nat (unat p)) (lg_dir log) (sw_disk w)\<rparr>))"

lemma opened_worker_ok:
  assumes "worker_ok hash w" and "settings_ok settings" and "map_of (sw_logs w) (topic, p) = None"
  shows "worker_ok hash (opened_worker settings topic p w)"
    and "worker_room n w \<Longrightarrow> worker_room n (opened_worker settings topic p w)"
    and "worker_extends hash w (opened_worker settings topic p w)"
    and "map_of (sw_logs (opened_worker settings topic p w)) (topic, p) \<noteq> None"
    and "sw_topics (opened_worker settings topic p w) = sw_topics w"
    and "sw_round_robin (opened_worker settings topic p w) = sw_round_robin w"
proof -
  define log where "log = fresh_log (st_max_segment_bytes settings) (st_index_interval_bytes settings)"
  have f: "log_fine hash log" using assms(2) fresh_log_fine by (auto simp: settings_ok_def log_def)
  have l: "map_of (sw_logs (opened_worker settings topic p w)) k =
      (if k = (topic, p) then Some log else map_of (sw_logs w) k)" for k
    by (simp add: opened_worker_def Let_def log_def put_log_def AList.update_conv')
  show "worker_ok hash (opened_worker settings topic p w)"
    using assms(1) f unfolding worker_ok_def l
    by (auto simp: opened_worker_def Let_def AList.update_conv' show_nat_word_inj split: if_splits)
  show "worker_room n (opened_worker settings topic p w)" if "worker_room n w"
    using that unfolding worker_room_def l
    by (auto simp: log_def log_room_def fresh_log_def)
  show "worker_extends hash w (opened_worker settings topic p w)"
    using assms(3) unfolding worker_extends_def l
    by (auto simp: opened_worker_def Let_def split: if_splits)
qed (simp_all add: opened_worker_def Let_def)

lemma open_partition_put:
  assumes "worker_ok hash w" and "map_of (sw_logs w) (topic, p) = None" and "settings_ok settings"
    and "validate_log_topic topic = Ok ()"
  shows "\<exists>log w1. open_partition hash settings topic p w = (Ok log, w1) \<and>
    put_log (topic, p) log w1 = opened_worker settings topic p w"
  using open_partition_new [OF assms(1-3)] assms(4) by (simp add: opened_worker_def Let_def)

section \<open>Every operation keeps the invariant\<close>

text \<open>The result of an operation that only adds: no panic, the invariant and room for \<open>n\<close> more
  records, and every log extended.\<close>

definition grows :: "(bytes \<Rightarrow> u32) \<Rightarrow> nat \<Rightarrow> storage_worker \<Rightarrow> 'a worker_result \<Rightarrow> bool" where
  "grows hash n w r \<longleftrightarrow> fst r \<noteq> Panic \<and> worker_ok hash (snd r) \<and> worker_room n (snd r) \<and>
     worker_extends hash w (snd r)"

lemma grows_here: "worker_ok hash w \<Longrightarrow> worker_room n w \<Longrightarrow> res \<noteq> Panic \<Longrightarrow> grows hash n w (res, w)"
  by (simp add: grows_def)

lemma grows_bind:
  assumes "grows hash n w r" and "m \<le> n"
    and "\<And>x w'. r = (Ok x, w') \<Longrightarrow> worker_ok hash w' \<Longrightarrow> worker_room n w' \<Longrightarrow> grows hash m w' (f x w')"
  shows "grows hash m w (step_bind r f)"
proof -
  obtain res w' where r: "r = (res, w')" by fastforce
  show ?thesis
  proof (cases res)
    case (Ok x)
    with assms(1,3) r show ?thesis by (auto simp: grows_def intro: worker_extends_trans)
  qed (use assms(1,2) r worker_room_mono in \<open>auto simp: grows_def\<close>)
qed

lemma create_partitions_grows:
  assumes "worker_ok hash w" and "worker_room n w" and "settings_ok settings"
  shows "grows hash n w (create_partitions hash settings topic parts w) \<and>
    (fst (create_partitions hash settings topic parts w) = Ok () \<longrightarrow>
       (\<forall>p \<in> set parts. map_of (sw_logs (snd (create_partitions hash settings topic parts w))) (topic, p) \<noteq> None)) \<and>
    sw_topics (snd (create_partitions hash settings topic parts w)) = sw_topics w \<and>
    sw_round_robin (snd (create_partitions hash settings topic parts w)) = sw_round_robin w"
  using assms
proof (induction parts arbitrary: w)
  case Nil
  then show ?case by (simp add: grows_here)
next
  case (Cons p parts)
  show ?case
  proof (cases "map_of (sw_logs w) (topic, p)")
    case (Some log)
    have "worker_extends hash w (snd (create_partitions hash settings topic parts w))"
      using Cons by (auto simp: grows_def)
    then have "map_of (sw_logs (snd (create_partitions hash settings topic parts w))) (topic, p) \<noteq> None"
      using Some unfolding worker_extends_def by blast
    with Some Cons show ?thesis by simp
  next
    case None
    show ?thesis
    proof (cases "validate_log_topic topic = Ok ()")
      case True
      define w2 where "w2 = opened_worker settings topic p w"
      obtain log w1 where o: "open_partition hash settings topic p w = (Ok log, w1)"
        "put_log (topic, p) log w1 = w2"
        using open_partition_put [OF Cons.prems(1) None Cons.prems(3) True] by (auto simp: w2_def)
      note ok = opened_worker_ok [OF Cons.prems(1,3) None, folded w2_def]
      note ih = Cons.IH [OF ok(1) ok(2) [OF Cons.prems(2)] Cons.prems(3)]
      then have "map_of (sw_logs (snd (create_partitions hash settings topic parts w2))) (topic, p) \<noteq> None"
        using ok(4) unfolding grows_def worker_extends_def by (metis option.exhaust option.distinct(1))
      with ih ok(3,5,6) o None show ?thesis
        by (auto simp: grows_def intro: worker_extends_trans)
    next
      case False
      then obtain e where "open_partition hash settings topic p w = (Err e, w)"
        using open_partition_new [OF Cons.prems(1) None Cons.prems(3)] by auto
      with None Cons.prems show ?thesis by (simp add: grows_here)
    qed
  qed
qed

lemma create_topic_grows:
  assumes "worker_ok hash w" and "worker_room n w" and "settings_ok settings"
  shows "grows hash n w (create_topic hash settings topic partitions w)"
    and "create_topic hash settings topic partitions w = (Ok metadata, w') \<Longrightarrow>
      metadata = bare_topic topic partitions \<and> partitions \<noteq> 0 \<and> map_of (sw_topics w') topic = Some partitions"
proof -
  obtain res w1 where c: "create_partitions hash settings topic (partition_range partitions) w = (res, w1)"
    by fastforce
  note cp = create_partitions_grows [OF assms, of topic "partition_range partitions", unfolded c, simplified]
  show "grows hash n w (create_topic hash settings topic partitions w)"
  proof (cases "partitions = 0 \<or> map_of (sw_topics w) topic \<noteq> None")
    case True
    then show ?thesis using assms by (auto simp: create_topic_def grows_here)
  next
    case False
    show ?thesis
    proof (cases res)
      case (Ok u)
      define w2 where "w2 = (persist_topic_metadata topic partitions w1)\<lparr>sw_topics :=
        AList.update topic partitions (sw_topics (persist_topic_metadata topic partitions w1))\<rparr>"
      have sel: "sw_logs w2 = sw_logs w1" "sw_disk w2 = sw_disk w1" "sw_round_robin w2 = sw_round_robin w1"
        "map_of (sw_topics w2) = (map_of (sw_topics w1))(topic \<mapsto> partitions)"
        by (simp_all add: w2_def persist_topic_metadata_def AList.update_conv')
      have rr: "map_of (sw_round_robin w1) topic = None"
        using cp assms(1) False unfolding worker_ok_def by (metis not_None_eq)
      have "worker_ok hash w2"
        using cp Ok False rr unfolding worker_ok_def grows_def sel set_partition_range
        by (auto split: if_splits)
      moreover have "worker_room n w2" "worker_extends hash w w2"
        using cp False by (auto simp: grows_def worker_room_def worker_extends_def sel)
      ultimately show ?thesis
        using False Ok c by (simp add: create_topic_def grows_def Let_def w2_def)
    qed (use False c cp in \<open>auto simp: create_topic_def grows_def\<close>)
  qed
  show "metadata = bare_topic topic partitions \<and> partitions \<noteq> 0 \<and> map_of (sw_topics w') topic = Some partitions"
    if "create_topic hash settings topic partitions w = (Ok metadata, w')"
    using that by (auto simp: create_topic_def step_bind_eq_Ok Let_def AList.update_conv' split: if_splits)
qed

lemma ensure_topic_grows:
  assumes "worker_ok hash w" and "worker_room n w" and "settings_ok settings"
  shows "grows hash n w (worker_ensure_topic hash settings topic w)"
    and "worker_ensure_topic hash settings topic w = (Ok count, w') \<Longrightarrow> map_of (sw_topics w') topic = Some count"
proof -
  show "grows hash n w (worker_ensure_topic hash settings topic w)"
    using assms create_topic_grows(1) [OF assms, of topic]
    by (auto simp: worker_ensure_topic_def grows_here split: option.splits
        intro!: grows_bind [where n = n and w = w])
  show "map_of (sw_topics w') topic = Some count" if "worker_ensure_topic hash settings topic w = (Ok count, w')"
    using that create_topic_grows(2) [OF assms]
    by (fastforce simp: worker_ensure_topic_def step_bind_eq_Ok bare_topic_def split: option.splits if_splits)
qed

lemma choose_partition_ok:
  assumes "worker_ok hash w" and "worker_room n w" and "map_of (sw_topics w) (ai_topic input) = Some count"
  shows "grows hash n w (choose_partition hash count input w)"
    and "choose_partition hash count input w = (Ok p, w') \<Longrightarrow> p < count \<and> sw_logs w' = sw_logs w \<and> sw_topics w' = sw_topics w"
proof -
  have c: "count \<noteq> 0" using assms(1,3) unfolding worker_ok_def by blast
  define k where "k = (case map_of (sw_round_robin w) (ai_topic input) of None \<Rightarrow> 0 | Some n \<Rightarrow> n)"
  have k: "k < count"
    using assms(1,3) c unfolding worker_ok_def k_def by (fastforce split: option.splits simp: word_neq_0_conv)
  have "unat k + 1 < 4294967296"
    using k unat_u32_lt [of count] unfolding word_less_nat_alt by linarith
  then have k1: "checked_add k 1 = Some (k + 1)" by (simp add: checked_add_def)
  define w' where "w' = w\<lparr>sw_round_robin := AList.update (ai_topic input) ((k + 1) mod count) (sw_round_robin w)\<rparr>"
  have "worker_ok hash w'"
    using assms(1,3) c unfolding worker_ok_def w'_def
    by (auto simp: AList.update_conv' word_mod_less_divisor word_neq_0_conv split: if_splits)
  moreover have "worker_room n w'" "worker_extends hash w w'"
    using assms(2) by (auto simp: w'_def worker_room_def worker_extends_def)
  ultimately show "grows hash n w (choose_partition hash count input w)"
    using assms c k1
    by (auto simp: choose_partition_def select_partition_def grows_here k_def [symmetric] w'_def [symmetric]
        split: option.splits) (simp add: grows_def)
  show "p < count \<and> sw_logs w' = sw_logs w \<and> sw_topics w' = sw_topics w"
    if "choose_partition hash count input w = (Ok p, w')" for w'
    using that k k1 c
    by (cases "ai_partition input"; cases "routing_key input")
       (auto simp: choose_partition_def select_partition_def Let_def k_def [symmetric] word_mod_less_divisor
        word_neq_0_conv not_le split: if_splits)
qed

text \<open>Putting back the log that was just updated.\<close>

lemma put_log_grows:
  assumes "worker_ok hash w" and "worker_room (Suc n) w" and "map_of (sw_logs w) (topic, p) = Some log"
    and "res \<noteq> Panic" "log_fine hash log'" "log_room n log'" "log_extends hash log log'"
  shows "grows hash n w (res, put_log (topic, p) log' w)"
  using assms put_log_ok [OF assms(1), of topic p log'] put_log_room [OF worker_room_mono, of "Suc n" w n log' "(topic, p)"]
    put_log_extends [OF assms(3,7)]
  by (simp add: grows_def)

lemma worker_log:
  "worker_ok hash w \<Longrightarrow> worker_room n w \<Longrightarrow> map_of (sw_logs w) (topic, p) = Some log \<Longrightarrow>
     log_fine hash log \<and> log_room n log"
  unfolding worker_ok_def worker_room_def by blast

lemma timestamp_not_Panic [simp]: "timestamp clock \<noteq> Panic"
  by (auto simp: timestamp_def try_bind_Panic_iff)

lemma append_to_partition_grows:
  assumes "worker_ok hash w" and "worker_room (Suc n) w"
  shows "grows hash n w (append_to_partition hash clock input p w)"
proof -
  have room: "worker_room n w" using assms(2) by (rule worker_room_mono) simp
  show ?thesis
  proof (cases "map_of (sw_logs w) (ai_topic input, p)")
    case None
    then show ?thesis using assms(1) room by (simp add: append_to_partition_def grows_here)
  next
    case (Some log)
    show ?thesis
    proof (cases "timestamp clock")
      case (Ok ts)
      obtain res log' where a: "append_log hash (input_record input ts) log = (res, log')" by fastforce
      from worker_log [OF assms Some] have lf: "log_fine hash log" "log_room (Suc n) log" by auto
      from put_log_grows [OF assms Some append_log_fine [OF lf a]]
      have "grows hash n w (step_bind (res, put_log (ai_topic input, p) log' w) (\<lambda>offset w.
          (Ok \<lparr>pa_partition = p, pa_offset = offset\<rparr>, w)))"
        by (rule grows_bind) (auto intro: grows_here)
      with Some Ok a show ?thesis by (simp add: append_to_partition_def)
    next
      case (Err e)
      then show ?thesis using Some assms(1) room by (simp add: append_to_partition_def grows_here)
    qed simp
  qed
qed

lemma append_record_grows:
  assumes ok: "worker_ok hash w" and room: "worker_room (Suc n) w" and set: "settings_ok settings"
  shows "grows hash n w (append_record hash settings clock input w)"
  unfolding append_record_def
proof (rule grows_bind [OF ensure_topic_grows(1) [OF ok room set]])
  fix count w1
  assume e: "worker_ensure_topic hash settings (ai_topic input) w = (Ok count, w1)"
    and w1: "worker_ok hash w1" "worker_room (Suc n) w1"
  note c = choose_partition_ok(1) [OF w1 ensure_topic_grows(2) [OF ok room set e]]
  show "grows hash n w1 (step_bind (choose_partition hash count input w1)
      (append_to_partition hash clock input))"
    by (rule grows_bind [OF c]) (simp_all add: append_to_partition_grows)
qed simp

lemma append_inputs_grows:
  assumes "worker_ok hash w" and "worker_room (length inputs + n) w" and "settings_ok settings"
  shows "grows hash n w (append_inputs hash settings clock inputs w)"
  using assms
proof (induction inputs arbitrary: w)
  case (Cons input inputs)
  have r: "worker_room (Suc (length inputs + n)) w" using Cons.prems(2) by simp
  show ?case
    unfolding append_inputs.simps
    by (rule grows_bind [OF append_record_grows [OF Cons.prems(1) r Cons.prems(3)]], simp,
        rule grows_bind [OF Cons.IH [OF _ _ Cons.prems(3)]])
       (auto intro: grows_here)
qed (simp add: grows_here)

lemma sync_partitions_not_Panic [simp]: "sync_partitions topic parts w \<noteq> Panic"
  by (induction parts) (auto simp: try_bind_Panic_iff)

lemma append_batch_grows:
  assumes "worker_ok hash w" and "worker_room (length (bi_records input) + n) w" and "settings_ok settings"
  shows "grows hash n w (append_batch_records hash settings clock input w)"
proof -
  have r: "worker_room (length (map (batch_input input) (bi_records input)) + n) w" using assms(2) by simp
  show ?thesis
    unfolding append_batch_records_def
    by (rule grows_bind [OF append_inputs_grows [OF assms(1) r assms(3)]], simp,
        rule grows_bind [OF grows_here]) (auto intro: grows_here)
qed

lemma worker_append_replica_grows:
  assumes "worker_ok hash w" and "worker_room (Suc n) w"
  shows "grows hash n w (worker_append_replica hash r w)"
proof -
  have room: "worker_room n w" using assms(2) by (rule worker_room_mono) simp
  show ?thesis
  proof (cases "\<exists>count log. map_of (sw_topics w) (rr_topic r) = Some count \<and> rr_partition r < count \<and>
      map_of (sw_logs w) (rr_topic r, rr_partition r) = Some log")
    case False
    then have "\<exists>e. worker_append_replica hash r w = (Err e, w)"
      by (cases "map_of (sw_topics w) (rr_topic r)"; cases "map_of (sw_logs w) (rr_topic r, rr_partition r)")
         (auto simp: worker_append_replica_def not_less Let_def)
    then show ?thesis using assms(1) room by (auto simp: grows_here)
  next
    case True
    then obtain count log where c: "map_of (sw_topics w) (rr_topic r) = Some count" "rr_partition r < count"
      "map_of (sw_logs w) (rr_topic r, rr_partition r) = Some log" by blast
    obtain res log' where a: "append_replica hash (rr_offset r) (replica_input r) log = (res, log')" by fastforce
    from worker_log [OF assms c(3)] have lf: "log_fine hash log" "log_room (Suc n) log" by auto
    from put_log_grows [OF assms c(3) append_replica_fine [OF lf a]]
    have "grows hash n w (step_bind (res, put_log (rr_topic r, rr_partition r) log' w) (\<lambda>_ w. (Ok (lg_next_offset log'), w)))"
      by (rule grows_bind) (auto intro: grows_here)
    moreover have "\<not> count \<le> rr_partition r" using c(2) by simp
    ultimately show ?thesis using c a by (simp add: worker_append_replica_def Let_def)
  qed
qed

lemma read_records_grows:
  assumes ok: "worker_ok hash w" and room: "worker_room n w" and set: "settings_ok settings"
  shows "grows hash n w (read_records hash settings topic part offset max_bytes w)"
  unfolding read_records_def
proof (rule grows_bind [OF ensure_topic_grows(1) [OF ok room set]])
  fix count w1
  assume w1: "worker_ok hash w1" "worker_room n w1"
    and e: "worker_ensure_topic hash settings topic w = (Ok count, w1)"
  have lt: "map_of (sw_logs w1) (topic, part) \<noteq> None" if "part < count"
    using that w1(1) ensure_topic_grows(2) [OF ok room set e] unfolding worker_ok_def by blast
  have "(if map_of (sw_logs w1) (topic, part) = None then
        (if count \<le> part then (Err (UnknownPartition part), w1)
         else step_bind (open_partition hash settings topic part w1) (\<lambda>log w.
           (Ok (), put_log (topic, part) log w)))
      else (Ok (), w1)) = (if map_of (sw_logs w1) (topic, part) = None then (Err (UnknownPartition part), w1) else (Ok (), w1))"
    using lt by (auto simp: not_le)
  moreover have "map_ok f (read_log hash log offset (unat max_bytes)) \<noteq> Panic"
    if "map_of (sw_logs w1) (topic, part) = Some log" for log and f :: "stored_record list \<Rightarrow> fetched_record list"
    using worker_log [OF w1 that] read_log_fine by auto
  ultimately show "grows hash n w1 (step_bind (if map_of (sw_logs w1) (topic, part) = None then
        (if count \<le> part then (Err (UnknownPartition part), w1)
         else step_bind (open_partition hash settings topic part w1) (\<lambda>log w.
           (Ok (), put_log (topic, part) log w)))
      else (Ok (), w1)) (\<lambda>_ w.
    step_bind (ok_or (map_of (sw_logs w) (topic, part)) storage_error.InvalidTopic, w) (\<lambda>log w.
    (map_ok (map fetched_of) (read_log hash log offset (unat max_bytes)), w))))"
    using w1 by (cases "map_of (sw_logs w1) (topic, part)") (auto simp: grows_here)
qed simp

lemma truncate_partition_ok:
  assumes "worker_ok hash w" and "worker_room n w" and "truncate_partition hash topic p offset w = (res, w')"
  shows "res \<noteq> Panic \<and> worker_ok hash w' \<and> worker_room n w'"
proof (cases "map_of (sw_logs w) (topic, p)")
  case None
  then show ?thesis using assms by (auto simp: truncate_partition_def)
next
  case (Some log)
  obtain r log' where t: "truncate_to hash offset log = (r, log')" by fastforce
  from worker_log [OF assms(1,2) Some] have "log_fine hash log" "log_room n log" by auto
  from truncate_to_fine [OF this t] assms Some t show ?thesis
    by (auto simp: truncate_partition_def intro!: put_log_ok put_log_room)
qed

lemma retain_logs_ok:
  assumes "worker_ok hash w" and "worker_room n w"
  shows "\<exists>k w'. retain_logs elapsed settings keys w = (Ok k, w') \<and> worker_ok hash w' \<and> worker_room n w'"
  using assms
proof (induction keys arbitrary: w)
  case (Cons key keys)
  obtain topic p where k: "key = (topic, p)" by fastforce
  show ?case
  proof (cases "map_of (sw_logs w) key")
    case (Some log)
    obtain r log' where t: "apply_retention (elapsed key) (st_retention_bytes settings)
        (st_retention_age settings) log = (r, log')" by fastforce
    from worker_log [OF Cons.prems Some [unfolded k]] have "log_fine hash log" "log_room n log" by auto
    note f = apply_retention_fine [OF this t]
    have "worker_ok hash (put_log key log' w)" "worker_room n (put_log key log' w)"
      using Cons.prems Some f unfolding k by (auto intro!: put_log_ok put_log_room)
    from Cons.IH [OF this] f(1) Some t show ?thesis by auto
  qed (use Cons in simp)
qed simp

lemma snapshot_list_ok:
  assumes "\<forall>e \<in> set es. log_fine hash (snd e) \<and> log_room n (snd e)"
  shows "\<exists>ss. snapshot_list es = Ok ss \<and> length ss = length es"
  using assms
proof (induction es)
  case (Cons e es)
  then obtain b where "log_size_bytes (lg_segments (snd e)) = Ok b" using log_size_fine by force
  then have "\<exists>s. snapshot_log e = Ok s" by (cases e; cases "fst e") (simp add: snapshot_log_def)
  with Cons show ?case by auto
qed simp

section \<open>Properties\<close>

text \<open>How many records a command may append to one log.\<close>

fun command_cost :: "storage_command \<Rightarrow> nat" where
  "command_cost (CmdAppend _) = 1"
| "command_cost (CmdAppendBatch input) = length (bi_records input)"
| "command_cost (CmdReplicate _) = 1"
| "command_cost _ = 0"

lemma map_ok_Panic: "map_ok f r = Panic \<longleftrightarrow> r = Panic"
  by (cases r) auto

definition sample_settings :: storage_settings where
  "sample_settings = \<lparr>st_max_segment_bytes = 1024, st_index_interval_bytes = 256,
     st_default_partition_count = 2, st_retention_bytes = None, st_retention_age = None,
     st_auto_create_topics = True\<rparr>"

definition empty_worker :: storage_worker where
  "empty_worker = \<lparr>sw_disk = [], sw_meta = [], sw_logs = [], sw_topics = [], sw_round_robin = []\<rparr>"

definition sample_input :: append_input where
  "sample_input = \<lparr>ai_topic = ''t'', ai_partition = None, ai_key = [], ai_value = [7], ai_ack_mode = Leader,
     ai_producer = None\<rparr>"

lemma empty_worker_ok [simp]:
  "worker_ok hash empty_worker" "settings_ok sample_settings"
  "n \<le> log_capacity \<Longrightarrow> worker_room n empty_worker"
  by (simp_all add: worker_ok_def empty_worker_def settings_ok_def sample_settings_def worker_room_def)

lemma log_capacity_pos: "100 \<le> log_capacity"
  by (simp add: log_capacity_def)

lemma snapshot_logs_ok:
  assumes "worker_ok hash w" and "worker_room n w"
  shows "snapshot_logs w \<noteq> Panic"
proof -
  have "log_fine hash (snd e) \<and> log_room n (snd e)" if "e \<in> set (sw_logs w)" for e
  proof -
    have "map_of (sw_logs w) (fst (fst e), snd (fst e)) = Some (snd e)"
      using assms(1) that by (simp add: map_of_is_SomeI worker_ok_def)
    from worker_log [OF assms this] show ?thesis .
  qed
  with snapshot_list_ok [of "sw_logs w" hash n] show ?thesis by (auto simp: snapshot_logs_def)
qed

text \<open>Every command leaves the worker in order and with the room it did not need.\<close>

lemma run_command_room:
  assumes ok: "worker_ok hash w" "settings_ok settings" "worker_room (command_cost command + n) w"
    and run: "run_command hash settings clock elapsed command w = (res, w')"
  shows "res \<noteq> Panic \<and> worker_ok hash w' \<and> worker_room n w'"
proof -
  have reply: "fst (reply f r) \<noteq> Panic \<and> worker_ok hash (snd (reply f r)) \<and> worker_room n (snd (reply f r))"
    if "grows hash n w r" for f :: "'a \<Rightarrow> storage_reply" and r
    using that by (simp add: grows_def reply_def map_ok_Panic)
  have room: "worker_room n w" using ok(3) by (rule worker_room_mono) simp
  have "fst (run_command hash settings clock elapsed command w) \<noteq> Panic \<and>
      worker_ok hash (snd (run_command hash settings clock elapsed command w)) \<and>
      worker_room n (snd (run_command hash settings clock elapsed command w))"
  proof (cases command)
    case (CmdTruncate topic p offset)
    then show ?thesis
      using truncate_partition_ok [OF ok(1) room, of topic p offset]
      by (simp add: reply_def map_ok_Panic) (metis prod.collapse)
  next
    case CmdApplyRetention
    then show ?thesis
      using retain_logs_ok [OF ok(1) room, of elapsed settings "map fst (sw_logs w)"]
      by (auto simp: reply_def worker_apply_retention_def)
  next
    case CmdSnapshot
    then show ?thesis using snapshot_logs_ok [OF ok(1) room] ok(1) room by (simp add: reply_def map_ok_Panic)
  qed (use ok room reply [OF append_record_grows] reply [OF append_batch_grows] reply [OF worker_append_replica_grows]
      reply [OF create_topic_grows(1)] reply [OF read_records_grows] in
      \<open>auto simp: reply_def partition_offset_def map_ok_Panic\<close>)
  with run show ?thesis by simp
qed

text \<open>C18: The storage worker never panics and keeps its invariant: whatever command arrives, every
  open log stays well formed, every topic keeps a log for each of its partitions, and the
  round-robin counters stay in range, as long as the logs have room for the records of the
  command.\<close>

theorem run_command_safe:
  assumes "worker_ok hash w" and "settings_ok settings" and "worker_room (command_cost command) w"
  shows "fst (run_command hash settings clock elapsed command w) \<noteq> Panic \<and>
    worker_ok hash (snd (run_command hash settings clock elapsed command w))"
  using run_command_room [OF assms(1,2), of command 0 clock elapsed] assms(3) by (metis add_0_right prod.collapse)

theorem run_command_safe_witness:
  "fst (run_command byte_sum sample_settings (Some 5) (\<lambda>_ _. None) (CmdAppend sample_input) empty_worker) \<noteq> Panic \<and>
   worker_ok byte_sum (snd (run_command byte_sum sample_settings (Some 5) (\<lambda>_ _. None) (CmdAppend sample_input) empty_worker))"
  by (rule run_command_safe) (use log_capacity_pos in simp_all)

text \<open>The record an accepted input is read back as.\<close>

definition stored_input :: "append_input \<Rightarrow> u64 \<Rightarrow> produce_ack \<Rightarrow> fetched_record" where
  "stored_input input ts ack = \<lparr>fd_offset = pa_offset ack, fd_timestamp_ms = ts,
     fd_key = (if ai_key input = [] then None else Some (ai_key input)), fd_value = ai_value input\<rparr>"

lemma append_record_readable:
  assumes ok: "worker_ok hash w" and room: "worker_room (Suc n) w" and set: "settings_ok settings"
    and prod: "ai_producer input = None" and app: "append_record hash settings clock input w = (Ok ack, w1)"
    and ext: "worker_extends hash w1 w2" and mb: "max_bytes \<noteq> 0"
  shows "\<exists>ts rest. timestamp clock = Ok ts \<and>
    read_records hash settings (ai_topic input) (pa_partition ack) (pa_offset ack) max_bytes w2 =
      (Ok (stored_input input ts ack # rest), w2)"
proof -
  obtain count wa wb p where e: "worker_ensure_topic hash settings (ai_topic input) w = (Ok count, wa)"
    and c: "choose_partition hash count input wa = (Ok p, wb)"
    and a: "append_to_partition hash clock input p wb = (Ok ack, w1)"
    using app by (auto simp: append_record_def step_bind_eq_Ok)
  from ensure_topic_grows(1) [OF ok room set, of "ai_topic input"] ensure_topic_grows(2) [OF ok room set e] e
  have wa: "worker_ok hash wa" "worker_room (Suc n) wa" "map_of (sw_topics wa) (ai_topic input) = Some count"
    by (auto simp: grows_def)
  from choose_partition_ok(1) [OF wa] choose_partition_ok(2) [OF wa c] c
  have wb: "worker_ok hash wb" "worker_room (Suc n) wb" "sw_topics wb = sw_topics wa" by (auto simp: grows_def)
  obtain log ts where l0: "map_of (sw_logs wb) (ai_topic input, p) = Some log" "timestamp clock = Ok ts"
    using a by (auto simp: append_to_partition_def step_bind_eq_Ok ok_or_eq_Ok Let_def)
  obtain res log1 where "append_log hash (input_record input ts) log = (res, log1)" by fastforce
  with l0 a obtain off where l: "map_of (sw_logs wb) (ai_topic input, p) = Some log" "timestamp clock = Ok ts"
    "append_log hash (input_record input ts) log = (Ok off, log1)" "w1 = put_log (ai_topic input, p) log1 wb"
    "ack = \<lparr>pa_partition = p, pa_offset = off\<rparr>"
    by (auto simp: append_to_partition_def step_bind_eq_Ok)
  obtain log2 where l2: "map_of (sw_logs w2) (ai_topic input, p) = Some log2" "log_extends hash log1 log2"
  proof -
    have "map_of (sw_logs w1) (ai_topic input, p) = Some log1" by (simp add: l(4))
    with ext that show ?thesis unfolding worker_extends_def by blast
  qed
  have t2: "map_of (sw_topics w2) (ai_topic input) = Some count"
    using ext l(4) wa(3) wb(3) by (simp add: worker_extends_def)
  from worker_log [OF wb(1,2) l(1)] have lf: "log_fine hash log" "log_room (Suc n) log" by auto
  have "lr_producer (input_record input ts) = None" "unat max_bytes \<noteq> 0"
    using prod mb by (simp_all add: input_record_def unat_eq_0)
  from append_log_readable [OF lf l(3) this(1) l2(2) this(2)] obtain rest where
    "read_log hash log2 off (unat max_bytes) = Ok (stored_of (input_record input ts) off # rest)" by blast
  then show ?thesis
    using l(2,5) l2(1) t2
    by (simp add: read_records_def worker_ensure_topic_def stored_of_def input_record_def fetched_of_def
        stored_input_def)
qed

text \<open>C21: Read your writes: when the worker acknowledged an append (of a client without a producer
  identity), a read of the acknowledged partition from the acknowledged offset returns exactly
  that key, value and time first, whatever only-growing operations happened in between.\<close>

theorem append_then_fetch:
  assumes "worker_ok hash w" and "worker_room 1 w" and "settings_ok settings"
    and "ai_producer input = None" and "append_record hash settings clock input w = (Ok ack, w')"
    and "worker_extends hash w' w2" and "max_bytes \<noteq> 0"
  shows "\<exists>ts rest. timestamp clock = Ok ts \<and>
    read_records hash settings (ai_topic input) (pa_partition ack) (pa_offset ack) max_bytes w2 =
      (Ok (\<lparr>fd_offset = pa_offset ack, fd_timestamp_ms = ts,
            fd_key = (if ai_key input = [] then None else Some (ai_key input)),
            fd_value = ai_value input\<rparr> # rest), w2)"
  using append_record_readable [OF assms(1) _ assms(3-7), of 0] assms(2) by (simp add: stored_input_def)

lemma append_inputs_readable:
  assumes "worker_ok hash w" and "worker_room (length inputs) w" and "settings_ok settings"
    and "\<forall>input \<in> set inputs. ai_producer input = None"
    and "append_inputs hash settings clock inputs w = (Ok acks, w')" and "max_bytes \<noteq> 0"
  shows "length acks = length inputs \<and> (\<forall>i < length inputs. \<exists>ts rest.
    read_records hash settings (ai_topic (inputs ! i)) (pa_partition (acks ! i)) (pa_offset (acks ! i)) max_bytes w' =
      (Ok (stored_input (inputs ! i) ts (acks ! i) # rest), w'))"
  using assms
proof (induction inputs arbitrary: w acks)
  case (Cons input inputs)
  obtain ack acks' w1 where a: "append_record hash settings clock input w = (Ok ack, w1)"
    "append_inputs hash settings clock inputs w1 = (Ok acks', w')" "acks = ack # acks'"
    using Cons.prems(5) by (auto simp: step_bind_eq_Ok)
  have r: "worker_room (Suc (length inputs)) w" using Cons.prems(2) by simp
  from append_record_grows [OF Cons.prems(1) r Cons.prems(3), of clock input] a(1)
  have w1: "worker_ok hash w1" "worker_room (length inputs) w1" by (auto simp: grows_def)
  from append_inputs_grows [OF w1(1) _ Cons.prems(3), of inputs 0 clock] w1(2) a(2)
  have "worker_extends hash w1 w'" by (simp add: grows_def)
  from append_record_readable [OF Cons.prems(1) r Cons.prems(3) _ a(1) this Cons.prems(6)] Cons.prems(4)
  have "\<exists>ts rest. read_records hash settings (ai_topic input) (pa_partition ack) (pa_offset ack) max_bytes w' =
      (Ok (stored_input input ts ack # rest), w')" by auto
  with Cons.IH [OF w1 Cons.prems(3) _ a(2) Cons.prems(6)] Cons.prems(4) a(3) show ?case
    by (auto simp: less_Suc_eq_0_disj)
qed simp

lemma sample_topic: "validate_log_topic ''t'' = Ok ()"
  by (simp add: validate_log_topic_def id_char_def is_ascii_alphanumeric_def less_eq_char_def)

lemma sample_ensure_topic:
  obtains w1 where "worker_ensure_topic byte_sum sample_settings ''t'' empty_worker = (Ok 2, w1)"
    "sw_logs w1 = [((''t'', 0), fresh_log 1024 256), ((''t'', 1), fresh_log 1024 256)]" "sw_round_robin w1 = []"
proof -
  have "partition_range 2 = [0, 1]" by (simp add: partition_range_def upt_rec)
  then show thesis
    using that sample_topic open_log_empty [OF sample_topic, of 1024 256 byte_sum]
    by (simp add: worker_ensure_topic_def empty_worker_def sample_settings_def create_topic_def
        open_partition_def put_log_def bare_topic_def persist_topic_metadata_def Let_def show_nat.simps digit_char_def)
qed

lemma sample_append_record:
  "\<exists>w'. append_record byte_sum sample_settings (Some 5) sample_input empty_worker =
     (Ok \<lparr>pa_partition = 0, pa_offset = 0\<rparr>, w')"
proof -
  define log where "log = fresh_log 1024 256"
  have "log_fine byte_sum log" "log_room (Suc 0) log" "lg_next_offset log = 0"
    using fresh_log_fine log_capacity_pos by (auto simp: log_def log_room_def fresh_log_def)
  moreover have "replica_record (input_record sample_input 5)"
    by (simp add: replica_record_def record_sizes_ok_def input_record_def sample_input_def opt_len_def)
  ultimately obtain log' where a: "append_log byte_sum (input_record sample_input 5) log = (Ok 0, log')"
    using append_log_accepts by metis
  obtain w1 where e: "worker_ensure_topic byte_sum sample_settings ''t'' empty_worker = (Ok 2, w1)"
    "sw_logs w1 = [((''t'', 0), log), ((''t'', 1), log)]" "sw_round_robin w1 = []"
    using sample_ensure_topic unfolding log_def by blast
  have "choose_partition byte_sum 2 sample_input w1 = (Ok 0, w1\<lparr>sw_round_robin := [(''t'', 1)]\<rparr>)"
    by (simp add: choose_partition_def sample_input_def routing_key_def select_partition_def checked_add_def e(3))
  with e a show ?thesis
    by (simp add: append_record_def append_to_partition_def timestamp_def try_from_def sample_input_def)
qed

theorem append_then_fetch_witness:
  "\<exists>w' ts rest. append_record byte_sum sample_settings (Some 5) sample_input empty_worker =
       (Ok \<lparr>pa_partition = 0, pa_offset = 0\<rparr>, w') \<and>
     read_records byte_sum sample_settings ''t'' 0 0 100 w' =
       (Ok (\<lparr>fd_offset = 0, fd_timestamp_ms = ts, fd_key = None, fd_value = [7]\<rparr> # rest), w')"
proof -
  obtain w' where w': "append_record byte_sum sample_settings (Some 5) sample_input empty_worker =
     (Ok \<lparr>pa_partition = 0, pa_offset = 0\<rparr>, w')" using sample_append_record by blast
  with append_then_fetch [OF _ _ _ _ w', of w' 100] log_capacity_pos show ?thesis
    by (auto simp: sample_input_def)
qed

text \<open>A batch is acknowledged with one acknowledgement per record, in order, and afterwards each
  of its records is what a read from its acknowledged position returns first.\<close>

lemma batch_readable:
  assumes "worker_ok hash w" and "worker_room (length (bi_records input)) w" and "settings_ok settings"
    and "append_batch_records hash settings clock input w = (Ok acks, w')" and "max_bytes \<noteq> 0"
  shows "length acks = length (bi_records input) \<and> (\<forall>i < length acks. \<exists>ts rest.
    read_records hash settings (bi_topic input) (pa_partition (acks ! i)) (pa_offset (acks ! i)) max_bytes w' =
      (Ok (stored_input (batch_input input (bi_records input ! i)) ts (acks ! i) # rest), w'))"
proof -
  have "append_inputs hash settings clock (map (batch_input input) (bi_records input)) w = (Ok acks, w')"
    using assms(4) by (auto simp: append_batch_records_def step_bind_eq_Ok)
  moreover have "worker_room (length (map (batch_input input) (bi_records input))) w" using assms(2) by simp
  moreover have "\<forall>i \<in> set (map (batch_input input) (bi_records input)). ai_producer i = None"
    by (auto simp: batch_input_def)
  ultimately have "length acks = length (map (batch_input input) (bi_records input)) \<and>
    (\<forall>i < length (map (batch_input input) (bi_records input)). \<exists>ts rest.
      read_records hash settings (ai_topic (map (batch_input input) (bi_records input) ! i))
        (pa_partition (acks ! i)) (pa_offset (acks ! i)) max_bytes w' =
      (Ok (stored_input (map (batch_input input) (bi_records input) ! i) ts (acks ! i) # rest), w'))"
    using append_inputs_readable [OF assms(1) _ assms(3)] assms(5) by blast
  then show ?thesis by (simp add: batch_input_def)
qed

subsection \<open>Routing\<close>

text \<open>The partitions chosen for \<open>m\<close> records without a key, one after the other.\<close>

fun select_unkeyed :: "(bytes \<Rightarrow> u32) \<Rightarrow> u32 \<Rightarrow> string \<Rightarrow> nat \<Rightarrow> storage_worker \<Rightarrow> (u32, storage_error) outcome list" where
  "select_unkeyed hash count topic 0 w = []"
| "select_unkeyed hash count topic (Suc m) w =
    (case select_partition hash count topic None w of (res, w') \<Rightarrow> res # select_unkeyed hash count topic m w')"

definition robin :: "string \<Rightarrow> storage_worker \<Rightarrow> u32" where
  "robin topic w = (case map_of (sw_round_robin w) topic of None \<Rightarrow> 0 | Some n \<Rightarrow> n)"

lemma unat_mod_word: "unat (a mod b) = unat a mod unat (b :: u32)"
  by (rule unat_mod_distrib)

lemma select_unkeyed_values:
  assumes "robin topic w < count"
  shows "select_unkeyed hash count topic m w =
    map (\<lambda>i. Ok (word_of_nat ((unat (robin topic w) + i) mod unat count))) [0..<m]"
  using assms
proof (induction m arbitrary: w)
  case (Suc m)
  define k where "k = robin topic w"
  have k: "unat k < unat count" using Suc.prems by (simp add: k_def word_less_nat_alt)
  then have k1: "unat k + 1 < 4294967296" using unat_u32_lt [of count] by linarith
  then have u: "unat (k + 1) = unat k + 1" by (simp add: unat_plus_no_overflow)
  define w' where "w' = w\<lparr>sw_round_robin := AList.update topic ((k + 1) mod count) (sw_round_robin w)\<rparr>"
  have s: "select_partition hash count topic None w = (Ok k, w')"
    using k k1 by (auto simp: select_partition_def Let_def robin_def [symmetric] k_def [symmetric] checked_add_def w'_def)
  have r: "robin topic w' = (k + 1) mod count" by (simp add: robin_def w'_def AList.update_conv')
  have "robin topic w' < count" using k by (simp add: r word_less_nat_alt unat_mod_word)
  from Suc.IH [OF this] have "select_unkeyed hash count topic m w' =
      map (\<lambda>i. Ok (word_of_nat ((unat k + Suc i) mod unat count))) [0..<m]"
    by (simp add: r unat_mod_word u mod_add_left_eq)
  moreover have "[0..<Suc m] = 0 # map Suc [0..<m]" by (simp add: map_Suc_upt upt_conv_Cons del: upt_Suc)
  ultimately show ?case using s k by (simp add: k_def [symmetric] comp_def del: upt_Suc)
qed simp

lemma rotate_residues: "k < n \<Longrightarrow> map (\<lambda>i. (k + i) mod n) [0..<n] = List.rotate k [0..<n]"
  by (rule nth_equalityI) (simp_all add: nth_rotate)

text \<open>C34: Records are spread fairly: as many consecutive records without a key as the topic has
  partitions go to each partition exactly once, whatever the starting point; a record with a
  key always goes to the same partition of the topic, whatever happened before.\<close>

theorem select_partition_fair:
  assumes "robin topic w < count"
  shows "distinct (select_unkeyed hash count topic (unat count) w) \<and>
    set (select_unkeyed hash count topic (unat count) w) = Ok ` {p. p < count} \<and>
    (\<exists>p < count. \<forall>w'. select_partition hash count topic (Some key) w' = (Ok p, w'))"
proof -
  define n where "n = unat count"
  define k where "k = unat (robin topic w)"
  have k: "k < n" using assms by (simp add: k_def n_def word_less_nat_alt)
  then have c: "count \<noteq> 0" by (auto simp: n_def)
  have eq: "select_unkeyed hash count topic (unat count) w = map (\<lambda>i. Ok (word_of_nat i)) (List.rotate k [0..<n])"
    unfolding rotate_residues [OF k, symmetric] select_unkeyed_values [OF assms]
    by (simp add: n_def k_def)
  have inj: "inj_on (\<lambda>i. Ok (word_of_nat i :: u32) :: (u32, storage_error) outcome) {0..<n}"
    by (rule inj_onI) (metis atLeastLessThan_iff n_def outcome.inject(1) unat_of_nat_below)
  have "set (select_unkeyed hash count topic (unat count) w) = Ok ` set (partition_range count)"
    by (simp add: eq partition_range_def n_def image_image)
  moreover have "distinct (select_unkeyed hash count topic (unat count) w)"
    using inj by (simp add: eq distinct_map)
  moreover have "\<exists>p < count. \<forall>w'. select_partition hash count topic (Some key) w' = (Ok p, w')"
    using c by (intro exI [of _ "hash key mod count"])
      (simp add: select_partition_def word_less_nat_alt unat_mod_word unat_gt_0)
  ultimately show ?thesis by (simp add: set_partition_range)
qed

theorem select_partition_fair_witness:
  "distinct (select_unkeyed byte_sum 3 ''t'' (unat (3 :: u32)) empty_worker) \<and>
   (\<exists>p < 3. \<forall>w'. select_partition byte_sum 3 ''t'' (Some [1, 2]) w' = (Ok p, w'))"
  using select_partition_fair [of "''t''" empty_worker 3 byte_sum "[1, 2]"]
  by (simp add: robin_def empty_worker_def)

end
