(* ===== verification/Storage_Recovery.thy ===== *)
theory Storage_Recovery
  imports Storage_Worker
begin

text \<open>
  Restart of the storage worker: \<open>discover_partitions\<close> and \<open>recover_storage\<close> on the data directory a crash
  left behind bring back every topic and every partition log, as long as retention has removed no segment.  (A log without its
  first segment cannot be opened again, see \<open>reopen_after_retention_fails\<close>.)
\<close>

section \<open>Crash images\<close>

text \<open>Every open log belongs to a partition of a known topic, and its directory survives in the way
  \<open>crashed\<close> allows for one partition; nothing else is in the data directory.\<close>

definition log_image :: "(bytes \<Rightarrow> u32) \<Rightarrow> partition_log \<Rightarrow> dir \<Rightarrow> bool" where
  "log_image hash log d \<longleftrightarrow> (\<exists>hist low tail. log_rep hash hist low log \<and> crashed hash log tail d \<and>
     length (bytes_of hist) + length tail < 2 ^ 64)"

definition crash_image :: "(bytes \<Rightarrow> u32) \<Rightarrow> storage_worker \<Rightarrow> ((string \<times> string) \<times> dir) list \<Rightarrow> bool" where
  "crash_image hash w disk \<longleftrightarrow> distinct (map fst disk) \<and>
     (\<forall>topic name. map_of disk (topic, name) \<noteq> None \<longrightarrow>
        (\<exists>p. name = show_nat (unat (p :: u32)) \<and> map_of (sw_logs w) (topic, p) \<noteq> None)) \<and>
     (\<forall>topic p log. map_of (sw_logs w) (topic, p) = Some log \<longrightarrow> validate_log_topic topic = Ok () \<and>
        (\<exists>n. map_of (sw_topics w) topic = Some n \<and> p < n) \<and>
        (\<exists>d. map_of disk (topic, show_nat (unat p)) = Some d \<and> log_image hash log d))"

text \<open>Retention has removed nothing from any log.\<close>

definition untrimmed :: "storage_worker \<Rightarrow> bool" where
  "untrimmed w \<longleftrightarrow> list_all (\<lambda>(k, log). low_watermark log = 0) (sw_logs w)"

lemma untrimmedD: "untrimmed w \<Longrightarrow> map_of (sw_logs w) k = Some log \<Longrightarrow> low_watermark log = 0"
  by (auto simp: untrimmed_def list_all_iff dest!: map_of_SomeD)

lemma low_watermark_rep:
  assumes "log_rep hash hist low l"
  shows "unat (low_watermark l) = low"
proof -
  obtain closed active ess es where s: "lg_segments l = closed @ [active]" "closed_rep hash (lg_dir l) low closed ess"
    "segment_rep hash (lg_dir l) (low + length (concat ess)) active es"
    using assms unfolding log_rep_def by blast
  then show ?thesis
    by (cases closed; cases ess) (auto simp: low_watermark_def dest: segment_repD)
qed

text \<open>A recovered log: same records, same next offset.\<close>

definition same_log :: "(bytes \<Rightarrow> u32) \<Rightarrow> partition_log \<Rightarrow> partition_log \<Rightarrow> bool" where
  "same_log hash l l' \<longleftrightarrow> (\<exists>hist. log_rep hash hist 0 l \<and> log_rep hash hist 0 l')"

lemma same_log_reads:
  assumes "same_log hash l l'"
  shows "lg_next_offset l' = lg_next_offset l \<and> read_log hash l' offset max_bytes = read_log hash l offset max_bytes"
proof -
  obtain hist where r: "log_rep hash hist 0 l" "log_rep hash hist 0 l'" using assms by (auto simp: same_log_def)
  have "lg_next_offset l' = lg_next_offset l"
    using log_repD(4) [OF r(1)] log_repD(4) [OF r(2)] by (simp add: word_unat_eq_iff)
  moreover have "read_log hash l' offset max_bytes = read_log hash l offset max_bytes"
    using read_log_spec [OF r(1)] read_log_spec [OF r(2)]
    by (cases "max_bytes = 0") (auto simp: read_log_def)
  ultimately show ?thesis by simp
qed

section \<open>Discovery\<close>

lemma valid_topic_not_internal: "validate_log_topic topic = Ok () \<Longrightarrow> take 2 topic \<noteq> ''__''"
  by (auto simp: validate_log_topic_def split: if_splits)

lemma discover_dirs_ok:
  assumes "\<forall>(topic, name) \<in> set dirs. validate_log_topic topic = Ok () \<and> (\<exists>p :: u32. name = show_nat (unat p))"
  shows "\<exists>keys. discover_dirs dirs = Ok keys \<and> map (\<lambda>(topic, p). (topic, show_nat (unat p))) keys = dirs"
  using assms
proof (induction dirs)
  case (Cons dir dirs)
  obtain topic and p :: u32 where d: "dir = (topic, show_nat (unat p))" "validate_log_topic topic = Ok ()"
    using Cons.prems by auto
  from Cons obtain keys where "discover_dirs dirs = Ok keys"
    "map (\<lambda>(topic, p). (topic, show_nat (unat p))) keys = dirs" by auto
  with d valid_topic_not_internal [OF d(2)] show ?case by auto
qed simp

lemma discover_partitions_ok:
  assumes "crash_image hash w disk"
  shows "\<exists>keys. discover_partitions disk = Ok keys \<and> distinct keys \<and>
    set keys = {(topic, p). map_of (sw_logs w) (topic, p) \<noteq> None}"
proof -
  have dom: "(topic, name) \<in> set (map fst disk) \<longleftrightarrow> map_of disk (topic, name) \<noteq> None" for topic name
    by (simp add: map_of_eq_None_iff)
  have "\<forall>(topic, name) \<in> set (map fst disk). validate_log_topic topic = Ok () \<and> (\<exists>p :: u32. name = show_nat (unat p))"
    using assms unfolding crash_image_def by (force simp: dom simp del: set_map)
  from discover_dirs_ok [OF this] obtain keys where k: "discover_dirs (map fst disk) = Ok keys"
    "map (\<lambda>(topic, p). (topic, show_nat (unat p))) keys = map fst disk" by blast
  have "distinct (map (\<lambda>(topic, p). (topic, show_nat (unat p))) keys)"
    using k(2) assms by (simp add: crash_image_def)
  then have "distinct keys" unfolding distinct_map by blast
  moreover have "(topic, p) \<in> set keys \<longleftrightarrow> map_of (sw_logs w) (topic, p) \<noteq> None" for topic p
  proof -
    have "(topic, p) \<in> set keys \<longleftrightarrow> (topic, show_nat (unat p)) \<in> set (map (\<lambda>(topic, p). (topic, show_nat (unat p))) keys)"
      by (force simp: show_nat_word_inj)
    also have "\<dots> \<longleftrightarrow> map_of disk (topic, show_nat (unat p)) \<noteq> None" by (simp only: k(2) dom)
    also have "\<dots> \<longleftrightarrow> map_of (sw_logs w) (topic, p) \<noteq> None"
      using assms unfolding crash_image_def by (metis not_None_eq show_nat_word_inj)
    finally show ?thesis .
  qed
  ultimately show ?thesis
    using k(1) by (intro exI [of _ "sort keys"]) (auto simp: discover_partitions_def)
qed

section \<open>Recovery of the logs\<close>

definition topic_size :: "storage_worker \<Rightarrow> string \<Rightarrow> nat" where
  "topic_size w topic = (case map_of (sw_topics w) topic of None \<Rightarrow> 0 | Some n \<Rightarrow> unat n)"

text \<open>What recovery needs to know of a partition that is still to be opened.\<close>

definition recoverable :: "(bytes \<Rightarrow> u32) \<Rightarrow> storage_worker \<Rightarrow> partition_log \<Rightarrow> string \<times> u32 \<Rightarrow> bool" where
  "recoverable hash v log k \<longleftrightarrow> validate_log_topic (fst k) = Ok () \<and> snd k \<noteq> - 1 \<and> low_watermark log = 0 \<and>
     (\<exists>d. map_of (sw_disk v) (fst k, show_nat (unat (snd k))) = Some d \<and> log_image hash log d)"

lemma crash_image_recoverable:
  assumes "crash_image hash w disk" and "map_of (sw_logs w) (topic, p) = Some log" and "sw_disk v = disk" and "untrimmed w"
  shows "recoverable hash v log (topic, p)"
proof -
  obtain n d where "validate_log_topic topic = Ok ()" "p < n" "map_of disk (topic, show_nat (unat p)) = Some d"
    "log_image hash log d"
    using assms(1,2) unfolding crash_image_def by blast
  moreover have "p \<noteq> - 1" using \<open>p < n\<close> by (metis leD word_n1_ge)
  ultimately show ?thesis using assms(3) untrimmedD [OF assms(4,2)] by (simp add: recoverable_def)
qed

lemma open_partition_recoverable:
  assumes "recoverable hash v log (topic, p)" and "settings_ok settings"
  shows "\<exists>log' d. open_partition hash settings topic p v =
      (Ok log', v\<lparr>sw_disk := AList.update (topic, show_nat (unat p)) d (sw_disk v)\<rparr>) \<and> same_log hash log log'"
proof -
  obtain d hist low tail where i: "map_of (sw_disk v) (topic, show_nat (unat p)) = Some d"
    "log_rep hash hist low log" "crashed hash log tail d" "length (bytes_of hist) + length tail < 2 ^ 64" "low_watermark log = 0"
    using assms(1) by (auto simp: recoverable_def log_image_def)
  have "low = 0" using low_watermark_rep [OF i(2)] i(5) by simp
  with i(2) have rep: "log_rep hash hist 0 log" by simp
  note d = i(1) rep i(3,4)
  have t: "validate_log_topic topic = Ok ()" using assms(1) by (simp add: recoverable_def)
  from open_log_crashed [OF d(2,3) t _ _ d(4), of "st_max_segment_bytes settings" "st_index_interval_bytes settings"]
  obtain log' d' where "open_log hash topic (st_max_segment_bytes settings) (st_index_interval_bytes settings) d = (Ok log', d')"
    "log_rep hash hist 0 log'" using assms(2) by (auto simp: settings_ok_def)
  then show ?thesis
    using d t assms(2) by (auto simp: open_partition_def settings_ok_def same_log_def)
qed

lemma recover_logs_ok:
  assumes "distinct keys" and "\<forall>k \<in> set keys. recoverable hash v (old k) k" and "settings_ok settings"
  shows "\<exists>v'. recover_logs hash settings keys v = (Ok (), v') \<and>
    (\<forall>k. case map_of (sw_logs v') k of
       None \<Rightarrow> k \<notin> set keys \<and> map_of (sw_logs v) k = None
     | Some log' \<Rightarrow> if k \<in> set keys then same_log hash (old k) log' else map_of (sw_logs v) k = Some log') \<and>
    (\<forall>topic. topic_size v' topic =
       fold max (map (\<lambda>k. unat (snd k) + 1) (filter (\<lambda>k. fst k = topic) keys)) (topic_size v topic)) \<and>
    (\<forall>topic. map_of (sw_topics v') topic = Some 0 \<longrightarrow> map_of (sw_topics v) topic = Some 0)"
  using assms
proof (induction keys arbitrary: v)
  case Nil
  then show ?case by (auto split: option.split)
next
  case (Cons k keys)
  obtain topic p where k: "k = (topic, p)" by fastforce
  obtain log' d where o: "open_partition hash settings topic p v =
      (Ok log', v\<lparr>sw_disk := AList.update (topic, show_nat (unat p)) d (sw_disk v)\<rparr>)" "same_log hash (old k) log'"
    using open_partition_recoverable [of hash v "old k" topic p settings] Cons.prems(2,3) k by auto
  have p: "p \<noteq> - 1" using Cons.prems(2) by (simp add: k recoverable_def)
  have "unat p \<noteq> unat (- 1 :: u32)" using p by (simp add: word_unat_eq_iff)
  then have "unat p \<noteq> 4294967295" by (simp add: unat_max_word)
  with unat_u32_lt [of p] have "unat p + 1 < 4294967296" by linarith
  then have up: "unat p + 1 < 2 ^ 32" by simp
  define c where "c = (case map_of (sw_topics v) topic of None \<Rightarrow> p + 1 | Some count \<Rightarrow> max count (p + 1))"
  define v1 where "v1 = (put_log (topic, p) log' (v\<lparr>sw_disk := AList.update (topic, show_nat (unat p)) d (sw_disk v)\<rparr>))
    \<lparr>sw_topics := AList.update topic c (sw_topics v)\<rparr>"
  have step: "recover_logs hash settings (k # keys) v = recover_logs hash settings keys v1"
    using o(1) up by (simp add: k checked_add_def v1_def c_def)
  have rec: "\<forall>k \<in> set keys. recoverable hash v1 (old k) k"
    using Cons.prems(1,2) unfolding recoverable_def
    by (auto simp: k v1_def AList.update_conv' show_nat_word_inj)
  have logs1: "map_of (sw_logs v1) k' = (if k' = k then Some log' else map_of (sw_logs v) k')" for k'
    by (simp add: v1_def k put_log_def AList.update_conv')
  have size1: "topic_size v1 t = (if t = topic then max (unat p + 1) (topic_size v t) else topic_size v t)" for t
    using up by (auto simp: topic_size_def v1_def c_def AList.update_conv' unat_plus_no_overflow
        max_def word_le_nat_alt split: option.splits)
  from Cons.IH [OF _ rec Cons.prems(3)] Cons.prems(1) obtain v' where
    v': "recover_logs hash settings keys v1 = (Ok (), v')"
    "\<And>k. case map_of (sw_logs v') k of None \<Rightarrow> k \<notin> set keys \<and> map_of (sw_logs v1) k = None
      | Some log' \<Rightarrow> if k \<in> set keys then same_log hash (old k) log' else map_of (sw_logs v1) k = Some log'"
    "\<And>topic. topic_size v' topic =
       fold max (map (\<lambda>k. unat (snd k) + 1) (filter (\<lambda>k. fst k = topic) keys)) (topic_size v1 topic)"
    "\<And>topic. map_of (sw_topics v') topic = Some 0 \<Longrightarrow> map_of (sw_topics v1) topic = Some 0"
    by auto
  have "unat (p + 1) \<noteq> 0" using up by (simp add: unat_plus_no_overflow)
  then have "c \<noteq> 0" by (auto simp: c_def max_def word_le_nat_alt unat_eq_0 split: option.splits if_splits)
  then have z: "map_of (sw_topics v) t = Some 0" if "map_of (sw_topics v') t = Some 0" for t
    using v'(4) [OF that] by (auto simp: v1_def AList.update_conv' split: if_splits)
  have "case map_of (sw_logs v') k' of None \<Rightarrow> k' \<notin> set (k # keys) \<and> map_of (sw_logs v) k' = None
      | Some l \<Rightarrow> if k' \<in> set (k # keys) then same_log hash (old k') l else map_of (sw_logs v) k' = Some l" for k'
    using v'(2) [of k'] o(2) Cons.prems(1) by (auto simp: logs1 split: option.splits if_splits)
  with v'(1,3) step size1 z show ?case by (intro exI [of _ v']) (simp add: k)
qed

lemma persist_topics_select:
  "sw_logs (fold (\<lambda>(topic, n). persist_topic_metadata topic n) ts w) = sw_logs w"
  "sw_topics (fold (\<lambda>(topic, n). persist_topic_metadata topic n) ts w) = sw_topics w"
  by (induction ts arbitrary: w) (auto simp: persist_topic_metadata_def)

lemma max_partition: "Max (insert 0 ((\<lambda>p. unat p + 1) ` {p. p < (n :: u32)})) = unat n"
proof (cases "n = 0")
  case False
  then have n: "0 < unat n" by (simp add: unat_gt_0)
  have "(\<lambda>p. unat p + 1) ` {p. p < n} = Suc ` {0..<unat n}"
  proof -
    have "unat ` {p. p < n} = (\<lambda>x. unat (word_of_nat x :: u32)) ` {0..<unat n}"
      unfolding set_partition_range [symmetric] partition_range_def by (simp add: image_image)
    also have "\<dots> = {0..<unat n}" using unat_of_nat_below [of _ n] by (auto simp: image_iff)
    finally have "unat ` {p. p < n} = {0..<unat n}" .
    moreover have "(\<lambda>p. unat p + 1) ` {p. p < n} = Suc ` unat ` {p. p < n}"
      by (simp only: image_image Suc_eq_plus1)
    ultimately show ?thesis by simp
  qed
  then have eq: "insert 0 ((\<lambda>p. unat p + 1) ` {p. p < n}) = {0..unat n}"
    using n by (auto simp: image_iff)
  show ?thesis unfolding eq by (rule Max_eqI) auto
qed simp

text \<open>A topic with \<open>n\<close> partitions, all with a directory, is recovered with the count \<open>n\<close>.\<close>

lemma recovered_topic_size:
  assumes "set keys = {(topic, p). map_of logs (topic, p) \<noteq> None}"
    and "\<And>q :: u32. map_of logs (topic, q) \<noteq> None \<longleftrightarrow> q < n"
  shows "fold max (map (\<lambda>k. unat (snd k) + 1) (filter (\<lambda>k. fst k = topic) keys)) 0 = unat n"
proof -
  have "{k \<in> set keys. fst k = topic} = Pair topic ` {q. map_of logs (topic, q) \<noteq> None}"
    unfolding assms(1) by auto
  then have "{k \<in> set keys. fst k = topic} = Pair topic ` {q. q < n}" by (simp only: assms(2))
  then have "(\<lambda>k. unat (snd k) + 1) ` {k \<in> set keys. fst k = topic} = (\<lambda>q. unat q + 1) ` {q. q < n}"
    by (simp add: image_image)
  then have "fold max (map (\<lambda>k. unat (snd k) + 1) (filter (\<lambda>k. fst k = topic) keys)) 0 =
      Max (insert 0 ((\<lambda>q. unat q + 1) ` {q. q < n}))"
    by (simp flip: Max.set_eq_fold)
  then show ?thesis by (simp only: max_partition)
qed

text \<open>Recovery on the data directory a crash left, in full: the topics that come back are exactly those that have a
  log, and every log is the same log.\<close>

lemma recover_storage_holds:
  assumes "worker_ok hash w" and "crash_image hash w disk" and "settings_ok settings" and "untrimmed w"
  shows "\<exists>w'. recover_storage hash settings disk meta = (Ok (), w') \<and>
    (\<forall>topic n. map_of (sw_topics w') topic = Some n \<longleftrightarrow>
       map_of (sw_topics w) topic = Some n \<and> (\<exists>p. map_of (sw_logs w) (topic, p) \<noteq> None)) \<and>
    (\<forall>topic p. map_of (sw_logs w) (topic, p) = None \<longrightarrow> map_of (sw_logs w') (topic, p) = None) \<and>
    (\<forall>topic p log. map_of (sw_logs w) (topic, p) = Some log \<longrightarrow>
       (\<exists>log'. map_of (sw_logs w') (topic, p) = Some log' \<and> same_log hash log log'))"
proof -
  obtain keys where keys: "discover_partitions disk = Ok keys" "distinct keys"
    "set keys = {(topic, p). map_of (sw_logs w) (topic, p) \<noteq> None}"
    using discover_partitions_ok [OF assms(2)] by blast
  define v where "v = \<lparr>sw_disk = disk, sw_meta = meta, sw_logs = [], sw_topics = [], sw_round_robin = []\<rparr>"
  define old where "old k = the (map_of (sw_logs w) k)" for k
  have "\<forall>k \<in> set keys. recoverable hash v (old k) k"
    using crash_image_recoverable [OF assms(2) _ _ assms(4)] keys(3) by (auto simp: v_def old_def)
  then obtain v' where v': "recover_logs hash settings keys v = (Ok (), v')"
    "\<And>k. case map_of (sw_logs v') k of None \<Rightarrow> k \<notin> set keys \<and> map_of (sw_logs v) k = None
      | Some log' \<Rightarrow> if k \<in> set keys then same_log hash (old k) log' else map_of (sw_logs v) k = Some log'"
    "\<And>t. topic_size v' t = fold max (map (\<lambda>k. unat (snd k) + 1) (filter (\<lambda>k. fst k = t) keys)) (topic_size v t)"
    "\<And>t. map_of (sw_topics v') t = Some 0 \<Longrightarrow> map_of (sw_topics v) t = Some 0"
    using recover_logs_ok [OF keys(2) _ assms(3), of hash v old] by auto
  define w' where "w' = fold (\<lambda>(topic, n). persist_topic_metadata topic n) (sw_topics v') v'"
  have rec: "recover_storage hash settings disk meta = (Ok (), w')"
    using keys(1) v'(1) by (simp add: recover_storage_def Let_def v_def w'_def)
  have sel: "sw_logs w' = sw_logs v'" "sw_topics w' = sw_topics v'"
    by (simp_all add: w'_def persist_topics_select)
  have tops: "map_of (sw_topics w') topic = map_of (sw_topics w) topic"
    if ex: "map_of (sw_logs w) (topic, p) \<noteq> None" for topic p
  proof -
    obtain n where n: "map_of (sw_topics w) topic = Some n" "p < n"
      using assms(2) ex unfolding crash_image_def by (metis not_None_eq)
    have iff: "map_of (sw_logs w) (topic, q) \<noteq> None \<longleftrightarrow> q < n" for q
      using assms(1,2) n(1) unfolding worker_ok_def crash_image_def by (metis not_None_eq option.inject)
    have "topic_size v' topic = unat n"
      using v'(3) [of topic] recovered_topic_size [OF keys(3) iff] by (simp add: topic_size_def v_def)
    moreover have "unat n \<noteq> 0" using n(2) by (auto simp: unat_eq_0)
    ultimately show ?thesis using n(1)
      by (auto simp: sel topic_size_def split: option.splits intro: word_unat_eq_iff [THEN iffD2])
  qed
  have only: "\<exists>p. map_of (sw_logs w) (topic, p) \<noteq> None" if n: "map_of (sw_topics w') topic = Some n" for topic n
  proof (rule ccontr)
    assume "\<not> ?thesis"
    then have "filter (\<lambda>k. fst k = topic) keys = []" using keys(3) by (auto simp: filter_empty_conv)
    then have "topic_size v' topic = 0" using v'(3) [of topic] by (simp add: topic_size_def v_def)
    then have "map_of (sw_topics v') topic = Some 0" using n by (simp add: sel topic_size_def unat_eq_0)
    from v'(4) [OF this] show False by (simp add: v_def)
  qed
  have gone: "map_of (sw_logs w') (topic, p) = None" if "map_of (sw_logs w) (topic, p) = None" for topic p
    using v'(2) [of "(topic, p)"] that by (auto simp: sel keys(3) v_def split: option.splits)
  have kept: "\<exists>log'. map_of (sw_logs w') (topic, p) = Some log' \<and> same_log hash log log'"
    if "map_of (sw_logs w) (topic, p) = Some log" for topic p log
    using v'(2) [of "(topic, p)"] that by (auto simp: sel keys(3) old_def split: option.splits)
  have iff: "map_of (sw_topics w') topic = Some n \<longleftrightarrow>
      map_of (sw_topics w) topic = Some n \<and> (\<exists>p. map_of (sw_logs w) (topic, p) \<noteq> None)" for topic n
    using only [of topic n] tops [of topic] by metis
  show ?thesis
    by (intro exI [of _ w'] conjI allI impI) (use rec gone kept in \<open>auto simp: iff\<close>)
qed

section \<open>Properties\<close>


definition sample_worker :: storage_worker where
  "sample_worker = \<lparr>sw_disk = [((''t'', show_nat (unat (0 :: u32))), [])], sw_meta = [],
     sw_logs = [((''t'', 0), fresh_log 1024 256)], sw_topics = [(''t'', 1)], sw_round_robin = []\<rparr>"

lemma show_nat_zero: "show_nat (unat (p :: u32)) = show_nat 0 \<longleftrightarrow> p = 0"
  using show_nat_word_inj [of p 0] by simp

lemma sample_worker_ok: "worker_ok byte_sum sample_worker"
  using fresh_log_fine [of 1024 256 byte_sum]
  by (auto simp: worker_ok_def sample_worker_def show_nat_zero word_less_nat_alt unat_gt_0 split: if_splits)

lemma sample_crash:
  "crash_image byte_sum sample_worker [((''t'', show_nat (unat (0 :: u32))), [(segment_file 0, [])])]"
proof -
  obtain c where c: "encode_record byte_sum sample_record 0 = Ok c"
    using encode_record_eq sample_record_ok by blast
  then have "chunk byte_sum (stored_of sample_record 0) c" "0 < length c"
    using encode_record_chunk [OF c] chunk_not_Nil by auto
  then have "\<exists>r c n. chunk byte_sum r c \<and> n < length c \<and> [] = take n c"
    by (intro exI [of _ "stored_of sample_record 0"] exI [of _ c] exI [of _ 0]) simp
  then have "crashed byte_sum (fresh_log 1024 256) [] [(segment_file 0, [])]"
    by (auto simp: crashed_def fresh_log_def)
  then have "log_image byte_sum (fresh_log 1024 256) [(segment_file 0, [])]"
    unfolding log_image_def
    by (intro exI [of _ "[]"] exI [of _ 0] exI [of _ "[] :: bytes"]) (simp add: fresh_log_rep)
  then show ?thesis
    using sample_topic
    by (auto simp: crash_image_def sample_worker_def show_nat_zero split: if_splits)
qed

lemma sample_untrimmed: "untrimmed sample_worker"
  by (simp add: untrimmed_def sample_worker_def low_watermark_def fresh_log_def)


end
