(* ===== verification/Cluster_Config.thy ===== *)
theory Cluster_Config
  imports Wire_Types "HOL-Library.Multiset"
begin

text \<open>
  \<open>crates/common/src/lib.rs\<close>: the configuration record and the validation of the cluster membership.
  Reading and parsing the TOML file is library code; parsing of a socket address from its text
  is the argument \<open>parses\<close>.
\<close>

section \<open>Configuration\<close>

datatype config_error =
    ConfigRead
  | ConfigParse
  | ConfigAddress
  | ConfigAdminAddress
  | InvalidCluster
  | LocalBrokerMissing
  | InvalidReplicationPolicy

record cluster_config =
  cc_broker_id :: u32
  cc_replication_factor :: nat
  cc_min_in_sync_replicas :: nat
  cc_nodes :: "cluster_node list"

record broker_config =
  bc_host :: string
  bc_port :: u16
  bc_data_dir :: string
  bc_max_segment_bytes :: u64
  bc_index_interval_bytes :: u64
  bc_default_partition_count :: u32
  bc_group_session_timeout_ms :: u64
  bc_retention_bytes :: u64
  bc_retention_ms :: u64
  bc_storage_queue_capacity :: nat
  bc_storage_enqueue_timeout_ms :: u64
  bc_auto_create_topics :: bool

record admin_config =
  ac_host :: string
  ac_port :: u16

record logging_config =
  lc_json :: bool

record config =
  cf_broker :: broker_config
  cf_admin :: admin_config
  cf_logging :: logging_config
  cf_cluster :: cluster_config

definition default_cluster_config :: cluster_config where
  "default_cluster_config = \<lparr>cc_broker_id = 1, cc_replication_factor = 1, cc_min_in_sync_replicas = 1,
     cc_nodes = []\<rparr>"

definition default_admin_config :: admin_config where
  "default_admin_config = \<lparr>ac_host = ''127.0.0.1'', ac_port = 7401\<rparr>"

definition endpoint :: "string \<Rightarrow> u16 \<Rightarrow> string" where
  "endpoint host port = host @ CHR '':'' # show_nat (unat port)"

definition broker_socket_addr :: "(string \<Rightarrow> bool) \<Rightarrow> broker_config \<Rightarrow> (string, config_error) outcome" where
  "broker_socket_addr parses b = (let a = endpoint (bc_host b) (bc_port b) in
     if parses a then Ok a else Err ConfigAddress)"

definition admin_socket_addr :: "(string \<Rightarrow> bool) \<Rightarrow> admin_config \<Rightarrow> (string, config_error) outcome" where
  "admin_socket_addr parses b = (let a = endpoint (ac_host b) (ac_port b) in
     if parses a then Ok a else Err ConfigAdminAddress)"

section \<open>Membership\<close>

definition configured_nodes :: "config \<Rightarrow> (cluster_node list, config_error) outcome" where
  "configured_nodes c =
    (if cc_nodes (cf_cluster c) = [] then
       try_bind (ok_or (checked_add (bc_port (cf_broker c)) 100) InvalidCluster) (\<lambda>replication_port.
       Ok [\<lparr>cn_id = cc_broker_id (cf_cluster c), cn_host = bc_host (cf_broker c),
            cn_port = bc_port (cf_broker c), cn_admin_port = ac_port (cf_admin c),
            cn_replication_port = replication_port\<rparr>])
     else Ok (cc_nodes (cf_cluster c)))"

definition node_ports :: "cluster_node \<Rightarrow> u16 list" where
  "node_ports node = [cn_port node, cn_admin_port node, cn_replication_port node]"

definition node_endpoints :: "cluster_node \<Rightarrow> (string \<times> u16) list" where
  "node_endpoints node = map (Pair (cn_host node)) (node_ports node)"

text \<open>The membership loop: the identifiers and endpoints seen so far are refused.\<close>

fun check_nodes ::
    "(string \<Rightarrow> bool) \<Rightarrow> u32 list \<Rightarrow> (string \<times> u16) list \<Rightarrow> cluster_node list \<Rightarrow> (u32 list, config_error) outcome"
  where
  "check_nodes parses ids endpoints [] = Ok ids"
| "check_nodes parses ids endpoints (node # nodes) =
    (let own = node_endpoints node in
     if cn_id node = 0 \<or> cn_id node \<in> set ids \<or> \<not> distinct own \<or> set own \<inter> set endpoints \<noteq> {} \<or>
        list_ex (\<lambda>port. \<not> parses (endpoint (cn_host node) port)) (node_ports node)
     then Err InvalidCluster
     else check_nodes parses (cn_id node # ids) (own @ endpoints) nodes)"

definition cluster_nodes :: "(string \<Rightarrow> bool) \<Rightarrow> config \<Rightarrow> (cluster_node list, config_error) outcome" where
  "cluster_nodes parses c =
    try_bind (configured_nodes c) (\<lambda>nodes.
    try_bind (check_nodes parses [] [] nodes) (\<lambda>ids.
    if cc_broker_id (cf_cluster c) \<notin> set ids then Err LocalBrokerMissing
    else if cc_replication_factor (cf_cluster c) = 0 \<or>
        length nodes < cc_replication_factor (cf_cluster c) \<or>
        cc_min_in_sync_replicas (cf_cluster c) = 0 \<or>
        cc_replication_factor (cf_cluster c) < cc_min_in_sync_replicas (cf_cluster c)
    then Err InvalidReplicationPolicy
    else Ok (sort_key cn_id nodes)))"

section \<open>What a valid membership guarantees\<close>

definition membership_ok :: "u32 \<Rightarrow> nat \<Rightarrow> nat \<Rightarrow> cluster_node list \<Rightarrow> bool" where
  "membership_ok broker_id rf min_isr nodes \<longleftrightarrow> distinct (map cn_id nodes) \<and> sorted (map cn_id nodes) \<and>
     0 \<notin> cn_id ` set nodes \<and> broker_id \<in> cn_id ` set nodes \<and> 0 < min_isr \<and> min_isr \<le> rf \<and> rf \<le> length nodes"

lemma check_nodes_Ok:
  "check_nodes parses ids endpoints nodes = Ok ids' \<Longrightarrow> distinct ids \<Longrightarrow> distinct endpoints \<Longrightarrow>
     set ids' = set ids \<union> cn_id ` set nodes \<and> distinct (map cn_id nodes) \<and>
     cn_id ` set nodes \<inter> set ids = {} \<and> 0 \<notin> cn_id ` set nodes \<and>
     distinct (concat (map node_endpoints nodes)) \<and>
     set (concat (map node_endpoints nodes)) \<inter> set endpoints = {} \<and>
     list_all (\<lambda>node. list_all (\<lambda>port. parses (endpoint (cn_host node) port)) (node_ports node)) nodes"
proof (induction parses ids endpoints nodes rule: check_nodes.induct)
  case (2 parses ids endpoints node nodes)
  define own where "own = node_endpoints node"
  have ok: "cn_id node \<noteq> 0" "cn_id node \<notin> set ids" "distinct own" "set own \<inter> set endpoints = {}"
    "list_all (\<lambda>port. parses (endpoint (cn_host node) port)) (node_ports node)"
    and rest: "check_nodes parses (cn_id node # ids) (own @ endpoints) nodes = Ok ids'"
    using 2(2)
    by (auto simp: own_def Let_def list_ex_iff list_all_iff split: if_splits)
  have "distinct (cn_id node # ids)" "distinct (own @ endpoints)" using ok 2(3,4) by auto
  from 2(1) [OF _ _ rest [unfolded own_def] this [unfolded own_def]] ok
  have ih: "set ids' = set (cn_id node # ids) \<union> cn_id ` set nodes" "distinct (map cn_id nodes)"
    "cn_id ` set nodes \<inter> set (cn_id node # ids) = {}" "0 \<notin> cn_id ` set nodes"
    "distinct (concat (map node_endpoints nodes))"
    "set (concat (map node_endpoints nodes)) \<inter> set (own @ endpoints) = {}"
    "list_all (\<lambda>node. list_all (\<lambda>port. parses (endpoint (cn_host node) port)) (node_ports node)) nodes"
    by (auto simp: own_def list_ex_iff list_all_iff)
  have "concat (map node_endpoints (node # nodes)) = own @ concat (map node_endpoints nodes)"
    by (simp add: own_def)
  with ok ih show ?case by (simp del: set_concat) blast
qed simp

text \<open>C37: What validation of the cluster section guarantees to the broker: the members are sorted by
  a unique non-zero identifier, no two listeners of the cluster share an address, the local
  broker is a member, and the replication policy fits (so no remainder by the number of nodes
  can fail, and every partition has \<open>replication_factor\<close> different replicas).\<close>

theorem cluster_nodes_valid:
  assumes "cluster_nodes parses c = Ok nodes"
  shows "membership_ok (cc_broker_id (cf_cluster c)) (cc_replication_factor (cf_cluster c))
      (cc_min_in_sync_replicas (cf_cluster c)) nodes \<and>
    distinct (concat (map node_endpoints nodes)) \<and>
    (\<forall>node \<in> set nodes. \<forall>port \<in> set (node_ports node). parses (endpoint (cn_host node) port))"
proof -
  obtain ns ids where ns: "configured_nodes c = Ok ns" "check_nodes parses [] [] ns = Ok ids"
    and p: "cc_broker_id (cf_cluster c) \<in> set ids" "cc_replication_factor (cf_cluster c) \<noteq> 0"
      "cc_replication_factor (cf_cluster c) \<le> length ns" "cc_min_in_sync_replicas (cf_cluster c) \<noteq> 0"
      "cc_min_in_sync_replicas (cf_cluster c) \<le> cc_replication_factor (cf_cluster c)"
    and nodes: "nodes = sort_key cn_id ns"
    using assms by (auto simp: cluster_nodes_def try_bind_eq_Ok not_less split: if_splits)
  note ok = check_nodes_Ok [OF ns(2), simplified]
  have "mset (concat (map node_endpoints nodes)) = mset (concat (map node_endpoints ns))"
    by (simp add: nodes mset_concat flip: sum_mset_sum_list)
  then have "distinct (concat (map node_endpoints nodes))"
    using ok by (metis mset_eq_imp_distinct_iff)
  moreover have "distinct (map cn_id nodes)"
    using ok mset_eq_imp_distinct_iff [of "map cn_id nodes" "map cn_id ns"] by (simp add: nodes)
  ultimately show ?thesis
    using ok p by (auto simp: membership_ok_def nodes list_all_iff)
qed

definition sample_config :: config where
  "sample_config = \<lparr>cf_broker = \<lparr>bc_host = ''127.0.0.1'', bc_port = 7400, bc_data_dir = ''data'',
      bc_max_segment_bytes = 1024, bc_index_interval_bytes = 256, bc_default_partition_count = 3, bc_group_session_timeout_ms = 10,
      bc_retention_bytes = 0, bc_retention_ms = 0, bc_storage_queue_capacity = 8,
      bc_storage_enqueue_timeout_ms = 5, bc_auto_create_topics = True\<rparr>,
    cf_admin = default_admin_config, cf_logging = \<lparr>lc_json = False\<rparr>,
    cf_cluster = default_cluster_config\<rparr>"

theorem cluster_nodes_valid_witness:
  "\<exists>nodes. cluster_nodes (\<lambda>_. True) sample_config = Ok nodes \<and> length nodes = 1 \<and>
     membership_ok 1 1 1 nodes"
proof -
  obtain nodes where n: "cluster_nodes (\<lambda>_. True) sample_config = Ok nodes" "length nodes = 1"
    by (simp add: cluster_nodes_def configured_nodes_def sample_config_def default_cluster_config_def
        default_admin_config_def checked_add_def node_ports_def node_endpoints_def Let_def)
  with cluster_nodes_valid [OF n(1)] show ?thesis
    by (simp add: sample_config_def default_cluster_config_def)
qed

end
