(* ===== verification/Broker.thy ===== *)
theory Broker
  imports Storage_Worker Consumer_Groups
begin

text \<open>
  One broker of \<open>crates/broker/src/lib.rs\<close>: the state behind the storage, leadership and group
  handles, the requests a broker answers from its own state, the answer to an error of a
  handler, and the handling of a replicated record.  A handler runs without interruption; a
  fetch that waits is the read it makes last, the appends it waited for being earlier steps.
  Here the storage queue accepts every command; the queue itself, its timeout and the waiting of a
  fetch are modelled on top of this theory, in \<open>Storage_Queue\<close>.
\<close>

section \<open>State\<close>

text \<open>What the broker takes from its platform: the crc32fast hash, the wall clock (\<open>None\<close> before
  the epoch) and the monotonic clock.\<close>

record platform =
  pf_hash :: "bytes \<Rightarrow> u32"
  pf_clock :: "nat option"
  pf_now :: nat

record broker =
  bk_settings :: storage_settings
  bk_storage :: storage_worker
  bk_leadership :: leadership_registry
  bk_groups :: group_coordinator
  bk_replication_factor :: nat
  bk_min_in_sync_replicas :: nat

abbreviation bk_metadata :: "broker \<Rightarrow> cluster_metadata" where
  "bk_metadata b \<equiv> lr_cluster (bk_leadership b)"

abbreviation bk_id :: "broker \<Rightarrow> u32" where
  "bk_id b \<equiv> cm_responding_broker_id (bk_metadata b)"

datatype connection_error =
    ConnIo
  | ConnProtocol protocol_error
  | ConnClient
  | ConnAddress
  | ConnLeadership leadership_error
  | TruncatedFrame
  | ConnStorage storage_error
  | StorageUnavailable
  | BrokerBusy
  | ReplicationClosed
  | InvalidReplicationAck
  | MissingAppendedRecord
  | StaleLeaderEpoch
  | NotEnoughInSyncReplicas nat nat
  | InvalidClusterMetadata
  | LeaderEpochOverflow
  | PromotionCandidateUnavailable
  | UnsafePromotion u64 u64 nat

type_synonym 'a broker_result = "('a, connection_error) outcome \<times> broker"

section \<open>Error texts\<close>

fun io_error_text :: "io_error \<Rightarrow> string" where
  "io_error_text NotFound = ''No such file or directory (os error 2)''"
| "io_error_text AlreadyExists = ''File exists (os error 17)''"

fun storage_error_text :: "storage_error \<Rightarrow> string" where
  "storage_error_text (Io e) = ''storage I/O failed: '' @ io_error_text e"
| "storage_error_text InvalidRecord = ''record is malformed or truncated''"
| "storage_error_text RecordTooLarge = ''record exceeds the configured limit''"
| "storage_error_text ChecksumMismatch = ''record checksum does not match its contents''"
| "storage_error_text (UnsupportedVersion v) = ''record version '' @ show_nat (unat v) @ '' is not supported''"
| "storage_error_text storage_error.InvalidTopic = ''topic name is invalid''"
| "storage_error_text TopicAlreadyExists = ''topic already exists''"
| "storage_error_text UnknownTopic = ''topic does not exist''"
| "storage_error_text storage_error.InvalidProducerId = ''producer id is invalid''"
| "storage_error_text (UnexpectedProducerSequence p expected actual) =
    ''producer '' @ p @ '' expected sequence '' @ show_nat (unat expected) @ '', received '' @ show_nat (unat actual)"
| "storage_error_text OffsetOverflow = ''offset space is exhausted''"
| "storage_error_text (UnexpectedOffset expected actual) =
    ''expected offset '' @ show_nat (unat expected) @ '', found '' @ show_nat (unat actual)"
| "storage_error_text (ReplicaDiverged offset) = ''replica content diverges at offset '' @ show_nat (unat offset)"
| "storage_error_text InvalidSegmentLimit = ''segment size limit must be greater than zero''"
| "storage_error_text InvalidIndexInterval = ''index interval must be greater than zero''"
| "storage_error_text MissingActiveSegment = ''partition has no active segment''"
| "storage_error_text InvalidSegmentName = ''segment filename is invalid''"
| "storage_error_text InvalidPartitionName = ''partition directory name is invalid''"
| "storage_error_text (UnexpectedSegmentBase expected actual) =
    ''expected segment base offset '' @ show_nat (unat expected) @ '', found '' @ show_nat (unat actual)"
| "storage_error_text (IncompleteClosedSegment offset) =
    ''closed segment at offset '' @ show_nat (unat offset) @ '' has an incomplete tail''"
| "storage_error_text InvalidTimestamp = ''record timestamp is outside the supported range''"
| "storage_error_text InvalidReadLimit = ''read limit must be greater than zero''"
| "storage_error_text (UnknownPartition part) = ''partition '' @ show_nat (unat part) @ '' does not exist''"

text \<open>The two constructors for failing I/O carry no detail in the model: writes succeed there.\<close>

fun leadership_error_text :: "leadership_error \<Rightarrow> string" where
  "leadership_error_text LeadershipIo = ''leadership metadata I/O failed: ''"
| "leadership_error_text InvalidMetadata = ''leadership metadata is malformed''"
| "leadership_error_text Poisoned = ''leadership metadata lock is poisoned''"
| "leadership_error_text (MissingPartition part) = ''partition '' @ show_nat (unat part) @ '' has no leadership metadata''"
| "leadership_error_text (UnknownBroker broker_id) = ''broker '' @ show_nat (unat broker_id) @ '' is not in cluster membership''"
| "leadership_error_text StaleEpoch = ''leadership epoch is not newer than the current epoch''"

fun group_error_text :: "group_error \<Rightarrow> string" where
  "group_error_text InvalidId = ''group, topic, or member id is invalid''"
| "group_error_text UnknownGroup = ''consumer group does not exist''"
| "group_error_text UnknownMember = ''consumer member does not exist''"
| "group_error_text (StaleGeneration expected actual) =
    ''stale generation: expected '' @ show_nat (unat expected) @ '', received '' @ show_nat (unat actual)"
| "group_error_text (PartitionNotAssigned part) = ''partition '' @ show_nat (unat part) @ '' is not assigned to this member''"
| "group_error_text GenerationOverflow = ''consumer group generation space is exhausted''"
| "group_error_text InvalidOffsetFile = ''committed offset file is invalid''"
| "group_error_text CoordinatorPoisoned = ''consumer group coordinator lock is poisoned''"
| "group_error_text GroupIo = ''consumer group I/O failed: ''"

text \<open>How \<open>handle_connection\<close> answers an error of a handler: as an error response, or not at all
  (\<open>None\<close>), when it closes the connection.\<close>

fun error_response :: "connection_error \<Rightarrow> response option" where
  "error_response BrokerBusy = Some (RError ''broker busy: storage queue timeout'')"
| "error_response (ConnStorage e) = Some (RError (storage_error_text e))"
| "error_response (NotEnoughInSyncReplicas required available) =
    Some (RError (''not enough in-sync replicas: required='' @ show_nat required @ '' available='' @ show_nat available))"
| "error_response PromotionCandidateUnavailable = Some (RError ''promotion candidate is unavailable'')"
| "error_response (UnsafePromotion candidate highest available) =
    Some (RError (''unsafe promotion: candidate_offset='' @ show_nat (unat candidate) @ '' highest_offset=''
      @ show_nat (unat highest) @ '' available_replicas='' @ show_nat available))"
| "error_response LeaderEpochOverflow = Some (RError ''leader epoch space is exhausted'')"
| "error_response StaleLeaderEpoch = Some (RError ''replication request came from a stale leader epoch'')"
| "error_response (ConnLeadership e) = Some (RError (leadership_error_text e))"
| "error_response _ = None"

section \<open>Handles\<close>

definition on_storage :: "(storage_worker \<Rightarrow> 'a worker_result) \<Rightarrow> broker \<Rightarrow> 'a broker_result" where
  "on_storage f b = (case f (bk_storage b) of (res, w) \<Rightarrow> (map_err ConnStorage res, b\<lparr>bk_storage := w\<rparr>))"

definition on_leadership ::
    "(leadership_registry \<Rightarrow> ('a, leadership_error) outcome \<times> leadership_registry) \<Rightarrow> broker \<Rightarrow> 'a broker_result" where
  "on_leadership f b = (case f (bk_leadership b) of (res, reg) \<Rightarrow> (map_err ConnLeadership res, b\<lparr>bk_leadership := reg\<rparr>))"

definition broker_leader :: "string \<Rightarrow> u32 \<Rightarrow> broker \<Rightarrow> partition_leadership broker_result" where
  "broker_leader topic part = on_leadership (\<lambda>reg. (partition_leader reg topic part, reg))"

definition handle_partition_offset :: "string \<Rightarrow> u32 \<Rightarrow> broker \<Rightarrow> u64 broker_result" where
  "handle_partition_offset topic part = on_storage (\<lambda>w. (partition_offset w topic part, w))"

definition handle_truncate :: "platform \<Rightarrow> string \<Rightarrow> u32 \<Rightarrow> u64 \<Rightarrow> broker \<Rightarrow> unit broker_result" where
  "handle_truncate pf topic part offset = on_storage (truncate_partition (pf_hash pf) topic part offset)"

definition handle_replicate :: "platform \<Rightarrow> replicate_record \<Rightarrow> broker \<Rightarrow> u64 broker_result" where
  "handle_replicate pf r = on_storage (worker_append_replica (pf_hash pf) r)"

definition read_once :: "platform \<Rightarrow> string \<Rightarrow> u32 \<Rightarrow> u64 \<Rightarrow> u32 \<Rightarrow> broker \<Rightarrow> fetched_record list broker_result" where
  "read_once pf topic part offset max_bytes b =
    on_storage (read_records (pf_hash pf) (bk_settings b) topic part offset max_bytes) b"

definition record_at :: "platform \<Rightarrow> string \<Rightarrow> u32 \<Rightarrow> u64 \<Rightarrow> broker \<Rightarrow> fetched_record broker_result" where
  "record_at pf topic part offset b =
    step_bind (read_once pf topic part offset (16 * 1024 * 1024) b) (\<lambda>records b.
    (ok_or (find (\<lambda>r. fd_offset r = offset) records) MissingAppendedRecord, b))"

definition handle_create_topic :: "platform \<Rightarrow> string \<Rightarrow> u32 \<Rightarrow> broker \<Rightarrow> topic_metadata broker_result" where
  "handle_create_topic pf topic partitions b =
    on_storage (create_topic (pf_hash pf) (bk_settings b) topic partitions) b"

definition handle_list_topics :: "broker \<Rightarrow> topic_metadata list broker_result" where
  "handle_list_topics = on_storage (\<lambda>w. (Ok (storage_topic_metadata w), w))"

definition handle_describe_topic :: "string \<Rightarrow> broker \<Rightarrow> topic_metadata broker_result" where
  "handle_describe_topic topic b =
    step_bind (handle_list_topics b) (\<lambda>topics b.
    (ok_or (find (\<lambda>m. tm_topic m = topic) topics) (ConnStorage UnknownTopic), b))"

definition handle_append :: "platform \<Rightarrow> append_input \<Rightarrow> broker \<Rightarrow> produce_ack broker_result" where
  "handle_append pf input b =
    on_storage (append_record (pf_hash pf) (bk_settings b) (pf_clock pf) input) b"

definition handle_append_batch :: "platform \<Rightarrow> batch_append_input \<Rightarrow> broker \<Rightarrow> produce_ack list broker_result" where
  "handle_append_batch pf input b =
    on_storage (append_batch_records (pf_hash pf) (bk_settings b) (pf_clock pf) input) b"

definition handle_snapshot :: "broker \<Rightarrow> partition_snapshot list broker_result" where
  "handle_snapshot = on_storage (\<lambda>w. (snapshot_logs w, w))"

section \<open>Group requests\<close>

fun execute_group_request ::
    "nat \<Rightarrow> request \<Rightarrow> group_coordinator \<Rightarrow> (response, group_error) outcome \<times> group_coordinator" where
  "execute_group_request now (JoinGroup r) c =
    step_bind (join now (gm_group r) (gm_topic r) (gm_member r) c) (\<lambda>j c. (Ok (RJoinGroup j), c))"
| "execute_group_request now (Heartbeat r) c =
    step_bind (heartbeat now (gg_group r) (gg_topic r) (gg_member r) (gg_generation r) c) (\<lambda>_ c. (Ok RGroupAck, c))"
| "execute_group_request now (LeaveGroup r) c =
    step_bind (leave now (gg_group r) (gg_topic r) (gg_member r) (gg_generation r) c) (\<lambda>_ c. (Ok RGroupAck, c))"
| "execute_group_request now (CommitOffset r) c =
    step_bind (commit now \<lparr>gi_group = co_group r, gi_topic = co_topic r, gi_member = co_member r,
      gi_generation = co_generation r\<rparr> (co_partition r) (co_offset r) c) (\<lambda>_ c. (Ok RGroupAck, c))"
| "execute_group_request now (FetchCommittedOffset r) c =
    (map_ok RCommittedOffset (committed_offset c (fc_group r) (fc_topic r) (fc_partition r)), c)"
| "execute_group_request now (GroupFetch r) c =
    step_bind (authorize_fetch now \<lparr>gi_group = gf_group r, gi_topic = gf_topic r, gi_member = gf_member r,
      gi_generation = gf_generation r\<rparr> (gf_partition r) c) (\<lambda>_ c. (Ok RGroupAck, c))"
| "execute_group_request now _ c = (Panic, c)"

text \<open>An error of the coordinator becomes an error response.\<close>

definition execute_group :: "platform \<Rightarrow> request \<Rightarrow> broker \<Rightarrow> response broker_result" where
  "execute_group pf r b =
    (case execute_group_request (pf_now pf) r (bk_groups b) of (res, c) \<Rightarrow>
      (case res of Ok response \<Rightarrow> Ok response | Err e \<Rightarrow> Ok (RError (group_error_text e)) | Panic \<Rightarrow> Panic,
       b\<lparr>bk_groups := c\<rparr>))"

section \<open>Replica placement\<close>

text \<open>The replicas of a partition: \<open>replication_factor\<close> nodes from the partition's position on, around
  the membership list.  Indexing and the remainder panic on an empty membership.\<close>

definition replica_nodes :: "cluster_metadata \<Rightarrow> u32 \<Rightarrow> nat \<Rightarrow> (cluster_node list, connection_error) outcome" where
  "replica_nodes m part replication_factor =
    (let n = length (cm_nodes m) in
     if n = 0 then Panic
     else Ok (map (\<lambda>offset. cm_nodes m ! ((unat part mod n + offset) mod n)) [0..<replication_factor]))"

definition is_partition_replica :: "cluster_metadata \<Rightarrow> u32 \<Rightarrow> u32 \<Rightarrow> nat \<Rightarrow> (bool, connection_error) outcome" where
  "is_partition_replica m broker_id part replication_factor =
    map_ok (list_ex (\<lambda>node. cn_id node = broker_id)) (replica_nodes m part replication_factor)"

definition replica_followers :: "broker \<Rightarrow> u32 \<Rightarrow> (cluster_node list, connection_error) outcome" where
  "replica_followers b part =
    map_ok (filter (\<lambda>node. cn_id node \<noteq> bk_id b)) (replica_nodes (bk_metadata b) part (bk_replication_factor b))"

definition is_controller :: "broker \<Rightarrow> bool" where
  "is_controller b = (case cm_nodes (bk_metadata b) of [] \<Rightarrow> False | node # _ \<Rightarrow> cn_id node = bk_id b)"

section \<open>Requests answered from the broker's own state\<close>

definition with_leaders :: "topic_metadata \<Rightarrow> broker \<Rightarrow> topic_metadata broker_result" where
  "with_leaders metadata b =
    step_bind (on_leadership (topic_leaders (tm_topic metadata) (tm_partitions metadata)) b) (\<lambda>leadership b.
    (Ok (metadata\<lparr>tm_leaders := map pl_leader_id leadership,
       tm_leader_epochs := map pl_leader_epoch leadership,
       tm_high_watermarks := map pl_high_watermark leadership\<rparr>), b))"

fun all_with_leaders :: "topic_metadata list \<Rightarrow> broker \<Rightarrow> topic_metadata list broker_result" where
  "all_with_leaders [] b = (Ok [], b)"
| "all_with_leaders (m # ms) b =
    step_bind (with_leaders m b) (\<lambda>m b.
    step_bind (all_with_leaders ms b) (\<lambda>ms b. (Ok (m # ms), b)))"

definition not_leader_text :: "u32 \<Rightarrow> partition_leadership \<Rightarrow> string" where
  "not_leader_text part l = ''not partition leader: partition='' @ show_nat (unat part) @ '' leader_id=''
     @ show_nat (unat (pl_leader_id l)) @ '' leader_epoch='' @ show_nat (unat (pl_leader_epoch l))"

text \<open>\<open>Some\<close> response when the broker must not serve the partition.\<close>

definition cluster_leadership_error :: "string \<Rightarrow> u32 option \<Rightarrow> broker \<Rightarrow> response option broker_result" where
  "cluster_leadership_error topic part b =
    (if length (cm_nodes (bk_metadata b)) = 1 then (Ok None, b)
     else case part of
       None \<Rightarrow> (Ok (Some (RError ''partition is required for clustered produce'')), b)
     | Some part \<Rightarrow>
         step_bind (broker_leader topic part b) (\<lambda>l b.
         (Ok (if pl_leader_id l \<noteq> bk_id b then Some (RError (not_leader_text part l)) else None), b)))"

definition visible :: "u64 \<Rightarrow> fetched_record list \<Rightarrow> fetched_record list" where
  "visible high_watermark records = filter (\<lambda>r. fd_offset r < high_watermark) records"

definition process_fetch :: "platform \<Rightarrow> fetch_request \<Rightarrow> broker \<Rightarrow> response broker_result" where
  "process_fetch pf r b =
    step_bind (cluster_leadership_error (fr_topic r) (Some (fr_partition r)) b) (\<lambda>refused b.
    case refused of Some response \<Rightarrow> (Ok response, b) | None \<Rightarrow>
    step_bind (read_once pf (fr_topic r) (fr_partition r) (fr_offset r) (fr_max_bytes r) b) (\<lambda>records b.
    step_bind (broker_leader (fr_topic r) (fr_partition r) b) (\<lambda>l b.
    (Ok (RFetch (visible (pl_high_watermark l) records)), b))))"

definition group_fetch :: "platform \<Rightarrow> group_fetch_request \<Rightarrow> u64 \<Rightarrow> broker \<Rightarrow> response broker_result" where
  "group_fetch pf r high_watermark b =
    step_bind (execute_group pf (GroupFetch r) b) (\<lambda>response b.
    case response of
      RGroupAck \<Rightarrow>
        step_bind (read_once pf (gf_topic r) (gf_partition r) (gf_offset r) (gf_max_bytes r) b) (\<lambda>records b.
        (Ok (RFetch (visible high_watermark records)), b))
    | RError msg \<Rightarrow> (Ok (RError msg), b)
    | _ \<Rightarrow> (Ok (RError ''invalid group authorization response''), b))"

definition process_group_fetch :: "platform \<Rightarrow> group_fetch_request \<Rightarrow> broker \<Rightarrow> response broker_result" where
  "process_group_fetch pf r b =
    step_bind (cluster_leadership_error (gf_topic r) (Some (gf_partition r)) b) (\<lambda>refused b.
    case refused of Some response \<Rightarrow> (Ok response, b) | None \<Rightarrow>
    step_bind (broker_leader (gf_topic r) (gf_partition r) b) (\<lambda>l b.
    group_fetch pf r (pl_high_watermark l) b))"

text \<open>The local part of a topic creation: \<open>Inl\<close> is the error response for a refusal by the storage,
  \<open>Inr\<close> the new topic.  A failure of the group coordinator is reported as unavailable storage.\<close>

definition register_topic ::
    "platform \<Rightarrow> create_topic_request \<Rightarrow> broker \<Rightarrow> (response + topic_metadata) broker_result" where
  "register_topic pf r b =
    (case handle_create_topic pf (ct_topic r) (ct_partitions r) b of
       (Err (ConnStorage e), b) \<Rightarrow> (Ok (Inl (RError (storage_error_text e))), b)
     | (res, b) \<Rightarrow> step_bind (res, b) (\<lambda>metadata b.
         (case set_topic_partitions (tm_topic metadata) (tm_partitions metadata) (bk_groups b) of (res, c) \<Rightarrow>
         step_bind (map_err (\<lambda>_. StorageUnavailable) res, b\<lparr>bk_groups := c\<rparr>) (\<lambda>_ b.
         step_bind (on_leadership (ensure_topic (tm_topic metadata) (tm_partitions metadata)) b) (\<lambda>_ b.
         (Ok (Inr metadata), b))))))"

text \<open>The local log is cut back to \<open>offset\<close> when it reaches further.\<close>

definition cut_back :: "platform \<Rightarrow> string \<Rightarrow> u32 \<Rightarrow> u64 \<Rightarrow> broker \<Rightarrow> unit broker_result" where
  "cut_back pf topic part offset b =
    step_bind (handle_partition_offset topic part b) (\<lambda>local_offset b.
    if offset < local_offset then handle_truncate pf topic part offset b else (Ok (), b))"

text \<open>A leadership announcement: a newer epoch first cuts the local log back to its high watermark.\<close>

definition receive_leadership :: "platform \<Rightarrow> apply_leadership_request \<Rightarrow> broker \<Rightarrow> response broker_result" where
  "receive_leadership pf r b =
    (let topic = al_topic r; l = al_leadership r in
     step_bind (broker_leader topic (pl_partition l) b) (\<lambda>current b.
     step_bind (if pl_leader_epoch current < pl_leader_epoch l then
         cut_back pf topic (pl_partition l) (pl_high_watermark l) b
       else (Ok (), b)) (\<lambda>_ b.
     step_bind (on_leadership (apply_leadership topic l) b) (\<lambda>_ b.
     (Ok (RLeadershipChanged l), b)))))"

section \<open>Replicated records\<close>

text \<open>A record of a newer epoch: the follower cuts its log back to the record's position and follows
  the new leader.\<close>

definition join_epoch :: "platform \<Rightarrow> replicate_record \<Rightarrow> partition_leadership \<Rightarrow> broker \<Rightarrow> unit broker_result" where
  "join_epoch pf r current b =
    (if pl_leader_epoch current < rr_leader_epoch r then
       step_bind (cut_back pf (rr_topic r) (rr_partition r) (rr_offset r) b) (\<lambda>_ b.
       on_leadership (apply_leadership (rr_topic r) \<lparr>pl_partition = rr_partition r,
         pl_leader_id = rr_leader_id r, pl_leader_epoch = rr_leader_epoch r,
         pl_high_watermark = pl_high_watermark current\<rparr>) b)
     else (Ok (), b))"

definition fenced :: "replicate_record \<Rightarrow> partition_leadership \<Rightarrow> bool" where
  "fenced r current \<longleftrightarrow> rr_leader_epoch r < pl_leader_epoch current \<or>
     rr_leader_epoch r = pl_leader_epoch current \<and> rr_leader_id r \<noteq> pl_leader_id current"

text \<open>One turn of the loop of \<open>handle_replication_connection\<close>: the next offset it acknowledges.  Here nothing comes between the check,
  the calls of the storage worker and the registration of the leader; the theory \<open>Replica_Fence\<close> splits the turn at the points where
  the code waits.\<close>

definition receive_replica :: "platform \<Rightarrow> replicate_record \<Rightarrow> broker \<Rightarrow> replicate_ack broker_result" where
  "receive_replica pf r b =
    step_bind (broker_leader (rr_topic r) (rr_partition r) b) (\<lambda>current b.
    if fenced r current then (Err StaleLeaderEpoch, b)
    else
    step_bind (join_epoch pf r current b) (\<lambda>_ b.
    step_bind (handle_partition_offset (rr_topic r) (rr_partition r) b) (\<lambda>expected b.
    step_bind (if expected < rr_offset r then (Ok expected, b) else handle_replicate pf r b) (\<lambda>next_offset b.
    (Ok \<lparr>ra_partition = rr_partition r, ra_next_offset = next_offset\<rparr>, b)))))"

end
