(* ===== verification/Cluster.thy ===== *)
theory Cluster
  imports Broker
begin

text \<open>
  The brokers of a cluster and what they ask of each other (\<open>crates/broker/src/lib.rs\<close>): replication of
  produced records, high watermark and leadership announcements, promotion, the leader monitor,
  the synchronisation with the controller, and the recovery of a follower.  Every message that a
  broker sends to another takes the head of the list of deliveries: it arrives and is answered,
  it is lost, or its answer is lost; with no delivery left the network is down.  A timeout is a
  lost message.  The messages between brokers are encodable, because topic names and sizes were
  checked when the record was accepted; their encoding is the subject of the wire theories.
\<close>

section \<open>Brokers and messages\<close>

datatype delivery = Delivered | RequestLost | ReplyLost

record cluster =
  cl_brokers :: "u32 \<Rightarrow> broker option"
  cl_net :: "delivery list"

type_synonym 'a cluster_result = "('a, connection_error) outcome \<times> cluster"

definition set_broker :: "u32 \<Rightarrow> broker \<Rightarrow> cluster \<Rightarrow> cluster" where
  "set_broker i b c = c\<lparr>cl_brokers := (cl_brokers c)(i \<mapsto> b)\<rparr>"

text \<open>A step of broker \<open>i\<close> itself.\<close>

definition at_broker :: "u32 \<Rightarrow> (broker \<Rightarrow> 'a broker_result) \<Rightarrow> cluster \<Rightarrow> 'a cluster_result" where
  "at_broker i f c =
    (case cl_brokers c i of
       None \<Rightarrow> (Err StorageUnavailable, c)
     | Some b \<Rightarrow> (case f b of (res, b) \<Rightarrow> (res, set_broker i b c)))"

text \<open>A request to broker \<open>i\<close> from another: \<open>None\<close> when no good answer comes back.\<close>

definition ask :: "u32 \<Rightarrow> (broker \<Rightarrow> 'a broker_result) \<Rightarrow> cluster \<Rightarrow> 'a option \<times> cluster" where
  "ask i f c =
    (case cl_net c of
       [] \<Rightarrow> (None, c)
     | d # ds \<Rightarrow>
         let c = c\<lparr>cl_net := ds\<rparr> in
         if d = RequestLost then (None, c)
         else case at_broker i f c of
           (Ok x, c) \<Rightarrow> (if d = Delivered then Some x else None, c)
         | (_, c) \<Rightarrow> (None, c))"

section \<open>Replication\<close>

definition replication_record :: "string \<Rightarrow> fetched_record \<Rightarrow> ack_mode \<Rightarrow> partition_leadership \<Rightarrow> replicate_record" where
  "replication_record topic r ack_mode l = \<lparr>rr_topic = topic, rr_partition = pl_partition l,
     rr_offset = fd_offset r, rr_timestamp_ms = fd_timestamp_ms r, rr_key = fd_key r,
     rr_value = fd_value r, rr_durable = (ack_mode = Durable), rr_leader_id = pl_leader_id l,
     rr_leader_epoch = pl_leader_epoch l\<rparr>"

definition send_replica :: "platform \<Rightarrow> u32 \<Rightarrow> replicate_record \<Rightarrow> cluster \<Rightarrow> u64 cluster_result" where
  "send_replica pf follower r c =
    (case ask follower (receive_replica pf r) c of
       (None, c) \<Rightarrow> (Err ReplicationClosed, c)
     | (Some ack, c) \<Rightarrow>
         (if ra_partition ack \<noteq> rr_partition r then Err InvalidReplicationAck else Ok (ra_next_offset ack), c))"

lemma step_bind_cong [fundef_cong]:
  "m = m' \<Longrightarrow> (\<And>x s. m' = (Ok x, s) \<Longrightarrow> f x s = g x s) \<Longrightarrow> step_bind m f = step_bind m' g"
  by (cases m'; cases "fst m'") auto

lemma at_broker_net [simp]: "cl_net (snd (at_broker i f c)) = cl_net c"
  by (simp add: at_broker_def set_broker_def split: option.splits prod.splits)

lemma at_broker_net_eq: "at_broker i f c = (res, c') \<Longrightarrow> cl_net c' = cl_net c"
  by (metis at_broker_net snd_conv)

lemma ask_net: "cl_net (snd (ask i f c)) = tl (cl_net c)"
  by (auto simp: ask_def Let_def dest: at_broker_net_eq split: list.splits prod.splits outcome.splits)

lemma ask_Some_net: "ask i f c = (Some x, c') \<Longrightarrow> length (cl_net c') < length (cl_net c)"
  using ask_net [of i f c] by (cases "cl_net c") (auto simp: ask_def)

lemma send_replica_net: "send_replica pf i r c = (Ok n, c') \<Longrightarrow> length (cl_net c') < length (cl_net c)"
  by (auto simp: send_replica_def dest: ask_Some_net split: prod.splits option.splits if_splits)

text \<open>The loop of \<open>replicate_to_follower\<close>: the follower is sent what it misses.  Every turn takes a
  delivery, so the loop ends at the latest when the network is down.\<close>

function catch_up ::
    "platform \<Rightarrow> u32 \<Rightarrow> u32 \<Rightarrow> string \<Rightarrow> u32 \<Rightarrow> u64 \<Rightarrow> ack_mode \<Rightarrow> partition_leadership \<Rightarrow> u64 \<Rightarrow> cluster
     \<Rightarrow> unit cluster_result" where
  "catch_up pf self follower topic part target ack_mode l next_offset c =
    (if next_offset \<le> target then
       step_bind (at_broker self (record_at pf topic part next_offset) c) (\<lambda>missing c.
       step_bind (send_replica pf follower (replication_record topic missing ack_mode l) c) (\<lambda>next_offset c.
       catch_up pf self follower topic part target ack_mode l next_offset c))
     else (Ok (), c))"
  by pat_completeness auto
termination
  by (relation "measure (\<lambda>(pf, self, follower, topic, part, target, ack_mode, l, n, c). length (cl_net c))")
    (auto dest!: at_broker_net_eq send_replica_net)

declare catch_up.simps [simp del]

definition replicate_to_follower ::
    "platform \<Rightarrow> u32 \<Rightarrow> u32 \<Rightarrow> string \<Rightarrow> u32 \<Rightarrow> fetched_record \<Rightarrow> ack_mode \<Rightarrow> cluster \<Rightarrow> unit cluster_result" where
  "replicate_to_follower pf self follower topic part r ack_mode c =
    step_bind (at_broker self (broker_leader topic part) c) (\<lambda>l c.
    step_bind (send_replica pf follower (replication_record topic r ack_mode l) c) (\<lambda>next_offset c.
    if saturating_add (fd_offset r) 1 < next_offset then (Err InvalidReplicationAck, c)
    else catch_up pf self follower topic part (fd_offset r) ack_mode l next_offset c))"

fun replicate_followers ::
    "platform \<Rightarrow> u32 \<Rightarrow> string \<Rightarrow> u32 \<Rightarrow> fetched_record \<Rightarrow> ack_mode \<Rightarrow> cluster_node list \<Rightarrow> nat \<Rightarrow> cluster
     \<Rightarrow> nat cluster_result" where
  "replicate_followers pf self topic part r ack_mode [] acks c = (Ok acks, c)"
| "replicate_followers pf self topic part r ack_mode (node # nodes) acks c =
    (case replicate_to_follower pf self (cn_id node) topic part r ack_mode c of
       (Ok _, c) \<Rightarrow> replicate_followers pf self topic part r ack_mode nodes (acks + 1) c
     | (Err _, c) \<Rightarrow> replicate_followers pf self topic part r ack_mode nodes acks c
     | (Panic, c) \<Rightarrow> (Panic, c))"

text \<open>Telling every other broker of a leadership; failures are ignored.\<close>

fun broadcast_leadership ::
    "platform \<Rightarrow> u32 \<Rightarrow> string \<Rightarrow> partition_leadership \<Rightarrow> cluster_node list \<Rightarrow> cluster \<Rightarrow> cluster" where
  "broadcast_leadership pf self topic l [] c = c"
| "broadcast_leadership pf self topic l (node # nodes) c =
    broadcast_leadership pf self topic l nodes
      (if cn_id node = self then c
       else snd (ask (cn_id node) (receive_leadership pf \<lparr>al_topic = topic, al_leadership = l\<rparr>) c))"

definition cluster_info :: "u32 \<Rightarrow> cluster \<Rightarrow> cluster_metadata cluster_result" where
  "cluster_info self = at_broker self (\<lambda>b. (Ok (bk_metadata b), b))"

definition commit_offset ::
    "platform \<Rightarrow> u32 \<Rightarrow> string \<Rightarrow> u32 \<Rightarrow> u64 \<Rightarrow> cluster \<Rightarrow> unit cluster_result" where
  "commit_offset pf self topic part high_watermark c =
    step_bind (at_broker self (broker_leader topic part) c) (\<lambda>l c.
    if high_watermark \<le> pl_high_watermark l then (Ok (), c)
    else let l = l\<lparr>pl_high_watermark := high_watermark\<rparr> in
      step_bind (at_broker self (on_leadership (apply_leadership topic l)) c) (\<lambda>_ c.
      step_bind (cluster_info self c) (\<lambda>m c.
      (Ok (), broadcast_leadership pf self topic l (cm_nodes m) c))))"

definition replicate_one ::
    "platform \<Rightarrow> u32 \<Rightarrow> string \<Rightarrow> u32 \<Rightarrow> fetched_record \<Rightarrow> ack_mode \<Rightarrow> cluster \<Rightarrow> unit cluster_result" where
  "replicate_one pf self topic part r ack_mode c =
    step_bind (at_broker self (\<lambda>b. (Ok (bk_min_in_sync_replicas b), b)) c) (\<lambda>required c.
    step_bind (at_broker self (\<lambda>b. (replica_followers b part, b)) c) (\<lambda>followers c.
    step_bind (replicate_followers pf self topic part r ack_mode followers 1 c) (\<lambda>acks c.
    step_bind (if required \<le> acks
        then commit_offset pf self topic part (saturating_add (fd_offset r) 1) c else (Ok (), c)) (\<lambda>_ c.
    (if ack_mode = Durable \<and> acks < required then Err (NotEnoughInSyncReplicas required acks) else Ok (), c)))))"

fun replicate_records ::
    "platform \<Rightarrow> u32 \<Rightarrow> string \<Rightarrow> (u32 \<times> fetched_record) list \<Rightarrow> ack_mode \<Rightarrow> cluster \<Rightarrow> unit cluster_result" where
  "replicate_records pf self topic [] ack_mode c = (Ok (), c)"
| "replicate_records pf self topic ((part, r) # rs) ack_mode c =
    step_bind (replicate_one pf self topic part r ack_mode c) (\<lambda>_ c.
    replicate_records pf self topic rs ack_mode c)"

text \<open>With acknowledgement by the leader the replication is a task of its own, whose result nobody
  waits for; here it runs at once.\<close>

definition dispatch_replication ::
    "platform \<Rightarrow> u32 \<Rightarrow> string \<Rightarrow> (u32 \<times> fetched_record) list \<Rightarrow> ack_mode \<Rightarrow> cluster \<Rightarrow> unit cluster_result" where
  "dispatch_replication pf self topic records ack_mode c =
    (if ack_mode = Leader then (Ok (), snd (replicate_records pf self topic records ack_mode c))
     else replicate_records pf self topic records ack_mode c)"

section \<open>Produce requests\<close>

definition produce_input :: "produce_request \<Rightarrow> append_input" where
  "produce_input r = \<lparr>ai_topic = pr_topic r, ai_partition = pr_partition r, ai_key = pr_key r,
     ai_value = pr_payload r, ai_ack_mode = pr_ack_mode r,
     ai_producer = map_option (\<lambda>p. \<lparr>pid_id = pi_id p, pid_sequence = pi_sequence p\<rparr>) (pr_producer r)\<rparr>"

definition process_produce :: "platform \<Rightarrow> u32 \<Rightarrow> produce_request \<Rightarrow> cluster \<Rightarrow> response cluster_result" where
  "process_produce pf self r c =
    step_bind (at_broker self (cluster_leadership_error (pr_topic r) (pr_partition r)) c) (\<lambda>refused c.
    case refused of Some response \<Rightarrow> (Ok response, c) | None \<Rightarrow>
    step_bind (at_broker self (handle_append pf (produce_input r)) c) (\<lambda>ack c.
    step_bind (at_broker self (record_at pf (pr_topic r) (pa_partition ack) (pa_offset ack)) c) (\<lambda>record c.
    step_bind (dispatch_replication pf self (pr_topic r) [(pa_partition ack, record)] (pr_ack_mode r) c) (\<lambda>_ c.
    (Ok (RProduceAck ack), c)))))"

fun records_at ::
    "platform \<Rightarrow> u32 \<Rightarrow> string \<Rightarrow> produce_ack list \<Rightarrow> cluster \<Rightarrow> (u32 \<times> fetched_record) list cluster_result" where
  "records_at pf self topic [] c = (Ok [], c)"
| "records_at pf self topic (ack # acks) c =
    step_bind (at_broker self (record_at pf topic (pa_partition ack) (pa_offset ack)) c) (\<lambda>r c.
    step_bind (records_at pf self topic acks c) (\<lambda>rs c. (Ok ((pa_partition ack, r) # rs), c)))"

definition produce_batch :: "platform \<Rightarrow> u32 \<Rightarrow> produce_batch_request \<Rightarrow> cluster \<Rightarrow> response cluster_result" where
  "produce_batch pf self r c =
    step_bind (at_broker self (handle_append_batch pf \<lparr>bi_topic = pb_topic r, bi_partition = pb_partition r,
        bi_records = pb_records r, bi_ack_mode = pb_ack_mode r\<rparr>) c) (\<lambda>acks c.
    step_bind (records_at pf self (pb_topic r) acks c) (\<lambda>records c.
    step_bind (dispatch_replication pf self (pb_topic r) records (pb_ack_mode r) c) (\<lambda>_ c.
    (Ok (RProduceBatchAck acks), c))))"

section \<open>Promotion\<close>

definition local_offset :: "u32 \<Rightarrow> string \<Rightarrow> u32 \<Rightarrow> cluster \<Rightarrow> u64 option \<times> cluster" where
  "local_offset self topic part c =
    (case at_broker self (handle_partition_offset topic part) c of
       (Ok offset, c) \<Rightarrow> (Some offset, c)
     | (_, c) \<Rightarrow> (None, c))"

definition query_partition_offset :: "u32 \<Rightarrow> string \<Rightarrow> u32 \<Rightarrow> cluster \<Rightarrow> u64 option \<times> cluster" where
  "query_partition_offset i topic part c = ask i (handle_partition_offset topic part) c"

text \<open>The loops over the nodes in \<open>verify_promotion_candidate\<close> and \<open>select_automatic_candidate\<close>: the log
  ends of the replicas that answer, without the broker \<open>skip\<close>.\<close>

fun query_offsets ::
    "u32 \<Rightarrow> cluster_metadata \<Rightarrow> nat \<Rightarrow> u32 option \<Rightarrow> string \<Rightarrow> u32 \<Rightarrow> cluster_node list \<Rightarrow> cluster
     \<Rightarrow> (u32 \<times> u64) list cluster_result" where
  "query_offsets self m rf skip topic part [] c = (Ok [], c)"
| "query_offsets self m rf skip topic part (node # nodes) c =
    step_bind (if skip = Some (cn_id node) then Ok False else is_partition_replica m (cn_id node) part rf, c)
      (\<lambda>replica c.
    if \<not> replica then query_offsets self m rf skip topic part nodes c
    else case (if cn_id node = self then local_offset self topic part c
               else query_partition_offset (cn_id node) topic part c) of (offset, c) \<Rightarrow>
      step_bind (query_offsets self m rf skip topic part nodes c) (\<lambda>offsets c.
      (Ok (case offset of None \<Rightarrow> offsets | Some offset \<Rightarrow> (cn_id node, offset) # offsets), c)))"

definition max_offset :: "u64 list \<Rightarrow> u64" where
  "max_offset offsets = fold max offsets 0"

definition check_candidate :: "(u32 \<times> u64) list \<Rightarrow> u32 \<Rightarrow> u64 \<Rightarrow> nat \<Rightarrow> (unit, connection_error) outcome" where
  "check_candidate offsets leader_id committed required =
    try_bind (ok_or (map_option snd (find (\<lambda>e. fst e = leader_id) offsets)) PromotionCandidateUnavailable)
      (\<lambda>candidate.
    if length offsets < required \<or> candidate < committed
    then Err (UnsafePromotion candidate (max_offset (map snd offsets)) (length offsets))
    else Ok ())"

definition verify_promotion_candidate ::
    "u32 \<Rightarrow> promote_leader_request \<Rightarrow> u64 \<Rightarrow> cluster \<Rightarrow> unit cluster_result" where
  "verify_promotion_candidate self r committed c =
    step_bind (at_broker self (\<lambda>b. (Ok (bk_metadata b, bk_replication_factor b, bk_min_in_sync_replicas b), b)) c)
      (\<lambda>(m, rf, required) c.
    step_bind (query_offsets self m rf None (pm_topic r) (pm_partition r) (cm_nodes m) c) (\<lambda>offsets c.
    (check_candidate offsets (pm_leader_id r) committed required, c)))"

text \<open>A leader that is promoted on the controller itself cuts its log back to the high watermark.\<close>

definition cut_to_watermark :: "platform \<Rightarrow> string \<Rightarrow> partition_leadership \<Rightarrow> broker \<Rightarrow> unit broker_result" where
  "cut_to_watermark pf topic l b =
    (if pl_leader_id l = bk_id b then cut_back pf topic (pl_partition l) (pl_high_watermark l) b
     else (Ok (), b))"

definition not_controller_text :: "cluster_node \<Rightarrow> string" where
  "not_controller_text node = ''not controller: controller_id='' @ show_nat (unat (cn_id node)) @ '' controller=''
     @ cn_host node @ '':'' @ show_nat (unat (cn_port node))"

definition promote_leader :: "platform \<Rightarrow> u32 \<Rightarrow> promote_leader_request \<Rightarrow> cluster \<Rightarrow> response cluster_result" where
  "promote_leader pf self r c =
    step_bind (at_broker self (\<lambda>b. (Ok (bk_metadata b, bk_replication_factor b), b)) c) (\<lambda>(m, rf) c.
    case cm_nodes m of [] \<Rightarrow> (Err InvalidClusterMetadata, c) | controller # _ \<Rightarrow>
    if cn_id controller \<noteq> cm_responding_broker_id m
    then (Ok (RError (not_controller_text controller)), c)
    else
    step_bind (at_broker self (broker_leader (pm_topic r) (pm_partition r)) c) (\<lambda>current c.
    step_bind (is_partition_replica m (pm_leader_id r) (pm_partition r) rf, c) (\<lambda>replica c.
    if \<not> replica then (Ok (RError ''candidate is not a partition replica''), c)
    else
    step_bind (verify_promotion_candidate self r (pl_high_watermark current) c) (\<lambda>_ c.
    step_bind (ok_or (checked_add (pl_leader_epoch current) 1) LeaderEpochOverflow, c) (\<lambda>leader_epoch c.
    let l = \<lparr>pl_partition = pm_partition r, pl_leader_id = pm_leader_id r, pl_leader_epoch = leader_epoch,
             pl_high_watermark = pl_high_watermark current\<rparr> in
    step_bind (at_broker self (cut_to_watermark pf (pm_topic r) l) c) (\<lambda>_ c.
    step_bind (at_broker self (on_leadership (apply_leadership (pm_topic r) l)) c) (\<lambda>_ c.
    (Ok (RLeadershipChanged l), broadcast_leadership pf self (pm_topic r) l (cm_nodes m) c))))))))"

text \<open>The order of \<open>max_by_key\<close> on (offset, reversed identifier); the last of equal elements wins.\<close>

definition better :: "u32 \<times> u64 \<Rightarrow> u32 \<times> u64 \<Rightarrow> bool" where
  "better x y \<longleftrightarrow> snd x < snd y \<or> snd x = snd y \<and> fst y \<le> fst x"

fun best_candidate :: "(u32 \<times> u64) list \<Rightarrow> (u32 \<times> u64) option" where
  "best_candidate [] = None"
| "best_candidate (x # xs) = Some (fold (\<lambda>y best. if better best y then y else best) xs x)"

definition choose_automatic_candidate :: "(u32 \<times> u64) list \<Rightarrow> nat \<Rightarrow> u64 \<Rightarrow> u32 option" where
  "choose_automatic_candidate offsets required high_watermark =
    (if length offsets < required then None
     else map_option fst (best_candidate (filter (\<lambda>e. high_watermark \<le> snd e) offsets)))"

definition select_automatic_candidate ::
    "u32 \<Rightarrow> string \<Rightarrow> partition_leadership \<Rightarrow> cluster \<Rightarrow> u32 option cluster_result" where
  "select_automatic_candidate self topic current c =
    step_bind (at_broker self (\<lambda>b. (Ok (bk_metadata b, bk_replication_factor b, bk_min_in_sync_replicas b), b)) c)
      (\<lambda>(m, rf, required) c.
    step_bind (query_offsets self m rf (Some (pl_leader_id current)) topic (pl_partition current) (cm_nodes m) c)
      (\<lambda>offsets c.
    (Ok (choose_automatic_candidate offsets required (pl_high_watermark current)), c)))"

end
