(* ===== verification/Replication.thy ===== *)
theory Replication
  imports Cluster
begin

text \<open>
  What an acknowledged record means in the cluster: a follower that acknowledges a position holds the
  leader's record there, the catch-up loop keeps the leader and every other broker as they are,
  and a durable produce is answered only when enough replicas hold the record.
\<close>

section \<open>Records in a log\<close>

text \<open>Reading the log at \<open>offset\<close> returns first a record of that offset with the given content.\<close>

definition log_has :: "(bytes \<Rightarrow> u32) \<Rightarrow> partition_log \<Rightarrow> u64 \<Rightarrow> content \<Rightarrow> bool" where
  "log_has hash l offset x \<longleftrightarrow> (\<exists>s. sr_offset s = offset \<and> stored_content s = x \<and>
     (\<forall>m. m \<noteq> 0 \<longrightarrow> (\<exists>rest. read_log hash l offset m = Ok (s # rest))))"

lemma log_has_nth:
  assumes "log_rep hash hist low l" and "low \<le> unat offset" and "unat offset < length hist"
  shows "log_has hash l offset (stored_content (fst (hist ! unat offset)))"
proof -
  have "unat (sr_offset (fst (hist ! unat offset))) = unat offset"
    using entries_ok_nth [OF log_repD(1) [OF assms(1)] assms(3)] by simp
  then have "sr_offset (fst (hist ! unat offset)) = offset" by (simp only: word_unat_eq_iff)
  with read_log_first [OF assms] show ?thesis unfolding log_has_def by blast
qed

lemma take_budget_subset: "set (take_budget m used es) \<subseteq> fst ` set es"
proof (induction es arbitrary: used)
  case (Cons e es)
  then show ?case by (cases e) (auto split: if_splits)
qed simp

lemma read_log_has:
  assumes "log_rep hash hist low l" and "read_log hash l offset m = Ok rs" and "m \<noteq> 0" and "s \<in> set rs"
  shows "log_has hash l (sr_offset s) (stored_content s)" "offset \<le> sr_offset s"
proof -
  note rd = log_repD [OF assms(1)]
  have "s \<in> set (read_spec offset m (drop low hist))"
    using read_log_spec [OF assms(1,3), of offset] assms(2,4) by simp
  then have "s \<in> fst ` set (filter (\<lambda>(r, c). offset \<le> sr_offset r) (drop low hist))"
    using take_budget_subset unfolding read_spec_def by blast
  then obtain i where i: "i < length (drop low hist)" "fst (drop low hist ! i) = s" "offset \<le> sr_offset s"
    by (auto simp: in_set_conv_nth)
  then show "offset \<le> sr_offset s" by simp
  have e: "entries_ok hash (length (take low hist)) (drop low hist)"
    using rd(1) entries_ok_append [of hash 0 "take low hist" "drop low hist"] by simp
  have "unat (sr_offset s) = low + i" using entries_ok_nth [OF e i(1)] i(2) rd(5) by simp
  with log_has_nth [OF assms(1), of "sr_offset s"] i rd(5) show "log_has hash l (sr_offset s) (stored_content s)"
    by (auto simp: add.commute)
qed

text \<open>Positions that retention removed are never confirmed.\<close>

lemma append_replica_trimmed:
  assumes "log_rep hash hist low l" and "unat offset < low" and "append_replica hash offset r l = (Ok n, l')"
  shows False
proof -
  note rd = log_repD [OF assms(1)]
  have lt: "offset < lg_next_offset l" using assms(2) rd(4,5) by (simp add: word_less_nat_alt)
  have e: "entries_ok hash (length (take low hist)) (drop low hist)"
    using rd(1) entries_ok_append [of hash 0 "take low hist" "drop low hist"] by simp
  obtain x where x: "List.find (\<lambda>s. sr_offset s = offset) (read_spec offset MAX_RECORD_SIZE (drop low hist)) = Some x"
    using assms(3) lt read_log_spec [OF assms(1), of MAX_RECORD_SIZE offset]
    by (auto simp: append_replica_def outcome_simps)
  then have "x \<in> set (read_spec offset MAX_RECORD_SIZE (drop low hist))" and off: "sr_offset x = offset"
    by (auto simp: find_Some_iff)
  then have "x \<in> fst ` set (drop low hist)"
    using take_budget_subset unfolding read_spec_def by fastforce
  then obtain i where "i < length (drop low hist)" "fst (drop low hist ! i) = x"
    by (auto simp: in_set_conv_nth)
  with entries_ok_nth [OF e, of i] off assms(2) rd(5) show False by simp
qed

lemma append_replica_has:
  assumes fine: "log_fine hash l" and room: "log_room (Suc n) l" and prod: "lr_producer r = None"
    and app: "append_replica hash offset r l = (Ok k, l')"
  shows "log_has hash l' offset (record_content r) \<and> offset \<le> lg_next_offset l \<and>
    unat (lg_next_offset l') = (if offset = lg_next_offset l then Suc (unat (lg_next_offset l)) else unat (lg_next_offset l))"
proof -
  obtain hist low where v: "log_view hash hist low l" using fine by (auto simp: log_fine_def)
  note vd = log_viewD [OF v room]
  consider "offset < lg_next_offset l" | "offset = lg_next_offset l" | "lg_next_offset l < offset" by fastforce
  then show ?thesis
  proof cases
    case 1
    then have off: "unat offset < length hist" using vd(2) by (simp add: word_less_nat_alt)
    have low: "low \<le> unat offset" using append_replica_trimmed [OF vd(1) _ app] by (meson not_le)
    have "same_content (fst (hist ! unat offset)) r" "l' = l"
      using append_replica_known [OF vd(1) low off, of r] app by (auto split: if_splits)
    with log_has_nth [OF vd(1) low off] 1 show ?thesis
      by (auto simp: same_content_def stored_content_def record_content_def)
  next
    case 2
    then have a: "append_log hash r l = (Ok k, l')" using app by (simp add: append_replica_def)
    from vd(1) vd(4) obtain c where c: "k = lg_next_offset l"
        "log_rep hash (hist @ [(stored_of r k, c)]) low l'"
      using prod a by (cases rule: append_log_cases [where r = r]) auto
    have "unat offset = length hist" using 2 vd(2) by simp
    moreover have "low \<le> unat offset" using calculation log_repD(5) [OF vd(1)] by simp
    ultimately have "log_has hash l' offset (stored_content (stored_of r k))"
      using log_has_nth [OF c(2), of offset] by simp
    moreover have "unat (lg_next_offset l') = Suc (unat (lg_next_offset l))"
      using log_repD(4) [OF c(2)] vd(2) by simp
    ultimately show ?thesis using 2 by (simp add: stored_content_def record_content_def stored_of_def)
  next
    case 3
    then show ?thesis using app by (auto simp: append_replica_def split: if_splits)
  qed
qed

section \<open>Records at a broker\<close>

definition broker_ok :: "platform \<Rightarrow> nat \<Rightarrow> broker \<Rightarrow> bool" where
  "broker_ok pf n b \<longleftrightarrow> worker_ok (pf_hash pf) (bk_storage b) \<and> worker_room n (bk_storage b) \<and> settings_ok (bk_settings b)"

definition broker_log :: "broker \<Rightarrow> string \<Rightarrow> u32 \<Rightarrow> partition_log option" where
  "broker_log b topic part = map_of (sw_logs (bk_storage b)) (topic, part)"

definition broker_entry :: "broker \<Rightarrow> string \<Rightarrow> u32 \<Rightarrow> partition_leadership option" where
  "broker_entry b topic part = map_of (lr_entries (bk_leadership b)) (topic, part)"

definition broker_has :: "platform \<Rightarrow> broker \<Rightarrow> string \<Rightarrow> u32 \<Rightarrow> u64 \<Rightarrow> content \<Rightarrow> bool" where
  "broker_has pf b topic part offset x \<longleftrightarrow>
     (\<exists>log. broker_log b topic part = Some log \<and> log_has (pf_hash pf) log offset x)"

lemma broker_ok_mono: "broker_ok pf n b \<Longrightarrow> m \<le> n \<Longrightarrow> broker_ok pf m b"
  unfolding broker_ok_def by (meson worker_room_mono)

lemma on_storage_Ok [outcome_simps]:
  "on_storage f b = (Ok x, b') \<longleftrightarrow> (\<exists>w. f (bk_storage b) = (Ok x, w) \<and> b' = b\<lparr>bk_storage := w\<rparr>)"
  by (auto simp: on_storage_def outcome_simps split: prod.splits)

lemma on_leadership_Ok [outcome_simps]:
  "on_leadership f b = (Ok x, b') \<longleftrightarrow> (\<exists>reg. f (bk_leadership b) = (Ok x, reg) \<and> b' = b\<lparr>bk_leadership := reg\<rparr>)"
  by (auto simp: on_leadership_def outcome_simps split: prod.splits)

lemma broker_leader_Ok [outcome_simps]:
  "broker_leader topic part b = (Ok l, b') \<longleftrightarrow> broker_entry b topic part = Some l \<and> b' = b"
  by (auto simp: broker_leader_def broker_entry_def partition_leader_def outcome_simps)

lemma broker_leader_state [simp]: "snd (broker_leader topic part b) = b"
  by (simp add: broker_leader_def on_leadership_def)

lemma handle_partition_offset_Ok [outcome_simps]:
  "handle_partition_offset topic part b = (Ok n, b') \<longleftrightarrow>
     (\<exists>log. broker_log b topic part = Some log \<and> n = lg_next_offset log \<and> b' = b)"
  by (auto simp: handle_partition_offset_def broker_log_def partition_offset_def outcome_simps)

lemma apply_leadership_Ok:
  assumes "apply_leadership topic l reg = (Ok u, reg')"
  shows "map_of (lr_entries reg') = (map_of (lr_entries reg))((topic, pl_partition l) \<mapsto> l)"
    "lr_cluster reg' = lr_cluster reg"
  using assms by (auto simp: apply_leadership_def Let_def persist_def update_conv' split: if_splits option.splits)

lemma handle_truncate_ok:
  assumes "broker_ok pf n b" and "handle_truncate pf topic part offset b = (res, b')"
  shows "broker_ok pf n b'" "bk_leadership b' = bk_leadership b" "bk_settings b' = bk_settings b"
proof -
  obtain res1 w where t: "truncate_partition (pf_hash pf) topic part offset (bk_storage b) = (res1, w)" by fastforce
  then have b': "b' = b\<lparr>bk_storage := w\<rparr>"
    using assms(2) by (simp add: handle_truncate_def on_storage_def)
  then show "bk_leadership b' = bk_leadership b" "bk_settings b' = bk_settings b" by simp_all
  show "broker_ok pf n b'"
    using truncate_partition_ok [OF _ _ t, of n] assms(1) b' by (simp add: broker_ok_def)
qed

lemma cut_back_ok:
  assumes "broker_ok pf n b" and "cut_back pf topic part offset b = (Ok u, b')"
  shows "broker_ok pf n b'" "bk_leadership b' = bk_leadership b" "bk_settings b' = bk_settings b"
  using assms handle_truncate_ok [OF assms(1)]
  by (auto simp: cut_back_def step_bind_eq_Ok handle_partition_offset_Ok split: if_splits)

lemma worker_append_replica_has:
  assumes "worker_ok hash w" and "worker_room (Suc n) w" and "worker_append_replica hash r w = (Ok k, w')"
  shows "\<exists>log log'. map_of (sw_logs w) (rr_topic r, rr_partition r) = Some log \<and>
    map_of (sw_logs w') (rr_topic r, rr_partition r) = Some log' \<and> k = lg_next_offset log' \<and>
    log_has hash log' (rr_offset r) (record_content (replica_input r)) \<and> rr_offset r \<le> lg_next_offset log \<and>
    unat k = (if rr_offset r = lg_next_offset log then Suc (unat (lg_next_offset log)) else unat (lg_next_offset log))"
proof -
  obtain log where log: "map_of (sw_logs w) (rr_topic r, rr_partition r) = Some log"
    using assms(3) by (auto simp: worker_append_replica_def outcome_simps Let_def split: if_splits)
  obtain res log' where a: "append_replica hash (rr_offset r) (replica_input r) log = (res, log')" by fastforce
  obtain j where l: "map_of (sw_logs w) (rr_topic r, rr_partition r) = Some log"
    "append_replica hash (rr_offset r) (replica_input r) log = (Ok j, log')"
    "w' = put_log (rr_topic r, rr_partition r) log' w" "k = lg_next_offset log'"
    using assms(3) log a by (auto simp: worker_append_replica_def outcome_simps Let_def split: if_splits)
  from worker_log [OF assms(1,2) l(1)] have "log_fine hash log" "log_room (Suc n) log" by auto
  from append_replica_has [OF this _ l(2)] l show ?thesis by (simp add: replica_input_def)
qed

lemma handle_replicate_has:
  assumes "broker_ok pf (Suc n) b" and "handle_replicate pf r b = (Ok k, b')"
  shows "broker_ok pf n b' \<and> bk_leadership b' = bk_leadership b \<and>
    (\<exists>log log'. broker_log b (rr_topic r) (rr_partition r) = Some log \<and>
      broker_log b' (rr_topic r) (rr_partition r) = Some log' \<and> k = lg_next_offset log' \<and>
      log_has (pf_hash pf) log' (rr_offset r) (record_content (replica_input r)) \<and> rr_offset r \<le> lg_next_offset log \<and>
      unat k = (if rr_offset r = lg_next_offset log then Suc (unat (lg_next_offset log)) else unat (lg_next_offset log)))"
proof -
  obtain w where w: "worker_append_replica (pf_hash pf) r (bk_storage b) = (Ok k, w)" "b' = b\<lparr>bk_storage := w\<rparr>"
    using assms(2) by (auto simp: handle_replicate_def outcome_simps)
  have ok: "worker_ok (pf_hash pf) (bk_storage b)" "worker_room (Suc n) (bk_storage b)"
    using assms(1) by (auto simp: broker_ok_def)
  from worker_append_replica_grows [OF ok, of r] w(1) have "worker_ok (pf_hash pf) w" "worker_room n w"
    by (auto simp: grows_def)
  with worker_append_replica_has [OF ok w(1)] assms(1) w(2) show ?thesis
    by (auto simp: broker_ok_def broker_log_def)
qed

lemma join_epoch_Ok:
  assumes "broker_ok pf n b" and "broker_entry b (rr_topic r) (rr_partition r) = Some current"
    and "join_epoch pf r current b = (Ok (), b')" and "pl_leader_epoch current \<le> rr_leader_epoch r"
  shows "broker_ok pf n b' \<and> (pl_leader_epoch current = rr_leader_epoch r \<longrightarrow> b' = b) \<and>
    (\<exists>l. broker_entry b' (rr_topic r) (rr_partition r) = Some l \<and> pl_leader_epoch l = rr_leader_epoch r)"
proof (cases "pl_leader_epoch current < rr_leader_epoch r")
  case True
  then obtain u b2 reg where cut: "cut_back pf (rr_topic r) (rr_partition r) (rr_offset r) b = (Ok u, b2)"
    and b': "b' = b2\<lparr>bk_leadership := reg\<rparr>"
    and ap: "apply_leadership (rr_topic r) \<lparr>pl_partition = rr_partition r, pl_leader_id = rr_leader_id r,
      pl_leader_epoch = rr_leader_epoch r, pl_high_watermark = pl_high_watermark current\<rparr> (bk_leadership b2)
      = (Ok (), reg)"
    using assms(3) by (auto simp: join_epoch_def step_bind_eq_Ok on_leadership_Ok)
  have b2: "broker_ok pf n b2" using cut_back_ok(1) [OF assms(1) cut] .
  from apply_leadership_Ok(1) [OF ap] b2 b' True show ?thesis
    by (auto simp: broker_ok_def broker_entry_def)
qed (use assms in \<open>auto simp: join_epoch_def\<close>)

lemma receive_replica_steps:
  assumes "receive_replica pf r b = (Ok ack, b')"
  shows "\<exists>current b1 expected. broker_entry b (rr_topic r) (rr_partition r) = Some current \<and> \<not> fenced r current \<and>
    join_epoch pf r current b = (Ok (), b1) \<and>
    handle_partition_offset (rr_topic r) (rr_partition r) b1 = (Ok expected, b1) \<and>
    (if expected < rr_offset r then (Ok expected, b1) else handle_replicate pf r b1) = (Ok (ra_next_offset ack), b') \<and>
    ra_partition ack = rr_partition r"
proof -
  obtain current where cur: "broker_entry b (rr_topic r) (rr_partition r) = Some current"
    using assms by (auto simp: receive_replica_def step_bind_eq_Ok broker_leader_Ok)
  then have "\<not> fenced r current" using assms by (auto simp: receive_replica_def outcome_simps)
  with cur assms obtain u b1 where p: "join_epoch pf r current b = (Ok u, b1)"
    and rest: "step_bind (handle_partition_offset (rr_topic r) (rr_partition r) b1) (\<lambda>expected b.
      step_bind (if expected < rr_offset r then (Ok expected, b) else handle_replicate pf r b) (\<lambda>next_offset b.
      (Ok \<lparr>ra_partition = rr_partition r, ra_next_offset = next_offset\<rparr>, b))) = (Ok ack, b')"
    by (auto simp: receive_replica_def step_bind_eq_Ok broker_leader_Ok)
  from rest obtain expected where e: "handle_partition_offset (rr_topic r) (rr_partition r) b1 = (Ok expected, b1)"
    and last: "step_bind (if expected < rr_offset r then (Ok expected, b1) else handle_replicate pf r b1)
      (\<lambda>next_offset b. (Ok \<lparr>ra_partition = rr_partition r, ra_next_offset = next_offset\<rparr>, b)) = (Ok ack, b')"
    by (auto simp: step_bind_eq_Ok handle_partition_offset_Ok)
  from last obtain k where "(if expected < rr_offset r then (Ok expected, b1) else handle_replicate pf r b1) = (Ok k, b')"
    "ack = \<lparr>ra_partition = rr_partition r, ra_next_offset = k\<rparr>"
    unfolding step_bind_eq_Ok by auto
  with cur \<open>\<not> fenced r current\<close> p e show ?thesis by auto
qed

text \<open>A follower that acknowledges is in the epoch of the sender afterwards, acknowledges the end of
  its log, and holds the record when it acknowledges the position behind it.  A record that comes
  next in order is appended.\<close>

lemma receive_replica_Ok:
  assumes "broker_ok pf (Suc n) b" and "receive_replica pf r b = (Ok ack, b')"
  shows "broker_ok pf n b' \<and> ra_partition ack = rr_partition r \<and>
    (\<exists>log l. broker_log b' (rr_topic r) (rr_partition r) = Some log \<and> lg_next_offset log = ra_next_offset ack \<and>
      broker_entry b' (rr_topic r) (rr_partition r) = Some l \<and> pl_leader_epoch l = rr_leader_epoch r \<and>
      (rr_offset r < ra_next_offset ack \<longrightarrow>
        log_has (pf_hash pf) log (rr_offset r) (record_content (replica_input r)))) \<and>
    (\<forall>log l. broker_log b (rr_topic r) (rr_partition r) = Some log \<longrightarrow>
      broker_entry b (rr_topic r) (rr_partition r) = Some l \<longrightarrow> pl_leader_epoch l = rr_leader_epoch r \<longrightarrow>
      rr_offset r = lg_next_offset log \<longrightarrow> unat (ra_next_offset ack) = Suc (unat (rr_offset r)))"
proof -
  obtain current b1 expected where cur: "broker_entry b (rr_topic r) (rr_partition r) = Some current"
    and fence: "\<not> fenced r current" and prep: "join_epoch pf r current b = (Ok (), b1)"
    and e: "handle_partition_offset (rr_topic r) (rr_partition r) b1 = (Ok expected, b1)"
    and last: "(if expected < rr_offset r then (Ok expected, b1) else handle_replicate pf r b1) =
      (Ok (ra_next_offset ack), b')" and part: "ra_partition ack = rr_partition r"
    using receive_replica_steps [OF assms(2)] by blast
  have le: "pl_leader_epoch current \<le> rr_leader_epoch r" using fence by (auto simp: fenced_def)
  obtain l where b1: "broker_ok pf (Suc n) b1" "broker_entry b1 (rr_topic r) (rr_partition r) = Some l"
    "pl_leader_epoch l = rr_leader_epoch r" "pl_leader_epoch current = rr_leader_epoch r \<Longrightarrow> b1 = b"
    using join_epoch_Ok [OF assms(1) cur prep le] by blast
  obtain log where log: "broker_log b1 (rr_topic r) (rr_partition r) = Some log" "expected = lg_next_offset log"
    using e by (auto simp: outcome_simps)
  show ?thesis
  proof (cases "expected < rr_offset r")
    case True
    with last have "b' = b1" "ra_next_offset ack = expected" by auto
    with True b1 log cur part broker_ok_mono [OF b1(1), of n] show ?thesis by auto
  next
    case False
    with last have "handle_replicate pf r b1 = (Ok (ra_next_offset ack), b')" by simp
    from handle_replicate_has [OF b1(1) this] b1 log cur part show ?thesis
      by (auto simp: broker_entry_def)
  qed
qed

section \<open>Messages\<close>

lemma at_broker_Ok [outcome_simps]:
  "at_broker i f c = (Ok x, c') \<longleftrightarrow>
     (\<exists>b b'. cl_brokers c i = Some b \<and> f b = (Ok x, b') \<and> c' = set_broker i b' c)"
  by (auto simp: at_broker_def split: option.splits prod.splits)

lemma set_broker_same: "cl_brokers c i = Some b \<Longrightarrow> set_broker i b c = c"
  by (simp add: set_broker_def fun_upd_idem)

lemma set_broker_select [simp]:
  "cl_brokers (set_broker i b c) = (cl_brokers c)(i \<mapsto> b)" "cl_net (set_broker i b c) = cl_net c"
  by (simp_all add: set_broker_def)

lemma at_broker_other: "j \<noteq> i \<Longrightarrow> cl_brokers (snd (at_broker i f c)) j = cl_brokers c j"
  by (auto simp: at_broker_def split: option.splits prod.splits)

lemma ask_other: "j \<noteq> i \<Longrightarrow> cl_brokers (snd (ask i f c)) j = cl_brokers c j"
  using at_broker_other [of j i f "c\<lparr>cl_net := tl (cl_net c)\<rparr>"]
  by (auto simp: ask_def Let_def split: list.splits prod.splits outcome.splits)

lemma ask_Some:
  assumes "ask i f c = (Some x, c')"
  shows "\<exists>b b' ds. cl_brokers c i = Some b \<and> f b = (Ok x, b') \<and> cl_net c = Delivered # ds \<and>
    cl_brokers c' = (cl_brokers c)(i \<mapsto> b') \<and> cl_net c' = ds"
  using assms by (auto simp: ask_def Let_def at_broker_Ok split: list.splits prod.splits outcome.splits if_splits)

lemma send_replica_frame:
  "j \<noteq> i \<Longrightarrow> cl_brokers (snd (send_replica pf i r c)) j = cl_brokers c j"
  "length (cl_net (snd (send_replica pf i r c))) \<le> length (cl_net c)"
  using ask_other [of j i "receive_replica pf r" c] ask_net [of i "receive_replica pf r" c]
  by (auto simp: send_replica_def split: prod.splits option.splits)

section \<open>The leader's records\<close>

definition content_of :: "fetched_record \<Rightarrow> content" where
  "content_of r = (fd_timestamp_ms r, fd_key r, fd_value r)"

definition hosts :: "broker \<Rightarrow> string \<Rightarrow> u32 \<Rightarrow> bool" where
  "hosts b topic part \<longleftrightarrow> map_of (sw_topics (bk_storage b)) topic \<noteq> None \<and> broker_log b topic part \<noteq> None"

lemma record_at_hosts:
  assumes "hosts b topic part"
  shows "snd (record_at pf topic part offset b) = b"
proof -
  obtain n log where "map_of (sw_topics (bk_storage b)) topic = Some n"
    "map_of (sw_logs (bk_storage b)) (topic, part) = Some log"
    using assms by (auto simp: hosts_def broker_log_def)
  then have "snd (read_records (pf_hash pf) (bk_settings b) topic part offset m (bk_storage b)) = bk_storage b" for m
    by (simp add: read_records_def worker_ensure_topic_def)
  then have "snd (read_once pf topic part offset m b) = b" for m
    by (simp add: read_once_def on_storage_def case_prod_beta)
  then show ?thesis
    by (cases "read_once pf topic part offset (16 * 1024 * 1024) b";
        cases "fst (read_once pf topic part offset (16 * 1024 * 1024) b)")
       (auto simp: record_at_def, (metis snd_conv)+)
qed

lemma record_at_offset: "record_at pf topic part offset b = (Ok r, b') \<Longrightarrow> fd_offset r = offset"
  by (auto simp: record_at_def outcome_simps find_Some_iff)

lemma at_broker_record_at:
  assumes "cl_brokers c self = Some b" and "hosts b topic part"
  shows "at_broker self (record_at pf topic part offset) c = (fst (record_at pf topic part offset b), c)"
  using record_at_hosts [OF assms(2), of pf offset] assms(1)
  by (cases "record_at pf topic part offset b") (simp add: at_broker_def set_broker_same)

lemma at_broker_leader:
  assumes "cl_brokers c self = Some b"
  shows "at_broker self (broker_leader topic part) c = (fst (broker_leader topic part b), c)"
  using broker_leader_state [of topic part b] assms
  by (cases "broker_leader topic part b") (simp add: at_broker_def set_broker_same)

lemma replication_record_select [simp]:
  "rr_topic (replication_record topic r m l) = topic" "rr_partition (replication_record topic r m l) = pl_partition l"
  "rr_offset (replication_record topic r m l) = fd_offset r"
  "rr_leader_epoch (replication_record topic r m l) = pl_leader_epoch l"
  "record_content (replica_input (replication_record topic r m l)) = content_of r"
  by (simp_all add: replication_record_def replica_input_def record_content_def content_of_def)

section \<open>Catching up\<close>

text \<open>What the leader knows of a follower that acknowledged: the end of its log, and its epoch.\<close>

definition in_epoch :: "broker \<Rightarrow> string \<Rightarrow> u32 \<Rightarrow> u64 \<Rightarrow> bool" where
  "in_epoch b topic part E \<longleftrightarrow> (\<exists>l. broker_entry b topic part = Some l \<and> pl_leader_epoch l = E)"

definition log_end :: "broker \<Rightarrow> string \<Rightarrow> u32 \<Rightarrow> u64 option" where
  "log_end b topic part = map_option lg_next_offset (broker_log b topic part)"

lemma send_replica_Ok:
  assumes "cl_brokers c f = Some bf" and "broker_ok pf (length (cl_net c)) bf"
    and "send_replica pf f (replication_record topic r m l) c = (Ok n, c')"
  shows "\<exists>bf'. cl_brokers c' = (cl_brokers c)(f \<mapsto> bf') \<and> broker_ok pf (length (cl_net c')) bf' \<and>
    in_epoch bf' topic (pl_partition l) (pl_leader_epoch l) \<and> log_end bf' topic (pl_partition l) = Some n \<and>
    (fd_offset r < n \<longrightarrow> broker_has pf bf' topic (pl_partition l) (fd_offset r) (content_of r)) \<and>
    (in_epoch bf topic (pl_partition l) (pl_leader_epoch l) \<longrightarrow>
      log_end bf topic (pl_partition l) = Some (fd_offset r) \<longrightarrow> unat n = Suc (unat (fd_offset r)))"
proof -
  obtain ack bf' ds where a: "receive_replica pf (replication_record topic r m l) bf = (Ok ack, bf')"
    "n = ra_next_offset ack" "cl_net c = Delivered # ds" "cl_brokers c' = (cl_brokers c)(f \<mapsto> bf')" "cl_net c' = ds"
    using assms(1,3) ask_Some [of f "receive_replica pf (replication_record topic r m l)" c]
    by (fastforce simp: send_replica_def split: prod.splits option.splits if_splits)
  have ok: "broker_ok pf (Suc (length ds)) bf" using assms(2) a(3) by simp
  from receive_replica_Ok [OF ok a(1)] a show ?thesis
    unfolding in_epoch_def log_end_def broker_has_def by (intro exI [of _ bf']) auto
qed

lemma catch_up_frame:
  assumes "cl_brokers c self = Some b" and "hosts b topic part" and "f \<noteq> self"
  shows "(\<forall>j. j \<noteq> f \<longrightarrow> cl_brokers (snd (catch_up pf self f topic part target m l n c)) j = cl_brokers c j) \<and>
    length (cl_net (snd (catch_up pf self f topic part target m l n c))) \<le> length (cl_net c)"
  using assms
proof (induction pf self f topic part target m l n c rule: catch_up.induct)
  case (1 pf self f topic part target m l n c)
  note rec = at_broker_record_at [OF 1(2,3), of pf n]
  show ?case
  proof (cases "n \<le> target")
    case True
    show ?thesis
    proof (cases "fst (record_at pf topic part n b)")
      case (Ok missing)
      obtain res c1 where s: "send_replica pf f (replication_record topic missing m l) c = (res, c1)" by fastforce
      have fr: "j \<noteq> f \<Longrightarrow> cl_brokers c1 j = cl_brokers c j" "length (cl_net c1) \<le> length (cl_net c)" for j
        using send_replica_frame [where i = f and r = "replication_record topic missing m l" and c = c and pf = pf] s
        by (metis snd_conv)+
      show ?thesis
      proof (cases res)
        case (Ok n')
        have "at_broker self (record_at pf topic part n) c = (Ok missing, c)"
          using rec \<open>fst (record_at pf topic part n b) = Ok missing\<close> by simp
        from 1(1) [OF True this s [unfolded Ok]] fr 1(2,3,4)
        have "(\<forall>j. j \<noteq> f \<longrightarrow> cl_brokers (snd (catch_up pf self f topic part target m l n' c1)) j = cl_brokers c1 j) \<and>
          length (cl_net (snd (catch_up pf self f topic part target m l n' c1))) \<le> length (cl_net c1)" by auto
        with fr True rec s Ok \<open>fst (record_at pf topic part n b) = Ok missing\<close> show ?thesis
          by (subst (1 2) catch_up.simps) auto
      qed (use fr True rec s Ok in \<open>subst (1 2) catch_up.simps; auto\<close>)+
    qed (use True rec in \<open>subst (1 2) catch_up.simps; simp\<close>)+
  qed (subst (1 2) catch_up.simps; simp)
qed

lemma catch_up_Ok:
  assumes "cl_brokers c self = Some b" and "hosts b topic part" and "f \<noteq> self" and "pl_partition l = part"
    and "cl_brokers c f = Some bf" and "broker_ok pf (length (cl_net c)) bf"
    and "in_epoch bf topic part (pl_leader_epoch l)" and "log_end bf topic part = Some n"
    and "catch_up pf self f topic part target m l n c = (Ok (), c')"
  shows "\<exists>bf'. cl_brokers c' = (cl_brokers c)(f \<mapsto> bf') \<and> in_epoch bf' topic part (pl_leader_epoch l) \<and>
    (n \<le> target \<longrightarrow> (\<exists>r. record_at pf topic part target b = (Ok r, b) \<and>
      broker_has pf bf' topic part target (content_of r)))"
  using assms
proof (induction pf self f topic part target m l n c arbitrary: bf rule: catch_up.induct)
  case (1 pf self f topic part target m l n c)
  note rec = at_broker_record_at [OF 1(2,3), of pf n]
  show ?case
  proof (cases "n \<le> target")
    case False
    with 1 have "c' = c" by (simp add: catch_up.simps [of pf self f topic part target m l n c])
    with 1(5,6,8) False show ?thesis by (intro exI [of _ bf]) (simp add: fun_upd_idem)
  next
    case True
    obtain missing n1 c1 where r: "at_broker self (record_at pf topic part n) c = (Ok missing, c)"
      and s: "send_replica pf f (replication_record topic missing m l) c = (Ok n1, c1)"
      and next1: "catch_up pf self f topic part target m l n1 c1 = (Ok (), c')"
      using 1(10) True rec by (auto simp: catch_up.simps [of pf self f topic part target m l n c] step_bind_eq_Ok)
    have rb: "record_at pf topic part n b = (Ok missing, b)"
      using r rec record_at_hosts [OF 1(3), of pf n] by (cases "record_at pf topic part n b") auto
    then have off: "fd_offset missing = n" by (rule record_at_offset)
    from send_replica_Ok [OF 1(6,7) s] off 1(5,8,9) obtain bf1 where b1: "cl_brokers c1 = (cl_brokers c)(f \<mapsto> bf1)"
      "broker_ok pf (length (cl_net c1)) bf1" "in_epoch bf1 topic part (pl_leader_epoch l)"
      "log_end bf1 topic part = Some n1" "n < n1 \<longrightarrow> broker_has pf bf1 topic part n (content_of missing)"
      "unat n1 = Suc (unat n)" by auto
    have "cl_brokers c1 self = Some b" "cl_brokers c1 f = Some bf1" using b1(1) 1(2,4) by auto
    from 1(1) [OF True r s this(1) 1(3,4,5) this(2) b1(2,3,4) next1]
    obtain bf' where bf': "cl_brokers c' = (cl_brokers c1)(f \<mapsto> bf')" "in_epoch bf' topic part (pl_leader_epoch l)"
      "n1 \<le> target \<longrightarrow> (\<exists>r. record_at pf topic part target b = (Ok r, b) \<and>
        broker_has pf bf' topic part target (content_of r))" by blast
    show ?thesis
    proof (cases "n1 \<le> target")
      case True
      with bf' b1(1) show ?thesis by auto
    next
      case False
      with \<open>n \<le> target\<close> b1(6) have "n = target" by (simp add: word_le_nat_alt word_unat_eq_iff)
      moreover from False next1 have "c' = c1" by (simp add: catch_up.simps [of pf self f topic part target m l n1 c1])
      moreover have "n < n1" using b1(6) by (simp add: word_less_nat_alt)
      ultimately show ?thesis using b1 rb by auto
    qed
  qed
qed

section \<open>Replicating one record\<close>

text \<open>Broker \<open>i\<close> holds the record and follows the leader of epoch \<open>E\<close> or a later one.\<close>

definition replica_holds :: "platform \<Rightarrow> string \<Rightarrow> u32 \<Rightarrow> u64 \<Rightarrow> u64 \<Rightarrow> content \<Rightarrow> cluster \<Rightarrow> u32 \<Rightarrow> bool" where
  "replica_holds pf topic part E offset x c i \<longleftrightarrow> (\<exists>b l. cl_brokers c i = Some b \<and>
     broker_has pf b topic part offset x \<and> broker_entry b topic part = Some l \<and> E \<le> pl_leader_epoch l)"

lemma replicate_to_follower_frame:
  assumes "cl_brokers c self = Some b" and "hosts b topic part" and "f \<noteq> self"
  shows "(\<forall>j. j \<noteq> f \<longrightarrow> cl_brokers (snd (replicate_to_follower pf self f topic part r m c)) j = cl_brokers c j) \<and>
    length (cl_net (snd (replicate_to_follower pf self f topic part r m c))) \<le> length (cl_net c)"
proof (cases "fst (broker_leader topic part b)")
  case (Ok l)
  obtain res c1 where s: "send_replica pf f (replication_record topic r m l) c = (res, c1)" by fastforce
  have fr: "j \<noteq> f \<Longrightarrow> cl_brokers c1 j = cl_brokers c j" "length (cl_net c1) \<le> length (cl_net c)" for j
    using send_replica_frame [where i = f and r = "replication_record topic r m l" and c = c and pf = pf] s
    by (metis snd_conv)+
  then have "cl_brokers c1 self = Some b" using assms(1,3) by simp
  from catch_up_frame [OF this assms(2,3)] fr
  have "(\<forall>j. j \<noteq> f \<longrightarrow> cl_brokers (snd (catch_up pf self f topic part (fd_offset r) m l n c1)) j = cl_brokers c j) \<and>
    length (cl_net (snd (catch_up pf self f topic part (fd_offset r) m l n c1))) \<le> length (cl_net c)" for n
    by (metis order_trans)
  with fr Ok s show ?thesis
    by (cases res) (auto simp: replicate_to_follower_def at_broker_leader [OF assms(1)])
qed (simp_all add: replicate_to_follower_def at_broker_leader [OF assms(1)])

lemma replicate_to_follower_Ok:
  assumes "cl_brokers c self = Some b" and "hosts b topic part" and "f \<noteq> self"
    and "broker_entry b topic part = Some l" and "pl_partition l = part"
    and "\<forall>bf. cl_brokers c f = Some bf \<longrightarrow> broker_ok pf (length (cl_net c)) bf"
    and "record_at pf topic part (fd_offset r) b = (Ok r, b)"
    and "replicate_to_follower pf self f topic part r m c = (Ok (), c')"
  shows "replica_holds pf topic part (pl_leader_epoch l) (fd_offset r) (content_of r) c' f"
proof -
  have "broker_leader topic part b = (Ok l, b)" using assms(4) by (simp add: broker_leader_Ok)
  with assms(8) at_broker_leader [OF assms(1), of topic part]
  obtain n c1 where s: "send_replica pf f (replication_record topic r m l) c = (Ok n, c1)"
    and cu: "catch_up pf self f topic part (fd_offset r) m l n c1 = (Ok (), c')"
    by (auto simp: replicate_to_follower_def step_bind_eq_Ok split: if_splits)
  from s obtain bf where bf: "cl_brokers c f = Some bf"
    using ask_Some [of f "receive_replica pf (replication_record topic r m l)" c]
    by (fastforce simp: send_replica_def split: prod.splits option.splits)
  with assms(6) have "broker_ok pf (length (cl_net c)) bf" by blast
  from send_replica_Ok [OF bf this s] assms(5) obtain bf1 where b1: "cl_brokers c1 = (cl_brokers c)(f \<mapsto> bf1)"
    "broker_ok pf (length (cl_net c1)) bf1" "in_epoch bf1 topic part (pl_leader_epoch l)"
    "log_end bf1 topic part = Some n" "fd_offset r < n \<longrightarrow> broker_has pf bf1 topic part (fd_offset r) (content_of r)"
    by auto
  have c1: "cl_brokers c1 self = Some b" "cl_brokers c1 f = Some bf1" using b1(1) assms(1,3) by auto
  show ?thesis
  proof (cases "n \<le> fd_offset r")
    case True
    with catch_up_Ok [OF c1(1) assms(2,3,5) c1(2) b1(2,3,4) cu] assms(7) show ?thesis
      by (auto simp: replica_holds_def in_epoch_def)
  next
    case False
    with cu have "c' = c1" by (simp add: catch_up.simps [of pf self f topic part "fd_offset r" m l n c1])
    with False b1 show ?thesis by (auto simp: replica_holds_def in_epoch_def not_le)
  qed
qed

lemma replica_holds_cong: "cl_brokers c i = cl_brokers c' i \<Longrightarrow>
    replica_holds pf topic part E offset x c i = replica_holds pf topic part E offset x c' i"
  by (simp add: replica_holds_def)

lemma replicate_followers_Ok:
  assumes "cl_brokers c self = Some b" and "hosts b topic part"
    and "broker_entry b topic part = Some l" and "pl_partition l = part"
    and "record_at pf topic part (fd_offset r) b = (Ok r, b)"
    and "distinct (map cn_id nodes)" and "self \<notin> cn_id ` set nodes"
    and "\<forall>i bi. i \<in> cn_id ` set nodes \<longrightarrow> cl_brokers c i = Some bi \<longrightarrow> broker_ok pf (length (cl_net c)) bi"
    and "replicate_followers pf self topic part r m nodes acks c = (Ok k, c')"
  shows "\<exists>A. A \<subseteq> cn_id ` set nodes \<and> k = acks + card A \<and>
    (\<forall>i\<in>A. replica_holds pf topic part (pl_leader_epoch l) (fd_offset r) (content_of r) c' i) \<and>
    (\<forall>j. j \<notin> cn_id ` set nodes \<longrightarrow> cl_brokers c' j = cl_brokers c j)"
  using assms
proof (induction nodes arbitrary: acks c)
  case (Cons node nodes)
  let ?f = "cn_id node"
  obtain res c1 where rf: "replicate_to_follower pf self ?f topic part r m c = (res, c1)" by fastforce
  have ne: "?f \<noteq> self" using Cons.prems(7) by auto
  have fr: "j \<noteq> ?f \<Longrightarrow> cl_brokers c1 j = cl_brokers c j" "length (cl_net c1) \<le> length (cl_net c)" for j
    using replicate_to_follower_frame [OF Cons.prems(1,2) ne, of pf r m] rf by auto
  have c1: "cl_brokers c1 self = Some b" using fr(1) [of self] ne Cons.prems(1) by simp
  have ok1: "\<forall>i bi. i \<in> cn_id ` set nodes \<longrightarrow> cl_brokers c1 i = Some bi \<longrightarrow> broker_ok pf (length (cl_net c1)) bi"
  proof (intro allI impI)
    fix i bi
    assume i: "i \<in> cn_id ` set nodes" and bi: "cl_brokers c1 i = Some bi"
    have "i \<noteq> ?f" using i Cons.prems(6) by (simp add: image_iff) metis
    with fr(1) [of i] bi i Cons.prems(8) have "broker_ok pf (length (cl_net c)) bi" by auto
    then show "broker_ok pf (length (cl_net c1)) bi" using fr(2) by (rule broker_ok_mono)
  qed
  have IH: "\<exists>A. A \<subseteq> cn_id ` set nodes \<and> k = acks' + card A \<and>
      (\<forall>i\<in>A. replica_holds pf topic part (pl_leader_epoch l) (fd_offset r) (content_of r) c' i) \<and>
      (\<forall>j. j \<notin> cn_id ` set nodes \<longrightarrow> cl_brokers c' j = cl_brokers c1 j)"
    if "replicate_followers pf self topic part r m nodes acks' c1 = (Ok k, c')" for acks'
    using Cons.IH [OF c1 Cons.prems(2,3,4,5) _ _ ok1 that] Cons.prems(6,7) by auto
  show ?case
  proof (cases res)
    case (Ok u)
    with IH [of "acks + 1"] rf Cons.prems(9) obtain A where A: "A \<subseteq> cn_id ` set nodes" "k = acks + 1 + card A"
      "\<forall>i\<in>A. replica_holds pf topic part (pl_leader_epoch l) (fd_offset r) (content_of r) c' i"
      "\<forall>j. j \<notin> cn_id ` set nodes \<longrightarrow> cl_brokers c' j = cl_brokers c1 j" by auto
    have "?f \<notin> cn_id ` set nodes" using Cons.prems(6) by auto
    then have "cl_brokers c' ?f = cl_brokers c1 ?f" "?f \<notin> A" using A(1,4) by auto
    moreover have "finite A" using A(1) finite_surj by blast
    moreover have "replica_holds pf topic part (pl_leader_epoch l) (fd_offset r) (content_of r) c1 ?f"
      using replicate_to_follower_Ok [OF Cons.prems(1,2) ne Cons.prems(3,4) _ Cons.prems(5)] rf Ok Cons.prems(8)
      by auto
    ultimately show ?thesis
      using A fr(1) by (intro exI [of _ "insert ?f A"]) (auto simp: replica_holds_cong [of c' ?f c1])
  next
    case (Err e)
    with IH [of acks] rf Cons.prems(9) fr(1) show ?thesis by fastforce
  next
    case Panic
    with rf Cons.prems(9) show ?thesis by simp
  qed
qed auto

section \<open>Committing\<close>

text \<open>An announcement that is not of a newer epoch leaves the logs alone.\<close>

lemma receive_leadership_keeps:
  assumes "broker_entry b topic (pl_partition l) = Some l0" and "pl_leader_epoch l \<le> pl_leader_epoch l0"
    and "receive_leadership pf \<lparr>al_topic = topic, al_leadership = l\<rparr> b = (res, b')"
  shows "bk_storage b' = bk_storage b" "\<exists>l1. broker_entry b' topic (pl_partition l) = Some l1 \<and> pl_leader_epoch l \<le> pl_leader_epoch l1"
proof -
  have bl: "broker_leader topic (pl_partition l) b = (Ok l0, b)" using assms(1) by (simp add: broker_leader_Ok)
  obtain res1 reg where ap: "apply_leadership topic l (bk_leadership b) = (res1, reg)" by fastforce
  have "\<not> pl_leader_epoch l0 < pl_leader_epoch l" using assms(2) by simp
  then have b': "b' = b\<lparr>bk_leadership := reg\<rparr>"
    using assms(3) bl ap by (cases res1) (auto simp: receive_leadership_def Let_def on_leadership_def)
  then show "bk_storage b' = bk_storage b" by simp
  have "\<exists>l1. map_of (lr_entries reg) (topic, pl_partition l) = Some l1 \<and> pl_leader_epoch l \<le> pl_leader_epoch l1"
    using ap assms(1,2)
    by (auto simp: apply_leadership_def broker_entry_def Let_def persist_def update_conv' split: if_splits)
  with b' show "\<exists>l1. broker_entry b' topic (pl_partition l) = Some l1 \<and> pl_leader_epoch l \<le> pl_leader_epoch l1"
    by (simp add: broker_entry_def)
qed

lemma ask_cases:
  "cl_brokers (snd (ask i f c)) = cl_brokers c \<or>
   (\<exists>b. cl_brokers c i = Some b \<and> cl_brokers (snd (ask i f c)) = (cl_brokers c)(i \<mapsto> snd (f b)))"
  by (auto simp: ask_def Let_def at_broker_def split: list.splits prod.splits outcome.splits option.splits)

lemma ask_leadership_holds:
  assumes "replica_holds pf topic (pl_partition l) (pl_leader_epoch l) offset x c i"
  shows "replica_holds pf topic (pl_partition l) (pl_leader_epoch l) offset x
    (snd (ask j (receive_leadership pf \<lparr>al_topic = topic, al_leadership = l\<rparr>) c)) i"
proof -
  obtain b l0 where b: "cl_brokers c i = Some b" "broker_has pf b topic (pl_partition l) offset x"
    "broker_entry b topic (pl_partition l) = Some l0" "pl_leader_epoch l \<le> pl_leader_epoch l0"
    using assms by (auto simp: replica_holds_def)
  obtain res b' where r: "receive_leadership pf \<lparr>al_topic = topic, al_leadership = l\<rparr> b = (res, b')" by fastforce
  note k = receive_leadership_keeps [OF b(3,4) r]
  have "broker_has pf b' topic (pl_partition l) offset x"
    using b(2) k(1) by (simp add: broker_has_def broker_log_def)
  with k(2) b r ask_cases [of j "receive_leadership pf \<lparr>al_topic = topic, al_leadership = l\<rparr>" c]
  show ?thesis by (auto simp: replica_holds_def)
qed

lemma broadcast_leadership_holds:
  "replica_holds pf topic (pl_partition l) (pl_leader_epoch l) offset x c i \<Longrightarrow>
   replica_holds pf topic (pl_partition l) (pl_leader_epoch l) offset x (broadcast_leadership pf self topic l nodes c) i"
  by (induction nodes arbitrary: c) (auto intro: ask_leadership_holds)

lemma broadcast_leadership_self:
  "cl_brokers (broadcast_leadership pf self topic l nodes c) self = cl_brokers c self"
  by (induction nodes arbitrary: c) (auto simp: ask_other)

text \<open>Brokers that differ in their leadership entries at most.\<close>

definition same_data :: "broker \<Rightarrow> broker \<Rightarrow> bool" where
  "same_data b b' \<longleftrightarrow> bk_storage b' = bk_storage b \<and> bk_metadata b' = bk_metadata b \<and> bk_settings b' = bk_settings b \<and>
     bk_replication_factor b' = bk_replication_factor b"

lemma same_data_refl [simp]: "same_data b b"
  by (simp add: same_data_def)

lemma commit_offset_Ok:
  assumes "cl_brokers c self = Some b" and "broker_entry b topic part = Some l" and "pl_partition l = part"
    and "commit_offset pf self topic part hw c = (Ok (), c')"
  shows "replica_holds pf topic part (pl_leader_epoch l) offset x c i \<Longrightarrow>
      replica_holds pf topic part (pl_leader_epoch l) offset x c' i" and
    "\<exists>b' l'. cl_brokers c' self = Some b' \<and> broker_entry b' topic part = Some l' \<and> hw \<le> pl_high_watermark l' \<and>
      pl_leader_id l' = pl_leader_id l \<and> same_data b b'"
proof -
  have bl: "broker_leader topic part b = (Ok l, b)" using assms(2) by (simp add: broker_leader_Ok)
  have "(replica_holds pf topic part (pl_leader_epoch l) offset x c i \<longrightarrow>
      replica_holds pf topic part (pl_leader_epoch l) offset x c' i) \<and>
    (\<exists>b' l'. cl_brokers c' self = Some b' \<and> broker_entry b' topic part = Some l' \<and> hw \<le> pl_high_watermark l' \<and>
      pl_leader_id l' = pl_leader_id l \<and> same_data b b')"
  proof (cases "hw \<le> pl_high_watermark l")
    case True
    with assms bl at_broker_leader [OF assms(1), of topic part] show ?thesis
      by (auto simp: commit_offset_def)
  next
    case False
    define l1 where "l1 = l\<lparr>pl_high_watermark := hw\<rparr>"
    from False assms(4) bl at_broker_leader [OF assms(1), of topic part] assms(1)
    obtain reg where ap: "apply_leadership topic l1 (bk_leadership b) = (Ok (), reg)"
      and c': "c' = broadcast_leadership pf self topic l1 (cm_nodes (lr_cluster reg)) (set_broker self (b\<lparr>bk_leadership := reg\<rparr>) c)"
      by (auto simp: commit_offset_def Let_def outcome_simps cluster_info_def l1_def set_broker_same)
    have reg: "map_of (lr_entries reg) (topic, part) = Some l1"
      using apply_leadership_Ok(1) [OF ap] assms(3) by (simp add: l1_def)
    have l1: "pl_partition l1 = part" "pl_leader_epoch l1 = pl_leader_epoch l" "pl_high_watermark l1 = hw"
      using assms(3) by (simp_all add: l1_def)
    have "replica_holds pf topic part (pl_leader_epoch l) offset x (set_broker self (b\<lparr>bk_leadership := reg\<rparr>) c) i"
      if "replica_holds pf topic part (pl_leader_epoch l) offset x c i"
      using that reg l1 assms(1)
      by (cases "i = self") (auto simp: replica_holds_def broker_has_def broker_log_def broker_entry_def)
    with broadcast_leadership_holds [of pf topic l1 offset x] l1 c' have
      "replica_holds pf topic part (pl_leader_epoch l) offset x c' i"
      if "replica_holds pf topic part (pl_leader_epoch l) offset x c i"
      using that by metis
    moreover have "cl_brokers c' self = Some (b\<lparr>bk_leadership := reg\<rparr>)"
      using c' by (simp add: broadcast_leadership_self)
    moreover have "same_data b (b\<lparr>bk_leadership := reg\<rparr>)" "pl_leader_id l1 = pl_leader_id l"
      using apply_leadership_Ok(2) [OF ap] by (simp_all add: same_data_def l1_def)
    ultimately show ?thesis using reg l1(3) by (auto simp: broker_entry_def)
  qed
  then show "replica_holds pf topic part (pl_leader_epoch l) offset x c i \<Longrightarrow>
      replica_holds pf topic part (pl_leader_epoch l) offset x c' i" and
    "\<exists>b' l'. cl_brokers c' self = Some b' \<and> broker_entry b' topic part = Some l' \<and> hw \<le> pl_high_watermark l' \<and>
      pl_leader_id l' = pl_leader_id l \<and> same_data b b'"
    by blast+
qed

section \<open>Durable records\<close>

text \<open>Everything a read returns is in the log, at the offset it is returned with.\<close>

lemma read_once_has:
  assumes "broker_ok pf n b" and "read_once pf topic part offset m b = (Ok records, b')" and "m \<noteq> 0" and "r \<in> set records"
  shows "broker_has pf b' topic part (fd_offset r) (content_of r)" "offset \<le> fd_offset r"
proof -
  let ?hash = "pf_hash pf"
  obtain w where w: "read_records ?hash (bk_settings b) topic part offset m (bk_storage b) = (Ok records, w)"
    "b' = b\<lparr>bk_storage := w\<rparr>" using assms(2) by (auto simp: read_once_def on_storage_Ok)
  obtain log rs where log: "map_of (sw_logs w) (topic, part) = Some log" "read_log ?hash log offset (unat m) = Ok rs"
    "records = map fetched_of rs"
    using w(1) by (auto simp: read_records_def step_bind_eq_Ok ok_or_eq_Ok map_ok_eq_Ok)
  have "worker_ok ?hash w"
    using read_records_grows [of ?hash "bk_storage b" n "bk_settings b" topic part offset m] assms(1) w(1)
    by (auto simp: broker_ok_def grows_def)
  then obtain hist low where rep: "log_rep ?hash hist low log"
    using log(1) unfolding worker_ok_def log_fine_def log_view_def by meson
  obtain s where s: "s \<in> set rs" "r = fetched_of s" using assms(4) log(3) by auto
  have "unat m \<noteq> 0" using assms(3) by (simp add: unat_eq_0)
  from read_log_has [OF rep log(2) this s(1)] log(1) w(2) s(2)
  show "broker_has pf b' topic part (fd_offset r) (content_of r)" "offset \<le> fd_offset r"
    by (simp_all add: broker_has_def broker_log_def fetched_of_def content_of_def stored_content_def)
qed

lemma record_at_has:
  assumes "broker_ok pf n b" and "record_at pf topic part offset b = (Ok r, b')"
  shows "broker_has pf b' topic part offset (content_of r)"
proof -
  obtain records where rs: "read_once pf topic part offset (16 * 1024 * 1024) b = (Ok records, b')"
    "List.find (\<lambda>r. fd_offset r = offset) records = Some r"
    using assms(2) by (auto simp: record_at_def step_bind_eq_Ok ok_or_eq_Ok)
  then have "r \<in> set records" "fd_offset r = offset" by (auto simp: find_Some_iff)
  with read_once_has(1) [OF assms(1) rs(1)] show ?thesis by auto
qed

end
