(* ===== verification/Cluster_Control.thy ===== *)
theory Cluster_Control
  imports Cluster
begin

text \<open>
  The control loops of a broker and its request dispatch (\<open>crates/broker/src/lib.rs\<close>): the leader
  monitor of the controller, the synchronisation with the controller's metadata, the recovery of
  follower partitions, and \<open>process_request\<close>.  The loops run once a second; one turn of each is
  modelled here, their repetition in \<open>Server\<close>.
\<close>

section \<open>Leader monitor\<close>

text \<open>The monitor counts the failed probes of every partition.\<close>

type_synonym failures = "((string \<times> u32) \<times> u8) list"

type_synonym 'a monitor_result = "('a, connection_error) outcome \<times> (failures \<times> cluster)"

definition in_cluster :: "(cluster \<Rightarrow> 'a cluster_result) \<Rightarrow> failures \<times> cluster \<Rightarrow> 'a monitor_result" where
  "in_cluster f s = (case f (snd s) of (res, c) \<Rightarrow> (res, (fst s, c)))"

definition forget :: "string \<times> u32 \<Rightarrow> failures \<times> cluster \<Rightarrow> unit monitor_result" where
  "forget key s = (Ok (), (AList.delete key (fst s), snd s))"

definition failed_attempts :: "string \<times> u32 \<Rightarrow> failures \<Rightarrow> u8" where
  "failed_attempts key failures = (case map_of failures key of None \<Rightarrow> 0 | Some n \<Rightarrow> n)"

definition replace_leader ::
    "platform \<Rightarrow> u32 \<Rightarrow> string \<Rightarrow> partition_leadership \<Rightarrow> failures \<times> cluster \<Rightarrow> unit monitor_result" where
  "replace_leader pf self topic current s =
    step_bind (in_cluster (select_automatic_candidate self topic current) s) (\<lambda>candidate s.
    case candidate of None \<Rightarrow> (Ok (), s) | Some candidate \<Rightarrow>
    step_bind (in_cluster (promote_leader pf self \<lparr>pm_topic = topic, pm_partition = pl_partition current,
        pm_leader_id = candidate\<rparr>) s) (\<lambda>response s.
    case response of RLeadershipChanged _ \<Rightarrow> forget (topic, pl_partition current) s | _ \<Rightarrow> (Ok (), s)))"

definition monitor_partition ::
    "platform \<Rightarrow> u32 \<Rightarrow> string \<Rightarrow> partition_leadership \<Rightarrow> failures \<times> cluster \<Rightarrow> unit monitor_result" where
  "monitor_partition pf self topic current s =
    (let key = (topic, pl_partition current) in
     if pl_leader_id current = self then forget key s
     else
     step_bind (in_cluster (cluster_info self) s) (\<lambda>m s.
     step_bind (ok_or (find (\<lambda>node. cn_id node = pl_leader_id current) (cm_nodes m)) InvalidClusterMetadata, s)
       (\<lambda>leader s.
     case query_partition_offset (cn_id leader) topic (pl_partition current) (snd s) of
       (Some _, c) \<Rightarrow> forget key (fst s, c)
     | (None, c) \<Rightarrow>
         let attempts = saturating_add (failed_attempts key (fst s)) 1;
             s = (AList.update key attempts (fst s), c) in
         if attempts < 3 then (Ok (), s) else replace_leader pf self topic current s)))"

fun monitor_leaders ::
    "platform \<Rightarrow> u32 \<Rightarrow> string \<Rightarrow> partition_leadership list \<Rightarrow> failures \<times> cluster \<Rightarrow> unit monitor_result" where
  "monitor_leaders pf self topic [] s = (Ok (), s)"
| "monitor_leaders pf self topic (l # ls) s =
    step_bind (monitor_partition pf self topic l s) (\<lambda>_ s. monitor_leaders pf self topic ls s)"

fun monitor_topics ::
    "platform \<Rightarrow> u32 \<Rightarrow> topic_metadata list \<Rightarrow> failures \<times> cluster \<Rightarrow> unit monitor_result" where
  "monitor_topics pf self [] s = (Ok (), s)"
| "monitor_topics pf self (t # ts) s =
    step_bind (in_cluster (at_broker self (on_leadership (topic_leaders (tm_topic t) (tm_partitions t)))) s)
      (\<lambda>leaders s.
    step_bind (monitor_leaders pf self (tm_topic t) leaders s) (\<lambda>_ s.
    monitor_topics pf self ts s))"

definition monitor_partition_leaders :: "platform \<Rightarrow> u32 \<Rightarrow> failures \<times> cluster \<Rightarrow> unit monitor_result" where
  "monitor_partition_leaders pf self s =
    step_bind (in_cluster (at_broker self handle_list_topics) s) (\<lambda>topics s.
    monitor_topics pf self topics s)"

section \<open>Controller metadata\<close>

definition list_with_leaders :: "broker \<Rightarrow> topic_metadata list broker_result" where
  "list_with_leaders b = step_bind (handle_list_topics b) (\<lambda>topics b. all_with_leaders topics b)"

definition describe_with_leaders :: "string \<Rightarrow> broker \<Rightarrow> topic_metadata broker_result" where
  "describe_with_leaders topic b = step_bind (handle_describe_topic topic b) (\<lambda>m b. with_leaders m b)"

text \<open>The leaderships in a topic's metadata, with their positions.\<close>

definition announced :: "topic_metadata \<Rightarrow> (nat \<times> u32 \<times> u64 \<times> u64) list" where
  "announced t = zip [0..<length (tm_leaders t)] (zip (tm_leaders t) (zip (tm_leader_epochs t) (tm_high_watermarks t)))"

fun adopt_leaders :: "string \<Rightarrow> (nat \<times> u32 \<times> u64 \<times> u64) list \<Rightarrow> broker \<Rightarrow> unit broker_result" where
  "adopt_leaders topic [] b = (Ok (), b)"
| "adopt_leaders topic ((i, leader_id, leader_epoch, high_watermark) # ls) b =
    step_bind (ok_or (try_from i) InvalidClusterMetadata, b) (\<lambda>part b.
    step_bind (broker_leader topic part b) (\<lambda>current b.
    step_bind (if pl_leader_epoch current < leader_epoch \<or>
          leader_epoch = pl_leader_epoch current \<and> pl_high_watermark current < high_watermark
        then on_leadership (apply_leadership topic \<lparr>pl_partition = part, pl_leader_id = leader_id,
          pl_leader_epoch = leader_epoch, pl_high_watermark = high_watermark\<rparr>) b
        else (Ok (), b)) (\<lambda>_ b.
    adopt_leaders topic ls b)))"

definition adopt_topic :: "platform \<Rightarrow> topic_metadata \<Rightarrow> broker \<Rightarrow> unit broker_result" where
  "adopt_topic pf t b =
    step_bind (case handle_describe_topic (tm_topic t) b of
        (Ok _, b) \<Rightarrow> (Ok (), b)
      | (Err _, b) \<Rightarrow> step_bind (handle_create_topic pf (tm_topic t) (tm_partitions t) b) (\<lambda>_ b. (Ok (), b))
      | (Panic, b) \<Rightarrow> (Panic, b)) (\<lambda>_ b.
    step_bind (on_leadership (ensure_topic (tm_topic t) (tm_partitions t)) b) (\<lambda>_ b.
    adopt_leaders (tm_topic t) (announced t) b))"

fun adopt_topics :: "platform \<Rightarrow> topic_metadata list \<Rightarrow> broker \<Rightarrow> unit broker_result" where
  "adopt_topics pf [] b = (Ok (), b)"
| "adopt_topics pf (t # ts) b = step_bind (adopt_topic pf t b) (\<lambda>_ b. adopt_topics pf ts b)"

text \<open>\<open>Client::list_topics\<close> and \<open>Client::describe_topic\<close>: the broker the client is connected to gives the
  membership, and the controller answers the request.\<close>

definition via_controller :: "u32 \<Rightarrow> (broker \<Rightarrow> 'a broker_result) \<Rightarrow> cluster \<Rightarrow> 'a option \<times> cluster" where
  "via_controller peer f c =
    (case ask peer (\<lambda>b. (Ok (bk_metadata b), b)) c of
       (None, c) \<Rightarrow> (None, c)
     | (Some m, c) \<Rightarrow> (case cm_nodes m of [] \<Rightarrow> (None, c) | controller # _ \<Rightarrow> ask (cn_id controller) f c))"

lemma ask_net_le: "length (cl_net (snd (ask i f c))) \<le> length (cl_net c)"
  by (simp add: ask_net)

lemma via_controller_net: "length (cl_net (snd (via_controller peer f c))) \<le> length (cl_net c)"
proof -
  obtain m c1 where a: "ask peer (\<lambda>b. (Ok (bk_metadata b), b)) c = (m, c1)" by fastforce
  have "length (cl_net (snd (ask i f c1))) \<le> length (cl_net c)" for i
    using ask_net_le [of i f c1] ask_net_le [of peer "\<lambda>b. (Ok (bk_metadata b), b)" c] a by simp
  moreover have "length (cl_net c1) \<le> length (cl_net c)"
    using ask_net_le [of peer "\<lambda>b. (Ok (bk_metadata b), b)" c] a by simp
  ultimately show ?thesis using a by (auto simp: via_controller_def split: option.splits list.splits)
qed

definition sync_controller_metadata :: "platform \<Rightarrow> u32 \<Rightarrow> cluster \<Rightarrow> unit cluster_result" where
  "sync_controller_metadata pf self c =
    step_bind (cluster_info self c) (\<lambda>m c.
    case cm_nodes m of [] \<Rightarrow> (Err InvalidClusterMetadata, c) | controller # _ \<Rightarrow>
    if cn_id controller = cm_responding_broker_id m then (Ok (), c)
    else case via_controller (cn_id controller) list_with_leaders c of
      (None, c) \<Rightarrow> (Err ConnClient, c)
    | (Some topics, c) \<Rightarrow> at_broker self (adopt_topics pf topics) c)"

text \<open>At the start a broker other than the controller tries 20 times.\<close>

fun sync_attempts :: "platform \<Rightarrow> u32 \<Rightarrow> nat \<Rightarrow> cluster \<Rightarrow> bool \<times> cluster" where
  "sync_attempts pf self 0 c = (False, c)"
| "sync_attempts pf self (Suc n) c =
    (case sync_controller_metadata pf self c of
       (Ok _, c) \<Rightarrow> (True, c)
     | (_, c) \<Rightarrow> sync_attempts pf self n c)"

definition initial_controller_sync :: "platform \<Rightarrow> u32 \<Rightarrow> cluster \<Rightarrow> bool \<times> cluster" where
  "initial_controller_sync pf self c =
    (case at_broker self (\<lambda>b. (Ok (is_controller b), b)) c of
       (Ok True, c) \<Rightarrow> (True, c)
     | (_, c) \<Rightarrow> sync_attempts pf self 20 c)"

section \<open>Follower recovery\<close>

text \<open>\<open>Client::fetch\<close> of a follower: the broker it is connected to gives the membership, the
  controller gives the leader, and the leader is asked for the records.\<close>

definition fetch_from :: "platform \<Rightarrow> fetch_request \<Rightarrow> u32 \<Rightarrow> cluster \<Rightarrow> fetched_record list option \<times> cluster" where
  "fetch_from pf r i c =
    (case ask i (process_fetch pf r) c of
       (Some (RFetch records), c) \<Rightarrow> (Some records, c)
     | (_, c) \<Rightarrow> (None, c))"

definition routed_fetch :: "platform \<Rightarrow> u32 \<Rightarrow> fetch_request \<Rightarrow> cluster \<Rightarrow> fetched_record list option \<times> cluster" where
  "routed_fetch pf peer r c =
    (case ask peer (\<lambda>b. (Ok (bk_metadata b), b)) c of
       (None, c) \<Rightarrow> (None, c)
     | (Some m, c) \<Rightarrow>
         if length (cm_nodes m) = 1 then fetch_from pf r peer c
         else (case via_controller peer (describe_with_leaders (fr_topic r)) c of
            (None, c) \<Rightarrow> (None, c)
          | (Some t, c) \<Rightarrow>
              if length (tm_leaders t) \<le> unat (fr_partition r) then (None, c)
              else case find (\<lambda>node. cn_id node = tm_leaders t ! unat (fr_partition r)) (cm_nodes m) of
                None \<Rightarrow> (None, c)
              | Some node \<Rightarrow> fetch_from pf r (cn_id node) c))"

lemma fetch_from_net: "length (cl_net (snd (fetch_from pf r i c))) \<le> length (cl_net c)"
  using ask_net [of i "process_fetch pf r" c]
  by (auto simp: fetch_from_def split: prod.splits option.splits response.splits)

lemma routed_fetch_net:
  "routed_fetch pf peer r c = (Some rs, c') \<Longrightarrow> length (cl_net c') < length (cl_net c)"
proof -
  assume r: "routed_fetch pf peer r c = (Some rs, c')"
  then obtain m c1 where a: "ask peer (\<lambda>b. (Ok (bk_metadata b), b)) c = (Some m, c1)"
    by (auto simp: routed_fetch_def split: prod.splits option.splits)
  have "length (cl_net (snd (fetch_from pf r i c2))) \<le> length (cl_net c1)"
    if "length (cl_net c2) \<le> length (cl_net c1)" for i c2
    using that fetch_from_net [of pf r i c2] by simp
  moreover have "length (cl_net (snd (via_controller peer f c1))) \<le> length (cl_net c1)"
    for f :: "broker \<Rightarrow> topic_metadata broker_result" by (rule via_controller_net)
  ultimately have "length (cl_net c') \<le> length (cl_net c1)"
    using r a by (fastforce simp: routed_fetch_def split: prod.splits option.splits if_splits list.splits
        dest!: arg_cong [where f = snd])
  with ask_Some_net [OF a] show ?thesis by simp
qed

fun store_fetched ::
    "platform \<Rightarrow> u32 \<Rightarrow> string \<Rightarrow> u32 \<Rightarrow> fetched_record list \<Rightarrow> u64 \<Rightarrow> broker \<Rightarrow> u64 broker_result" where
  "store_fetched pf leader topic part [] offset b = (Ok offset, b)"
| "store_fetched pf leader topic part (r # rs) offset b =
    step_bind (broker_leader topic part b) (\<lambda>current b.
    step_bind (handle_replicate pf \<lparr>rr_topic = topic, rr_partition = part, rr_offset = fd_offset r,
        rr_timestamp_ms = fd_timestamp_ms r, rr_key = fd_key r, rr_value = fd_value r, rr_durable = True,
        rr_leader_id = leader, rr_leader_epoch = pl_leader_epoch current\<rparr> b) (\<lambda>offset b.
    store_fetched pf leader topic part rs offset b))"

function recover_follower_partition ::
    "platform \<Rightarrow> u32 \<Rightarrow> u32 \<Rightarrow> string \<Rightarrow> u32 \<Rightarrow> u64 \<Rightarrow> cluster \<Rightarrow> unit cluster_result" where
  "recover_follower_partition pf self leader topic part offset c =
    (case fetch_request_new topic part offset (3 * 1024 * 1024) 0 of
       Ok r \<Rightarrow>
        (case routed_fetch pf leader r c of
           (None, c) \<Rightarrow> (Err ConnClient, c)
         | (Some records, c) \<Rightarrow>
             if records = [] then (Ok (), c)
             else step_bind (at_broker self (store_fetched pf leader topic part records offset) c) (\<lambda>offset c.
               recover_follower_partition pf self leader topic part offset c))
     | Err e \<Rightarrow> (Err ConnClient, c)
     | Panic \<Rightarrow> (Panic, c))"
  by pat_completeness auto
termination
  by (relation "measure (\<lambda>(pf, self, leader, topic, part, offset, c). length (cl_net c))")
    (auto dest!: at_broker_net_eq routed_fetch_net [OF sym])

declare recover_follower_partition.simps [simp del]

definition recover_partition :: "platform \<Rightarrow> u32 \<Rightarrow> partition_snapshot \<Rightarrow> cluster \<Rightarrow> unit cluster_result" where
  "recover_partition pf self s c =
    step_bind (at_broker self (\<lambda>b. (Ok (bk_metadata b, bk_replication_factor b), b)) c) (\<lambda>(m, rf) c.
    case at_broker self (broker_leader (sn_topic s) (sn_partition s)) c of
      (Ok current, c) \<Rightarrow>
        (case find (\<lambda>node. cn_id node = pl_leader_id current) (cm_nodes m) of
           None \<Rightarrow> (Ok (), c)
         | Some leader \<Rightarrow>
             if cn_id leader = cm_responding_broker_id m then (Ok (), c)
             else step_bind (is_partition_replica m (cm_responding_broker_id m) (sn_partition s) rf, c) (\<lambda>replica c.
               if \<not> replica then (Ok (), c)
               else recover_follower_partition pf self (cn_id leader) (sn_topic s) (sn_partition s)
                      (sn_high_watermark s) c))
    | (_, c) \<Rightarrow> (Ok (), c))"

text \<open>One turn of \<open>start_follower_recovery\<close>: errors are logged and the next partition is taken.\<close>

definition follower_recovery_cycle :: "platform \<Rightarrow> u32 \<Rightarrow> cluster \<Rightarrow> cluster" where
  "follower_recovery_cycle pf self c =
    (case at_broker self handle_snapshot (snd (sync_controller_metadata pf self c)) of
       (Ok partitions, c) \<Rightarrow> fold (\<lambda>s c. snd (recover_partition pf self s c)) partitions c
     | (_, c) \<Rightarrow> c)"

section \<open>Request dispatch\<close>

text \<open>A broker that receives a broadcast topic is not the controller, so it does not broadcast again.\<close>

fun broadcast_topic :: "platform \<Rightarrow> u32 \<Rightarrow> string \<Rightarrow> u32 \<Rightarrow> cluster_node list \<Rightarrow> cluster \<Rightarrow> cluster" where
  "broadcast_topic pf self topic partitions [] c = c"
| "broadcast_topic pf self topic partitions (node # nodes) c =
    broadcast_topic pf self topic partitions nodes
      (if cn_id node = self then c
       else snd (ask (cn_id node) (register_topic pf \<lparr>ct_topic = topic, ct_partitions = partitions\<rparr>) c))"

definition process_create_topic :: "platform \<Rightarrow> u32 \<Rightarrow> create_topic_request \<Rightarrow> cluster \<Rightarrow> response cluster_result" where
  "process_create_topic pf self r c =
    step_bind (at_broker self (register_topic pf r) c) (\<lambda>registered c.
    case registered of Inl response \<Rightarrow> (Ok response, c) | Inr metadata \<Rightarrow>
    step_bind (at_broker self (\<lambda>b. (Ok (is_controller b, cm_nodes (bk_metadata b)), b)) c) (\<lambda>(controller, nodes) c.
    step_bind (at_broker self (with_leaders metadata)
        (if controller then broadcast_topic pf self (tm_topic metadata) (tm_partitions metadata) nodes c else c))
      (\<lambda>metadata c. (Ok (RTopics [metadata]), c))))"

definition process_describe_topic :: "string \<Rightarrow> broker \<Rightarrow> response broker_result" where
  "process_describe_topic topic b =
    (case handle_describe_topic topic b of
       (Err (ConnStorage e), b) \<Rightarrow> (Ok (RError (storage_error_text e)), b)
     | (res, b) \<Rightarrow> step_bind (res, b) (\<lambda>m b.
         step_bind (with_leaders m b) (\<lambda>m b. (Ok (RTopics [m]), b))))"

fun process_topic_request :: "platform \<Rightarrow> u32 \<Rightarrow> request \<Rightarrow> cluster \<Rightarrow> response cluster_result" where
  "process_topic_request pf self (CreateTopic r) c = process_create_topic pf self r c"
| "process_topic_request pf self ListTopics c =
    step_bind (at_broker self list_with_leaders c) (\<lambda>topics c. (Ok (RTopics topics), c))"
| "process_topic_request pf self (DescribeTopic topic) c = at_broker self (process_describe_topic topic) c"
| "process_topic_request pf self ClusterMetadata c =
    step_bind (cluster_info self c) (\<lambda>m c. (Ok (RClusterMetadata m), c))"
| "process_topic_request pf self (PartitionStatus r) c =
    step_bind (at_broker self (handle_partition_offset (ps_topic r) (ps_partition r)) c) (\<lambda>offset c.
    (Ok (RPartitionStatus offset), c))"
| "process_topic_request pf self (ApplyLeadership r) c = at_broker self (receive_leadership pf r) c"
| "process_topic_request pf self (PromoteLeader r) c = promote_leader pf self r c"
| "process_topic_request pf self _ c = (Panic, c)"

fun process_request :: "platform \<Rightarrow> u32 \<Rightarrow> request \<Rightarrow> cluster \<Rightarrow> response cluster_result" where
  "process_request pf self (Produce r) c = process_produce pf self r c"
| "process_request pf self (ProduceBatch r) c =
    step_bind (at_broker self (cluster_leadership_error (pb_topic r) (pb_partition r)) c) (\<lambda>refused c.
    case refused of Some response \<Rightarrow> (Ok response, c) | None \<Rightarrow> produce_batch pf self r c)"
| "process_request pf self (Fetch r) c = at_broker self (process_fetch pf r) c"
| "process_request pf self (GroupFetch r) c = at_broker self (process_group_fetch pf r) c"
| "process_request pf self (JoinGroup r) c = at_broker self (execute_group pf (JoinGroup r)) c"
| "process_request pf self (Heartbeat r) c = at_broker self (execute_group pf (Heartbeat r)) c"
| "process_request pf self (LeaveGroup r) c = at_broker self (execute_group pf (LeaveGroup r)) c"
| "process_request pf self (CommitOffset r) c = at_broker self (execute_group pf (CommitOffset r)) c"
| "process_request pf self (FetchCommittedOffset r) c = at_broker self (execute_group pf (FetchCommittedOffset r)) c"
| "process_request pf self r c = process_topic_request pf self r c"

text \<open>The answer \<open>handle_connection\<close> writes, \<open>None\<close> when it closes the connection.\<close>

definition answer_request :: "platform \<Rightarrow> u32 \<Rightarrow> request \<Rightarrow> cluster \<Rightarrow> response option \<times> cluster" where
  "answer_request pf self r c =
    (case process_request pf self r c of
       (Ok response, c) \<Rightarrow> (Some response, c)
     | (Err e, c) \<Rightarrow> (error_response e, c)
     | (Panic, c) \<Rightarrow> (None, c))"

end
