(* ===== verification/Cluster_Safety.thy ===== *)
theory Cluster_Safety
  imports Replication Cluster_Control Cluster_Config
begin

text \<open>
  The guarantees of the cluster: where replicas are placed, what a durable acknowledgement means,
  what a consumer can see, and who may write to a follower.
\<close>

section \<open>Placement\<close>

lemma mod_add_inj:
  fixes n :: nat
  assumes "i < n" and "j < n" and "(s + i) mod n = (s + j) mod n"
  shows "i = j"
proof -
  obtain p q where "s + i + n * p = s + j + n * q" using assms(3) unfolding nat_mod_eq_iff by blast
  then have "(i + n * p) mod n = (j + n * q) mod n" by simp
  with assms(1,2) show ?thesis by simp
qed

lemma replica_nodes_Ok:
  assumes "distinct (map cn_id (cm_nodes m))" and "rf \<le> length (cm_nodes m)" and "cm_nodes m \<noteq> []"
  shows "\<exists>ns. replica_nodes m part rf = Ok ns \<and> length ns = rf \<and> distinct (map cn_id ns) \<and> set ns \<subseteq> set (cm_nodes m)"
proof -
  let ?n = "length (cm_nodes m)" and ?s = "unat part mod length (cm_nodes m)"
  define ns where "ns = map (\<lambda>i. cm_nodes m ! ((?s + i) mod ?n)) [0..<rf]"
  have "inj_on (\<lambda>i. (?s + i) mod ?n) {..<rf}"
    by (rule inj_onI, rule mod_add_inj [where s = ?s and n = ?n]) (use assms(2) in auto)
  moreover have "inj_on (\<lambda>i. cn_id (cm_nodes m ! i)) {..<?n}"
    using inj_on_nth [OF assms(1), of "{..<?n}"] by (simp add: inj_on_def)
  then have "inj_on (\<lambda>i. cn_id (cm_nodes m ! i)) ((\<lambda>i. (?s + i) mod ?n) ` {..<rf})"
    by (rule inj_on_subset) (use assms(3) in auto)
  ultimately have "inj_on (\<lambda>i. cn_id (cm_nodes m ! ((?s + i) mod ?n))) {..<rf}"
    using comp_inj_on by (fastforce simp: o_def)
  then have "distinct (map cn_id ns)"
    by (simp add: ns_def distinct_map o_def lessThan_atLeast0)
  moreover have "set ns \<subseteq> set (cm_nodes m)" using assms(3) by (auto simp: ns_def)
  ultimately show ?thesis using assms(3) by (intro exI [of _ ns]) (simp add: replica_nodes_def ns_def Let_def)
qed

text \<open>C32: With a validated membership every partition has exactly \<open>replication_factor\<close> different replicas, all
  of them members, the initial leader is the first of them, \<open>is_partition_replica\<close> recognises exactly
  them, and no remainder or index is out of range.\<close>

theorem replica_placement:
  assumes "distinct (map cn_id (cm_nodes m))" and "0 < rf" and "rf \<le> length (cm_nodes m)"
  shows "\<exists>ns. replica_nodes m part rf = Ok ns \<and> length ns = rf \<and> distinct (map cn_id ns) \<and> set ns \<subseteq> set (cm_nodes m) \<and>
    deterministic_leader m part = Ok (cn_id (hd ns)) \<and>
    (\<forall>i. is_partition_replica m i part rf = Ok (i \<in> cn_id ` set ns)) \<and>
    card {i. is_partition_replica m i part rf = Ok True} = rf"
proof -
  have ne: "cm_nodes m \<noteq> []" using assms(2,3) by auto
  from replica_nodes_Ok [OF assms(1,3) ne, of part] obtain ns where
    ns: "replica_nodes m part rf = Ok ns" "length ns = rf" "distinct (map cn_id ns)" "set ns \<subseteq> set (cm_nodes m)" by blast
  have isr: "is_partition_replica m i part rf = Ok (i \<in> cn_id ` set ns)" for i
    using ns(1) by (auto simp: is_partition_replica_def list_ex_iff)
  have "hd ns = cm_nodes m ! (unat part mod length (cm_nodes m))"
    using ns(1) assms(2) ne by (auto simp: replica_nodes_def Let_def hd_map upt_rec)
  moreover have "{i. is_partition_replica m i part rf = Ok True} = set (map cn_id ns)" using isr by auto
  then have "card {i. is_partition_replica m i part rf = Ok True} = rf"
    using distinct_card [OF ns(3)] ns(2) by simp
  ultimately show ?thesis using ns isr ne by (intro exI [of _ ns]) (simp add: deterministic_leader_def)
qed

theorem replica_placement_witness:
  "card {i. is_partition_replica sample_cluster i 5 2 = Ok True} = 2"
  using replica_placement [of sample_cluster 2 5] by (auto simp: sample_cluster_def)

section \<open>Durable acknowledgements\<close>

text \<open>Every broker answers under its own identifier, has its logs in order with room for \<open>n\<close> records
  and for one record per message still to come, and files leaderships under their partition.\<close>

definition cluster_ok :: "platform \<Rightarrow> nat \<Rightarrow> cluster \<Rightarrow> bool" where
  "cluster_ok pf n c \<longleftrightarrow> (\<forall>i b. cl_brokers c i = Some b \<longrightarrow> bk_id b = i \<and> broker_ok pf (n + length (cl_net c)) b \<and>
     (\<forall>topic part l. broker_entry b topic part = Some l \<longrightarrow> pl_partition l = part))"

definition replica_ids :: "broker \<Rightarrow> u32 \<Rightarrow> u32 set" where
  "replica_ids b part = (case replica_nodes (bk_metadata b) part (bk_replication_factor b) of
     Ok ns \<Rightarrow> cn_id ` set ns | _ \<Rightarrow> {})"

definition membership_fits :: "broker \<Rightarrow> bool" where
  "membership_fits b \<longleftrightarrow> distinct (map cn_id (cm_nodes (bk_metadata b))) \<and>
     bk_replication_factor b \<le> length (cm_nodes (bk_metadata b))"

lemma at_broker_pure: "cl_brokers c self = Some b \<Longrightarrow> at_broker self (\<lambda>b. (f b, b)) c = (f b, c)"
  by (simp add: at_broker_def set_broker_same)

lemma replica_followers_Ok:
  assumes "membership_fits b" and "replica_followers b part = Ok ns"
  shows "distinct (map cn_id ns)" "cn_id ` set ns = replica_ids b part - {bk_id b}"
proof -
  have ne: "cm_nodes (bk_metadata b) \<noteq> []"
    using assms(2) by (auto simp: replica_followers_def replica_nodes_def outcome_simps Let_def split: if_splits)
  obtain rs where rs: "replica_nodes (bk_metadata b) part (bk_replication_factor b) = Ok rs" "distinct (map cn_id rs)"
    using replica_nodes_Ok [OF _ _ ne, of "bk_replication_factor b" part] assms(1) by (auto simp: membership_fits_def)
  then have ns: "ns = filter (\<lambda>node. cn_id node \<noteq> bk_id b) rs"
    using assms(2) by (auto simp: replica_followers_def)
  show "distinct (map cn_id ns)" using rs(2) by (simp add: ns distinct_map_filter)
  show "cn_id ` set ns = replica_ids b part - {bk_id b}" using rs(1) by (auto simp: ns replica_ids_def)
qed

lemma replicate_one_durable:
  assumes "cl_brokers c self = Some b" and "bk_id b = self" and "membership_fits b" and "hosts b topic part"
    and "broker_entry b topic part = Some l" and "pl_partition l = part"
    and "record_at pf topic part (fd_offset r) b = (Ok r, b)"
    and "\<forall>i bi. cl_brokers c i = Some bi \<longrightarrow> broker_ok pf (length (cl_net c)) bi"
    and "replicate_one pf self topic part r Durable c = (Ok (), c')"
  shows "\<exists>A. self \<in> A \<and> A \<subseteq> insert self (replica_ids b part) \<and> bk_min_in_sync_replicas b \<le> card A \<and>
      (\<forall>i\<in>A. replica_holds pf topic part (pl_leader_epoch l) (fd_offset r) (content_of r) c' i)" and
    "\<exists>b' l'. cl_brokers c' self = Some b' \<and> broker_entry b' topic part = Some l' \<and>
      saturating_add (fd_offset r) 1 \<le> pl_high_watermark l' \<and> pl_leader_id l' = pl_leader_id l \<and> same_data b b'"
proof -
  obtain ns k c1 where ns: "replica_followers b part = Ok ns"
    and rf: "replicate_followers pf self topic part r Durable ns 1 c = (Ok k, c1)"
    and k: "bk_min_in_sync_replicas b \<le> k" and cm: "commit_offset pf self topic part (saturating_add (fd_offset r) 1) c1 = (Ok (), c')"
    using assms(9) by (auto simp: replicate_one_def at_broker_pure [OF assms(1)] step_bind_eq_Ok split: if_splits)
  note f = replica_followers_Ok [OF assms(3) ns]
  have out: "self \<notin> cn_id ` set ns" using f(2) assms(2) by simp
  from replicate_followers_Ok [OF assms(1,4,5,6,7) f(1) out _ rf] assms(8)
  obtain A where A: "A \<subseteq> cn_id ` set ns" "k = 1 + card A"
    "\<forall>i\<in>A. replica_holds pf topic part (pl_leader_epoch l) (fd_offset r) (content_of r) c1 i"
    "\<forall>j. j \<notin> cn_id ` set ns \<longrightarrow> cl_brokers c1 j = cl_brokers c j" by blast
  have c1: "cl_brokers c1 self = Some b" using A(4) out assms(1) by simp
  have "replica_holds pf topic part (pl_leader_epoch l) (fd_offset r) (content_of r) c1 self"
    using record_at_has [OF _ assms(7)] assms(1,5,8) c1 by (auto simp: replica_holds_def)
  with A(3) commit_offset_Ok(1) [OF c1 assms(5,6) cm]
  have "\<forall>i\<in>insert self A. replica_holds pf topic part (pl_leader_epoch l) (fd_offset r) (content_of r) c' i" by blast
  moreover have "card (insert self A) = k"
    using A(1,2) out finite_subset [OF A(1)] by (subst card_insert_disjoint) auto
  ultimately show "\<exists>A. self \<in> A \<and> A \<subseteq> insert self (replica_ids b part) \<and> bk_min_in_sync_replicas b \<le> card A \<and>
      (\<forall>i\<in>A. replica_holds pf topic part (pl_leader_epoch l) (fd_offset r) (content_of r) c' i)"
    using A(1) f(2) k by (intro exI [of _ "insert self A"]) auto
  show "\<exists>b' l'. cl_brokers c' self = Some b' \<and> broker_entry b' topic part = Some l' \<and>
      saturating_add (fd_offset r) 1 \<le> pl_high_watermark l' \<and> pl_leader_id l' = pl_leader_id l \<and> same_data b b'"
    by (rule commit_offset_Ok(2) [OF c1 assms(5,6) cm])
qed

lemma replicate_followers_self:
  "cl_brokers c self = Some b \<Longrightarrow> hosts b topic part \<Longrightarrow> self \<notin> cn_id ` set nodes \<Longrightarrow>
    cl_brokers (snd (replicate_followers pf self topic part r m nodes acks c)) self = Some b"
proof (induction nodes arbitrary: acks c)
  case (Cons node nodes)
  have ne: "cn_id node \<noteq> self" using Cons.prems(3) by auto
  have "cl_brokers (snd (replicate_to_follower pf self (cn_id node) topic part r m c)) self = Some b"
    using replicate_to_follower_frame [OF Cons.prems(1,2) ne, of pf r m] Cons.prems(1) ne by metis
  with Cons.IH Cons.prems(2,3) show ?case by (auto split: prod.splits outcome.splits)
qed simp

text \<open>The leader's record survives to the commit only with a registered leadership.\<close>

lemma replicate_one_entry:
  assumes "cl_brokers c self = Some b" and "bk_id b = self" and "membership_fits b" and "hosts b topic part"
    and "replicate_one pf self topic part r Durable c = (Ok (), c')"
  shows "\<exists>l. broker_entry b topic part = Some l"
proof -
  obtain ns k c1 where ns: "replica_followers b part = Ok ns"
    and rf: "replicate_followers pf self topic part r Durable ns 1 c = (Ok k, c1)"
    and cm: "commit_offset pf self topic part (saturating_add (fd_offset r) 1) c1 = (Ok (), c')"
    using assms(5) by (auto simp: replicate_one_def at_broker_pure [OF assms(1)] step_bind_eq_Ok split: if_splits)
  have "self \<notin> cn_id ` set ns" using replica_followers_Ok(2) [OF assms(3) ns] assms(2) by simp
  from replicate_followers_self [OF assms(1,4) this, of pf r Durable 1] rf
  have "cl_brokers c1 self = Some b" by simp
  with cm show ?thesis by (auto simp: commit_offset_def step_bind_eq_Ok at_broker_Ok broker_leader_Ok)
qed

lemma append_record_hosts:
  assumes "worker_ok hash w" and "worker_room n w" and "settings_ok settings"
    and "append_record hash settings clock input w = (Ok ack, w')"
  shows "map_of (sw_topics w') (ai_topic input) \<noteq> None" "map_of (sw_logs w') (ai_topic input, pa_partition ack) \<noteq> None"
proof -
  obtain count wa wb p where e: "worker_ensure_topic hash settings (ai_topic input) w = (Ok count, wa)"
    and c: "choose_partition hash count input wa = (Ok p, wb)"
    and a: "append_to_partition hash clock input p wb = (Ok ack, w')"
    using assms(4) by (auto simp: append_record_def step_bind_eq_Ok)
  have "map_of (sw_topics wa) (ai_topic input) = Some count"
    using ensure_topic_grows(2) [OF assms(1,2,3) e] by blast
  moreover have "sw_topics wb = sw_topics wa"
    using c by (auto simp: choose_partition_def select_partition_def Let_def split: option.splits if_splits)
  moreover obtain log where "w' = put_log (ai_topic input, p) log wb" "pa_partition ack = p"
    using a by (auto simp: append_to_partition_def step_bind_eq_Ok Let_def case_prod_beta)
  ultimately show "map_of (sw_topics w') (ai_topic input) \<noteq> None"
    "map_of (sw_logs w') (ai_topic input, pa_partition ack) \<noteq> None" by simp_all
qed

lemma leadership_error_not_ack:
  "cluster_leadership_error topic part b = (Ok (Some response), b') \<Longrightarrow> \<exists>msg. response = RError msg"
  by (auto simp: cluster_leadership_error_def step_bind_eq_Ok split: if_splits option.splits)

lemma leadership_error_state: "snd (cluster_leadership_error topic part b) = b"
proof (cases part)
  case (Some p)
  then show ?thesis
    by (cases "broker_leader topic p b"; cases "fst (broker_leader topic p b)")
       (use broker_leader_state [of topic p b] in \<open>auto simp: cluster_leadership_error_def\<close>)
qed (simp add: cluster_leadership_error_def)

lemma at_broker_guard:
  assumes "cl_brokers c self = Some b"
  shows "at_broker self (cluster_leadership_error topic part) c = (fst (cluster_leadership_error topic part b), c)"
  using leadership_error_state [of topic part b] assms
  by (cases "cluster_leadership_error topic part b") (simp add: at_broker_def set_broker_same)

lemma log_has_bound:
  assumes "log_fine hash l" and "log_has hash l offset x"
  shows "offset < lg_next_offset l"
proof -
  obtain hist low where rep: "log_rep hash hist low l" using assms(1) by (auto simp: log_fine_def log_view_def)
  note rd = log_repD [OF rep]
  obtain s rest where s: "read_log hash l offset 1 = Ok (s # rest)" "sr_offset s = offset"
    using assms(2) by (fastforce simp: log_has_def)
  then have "s \<in> set (read_spec offset 1 (drop low hist))" using read_log_spec [OF rep, of 1 offset]
    by (metis list.set_intros(1) one_neq_zero outcome.inject(1))
  then have "s \<in> fst ` set (drop low hist)" using take_budget_subset unfolding read_spec_def by fastforce
  then obtain ch where "(s, ch) \<in> set hist" using in_set_dropD by fastforce
  from entries_ok_offset [OF rd(1) this] s(2) rd(4) show ?thesis by (simp add: word_less_nat_alt)
qed

lemma saturating_add_gt: "(x :: u64) < y \<Longrightarrow> x < saturating_add x 1"
  using unat_u64_lt [of y] by (auto simp: word_less_nat_alt unat_saturating_add simp del: unat_u64_lt)

text \<open>The record an append without a producer identity stores is the one it reads back.\<close>

lemma append_then_record_at:
  assumes "broker_ok pf (Suc n) b" and "handle_append pf input b = (Ok ack, b1)" and "ai_producer input = None"
    and "record_at pf (ai_topic input) (pa_partition ack) (pa_offset ack) b1 = (Ok r, b2)"
  shows "fd_key r = (if ai_key input = [] then None else Some (ai_key input))" "fd_value r = ai_value input"
proof -
  obtain w1 where w1: "append_record (pf_hash pf) (bk_settings b) (pf_clock pf) input (bk_storage b) = (Ok ack, w1)"
    "b1 = b\<lparr>bk_storage := w1\<rparr>"
    using assms(2) by (auto simp: handle_append_def outcome_simps)
  from append_record_readable [OF _ _ _ assms(3) w1(1) worker_extends_refl, of n "16 * 1024 * 1024"] assms(1)
  obtain ts rest where "read_records (pf_hash pf) (bk_settings b) (ai_topic input) (pa_partition ack) (pa_offset ack)
      (16 * 1024 * 1024) w1 = (Ok (stored_input input ts ack # rest), w1)"
    by (auto simp: broker_ok_def)
  then have "r = stored_input input ts ack"
    using assms(4) w1(2)
    by (auto simp: record_at_def read_once_def on_storage_def stored_input_def)
  then show "fd_key r = (if ai_key input = [] then None else Some (ai_key input))" "fd_value r = ai_value input"
    by (simp_all add: stored_input_def)
qed

lemma process_produce_steps:
  assumes "cl_brokers c self = Some b" and "pr_ack_mode req = Durable" and "broker_ok pf (Suc n) b"
    and "process_produce pf self req c = (Ok (RProduceAck ack), c')"
  shows "\<exists>b1 r. handle_append pf (produce_input req) b = (Ok ack, b1) \<and> hosts b1 (pr_topic req) (pa_partition ack) \<and>
    broker_ok pf n b1 \<and> record_at pf (pr_topic req) (pa_partition ack) (pa_offset ack) b1 = (Ok r, b1) \<and>
    replicate_one pf self (pr_topic req) (pa_partition ack) r Durable (set_broker self b1 c) = (Ok (), c')"
proof -
  obtain refused where g: "fst (cluster_leadership_error (pr_topic req) (pr_partition req) b) = Ok refused"
    using assms(4) by (auto simp: process_produce_def at_broker_guard [OF assms(1)] step_bind_eq_Ok)
  have "refused = None"
  proof (cases refused)
    case (Some response)
    with assms(4) g have "response = RProduceAck ack"
      by (auto simp: process_produce_def at_broker_guard [OF assms(1)])
    moreover have "cluster_leadership_error (pr_topic req) (pr_partition req) b = (Ok (Some response), b)"
      using g Some leadership_error_state by (metis prod.collapse)
    ultimately show ?thesis using leadership_error_not_ack by blast
  qed
  with assms(1,2,4) g obtain b1 r c2 where ap: "handle_append pf (produce_input req) b = (Ok ack, b1)"
    and rec: "at_broker self (record_at pf (pr_topic req) (pa_partition ack) (pa_offset ack)) (set_broker self b1 c) = (Ok r, c2)"
    and rep: "replicate_one pf self (pr_topic req) (pa_partition ack) r Durable c2 = (Ok (), c')"
    by (auto simp: process_produce_def dispatch_replication_def at_broker_guard [OF assms(1)] step_bind_eq_Ok
        at_broker_Ok simp del: set_broker_select)
  obtain w1 where w1: "append_record (pf_hash pf) (bk_settings b) (pf_clock pf) (produce_input req) (bk_storage b) = (Ok ack, w1)"
    "b1 = b\<lparr>bk_storage := w1\<rparr>"
    using ap by (auto simp: handle_append_def outcome_simps)
  have ok: "worker_ok (pf_hash pf) (bk_storage b)" "worker_room (Suc n) (bk_storage b)" "settings_ok (bk_settings b)"
    using assms(3) by (auto simp: broker_ok_def)
  have h: "hosts b1 (pr_topic req) (pa_partition ack)"
    using append_record_hosts [OF ok w1(1)] w1(2) by (simp add: hosts_def broker_log_def produce_input_def)
  have "broker_ok pf n b1"
    using append_record_grows [OF ok, of "pf_clock pf" "produce_input req"] w1 ok(3) by (auto simp: grows_def broker_ok_def)
  moreover have "c2 = set_broker self b1 c" "record_at pf (pr_topic req) (pa_partition ack) (pa_offset ack) b1 = (Ok r, b1)"
    using rec at_broker_record_at [of "set_broker self b1 c" self b1, OF _ h, of pf "pa_offset ack"]
      record_at_hosts [OF h, of pf "pa_offset ack"]
    by (auto simp: prod_eq_iff)
  ultimately show ?thesis using ap h rep by blast
qed

lemma durable_produce_holds:
  assumes "cluster_ok pf 1 c" and "cl_brokers c self = Some b" and "membership_fits b"
    and "pr_ack_mode req = Durable" and "process_produce pf self req c = (Ok (RProduceAck ack), c')"
  shows "\<exists>A x b' l. self \<in> A \<and> A \<subseteq> insert self (replica_ids b (pa_partition ack)) \<and>
    bk_min_in_sync_replicas b \<le> card A \<and>
    (\<forall>i\<in>A. \<exists>bi. cl_brokers c' i = Some bi \<and>
      broker_has pf bi (pr_topic req) (pa_partition ack) (pa_offset ack) x) \<and>
    (pr_producer req = None \<longrightarrow>
      snd x = (if pr_key req = [] then None else Some (pr_key req), pr_payload req)) \<and>
    cl_brokers c' self = Some b' \<and> broker_entry b' (pr_topic req) (pa_partition ack) = Some l \<and>
    pa_offset ack < pl_high_watermark l \<and> hosts b' (pr_topic req) (pa_partition ack) \<and>
    broker_ok pf (length (cl_net c)) b' \<and> bk_metadata b' = bk_metadata b \<and>
    (\<exists>l0. broker_entry b (pr_topic req) (pa_partition ack) = Some l0 \<and> pl_leader_id l = pl_leader_id l0) \<and>
    replica_ids b' = replica_ids b"
proof -
  have okb: "bk_id b = self" "broker_ok pf (Suc (length (cl_net c))) b"
    "\<And>topic part l. broker_entry b topic part = Some l \<Longrightarrow> pl_partition l = part"
    using assms(1,2) by (auto simp: cluster_ok_def)
  obtain b1 r where ap: "handle_append pf (produce_input req) b = (Ok ack, b1)"
    and h: "hosts b1 (pr_topic req) (pa_partition ack)" and ok1: "broker_ok pf (length (cl_net c)) b1"
    and rec: "record_at pf (pr_topic req) (pa_partition ack) (pa_offset ack) b1 = (Ok r, b1)"
    and rep: "replicate_one pf self (pr_topic req) (pa_partition ack) r Durable (set_broker self b1 c) = (Ok (), c')"
    using process_produce_steps [OF assms(2,4) okb(2) assms(5)] by blast
  define c1 where "c1 = set_broker self b1 c"
  have c1: "cl_brokers c1 self = Some b1" "length (cl_net c1) = length (cl_net c)" by (simp_all add: c1_def)
  have b1: "bk_leadership b1 = bk_leadership b" "bk_replication_factor b1 = bk_replication_factor b"
    "bk_min_in_sync_replicas b1 = bk_min_in_sync_replicas b"
    using ap by (auto simp: handle_append_def on_storage_Ok)
  then have same: "bk_id b1 = self" "membership_fits b1" "replica_ids b1 = replica_ids b"
    using okb(1) assms(3) by (auto simp: membership_fits_def replica_ids_def)
  obtain l where l: "broker_entry b1 (pr_topic req) (pa_partition ack) = Some l"
    using replicate_one_entry [OF c1(1) same(1,2) h rep [folded c1_def]] by blast
  then have lp: "pl_partition l = pa_partition ack" using okb(3) b1(1) by (auto simp: broker_entry_def)
  have off: "fd_offset r = pa_offset ack" using record_at_offset [OF rec] .
  have all: "\<forall>i bi. cl_brokers c1 i = Some bi \<longrightarrow> broker_ok pf (length (cl_net c1)) bi"
    using assms(1) ok1 broker_ok_mono [of pf "Suc (length (cl_net c))" _ "length (cl_net c)"]
    unfolding c1(2) by (auto simp: c1_def cluster_ok_def)
  note d = replicate_one_durable [OF c1(1) same(1,2) h l lp, of pf r c', unfolded off, OF rec all]
  obtain A where A: "self \<in> A" "A \<subseteq> insert self (replica_ids b (pa_partition ack))" "bk_min_in_sync_replicas b \<le> card A"
    "\<forall>i\<in>A. replica_holds pf (pr_topic req) (pa_partition ack) (pl_leader_epoch l) (pa_offset ack) (content_of r) c' i"
    using d(1) rep same(3) b1(3) by (auto simp: c1_def)
  obtain b' l' where b': "cl_brokers c' self = Some b'" "broker_entry b' (pr_topic req) (pa_partition ack) = Some l'"
    "saturating_add (pa_offset ack) 1 \<le> pl_high_watermark l'" "pl_leader_id l' = pl_leader_id l" "same_data b1 b'"
    using d(2) rep by (auto simp: c1_def)
  have "broker_has pf b1 (pr_topic req) (pa_partition ack) (pa_offset ack) (content_of r)"
    by (rule record_at_has [OF ok1 rec])
  then obtain lg where "broker_log b1 (pr_topic req) (pa_partition ack) = Some lg"
    "log_has (pf_hash pf) lg (pa_offset ack) (content_of r)" by (auto simp: broker_has_def)
  with ok1 have "pa_offset ack < lg_next_offset lg"
    by (intro log_has_bound) (auto simp: broker_ok_def broker_log_def worker_ok_def)
  then have "pa_offset ack < pl_high_watermark l'" using saturating_add_gt b'(3) by (meson less_le_trans)
  moreover have "pr_producer req = None \<longrightarrow> snd (content_of r) =
      (if pr_key req = [] then None else Some (pr_key req), pr_payload req)"
    using append_then_record_at [OF okb(2) ap, of r b1] rec by (simp add: content_of_def produce_input_def)
  moreover have "\<forall>i\<in>A. \<exists>bi. cl_brokers c' i = Some bi \<and>
      broker_has pf bi (pr_topic req) (pa_partition ack) (pa_offset ack) (content_of r)"
    using A(4) unfolding replica_holds_def by blast
  moreover have "hosts b' (pr_topic req) (pa_partition ack)" "broker_ok pf (length (cl_net c)) b'"
    "bk_metadata b' = bk_metadata b" "broker_entry b (pr_topic req) (pa_partition ack) = Some l" "replica_ids b' = replica_ids b"
    using b'(5) h ok1 b1 l by (auto simp: same_data_def hosts_def broker_log_def broker_ok_def broker_entry_def replica_ids_def)
  ultimately show ?thesis
    using A(1,2,3) b'(1,2,4) by (intro exI [of _ A] exI [of _ "content_of r"] exI [of _ b'] exI [of _ l']) simp
qed

text \<open>C1: What a durable acknowledgement means: when a produce request with durable acknowledgement is
  answered with an offset, then at that moment at least \<open>min_in_sync_replicas\<close> brokers, the leader and
  replicas of the partition, hold the same record at that offset of their logs, for a client
  without a producer identity exactly the key and payload of the request, and the leader has
  made it visible.\<close>

theorem durable_produce_replicated:
  assumes "cluster_ok pf 1 c" and "cl_brokers c self = Some b" and "membership_fits b"
    and "pr_ack_mode req = Durable" and "process_produce pf self req c = (Ok (RProduceAck ack), c')"
  shows "\<exists>A x b' l. self \<in> A \<and> A \<subseteq> insert self (replica_ids b (pa_partition ack)) \<and>
    bk_min_in_sync_replicas b \<le> card A \<and>
    (\<forall>i\<in>A. \<exists>bi. cl_brokers c' i = Some bi \<and>
      broker_has pf bi (pr_topic req) (pa_partition ack) (pa_offset ack) x) \<and>
    (pr_producer req = None \<longrightarrow>
      snd x = (if pr_key req = [] then None else Some (pr_key req), pr_payload req)) \<and>
    cl_brokers c' self = Some b' \<and> broker_entry b' (pr_topic req) (pa_partition ack) = Some l \<and>
    pa_offset ack < pl_high_watermark l"
  using durable_produce_holds [OF assms] by (elim ex_forward conjE) (intro conjI)

section \<open>What consumers see\<close>

lemma read_once_entry: "read_once pf topic part offset m b = (res, b') \<Longrightarrow> bk_leadership b' = bk_leadership b"
  by (auto simp: read_once_def on_storage_def split: prod.splits)

text \<open>C5: A fetch answered with records comes from the leader of the partition (or the only broker), and
  returns only records that its log holds under their offsets, from the requested offset on and
  below the committed high watermark.\<close>

theorem fetch_committed_only:
  assumes "broker_ok pf n b" and "process_fetch pf r b = (Ok (RFetch records), b')" and "fr_max_bytes r \<noteq> 0"
  shows "\<exists>l. broker_entry b (fr_topic r) (fr_partition r) = Some l \<and>
    (length (cm_nodes (bk_metadata b)) \<noteq> 1 \<longrightarrow> pl_leader_id l = bk_id b) \<and>
    (\<forall>x\<in>set records. fr_offset r \<le> fd_offset x \<and> fd_offset x < pl_high_watermark l \<and>
      broker_has pf b' (fr_topic r) (fr_partition r) (fd_offset x) (content_of x))"
proof -
  let ?g = "cluster_leadership_error (fr_topic r) (Some (fr_partition r)) b"
  obtain refused where g: "?g = (Ok refused, b)"
    using assms(2) leadership_error_state [of "fr_topic r" "Some (fr_partition r)" b]
    by (cases ?g) (auto simp: process_fetch_def step_bind_eq_Ok)
  have none: "refused = None"
    using assms(2) g leadership_error_not_ack [of "fr_topic r" "Some (fr_partition r)" b]
    by (cases refused) (auto simp: process_fetch_def)
  then obtain rs l where rs: "read_once pf (fr_topic r) (fr_partition r) (fr_offset r) (fr_max_bytes r) b = (Ok rs, b')"
    and l: "broker_entry b' (fr_topic r) (fr_partition r) = Some l" "records = visible (pl_high_watermark l) rs"
    using assms(2) g by (auto simp: process_fetch_def step_bind_eq_Ok broker_leader_Ok)
  have same: "broker_entry b (fr_topic r) (fr_partition r) = Some l"
    using l(1) read_once_entry [OF rs] by (simp add: broker_entry_def)
  moreover have "length (cm_nodes (bk_metadata b)) \<noteq> 1 \<longrightarrow> pl_leader_id l = bk_id b"
    using g none same by (auto simp: cluster_leadership_error_def step_bind_eq_Ok broker_leader_Ok split: if_splits)
  moreover have "\<forall>x\<in>set records. fr_offset r \<le> fd_offset x \<and> fd_offset x < pl_high_watermark l \<and>
      broker_has pf b' (fr_topic r) (fr_partition r) (fd_offset x) (content_of x)"
    using read_once_has [OF assms(1) rs assms(3)] l(2) by (auto simp: visible_def)
  ultimately show ?thesis by blast
qed

end
