(* ===== verification/Cluster_Progress.thy ===== *)
theory Cluster_Progress
  imports Cluster_Safety
begin

text \<open>
  Progress of replication: while the network delivers, a follower that lags behind is brought up to
  the produced record, in one message per missing record and one to find out what is missing.
\<close>

section \<open>A follower that is ready for a record\<close>

definition ready :: "platform \<Rightarrow> nat \<Rightarrow> string \<Rightarrow> u32 \<Rightarrow> partition_leadership \<Rightarrow> u64 \<Rightarrow> broker \<Rightarrow> bool" where
  "ready pf k topic part l n b \<longleftrightarrow> broker_ok pf k b \<and> log_end b topic part = Some n \<and>
     (\<exists>count. map_of (sw_topics (bk_storage b)) topic = Some count \<and> part < count) \<and>
     (\<exists>lf. broker_entry b topic part = Some lf \<and> pl_leader_epoch lf = pl_leader_epoch l \<and> pl_leader_id lf = pl_leader_id l)"

text \<open>The records the leader sends are of a size the follower accepts.\<close>

definition sendable_at :: "platform \<Rightarrow> string \<Rightarrow> u32 \<Rightarrow> broker \<Rightarrow> u64 \<Rightarrow> bool" where
  "sendable_at pf topic part b offset \<longleftrightarrow> (\<exists>r. record_at pf topic part offset b = (Ok r, b) \<and>
     record_sizes_ok \<lparr>lr_key = fd_key r, lr_value = fd_value r, lr_timestamp_ms = fd_timestamp_ms r, lr_producer = None\<rparr>)"

lemma handle_replicate_next:
  assumes "ready pf (Suc k) topic part l n b" and "rr_topic r = topic" and "rr_partition r = part"
    and "rr_offset r = n" and "record_sizes_ok (replica_input r)"
  shows "\<exists>b'. handle_replicate pf r b = (Ok (n + 1), b') \<and> ready pf k topic part l (n + 1) b' \<and>
    broker_has pf b' topic part n (record_content (replica_input r))"
proof -
  let ?hash = "pf_hash pf" and ?w = "bk_storage b"
  obtain count log where w: "map_of (sw_topics ?w) topic = Some count" "part < count"
    "map_of (sw_logs ?w) (topic, part) = Some log" "lg_next_offset log = n"
    using assms(1) by (auto simp: ready_def log_end_def broker_log_def)
  have ok: "worker_ok ?hash ?w" "worker_room (Suc k) ?w" "settings_ok (bk_settings b)"
    using assms(1) by (auto simp: ready_def broker_ok_def)
  from worker_log [OF ok(1,2) w(3)] have lf: "log_fine ?hash log" "log_room (Suc k) log" by auto
  have "replica_record (replica_input r)" using assms(5) by (simp add: replica_record_def replica_input_def)
  from append_log_accepts [OF lf this] w(4) obtain log' where
    a: "append_replica ?hash n (replica_input r) log = (Ok n, log')"
    by (auto simp: append_replica_def)
  from append_replica_has [OF lf _ a] w(4) have u: "unat (lg_next_offset log') = Suc (unat n)"
    and has: "log_has ?hash log' n (record_content (replica_input r))"
    by (auto simp: replica_input_def)
  have "Suc (unat n) < 2 ^ 64" using u unat_u64_lt [of "lg_next_offset log'"] by simp
  then have n1: "lg_next_offset log' = n + 1" using u by (simp add: word_unat_eq_iff unat_plus_no_overflow)
  define w' where "w' = put_log (topic, part) log' ?w"
  have wr: "worker_append_replica ?hash r ?w = (Ok (n + 1), w')"
    using w a n1 assms(2,3,4) by (simp add: worker_append_replica_def w'_def Let_def not_le)
  from worker_append_replica_grows [OF ok(1,2), of r] wr have "worker_ok ?hash w'" "worker_room k w'"
    by (auto simp: grows_def)
  then have "ready pf k topic part l (n + 1) (b\<lparr>bk_storage := w'\<rparr>)"
    using assms(1) w n1 ok(3)
    by (auto simp: ready_def broker_ok_def log_end_def broker_log_def broker_entry_def w'_def)
  moreover have "broker_has pf (b\<lparr>bk_storage := w'\<rparr>) topic part n (record_content (replica_input r))"
    using has by (simp add: broker_has_def broker_log_def w'_def)
  ultimately show ?thesis using wr by (auto simp: handle_replicate_def on_storage_def)
qed

lemma receive_replica_next:
  assumes "ready pf (Suc k) topic part l n b" and "pl_partition l = part" and "n \<le> fd_offset r"
    and "record_sizes_ok (replica_input (replication_record topic r m l))"
  shows "\<exists>b' n'. receive_replica pf (replication_record topic r m l) b =
      (Ok \<lparr>ra_partition = part, ra_next_offset = n'\<rparr>, b') \<and> ready pf k topic part l n' b' \<and>
    n' = (if n = fd_offset r then n + 1 else n) \<and>
    (n = fd_offset r \<longrightarrow> broker_has pf b' topic part (fd_offset r) (content_of r))"
proof -
  let ?r = "replication_record topic r m l"
  obtain lf where lf: "broker_entry b topic part = Some lf" "pl_leader_epoch lf = pl_leader_epoch l"
    "pl_leader_id lf = pl_leader_id l" using assms(1) by (auto simp: ready_def)
  have pre: "receive_replica pf ?r b = step_bind (if n < fd_offset r then (Ok n, b) else handle_replicate pf ?r b)
      (\<lambda>next_offset b. (Ok \<lparr>ra_partition = part, ra_next_offset = next_offset\<rparr>, b))"
  proof -
    have "broker_leader topic part b = (Ok lf, b)" using lf by (simp add: broker_leader_Ok)
    moreover have "\<not> fenced ?r lf" using lf by (simp add: fenced_def replication_record_def)
    moreover have "join_epoch pf ?r lf b = (Ok (), b)" using lf by (simp add: join_epoch_def)
    moreover have "handle_partition_offset topic part b = (Ok n, b)"
      using assms(1) by (auto simp: ready_def log_end_def handle_partition_offset_Ok)
    ultimately show ?thesis using assms(2) by (simp add: receive_replica_def)
  qed
  show ?thesis
  proof (cases "n = fd_offset r")
    case True
    from handle_replicate_next [OF assms(1) _ _ _ assms(4)] True assms(2)
    obtain b' where "handle_replicate pf ?r b = (Ok (n + 1), b')" "ready pf k topic part l (n + 1) b'"
      "broker_has pf b' topic part n (content_of r)" by auto
    with True pre show ?thesis by simp
  next
    case False
    with assms(3) have "n < fd_offset r" by simp
    moreover have "ready pf k topic part l n b"
      using assms(1) broker_ok_mono [of pf "Suc k" b k] by (simp add: ready_def)
    ultimately show ?thesis using pre False by simp
  qed
qed

lemma send_replica_next:
  assumes "cl_brokers c f = Some bf" and "cl_net c = Delivered # ds" and "ready pf (Suc k) topic part l n bf"
    and "pl_partition l = part" and "n \<le> fd_offset r"
    and "record_sizes_ok (replica_input (replication_record topic r m l))"
  shows "\<exists>c' bf' n'. send_replica pf f (replication_record topic r m l) c = (Ok n', c') \<and>
    cl_brokers c' = (cl_brokers c)(f \<mapsto> bf') \<and> cl_net c' = ds \<and> ready pf k topic part l n' bf' \<and>
    n' = (if n = fd_offset r then n + 1 else n) \<and>
    (n = fd_offset r \<longrightarrow> broker_has pf bf' topic part (fd_offset r) (content_of r))"
  using receive_replica_next [OF assms(3,4,5,6)] assms(1,2,4)
  by (auto simp: send_replica_def ask_def at_broker_def Let_def set_broker_def)

section \<open>Catching up ends\<close>

lemma unat_plus_one: "unat (n :: u64) < 18446744073709551615 \<Longrightarrow> unat (n + 1) = Suc (unat n)"
  by (simp add: unat_plus_no_overflow)

lemma catch_up_completes:
  assumes "cl_brokers c self = Some b" and "hosts b topic part" and "f \<noteq> self" and "pl_partition l = part"
    and "cl_brokers c f = Some bf" and "ready pf k topic part l n bf" and "n \<le> target"
    and "\<forall>i. n \<le> i \<longrightarrow> i \<le> target \<longrightarrow> sendable_at pf topic part b i"
    and "target < - 1" and "k = Suc (unat target - unat n)" and "take k (cl_net c) = replicate k Delivered"
  shows "\<exists>c' bf' r. catch_up pf self f topic part target m l n c = (Ok (), c') \<and>
    cl_brokers c' = (cl_brokers c)(f \<mapsto> bf') \<and> cl_net c' = drop k (cl_net c) \<and> log_end bf' topic part = Some (target + 1) \<and>
    record_at pf topic part target b = (Ok r, b) \<and> broker_has pf bf' topic part target (content_of r)"
  using assms
proof (induction k arbitrary: n c bf)
  case (Suc k n c bf)
  have up: "unat (n + 1) = Suc (unat n)"
    using Suc.prems(7,9) by (intro unat_plus_one) (auto simp: word_le_nat_alt word_less_nat_alt unat_max_word)
  obtain ds where ds: "cl_net c = Delivered # ds" "take k ds = replicate k Delivered"
    using Suc.prems(11) by (cases "cl_net c") auto
  obtain r0 where r0: "record_at pf topic part n b = (Ok r0, b)" "record_sizes_ok (replica_input (replication_record topic r0 m l))"
    using Suc.prems(7,8) by (auto simp: sendable_at_def replica_input_def replication_record_def)
  have off: "fd_offset r0 = n" using record_at_offset [OF r0(1)] .
  obtain c1 bf1 where s1: "send_replica pf f (replication_record topic r0 m l) c = (Ok (n + 1), c1)"
    "cl_brokers c1 = (cl_brokers c)(f \<mapsto> bf1)" "cl_net c1 = ds" "ready pf k topic part l (n + 1) bf1"
    "broker_has pf bf1 topic part n (content_of r0)"
    using send_replica_next [OF Suc.prems(5) ds(1) Suc.prems(6,4) _ r0(2)] off by auto
  have go: "catch_up pf self f topic part target m l n c = catch_up pf self f topic part target m l (n + 1) c1"
    using Suc.prems(7) at_broker_record_at [OF Suc.prems(1,2), of pf n] r0(1) s1(1)
    by (simp add: catch_up.simps [of pf self f topic part target m l n c])
  show ?case
  proof (cases "n = target")
    case True
    then have "\<not> n + 1 \<le> target" using up by (simp add: word_le_nat_alt)
    then have "catch_up pf self f topic part target m l n c = (Ok (), c1)"
      unfolding go by (simp add: catch_up.simps)
    moreover have "k = 0" using Suc.prems(10) True by simp
    ultimately show ?thesis
      using s1 r0(1) True ds(1) by (intro exI [of _ c1] exI [of _ bf1] exI [of _ r0]) (simp add: ready_def)
  next
    case False
    with Suc.prems(7) have lt: "n < target" by simp
    then have le: "n + 1 \<le> target" using up by (simp add: word_le_nat_alt word_less_nat_alt)
    have k: "k = Suc (unat target - unat (n + 1))"
      using Suc.prems(10) lt up by (simp add: word_less_nat_alt)
    have c1: "cl_brokers c1 self = Some b" "cl_brokers c1 f = Some bf1" using s1(2) Suc.prems(1,3) by auto
    have "\<forall>i. n + 1 \<le> i \<longrightarrow> i \<le> target \<longrightarrow> sendable_at pf topic part b i"
      using Suc.prems(8) up by (auto simp: word_le_nat_alt)
    moreover have "take k (cl_net c1) = replicate k Delivered" using ds(2) s1(3) by simp
    ultimately obtain c' bf' r where "catch_up pf self f topic part target m l (n + 1) c1 = (Ok (), c')"
      "cl_brokers c' = (cl_brokers c1)(f \<mapsto> bf')" "cl_net c' = drop k (cl_net c1)" "log_end bf' topic part = Some (target + 1)"
      "record_at pf topic part target b = (Ok r, b)" "broker_has pf bf' topic part target (content_of r)"
      using Suc.IH [OF c1(1) Suc.prems(2,3,4) c1(2) s1(4) le _ Suc.prems(9) k] by blast
    with go s1(2,3) ds(1) show ?thesis by (intro exI [of _ c'] exI [of _ bf'] exI [of _ r]) simp
  qed
qed simp

lemma ready_mono: "ready pf k topic part l n b \<Longrightarrow> j \<le> k \<Longrightarrow> ready pf j topic part l n b"
  by (auto simp: ready_def elim: broker_ok_mono)

lemma replicate_to_follower_completes:
  assumes "cl_brokers c self = Some b" and "hosts b topic part" and "f \<noteq> self"
    and "broker_entry b topic part = Some l" and "pl_partition l = part"
    and "record_at pf topic part (fd_offset r) b = (Ok r, b)"
    and "cl_brokers c f = Some bf" and "ready pf k topic part l n bf" and "n \<le> fd_offset r"
    and "\<forall>i. n \<le> i \<longrightarrow> i \<le> fd_offset r \<longrightarrow> sendable_at pf topic part b i" and "fd_offset r < - 1"
    and "k = unat (fd_offset r) - unat n + 2" and "take k (cl_net c) = replicate k Delivered"
  shows "\<exists>c' bf'. replicate_to_follower pf self f topic part r m c = (Ok (), c') \<and>
    cl_brokers c' = (cl_brokers c)(f \<mapsto> bf') \<and> log_end bf' topic part = Some (fd_offset r + 1) \<and>
    broker_has pf bf' topic part (fd_offset r) (content_of r) \<and> length (cl_net c) \<le> length (cl_net c') + k"
proof -
  let ?o = "fd_offset r" and ?k = "unat (fd_offset r) - unat n"
  obtain ds where ds: "cl_net c = Delivered # ds" "take (Suc ?k) ds = replicate (Suc ?k) Delivered"
    using assms(12,13) by (cases "cl_net c") auto
  have sz: "record_sizes_ok (replica_input (replication_record topic r m l))"
    using assms(6,9,10) by (auto simp: sendable_at_def replica_input_def replication_record_def)
  have rd: "ready pf (Suc (Suc ?k)) topic part l n bf" using assms(8,12) by simp
  obtain c1 bf1 n1 where s1: "send_replica pf f (replication_record topic r m l) c = (Ok n1, c1)"
    "cl_brokers c1 = (cl_brokers c)(f \<mapsto> bf1)" "cl_net c1 = ds" "ready pf (Suc ?k) topic part l n1 bf1"
    "n1 = (if n = ?o then n + 1 else n)" "n = ?o \<longrightarrow> broker_has pf bf1 topic part ?o (content_of r)"
    using send_replica_next [OF assms(7) ds(1) rd assms(5,9) sz] by blast
  have "broker_leader topic part b = (Ok l, b)" using assms(4) by (simp add: broker_leader_Ok)
  then have lead: "at_broker self (broker_leader topic part) c = (Ok l, c)"
    using at_broker_leader [OF assms(1), of topic part] by simp
  have up: "unat (?o + 1) = Suc (unat ?o)"
    using assms(11) by (intro unat_plus_one) (simp add: word_less_nat_alt unat_max_word)
  have sat: "saturating_add ?o 1 = ?o + 1"
    using up unat_u64_lt [of "?o + 1"] by (simp add: saturating_add_def del: unat_u64_lt)
  have "\<not> saturating_add ?o 1 < n1"
    using s1(5) assms(9) up unfolding sat by (auto simp: word_less_nat_alt word_le_nat_alt)
  then have go: "replicate_to_follower pf self f topic part r m c = catch_up pf self f topic part ?o m l n1 c1"
    using lead s1(1) by (simp add: replicate_to_follower_def)
  show ?thesis
  proof (cases "n = ?o")
    case True
    then have "\<not> n1 \<le> ?o" using s1(5) up by (simp add: word_le_nat_alt)
    then have "replicate_to_follower pf self f topic part r m c = (Ok (), c1)"
      unfolding go by (simp add: catch_up.simps)
    with True s1 ds(1) assms(12) show ?thesis by (intro exI [of _ c1] exI [of _ bf1]) (simp add: ready_def)
  next
    case False
    have c1: "cl_brokers c1 self = Some b" "cl_brokers c1 f = Some bf1" "n1 = n" using s1(2,5) assms(1,3) False by auto
    have "take (Suc ?k) (cl_net c1) = replicate (Suc ?k) Delivered" using s1(3) ds(2) by simp
    from catch_up_completes [OF c1(1) assms(2,3,5) c1(2) s1(4) _ _ assms(11) _ this, of m] assms(9,10) c1(3)
    obtain c' bf' r' where "catch_up pf self f topic part ?o m l n1 c1 = (Ok (), c')"
      "cl_brokers c' = (cl_brokers c1)(f \<mapsto> bf')" "cl_net c' = drop (Suc ?k) (cl_net c1)"
      "log_end bf' topic part = Some (?o + 1)" "record_at pf topic part ?o b = (Ok r', b)"
      "broker_has pf bf' topic part ?o (content_of r')" by (simp only: order_refl simp_thms) blast
    with go s1(2,3) ds(1) assms(6,12) show ?thesis by (intro exI [of _ c'] exI [of _ bf']) simp
  qed
qed

section \<open>A cluster of two brokers\<close>

lemma record_at_nth:
  assumes "hosts b topic part" and "broker_log b topic part = Some log"
    and "log_rep (pf_hash pf) hist low log" and "low \<le> unat i" and "unat i < length hist"
  shows "record_at pf topic part i b = (Ok (fetched_of (fst (hist ! unat i))), b)"
proof -
  obtain count where t: "map_of (sw_topics (bk_storage b)) topic = Some count" using assms(1) by (auto simp: hosts_def)
  obtain rest where "read_log (pf_hash pf) log i (16 * 1024 * 1024) = Ok (fst (hist ! unat i) # rest)"
    using read_log_first [OF assms(3,4,5), of "16 * 1024 * 1024"] by auto
  moreover have "sr_offset (fst (hist ! unat i)) = i"
    using entries_ok_nth [OF log_repD(1) [OF assms(3)] assms(5)] by (simp add: word_unat_eq_iff)
  ultimately show ?thesis
    using t assms(2)
    by (simp add: record_at_def read_once_def on_storage_def read_records_def worker_ensure_topic_def broker_log_def
        fetched_of_def)
qed

definition sample_platform :: platform where
  "sample_platform = \<lparr>pf_hash = byte_sum, pf_clock = Some 5, pf_now = 0\<rparr>"

definition sample_entry_of :: "u32 \<Rightarrow> partition_leadership" where
  "sample_entry_of leader = \<lparr>pl_partition = 0, pl_leader_id = leader, pl_leader_epoch = 0, pl_high_watermark = 0\<rparr>"

definition sample_broker :: "nat \<Rightarrow> cluster_node list \<Rightarrow> u32 \<Rightarrow> partition_log \<Rightarrow> broker" where
  "sample_broker replicas nodes i log = \<lparr>bk_settings = sample_settings,
     bk_storage = \<lparr>sw_disk = [], sw_meta = [], sw_logs = [((''t'', 0), log)], sw_topics = [(''t'', 1)], sw_round_robin = []\<rparr>,
     bk_leadership = \<lparr>lr_file = None, lr_cluster = \<lparr>cm_responding_broker_id = i, cm_nodes = nodes\<rparr>,
       lr_entries = [((''t'', 0), sample_entry_of 1)]\<rparr>,
     bk_groups = sample_coordinator, bk_replication_factor = replicas, bk_min_in_sync_replicas = 2\<rparr>"

lemma sample_broker_ok:
  assumes "log_fine byte_sum log" and "log_room n log" and "n \<le> log_capacity"
  shows "broker_ok sample_platform n (sample_broker replicas nodes i log)"
    "hosts (sample_broker replicas nodes i log) ''t'' 0" "broker_log (sample_broker replicas nodes i log) ''t'' 0 = Some log"
    "broker_entry (sample_broker replicas nodes i log) ''t'' 0 = Some (sample_entry_of 1)"
    "ready sample_platform n ''t'' 0 (sample_entry_of 1) (lg_next_offset log) (sample_broker replicas nodes i log)"
proof -
  have "worker_ok byte_sum (bk_storage (sample_broker replicas nodes i log))"
    using assms(1) by (auto simp: worker_ok_def sample_broker_def split: if_splits)
  moreover have "worker_room n (bk_storage (sample_broker replicas nodes i log))"
    using assms(2,3) by (auto simp: worker_room_def sample_broker_def split: if_splits)
  ultimately show ok: "broker_ok sample_platform n (sample_broker replicas nodes i log)"
    using empty_worker_ok(2) by (simp add: broker_ok_def sample_platform_def sample_broker_def)
  show "hosts (sample_broker replicas nodes i log) ''t'' 0" "broker_log (sample_broker replicas nodes i log) ''t'' 0 = Some log"
    "broker_entry (sample_broker replicas nodes i log) ''t'' 0 = Some (sample_entry_of 1)"
    by (simp_all add: hosts_def broker_log_def broker_entry_def sample_broker_def)
  with ok show "ready sample_platform n ''t'' 0 (sample_entry_of 1) (lg_next_offset log) (sample_broker replicas nodes i log)"
    by (simp add: ready_def log_end_def sample_broker_def)
qed

lemma single_log_fine: "log_fine byte_sum (single_log 0)" "n \<le> 50 \<Longrightarrow> log_room n (single_log 0)"
    "lg_next_offset (single_log 0) = 3"
proof -
  have "length sample_hist = 3" by (simp add: sample_hist_def)
  then have "log_view byte_sum sample_hist 0 (single_log 0)"
    using single_log_rep [of 0] sample_hist_ok(4) by (simp add: log_view_def)
  then show "log_fine byte_sum (single_log 0)" by (auto simp: log_fine_def)
  show n: "lg_next_offset (single_log 0) = 3" by (simp add: single_log_def Let_def)
  show "n \<le> 50 \<Longrightarrow> log_room n (single_log 0)" using log_capacity_pos by (simp add: log_room_def n)
qed

lemma fresh_log_sample:
  "log_fine byte_sum (fresh_log 1024 256)" "n \<le> 50 \<Longrightarrow> log_room n (fresh_log 1024 256)" "lg_next_offset (fresh_log 1024 256) = 0"
  using fresh_log_fine [of 1024 256 byte_sum] log_capacity_pos by (auto simp: fresh_log_def log_room_def)

text \<open>C16: Replication makes progress: when the follower is in the leader's epoch, its log ends at or
  before the produced record, the leader can still read what is missing, and the network delivers
  the next messages, then \<open>replicate_to_follower\<close> returns successfully after at most two messages more
  than records are missing, and the follower holds the record as the last one of its log.\<close>

theorem follower_catches_up:
  assumes "cl_brokers c self = Some b" and "hosts b topic part" and "f \<noteq> self"
    and "broker_entry b topic part = Some l" and "pl_partition l = part"
    and "record_at pf topic part (fd_offset r) b = (Ok r, b)"
    and "cl_brokers c f = Some bf" and "ready pf k topic part l n bf" and "n \<le> fd_offset r"
    and "\<forall>i. n \<le> i \<longrightarrow> i \<le> fd_offset r \<longrightarrow> sendable_at pf topic part b i" and "fd_offset r < - 1"
    and "k = unat (fd_offset r) - unat n + 2" and "take k (cl_net c) = replicate k Delivered"
  shows "\<exists>c' bf'. replicate_to_follower pf self f topic part r m c = (Ok (), c') \<and>
    cl_brokers c' = (cl_brokers c)(f \<mapsto> bf') \<and> log_end bf' topic part = Some (fd_offset r + 1) \<and>
    broker_has pf bf' topic part (fd_offset r) (content_of r) \<and> length (cl_net c) \<le> length (cl_net c') + k"
  by (rule replicate_to_follower_completes [OF assms])

theorem follower_catches_up_witness:
  "\<exists>c' bf'. replicate_to_follower sample_platform 1 2 ''t'' 0 (fetched_of (fst (sample_entry 2))) Durable
      \<lparr>cl_brokers = [1 \<mapsto> sample_broker 2 [] 1 (single_log 0), 2 \<mapsto> sample_broker 2 [] 2 (fresh_log 1024 256)],
       cl_net = [Delivered, Delivered, Delivered, Delivered]\<rparr> = (Ok (), c') \<and>
    cl_brokers c' 2 = Some bf' \<and> log_end bf' ''t'' 0 = Some 3"
proof -
  define b where "b = sample_broker 2 [] 1 (single_log 0)"
  define bf where "bf = sample_broker 2 [] 2 (fresh_log 1024 256)"
  define r where "r = fetched_of (fst (sample_entry 2))"
  define c where "c = \<lparr>cl_brokers = [1 \<mapsto> b, 2 \<mapsto> bf], cl_net = [Delivered, Delivered, Delivered, Delivered]\<rparr>"
  note bo = sample_broker_ok [where replicas = 2 and nodes = "[]", folded b_def bf_def]
  have cap: "4 \<le> log_capacity" using log_capacity_pos by simp
  note l = bo [where i = 1 and n = 4, OF single_log_fine(1) single_log_fine(2) cap, folded b_def]
  note f = bo [where i = 2 and n = 4, OF fresh_log_sample(1) fresh_log_sample(2) cap, folded bf_def]
  have len: "length sample_hist = 3" by (simp add: sample_hist_def)
  have rec: "record_at sample_platform ''t'' 0 i b = (Ok (fetched_of (fst (sample_hist ! unat i))), b)" if "i \<le> 2" for i
    using record_at_nth [of b "''t''" 0 "single_log 0" sample_platform sample_hist 0 i] l(2,3) single_log_rep [of 0] that len
    by (simp add: sample_platform_def word_le_nat_alt)
  have sz: "sendable_at sample_platform ''t'' 0 b i" if "i \<le> 2" for i
  proof -
    have "fst (sample_hist ! unat i) \<in> set (map fst sample_hist)"
      using that len by (simp add: word_le_nat_alt)
    with sample_hist_ok(5) have "record_sizes_ok (record_of_stored (fst (sample_hist ! unat i)))"
      "sr_producer (fst (sample_hist ! unat i)) = None" by auto
    with rec [OF that] show ?thesis
      by (auto simp: sendable_at_def fetched_of_def record_of_stored_def)
  qed
  have r: "fd_offset r = 2" "record_at sample_platform ''t'' 0 2 b = (Ok r, b)"
    using rec [of 2] by (simp_all add: r_def sample_hist_def sample_entry_def stored_of_def fetched_of_def)
  have net: "replicate 4 Delivered = [Delivered, Delivered, Delivered, Delivered]"
    by (simp add: numeral_eq_Suc)
  have "\<exists>c' bf'. replicate_to_follower sample_platform 1 2 ''t'' 0 r Durable c = (Ok (), c') \<and>
    cl_brokers c' = (cl_brokers c)(2 \<mapsto> bf') \<and> log_end bf' ''t'' 0 = Some (fd_offset r + 1) \<and>
    broker_has sample_platform bf' ''t'' 0 (fd_offset r) (content_of r) \<and> length (cl_net c) \<le> length (cl_net c') + 4"
  proof (rule follower_catches_up [where b = b and l = "sample_entry_of 1" and bf = bf and n = 0])
    show "record_at sample_platform ''t'' 0 (fd_offset r) b = (Ok r, b)" using r by simp
    show "\<forall>i. 0 \<le> i \<longrightarrow> i \<le> fd_offset r \<longrightarrow> sendable_at sample_platform ''t'' 0 b i" using sz r(1) by auto
    show "ready sample_platform 4 ''t'' 0 (sample_entry_of 1) 0 bf" using f(5) fresh_log_sample(3) by simp
    show "take 4 (cl_net c) = replicate 4 Delivered" using net by (simp add: c_def)
  qed (use l(2,4) r(1) in \<open>simp_all add: c_def sample_entry_of_def\<close>)
  then show ?thesis using r(1) by (auto simp: c_def b_def bf_def r_def)
qed

definition two_nodes :: "cluster_node list" where
  "two_nodes = cm_nodes sample_cluster"

definition two_brokers :: "delivery list \<Rightarrow> cluster" where
  "two_brokers net = \<lparr>cl_brokers = [1 \<mapsto> sample_broker 2 two_nodes 1 (fresh_log 1024 256),
     2 \<mapsto> sample_broker 2 two_nodes 2 (fresh_log 1024 256)], cl_net = net\<rparr>"

definition durable_request :: produce_request where
  "durable_request = \<lparr>pr_topic = ''t'', pr_key = [], pr_payload = [7], pr_ack_mode = Durable, pr_producer = None,
     pr_partition = Some 0\<rparr>"

lemma two_brokers_ok: "cluster_ok sample_platform 1 (two_brokers [Delivered, Delivered])"
proof -
  have "broker_ok sample_platform 3 (sample_broker 2 two_nodes i (fresh_log 1024 256))" for i
    using sample_broker_ok(1) [OF fresh_log_sample(1) fresh_log_sample(2)] log_capacity_pos by simp
  then show ?thesis
    by (auto simp: cluster_ok_def two_brokers_def broker_entry_def sample_broker_def sample_entry_of_def
        numeral_eq_Suc split: if_splits)
qed

text \<open>The leader of the two appends the record of the sample request and can read it back.\<close>

lemma two_brokers_append:
  obtains log' r where "log_fine byte_sum log'" "log_room 3 log'"
    "handle_append sample_platform (produce_input durable_request) (sample_broker 2 two_nodes 1 (fresh_log 1024 256)) =
       (Ok \<lparr>pa_partition = 0, pa_offset = 0\<rparr>, sample_broker 2 two_nodes 1 log')"
    "record_at sample_platform ''t'' 0 0 (sample_broker 2 two_nodes 1 log') = (Ok r, sample_broker 2 two_nodes 1 log')"
    "fd_offset r = 0" "sendable_at sample_platform ''t'' 0 (sample_broker 2 two_nodes 1 log') 0"
proof -
  define rec where "rec = input_record (produce_input durable_request) 5"
  have rr: "replica_record rec"
    by (simp add: rec_def replica_record_def record_sizes_ok_def input_record_def produce_input_def durable_request_def opt_len_def)
  have room: "log_room (Suc 3) (fresh_log 1024 256)" by (rule fresh_log_sample(2)) simp
  obtain log' where ap: "append_log byte_sum rec (fresh_log 1024 256) = (Ok 0, log')"
    using append_log_accepts [OF fresh_log_sample(1) room rr] fresh_log_sample(3) by auto
  note lf = append_log_fine [OF fresh_log_sample(1) room ap]
  obtain rest where rd: "read_log byte_sum log' 0 (16 * 1024 * 1024) = Ok (stored_of rec 0 # rest)"
    using append_log_readable [OF fresh_log_sample(1) room ap _ log_extends_refl, of "16 * 1024 * 1024"] rr
    by (auto simp: replica_record_def)
  define r where "r = fetched_of (stored_of rec 0)"
  have ra: "record_at sample_platform ''t'' 0 0 (sample_broker 2 two_nodes 1 log') = (Ok r, sample_broker 2 two_nodes 1 log')"
    using rd by (simp add: record_at_def read_once_def on_storage_def read_records_def worker_ensure_topic_def
        sample_broker_def sample_platform_def r_def fetched_of_def stored_of_def)
  have app: "handle_append sample_platform (produce_input durable_request) (sample_broker 2 two_nodes 1 (fresh_log 1024 256)) =
      (Ok \<lparr>pa_partition = 0, pa_offset = 0\<rparr>, sample_broker 2 two_nodes 1 log')"
    using ap by (simp add: handle_append_def on_storage_def append_record_def worker_ensure_topic_def
        sample_broker_def produce_input_def durable_request_def choose_partition_def append_to_partition_def
        timestamp_def sample_platform_def try_from_def put_log_def rec_def)
  have "sendable_at sample_platform ''t'' 0 (sample_broker 2 two_nodes 1 log') 0"
    using ra rr by (auto simp: sendable_at_def r_def fetched_of_def stored_of_def replica_record_def record_sizes_ok_def opt_len_def)
  moreover have "fd_offset r = 0" by (simp add: r_def fetched_of_def stored_of_def)
  ultimately show thesis using that lf(2,3) app ra by blast
qed

text \<open>Its follower takes the record and the leader commits it.\<close>

lemma two_brokers_replicate:
  assumes "log_fine byte_sum log'" and "log_room 3 log'" and "fd_offset r = 0"
    and ra: "record_at sample_platform ''t'' 0 0 (sample_broker 2 two_nodes 1 log') = (Ok r, sample_broker 2 two_nodes 1 log')"
    and send: "sendable_at sample_platform ''t'' 0 (sample_broker 2 two_nodes 1 log') 0"
  shows "\<exists>c'. replicate_one sample_platform 1 ''t'' 0 r Durable
    (set_broker 1 (sample_broker 2 two_nodes 1 log') (two_brokers [Delivered, Delivered])) = (Ok (), c')"
proof -
  let ?pf = sample_platform
  define b1 where "b1 = sample_broker 2 two_nodes 1 log'"
  define bf where "bf = sample_broker 2 two_nodes 2 (fresh_log 1024 256)"
  define c where "c = set_broker 1 b1 (two_brokers [Delivered, Delivered])"
  have cb: "cl_brokers c = [1 \<mapsto> b1, 2 \<mapsto> bf]" "cl_net c = [Delivered, Delivered]"
    by (simp_all add: two_brokers_def b1_def bf_def c_def set_broker_def fun_upd_twist [of 1 2])
  have cap: "3 \<le> log_capacity" using log_capacity_pos by simp
  note o1 = sample_broker_ok [OF assms(1,2) cap, of 2 two_nodes 1, folded b1_def]
  note of = sample_broker_ok [OF fresh_log_sample(1) fresh_log_sample(2) cap, of 2 two_nodes 2, folded bf_def]
  have "\<exists>c' bf'. replicate_to_follower ?pf 1 2 ''t'' 0 r Durable c = (Ok (), c') \<and>
    cl_brokers c' = (cl_brokers c)(2 \<mapsto> bf') \<and> log_end bf' ''t'' 0 = Some (fd_offset r + 1) \<and>
    broker_has ?pf bf' ''t'' 0 (fd_offset r) (content_of r) \<and> length (cl_net c) \<le> length (cl_net c') + 2"
  proof (rule replicate_to_follower_completes [where b = b1 and l = "sample_entry_of 1" and bf = bf and n = 0])
    show "\<forall>i. 0 \<le> i \<longrightarrow> i \<le> fd_offset r \<longrightarrow> sendable_at ?pf ''t'' 0 b1 i" using send assms(3) by (simp add: b1_def)
    show "ready ?pf 2 ''t'' 0 (sample_entry_of 1) 0 bf" using of(5) fresh_log_sample(3) by (auto intro: ready_mono)
    show "fd_offset r < - 1" using assms(3) by (simp add: word_less_nat_alt unat_max_word)
    show "take 2 (cl_net c) = replicate 2 Delivered" by (simp add: cb numeral_eq_Suc)
  qed (use o1(2,4) ra assms(3) in \<open>simp_all add: cb sample_entry_of_def b1_def\<close>)
  then obtain c1 bf' where c1: "replicate_to_follower ?pf 1 2 ''t'' 0 r Durable c = (Ok (), c1)"
    "cl_brokers c1 = (cl_brokers c)(2 \<mapsto> bf')" by blast
  have self: "cl_brokers c 1 = Some b1" "cl_brokers c1 1 = Some b1" using c1(2) by (simp_all add: cb)
  have fol: "replica_followers b1 0 = Ok [two_nodes ! 1]" "bk_min_in_sync_replicas b1 = 2"
    by (simp_all add: replica_followers_def replica_nodes_def b1_def sample_broker_def two_nodes_def sample_cluster_def
        Let_def upt_rec numeral_eq_Suc)
  have rf: "replicate_followers ?pf 1 ''t'' 0 r Durable [two_nodes ! 1] 1 c = (Ok 2, c1)"
    using c1(1) by (simp add: two_nodes_def sample_cluster_def)
  obtain reg where "apply_leadership ''t'' ((sample_entry_of 1)\<lparr>pl_high_watermark := 1\<rparr>) (bk_leadership b1) = (Ok (), reg)"
    by (simp add: apply_leadership_def b1_def sample_broker_def two_nodes_def sample_cluster_def sample_entry_of_def
        stale_def Let_def)
  then have "\<exists>c'. commit_offset ?pf 1 ''t'' 0 1 c1 = (Ok (), c')"
    using o1(4) self(2) at_broker_leader [OF self(2), of "''t''" 0]
    by (auto simp: commit_offset_def broker_leader_def on_leadership_def partition_leader_def broker_entry_def
        sample_entry_of_def Let_def at_broker_def cluster_info_def)
  with rf fol assms(3) show ?thesis
    by (auto simp: replicate_one_def at_broker_pure [OF self(1)] saturating_add_def simp flip: b1_def c_def)
qed

lemma two_brokers_produce:
  "\<exists>c'. process_produce sample_platform 1 durable_request (two_brokers [Delivered, Delivered]) =
     (Ok (RProduceAck \<lparr>pa_partition = 0, pa_offset = 0\<rparr>), c')"
proof (rule two_brokers_append)
  fix log' r
  let ?pf = sample_platform and ?b = "sample_broker 2 two_nodes 1 (fresh_log 1024 256)"
  define b1 where "b1 = sample_broker 2 two_nodes 1 log'"
  define c where "c = set_broker 1 b1 (two_brokers [Delivered, Delivered])"
  assume l: "log_fine byte_sum log'" "log_room 3 log'" "fd_offset r = 0"
    "record_at ?pf ''t'' 0 0 (sample_broker 2 two_nodes 1 log') = (Ok r, sample_broker 2 two_nodes 1 log')"
    "sendable_at ?pf ''t'' 0 (sample_broker 2 two_nodes 1 log') 0"
    and app: "handle_append ?pf (produce_input durable_request) ?b =
      (Ok \<lparr>pa_partition = 0, pa_offset = 0\<rparr>, sample_broker 2 two_nodes 1 log')"
  have guard: "cluster_leadership_error ''t'' (Some 0) ?b = (Ok None, ?b)"
    by (simp add: cluster_leadership_error_def broker_leader_def on_leadership_def partition_leader_def
        sample_broker_def two_nodes_def sample_cluster_def sample_entry_of_def)
  have start: "cl_brokers (two_brokers [Delivered, Delivered]) 1 = Some ?b" by (simp add: two_brokers_def)
  have "3 \<le> log_capacity" using log_capacity_pos by simp
  from sample_broker_ok(2) [OF l(1,2) this, of 2 two_nodes 1] have "hosts b1 ''t'' 0" by (simp add: b1_def)
  moreover have self: "cl_brokers c 1 = Some b1" by (simp add: c_def)
  ultimately have "at_broker 1 (record_at ?pf ''t'' 0 0) c = (Ok r, c)"
    using at_broker_record_at [of c 1 b1 "''t''" 0 ?pf 0] l(4) by (simp add: b1_def)
  moreover have "at_broker 1 (handle_append ?pf (produce_input durable_request)) (two_brokers [Delivered, Delivered]) =
      (Ok \<lparr>pa_partition = 0, pa_offset = 0\<rparr>, c)"
    using app start by (simp add: at_broker_def c_def b1_def)
  moreover obtain c' where "replicate_one ?pf 1 ''t'' 0 r Durable c = (Ok (), c')"
    using two_brokers_replicate [OF l(1-5)] by (auto simp: c_def b1_def)
  ultimately show ?thesis
    using guard
    by (simp add: process_produce_def at_broker_guard [OF start(1)] durable_request_def dispatch_replication_def)
qed

theorem durable_produce_replicated_witness:
  "\<exists>c' A x. process_produce sample_platform 1 durable_request (two_brokers [Delivered, Delivered]) =
      (Ok (RProduceAck \<lparr>pa_partition = 0, pa_offset = 0\<rparr>), c') \<and> 2 \<le> card A \<and>
    (\<forall>i\<in>A. \<exists>bi. cl_brokers c' i = Some bi \<and> broker_has sample_platform bi ''t'' 0 0 x) \<and> snd x = (None, [7])"
proof -
  obtain c' where p: "process_produce sample_platform 1 durable_request (two_brokers [Delivered, Delivered]) =
      (Ok (RProduceAck \<lparr>pa_partition = 0, pa_offset = 0\<rparr>), c')" using two_brokers_produce by blast
  have "membership_fits (sample_broker 2 two_nodes 1 (fresh_log 1024 256))"
    by (simp add: membership_fits_def sample_broker_def two_nodes_def sample_cluster_def)
  from durable_produce_replicated [OF two_brokers_ok _ this _ p] obtain A x where
    "2 \<le> card A" "\<forall>i\<in>A. \<exists>bi. cl_brokers c' i = Some bi \<and> broker_has sample_platform bi ''t'' 0 0 x"
    "snd x = (None, [7])"
    by (auto simp: two_brokers_def durable_request_def sample_broker_def)
  with p show ?thesis by blast
qed

definition committed_broker :: broker where
  "committed_broker = (let b = sample_broker 2 two_nodes 1 (single_log 0) in
     b\<lparr>bk_leadership := (bk_leadership b)\<lparr>lr_entries := [((''t'', 0), (sample_entry_of 1)\<lparr>pl_high_watermark := 2\<rparr>)]\<rparr>\<rparr>)"

theorem fetch_committed_only_witness:
  "\<exists>records b'. process_fetch sample_platform \<lparr>fr_topic = ''t'', fr_partition = 0, fr_offset = 0, fr_max_bytes = 100,
      fr_max_wait_ms = 0\<rparr> committed_broker = (Ok (RFetch records), b') \<and> records \<noteq> [] \<and> (\<forall>x\<in>set records. fd_offset x < 2)"
proof -
  let ?r = "\<lparr>fr_topic = ''t'', fr_partition = 0, fr_offset = 0, fr_max_bytes = 100, fr_max_wait_ms = 0\<rparr>"
  have cap: "1 \<le> log_capacity" using log_capacity_pos by simp
  have ok: "broker_ok sample_platform 1 committed_broker"
    using sample_broker_ok(1) [OF single_log_fine(1) single_log_fine(2) cap, of 2 two_nodes 1]
    by (simp add: committed_broker_def broker_ok_def Let_def sample_broker_def)
  obtain rest where rd: "read_log byte_sum (single_log 0) 0 100 = Ok (fst (sample_entry 0) # rest)"
    using read_log_first [OF single_log_rep [of 0], of 0 100] by (auto simp: sample_hist_def)
  define records where "records = visible 2 (map fetched_of (fst (sample_entry 0) # rest))"
  have p: "process_fetch sample_platform ?r committed_broker = (Ok (RFetch records), committed_broker)"
    using rd by (simp add: process_fetch_def cluster_leadership_error_def broker_leader_def on_leadership_def
        partition_leader_def committed_broker_def sample_broker_def two_nodes_def sample_cluster_def sample_entry_of_def
        read_once_def on_storage_def read_records_def worker_ensure_topic_def sample_platform_def records_def Let_def)
  have "records \<noteq> []" by (simp add: records_def visible_def sample_entry_def stored_of_def fetched_of_def)
  moreover have "\<forall>x\<in>set records. fd_offset x < 2"
    using fetch_committed_only [OF ok p] by (simp add: committed_broker_def broker_entry_def sample_broker_def Let_def)
  ultimately show ?thesis using p by blast
qed

end
