(* ===== verification/Cluster_Election.thy ===== *)
theory Cluster_Election
  imports Cluster_Progress
begin

text \<open>
  Changing the leader of a partition: the controller asks the replicas for the ends of their logs,
  chooses or checks a candidate, and cuts its log back to the committed high watermark it knows.
\<close>

section \<open>Quorums\<close>

text \<open>Sets of brokers any two of which meet.\<close>

locale quorum_system =
  fixes quorum :: "'a set \<Rightarrow> bool"
  assumes meet: "quorum A \<Longrightarrow> quorum B \<Longrightarrow> A \<inter> B \<noteq> {}"
begin

text \<open>What a quorum has reached, the furthest member of any answering quorum has reached.\<close>

lemma furthest_reaches:
  fixes pos :: "'a \<Rightarrow> 'b :: linorder"
  assumes "quorum A" and "\<forall>a\<in>A. v < pos a" and "quorum B" and "\<forall>x\<in>B. pos x \<le> pos best"
  shows "v < pos best"
proof -
  obtain x where "x \<in> A" "x \<in> B" using meet [OF assms(1,3)] by auto
  with assms(2,4) show ?thesis by (meson less_le_trans)
qed

end

text \<open>A set of replicas as large as \<open>min_in_sync_replicas\<close>, when that is more than half of the replicas.\<close>

definition isr_quorum :: "u32 set \<Rightarrow> nat \<Rightarrow> u32 set \<Rightarrow> bool" where
  "isr_quorum R k A \<longleftrightarrow> finite R \<and> A \<subseteq> R \<and> k \<le> card A \<and> card R < 2 * k"

interpretation isr: quorum_system "isr_quorum R k" for R k
proof
  fix A B
  assume A: "isr_quorum R k A" and B: "isr_quorum R k B"
  then have "card (A \<union> B) \<le> card R" by (auto simp: isr_quorum_def intro: card_mono)
  moreover have "card (A \<union> B) = card A + card B" if "A \<inter> B = {}"
    using A B that by (auto simp: isr_quorum_def card_Un_disjoint finite_subset)
  ultimately show "A \<inter> B \<noteq> {}" using A B by (auto simp: isr_quorum_def)
qed

section \<open>The ends of the replicas' logs\<close>

lemma handle_partition_offset_state [simp]: "snd (handle_partition_offset topic part b) = b"
  by (simp add: handle_partition_offset_def on_storage_def)

lemma ask_pure: "(\<And>b. snd (f b) = b) \<Longrightarrow> cl_brokers (snd (ask i f c)) = cl_brokers c"
  using ask_cases [of i f c] by auto

lemma at_broker_pure_state: "(\<And>b. snd (f b) = b) \<Longrightarrow> cl_brokers (snd (at_broker i f c)) = cl_brokers c"
  by (auto simp: at_broker_def split: option.splits prod.splits) (metis fun_upd_idem snd_conv)

definition offset_at :: "cluster \<Rightarrow> string \<Rightarrow> u32 \<Rightarrow> u32 \<Rightarrow> u64 option" where
  "offset_at c topic part i = Option.bind (cl_brokers c i) (\<lambda>b. log_end b topic part)"

lemma local_offset_spec:
  "cl_brokers (snd (local_offset self topic part c)) = cl_brokers c"
  "fst (local_offset self topic part c) = Some n \<Longrightarrow> offset_at c topic part self = Some n"
proof -
  obtain res c1 where a: "at_broker self (handle_partition_offset topic part) c = (res, c1)" by fastforce
  then have "cl_brokers c1 = cl_brokers c"
    using at_broker_pure_state [of "handle_partition_offset topic part" self c] by simp
  with a show "cl_brokers (snd (local_offset self topic part c)) = cl_brokers c"
    by (cases res) (auto simp: local_offset_def)
  show "offset_at c topic part self = Some n" if "fst (local_offset self topic part c) = Some n"
    using that a
    by (cases res) (auto simp: local_offset_def at_broker_Ok handle_partition_offset_Ok offset_at_def log_end_def)
qed

lemma query_partition_offset_spec:
  "cl_brokers (snd (query_partition_offset i topic part c)) = cl_brokers c"
  "fst (query_partition_offset i topic part c) = Some n \<Longrightarrow> offset_at c topic part i = Some n"
proof -
  show "cl_brokers (snd (query_partition_offset i topic part c)) = cl_brokers c"
    unfolding query_partition_offset_def by (rule ask_pure) simp
  show "offset_at c topic part i = Some n" if "fst (query_partition_offset i topic part c) = Some n"
    using that ask_Some [of i "handle_partition_offset topic part" c n]
    by (cases "ask i (handle_partition_offset topic part) c")
       (auto simp: query_partition_offset_def handle_partition_offset_Ok offset_at_def log_end_def)
qed

lemma offset_answers:
  assumes "cl_brokers c i = Some b" and "broker_log b topic part = Some log"
  shows "local_offset i topic part c = (Some (lg_next_offset log), c)"
    "cl_net c = Delivered # ds \<Longrightarrow>
       query_partition_offset i topic part c = (Some (lg_next_offset log), c\<lparr>cl_net := ds\<rparr>)"
proof -
  have "handle_partition_offset topic part b = (Ok (lg_next_offset log), b)"
    using assms(2) by (simp add: handle_partition_offset_Ok)
  then have at: "at_broker i (handle_partition_offset topic part) c' = (Ok (lg_next_offset log), c')"
    if "cl_brokers c' i = Some b" for c' using that by (simp add: at_broker_def set_broker_same)
  show "local_offset i topic part c = (Some (lg_next_offset log), c)" using at [OF assms(1)] by (simp add: local_offset_def)
  show "query_partition_offset i topic part c = (Some (lg_next_offset log), c\<lparr>cl_net := ds\<rparr>)"
    if "cl_net c = Delivered # ds" using that at [of "c\<lparr>cl_net := ds\<rparr>"] assms(1)
    by (simp add: query_partition_offset_def ask_def)
qed

lemma query_offsets_Ok:
  assumes "query_offsets self m rf skip topic part nodes c = (Ok offsets, c')" and "distinct (map cn_id nodes)"
  shows "cl_brokers c' = cl_brokers c \<and> distinct (map fst offsets) \<and>
    (\<forall>(i, n) \<in> set offsets. offset_at c topic part i = Some n \<and> i \<in> cn_id ` set nodes \<and> skip \<noteq> Some i \<and>
      is_partition_replica m i part rf = Ok True)"
  using assms
proof (induction nodes arbitrary: c offsets)
  case (Cons node nodes)
  let ?i = "cn_id node"
  define q where "q = (if ?i = self then local_offset self topic part c else query_partition_offset ?i topic part c)"
  have q: "cl_brokers (snd q) = cl_brokers c" "fst q = Some n \<Longrightarrow> offset_at c topic part ?i = Some n" for n
    using local_offset_spec [of self topic part c] query_partition_offset_spec [of ?i topic part c]
    by (auto simp: q_def split: if_splits)
  have cong: "offset_at c1 topic part = offset_at c topic part" if "cl_brokers c1 = cl_brokers c" for c1
    using that by (simp add: offset_at_def fun_eq_iff)
  show ?case
  proof (cases "skip = Some ?i \<or> is_partition_replica m ?i part rf = Ok False")
    case True
    with Cons.prems have "query_offsets self m rf skip topic part nodes c = (Ok offsets, c')"
      by (auto split: if_splits)
    from Cons.IH [OF this] Cons.prems(2) show ?thesis by auto
  next
    case False
    then have isr: "skip \<noteq> Some ?i" "is_partition_replica m ?i part rf = Ok True"
      using Cons.prems(1) by (auto simp: step_bind_eq_Ok split: if_splits)
    then obtain rest where r: "query_offsets self m rf skip topic part nodes (snd q) = (Ok rest, c')"
      "offsets = (case fst q of None \<Rightarrow> rest | Some n \<Rightarrow> (?i, n) # rest)"
      using Cons.prems(1) by (auto simp: q_def [symmetric] step_bind_eq_Ok case_prod_beta simp del: if_split)
    from Cons.IH [OF r(1)] Cons.prems(2) q(1) cong [OF q(1)] r(2) isr q(2) show ?thesis
      by (auto split: option.splits)
  qed
qed auto

section \<open>Choosing a candidate\<close>

lemma better_order:
  "better x x" "better x y \<Longrightarrow> better y z \<Longrightarrow> better x z" "\<not> better x y \<Longrightarrow> better y x"
  by (auto simp: better_def)

lemma best_fold:
  fixes x :: "u32 \<times> u64"
  defines "pick \<equiv> \<lambda>y best. if better best y then y else best"
  shows "fold pick xs x \<in> insert x (set xs) \<and> (\<forall>y\<in>insert x (set xs). better y (fold pick xs x))"
proof (induction xs arbitrary: x)
  case (Cons y ys)
  have z: "pick y x \<in> {x, y}" "better x (pick y x)" "better y (pick y x)"
    using better_order(1,3) by (simp_all add: pick_def)
  from Cons.IH [of "pick y x"] have "fold pick ys (pick y x) \<in> insert (pick y x) (set ys)"
    and all: "\<forall>w\<in>insert (pick y x) (set ys). better w (fold pick ys (pick y x))" by blast+
  then have "fold pick (y # ys) x \<in> insert x (set (y # ys))" using z(1) by auto
  moreover have "better (pick y x) (fold pick (y # ys) x)" using all by simp
  then have "better x (fold pick (y # ys) x)" "better y (fold pick (y # ys) x)"
    using z(2,3) by (blast intro: better_order(2))+
  ultimately show ?case using all by simp
qed (simp add: better_order)

lemma best_candidate_Some:
  assumes "best_candidate xs = Some b"
  shows "b \<in> set xs \<and> (\<forall>y\<in>set xs. better y b)"
  using assms best_fold by (cases xs) auto

lemma choose_automatic_candidate_Some:
  assumes "choose_automatic_candidate offsets k hw = Some i"
  shows "k \<le> length offsets \<and> (\<exists>n. (i, n) \<in> set offsets \<and> hw \<le> n \<and> (\<forall>(j, m) \<in> set offsets. m \<le> n))"
proof -
  obtain n where n: "best_candidate (filter (\<lambda>e. hw \<le> snd e) offsets) = Some (i, n)" "k \<le> length offsets"
    using assms by (auto simp: choose_automatic_candidate_def split: if_splits)
  note best = best_candidate_Some [OF n(1)]
  have "m \<le> n" if "(j, m) \<in> set offsets" for j m
  proof (cases "hw \<le> m")
    case True
    with that best have "better (j, m) (i, n)" by auto
    then show ?thesis by (auto simp: better_def)
  next
    case False
    with best show ?thesis by auto
  qed
  with n(2) best show ?thesis by auto
qed

text \<open>C3: The leader monitor never loses an acknowledged record by its choice: if \<open>min_in_sync_replicas\<close> is
  more than half of the replicas, and that many replicas reach beyond an offset, then whichever
  candidate the controller selects automatically is another replica that reaches beyond this
  offset too, even when the controller does not know that the offset is committed; and it is not
  behind the high watermark the controller knows.\<close>

theorem automatic_candidate_complete:
  assumes "cl_brokers c self = Some b" and "membership_fits b"
    and "bk_replication_factor b < 2 * bk_min_in_sync_replicas b"
    and "select_automatic_candidate self topic current c = (Ok (Some cand), c')"
    and "A \<subseteq> replica_ids b (pl_partition current)" and "bk_min_in_sync_replicas b \<le> card A"
    and "\<forall>i\<in>A. \<exists>n. offset_at c topic (pl_partition current) i = Some n \<and> offset < n"
  shows "cl_brokers c' = cl_brokers c \<and> cand \<in> replica_ids b (pl_partition current) - {pl_leader_id current} \<and>
    (\<exists>n. offset_at c topic (pl_partition current) cand = Some n \<and> offset < n \<and> pl_high_watermark current \<le> n)"
proof -
  let ?part = "pl_partition current" and ?k = "bk_min_in_sync_replicas b" and ?m = "bk_metadata b"
  define R where "R = replica_ids b ?part"
  define pos where "pos i = the (offset_at c topic ?part i)" for i
  obtain offsets where q: "query_offsets self ?m (bk_replication_factor b) (Some (pl_leader_id current)) topic ?part
      (cm_nodes ?m) c = (Ok offsets, c')" "choose_automatic_candidate offsets ?k (pl_high_watermark current) = Some cand"
    using assms(4) by (auto simp: select_automatic_candidate_def at_broker_pure [OF assms(1)] step_bind_eq_Ok)
  have d: "distinct (map cn_id (cm_nodes ?m))" using assms(2) by (simp add: membership_fits_def)
  note o = query_offsets_Ok [OF q(1) d]
  from choose_automatic_candidate_Some [OF q(2)] obtain n where n: "?k \<le> length offsets" "(cand, n) \<in> set offsets"
    "pl_high_watermark current \<le> n" "\<forall>(j, m) \<in> set offsets. m \<le> n" by blast
  have isr: "i \<in> R" if "is_partition_replica ?m i ?part (bk_replication_factor b) = Ok True" for i
    using that by (auto simp: R_def replica_ids_def is_partition_replica_def list_ex_iff map_ok_eq_Ok)
  have ne: "cm_nodes ?m \<noteq> []" using n(2) o by (cases "cm_nodes ?m") auto
  obtain ns where ns: "replica_nodes ?m ?part (bk_replication_factor b) = Ok ns" "length ns = bk_replication_factor b"
    "distinct (map cn_id ns)"
    using replica_nodes_Ok [OF d _ ne] assms(2) by (force simp: membership_fits_def)
  have R: "finite R" "card R = bk_replication_factor b"
    using ns distinct_card [OF ns(3)] by (auto simp: R_def replica_ids_def)
  define B where "B = fst ` set offsets"
  have cardB: "card B = length offsets" using o distinct_card [of "map fst offsets"] by (simp add: B_def)
  have QA: "isr_quorum R ?k A" using assms(3,5,6) R by (simp add: isr_quorum_def R_def)
  have QB: "isr_quorum R ?k B" using assms(3) R n(1) cardB o isr by (auto simp: isr_quorum_def B_def)
  have cand: "offset_at c topic ?part cand = Some n" "cand \<in> R" "cand \<noteq> pl_leader_id current"
    using n(2) o isr by auto
  have "\<forall>x\<in>B. pos x \<le> pos cand" using o n(4) cand(1) by (fastforce simp: B_def pos_def)
  moreover have "\<forall>a\<in>A. offset < pos a" using assms(7) by (auto simp: pos_def)
  ultimately have "offset < n" using isr.furthest_reaches [OF QA _ QB, of offset pos cand] cand(1) by (simp add: pos_def)
  with o cand n(3) show ?thesis by (simp add: R_def)
qed

section \<open>Promotion\<close>

lemma log_has_iff:
  assumes "log_rep hash hist 0 log"
  shows "log_has hash log i x \<longleftrightarrow> unat i < length hist \<and> x = stored_content (fst (hist ! unat i))"
proof
  assume has: "log_has hash log i x"
  then obtain s rest where s: "read_log hash log i 1 = Ok (s # rest)" "sr_offset s = i" "stored_content s = x"
    by (fastforce simp: log_has_def)
  from s(1) have "s \<in> set (read_spec i 1 (drop 0 hist))" using read_log_spec [OF assms, of 1 i]
    by (metis list.set_intros(1) one_neq_zero outcome.inject(1))
  then have "s \<in> fst ` set hist" using take_budget_subset unfolding read_spec_def by fastforce
  then obtain k where k: "k < length hist" "fst (hist ! k) = s" by (auto simp: in_set_conv_nth)
  from entries_ok_nth [OF log_repD(1) [OF assms] k(1)] k(2) s(2) have "unat i = k" by simp
  with k s(3) show "unat i < length hist \<and> x = stored_content (fst (hist ! unat i))" by simp
qed (use log_has_nth [OF assms] in auto)

lemma cut_to_prefix:
  assumes "broker_log b topic part = Some log" and "log_rep (pf_hash pf) hist 0 log" and "unat hw < length hist"
    and "\<forall>r \<in> set (map fst hist). record_sizes_ok (record_of_stored r)"
    and "length hist * (MAX_RECORD_SIZE + 4) < 2 ^ 64"
  shows "\<exists>b' log'. cut_back pf topic part hw b = (Ok (), b') \<and> broker_log b' topic part = Some log' \<and>
    bk_leadership b' = bk_leadership b \<and> lg_next_offset log' = hw \<and>
    (\<forall>i x. log_has (pf_hash pf) log' i x \<longleftrightarrow> log_has (pf_hash pf) log i x \<and> i < hw)"
proof -
  obtain log' hist' where t: "truncate_to (pf_hash pf) hw log = (Ok (), log')" "log_rep (pf_hash pf) hist' 0 log'"
    "map fst hist' = take (unat hw) (map fst hist)" "lg_next_offset log' = hw"
    using truncate_to_prefix [OF assms(2-5)] by blast
  have len: "length hist' = unat hw" using arg_cong [OF t(3), of length] assms(3) by simp
  have "fst (hist' ! k) = fst (hist ! k)" if "k < unat hw" for k
    using arg_cong [OF t(3), of "\<lambda>xs. xs ! k"] that len assms(3) by simp
  then have "\<forall>i x. log_has (pf_hash pf) log' i x \<longleftrightarrow> log_has (pf_hash pf) log i x \<and> i < hw"
    using log_has_iff [OF t(2)] log_has_iff [OF assms(2)] len assms(3) by (auto simp: word_less_nat_alt)
  moreover have "hw < lg_next_offset log" using log_repD(4) [OF assms(2)] assms(3) by (simp add: word_less_nat_alt)
  then have "cut_back pf topic part hw b = (Ok (), b\<lparr>bk_storage := put_log (topic, part) log' (bk_storage b)\<rparr>)"
    using assms(1) t(1)
    by (simp add: cut_back_def handle_partition_offset_def partition_offset_def handle_truncate_def
        truncate_partition_def on_storage_def broker_log_def)
  ultimately show ?thesis using t(4)
    by (intro exI [of _ "b\<lparr>bk_storage := put_log (topic, part) log' (bk_storage b)\<rparr>"] exI [of _ log'])
       (simp add: broker_log_def)
qed

lemma verify_promotion_candidate_Ok:
  assumes "cl_brokers c self = Some b" and "membership_fits b"
    and "verify_promotion_candidate self r committed c = (Ok u, c')"
  shows "cl_brokers c' = cl_brokers c \<and> (\<exists>n. offset_at c (pm_topic r) (pm_partition r) (pm_leader_id r) = Some n \<and> committed \<le> n)"
proof -
  obtain offsets where q: "query_offsets self (bk_metadata b) (bk_replication_factor b) None (pm_topic r) (pm_partition r)
      (cm_nodes (bk_metadata b)) c = (Ok offsets, c')"
    and ch: "check_candidate offsets (pm_leader_id r) committed (bk_min_in_sync_replicas b) = Ok u"
    using assms(3) by (auto simp: verify_promotion_candidate_def at_broker_pure [OF assms(1)] step_bind_eq_Ok)
  from ch obtain e where "find (\<lambda>e. fst e = pm_leader_id r) offsets = Some e" "committed \<le> snd e"
    by (auto simp: check_candidate_def outcome_simps not_less split: if_splits)
  then have "e \<in> set offsets" "fst e = pm_leader_id r" "committed \<le> snd e"
    by (auto simp: find_Some_iff in_set_conv_nth)
  then have "(pm_leader_id r, snd e) \<in> set offsets" "committed \<le> snd e" by (metis prod.collapse)+
  with query_offsets_Ok [OF q] assms(2) show ?thesis by (auto simp: membership_fits_def)
qed

text \<open>What a promotion on the controller does, step by step.\<close>

lemma promote_leader_steps:
  assumes "cl_brokers c self = Some b" and "membership_fits b" and "broker_entry b (pm_topic r) (pm_partition r) = Some l"
    and "promote_leader pf self r c = (Ok (RLeadershipChanged l'), c')"
  shows "\<exists>b1 b2. l' = \<lparr>pl_partition = pm_partition r, pl_leader_id = pm_leader_id r,
      pl_leader_epoch = pl_leader_epoch l + 1, pl_high_watermark = pl_high_watermark l\<rparr> \<and>
    unat (pl_leader_epoch l) + 1 < 2 ^ 64 \<and>
    (\<exists>n. offset_at c (pm_topic r) (pm_partition r) (pm_leader_id r) = Some n \<and> pl_high_watermark l \<le> n) \<and>
    cut_to_watermark pf (pm_topic r) l' b = (Ok (), b1) \<and>
    on_leadership (apply_leadership (pm_topic r) l') b1 = (Ok (), b2) \<and> cl_brokers c' self = Some b2"
proof -
  let ?topic = "pm_topic r" and ?part = "pm_partition r"
  have "broker_leader ?topic ?part b = (Ok l, b)" using assms(3) by (simp add: broker_leader_Ok)
  then have lead: "at_broker self (broker_leader ?topic ?part) c = (Ok l, c)"
    using at_broker_leader [OF assms(1), of ?topic ?part] by simp
  obtain c1 epoch c2 c3 where s: "verify_promotion_candidate self r (pl_high_watermark l) c = (Ok (), c1)"
    "checked_add (pl_leader_epoch l) 1 = Some epoch"
    "l' = \<lparr>pl_partition = ?part, pl_leader_id = pm_leader_id r, pl_leader_epoch = epoch,
       pl_high_watermark = pl_high_watermark l\<rparr>"
    "at_broker self (cut_to_watermark pf ?topic l') c1 = (Ok (), c2)"
    "at_broker self (on_leadership (apply_leadership ?topic l')) c2 = (Ok (), c3)"
    "c' = broadcast_leadership pf self ?topic l' (cm_nodes (bk_metadata b)) c3"
    using assms(4) lead
    by (auto simp: promote_leader_def at_broker_pure [OF assms(1)] step_bind_eq_Ok ok_or_eq_Ok Let_def
        split: list.splits if_splits)
  from verify_promotion_candidate_Ok [OF assms(1,2) s(1)] have v: "cl_brokers c1 self = Some b"
    "\<exists>n. offset_at c ?topic ?part (pm_leader_id r) = Some n \<and> pl_high_watermark l \<le> n" using assms(1) by auto
  from s(4) v(1) obtain b1 where b1: "cut_to_watermark pf ?topic l' b = (Ok (), b1)" "cl_brokers c2 self = Some b1"
    by (auto simp: at_broker_Ok)
  from s(5) b1(2) obtain b2 where b2: "on_leadership (apply_leadership ?topic l') b1 = (Ok (), b2)" "cl_brokers c3 self = Some b2"
    by (auto simp: at_broker_Ok)
  have "epoch = pl_leader_epoch l + 1" "unat (pl_leader_epoch l) + 1 < 2 ^ 64"
    using s(2) by (auto simp: checked_add_def split: if_splits)
  with s(3,6) v(2) b1(1) b2 show ?thesis by (auto simp: broadcast_leadership_self)
qed

text \<open>C17: The controller promotes itself only after it made sure that its own log reaches the high
  watermark it knows; it then starts a new epoch from exactly this prefix: of a log that was never
  trimmed it keeps every record below the high watermark under its offset and drops everything
  from there on, the records included that a produce was already acknowledged for but whose
  commit announcement did not reach the controller.\<close>

theorem promotion_keeps_committed_prefix:
  assumes "cl_brokers c self = Some b" and "bk_id b = self" and "membership_fits b"
    and "broker_entry b (pm_topic r) (pm_partition r) = Some l" and "pm_leader_id r = self"
    and "broker_log b (pm_topic r) (pm_partition r) = Some log" and "log_rep (pf_hash pf) hist 0 log"
    and "\<forall>x \<in> set (map fst hist). record_sizes_ok (record_of_stored x)"
    and "length hist * (MAX_RECORD_SIZE + 4) < 2 ^ 64"
    and "promote_leader pf self r c = (Ok (RLeadershipChanged l'), c')"
  shows "\<exists>b'. cl_brokers c' self = Some b' \<and> broker_entry b' (pm_topic r) (pm_partition r) = Some l' \<and>
    pl_leader_id l' = self \<and> unat (pl_leader_epoch l') = unat (pl_leader_epoch l) + 1 \<and>
    pl_high_watermark l' = pl_high_watermark l \<and>
    log_end b' (pm_topic r) (pm_partition r) = Some (pl_high_watermark l) \<and>
    (\<forall>i x. broker_has pf b' (pm_topic r) (pm_partition r) i x \<longleftrightarrow>
       broker_has pf b (pm_topic r) (pm_partition r) i x \<and> i < pl_high_watermark l)"
proof -
  let ?topic = "pm_topic r" and ?part = "pm_partition r" and ?hw = "pl_high_watermark l"
  obtain b1 b2 where s: "l' = \<lparr>pl_partition = ?part, pl_leader_id = pm_leader_id r,
      pl_leader_epoch = pl_leader_epoch l + 1, pl_high_watermark = ?hw\<rparr>" "unat (pl_leader_epoch l) + 1 < 2 ^ 64"
    "\<exists>n. offset_at c ?topic ?part (pm_leader_id r) = Some n \<and> ?hw \<le> n"
    "cut_to_watermark pf ?topic l' b = (Ok (), b1)" "on_leadership (apply_leadership ?topic l') b1 = (Ok (), b2)"
    "cl_brokers c' self = Some b2"
    using promote_leader_steps [OF assms(1,3,4,10)] by blast
  have le: "?hw \<le> lg_next_offset log" using s(3) assms(1,5,6) by (auto simp: offset_at_def log_end_def)
  have cut: "cut_back pf ?topic ?part ?hw b = (Ok (), b1)"
    using s(1,4) assms(2,5) by (simp add: cut_to_watermark_def)
  have "\<exists>log'. broker_log b1 ?topic ?part = Some log' \<and> lg_next_offset log' = ?hw \<and>
    (\<forall>i x. log_has (pf_hash pf) log' i x \<longleftrightarrow> log_has (pf_hash pf) log i x \<and> i < ?hw)"
  proof (cases "unat ?hw < length hist")
    case True
    from cut_to_prefix [OF assms(6,7) this assms(8,9)] cut show ?thesis by auto
  next
    case False
    then have hw: "?hw = lg_next_offset log" "unat ?hw = length hist"
      using le log_repD(4) [OF assms(7)] by (auto simp: word_le_nat_alt word_unat_eq_iff)
    then have "b1 = b" using cut assms(6)
      by (auto simp: cut_back_def step_bind_eq_Ok handle_partition_offset_Ok split: if_splits)
    with hw assms(6) log_has_iff [OF assms(7)] show ?thesis by (auto simp: word_less_nat_alt)
  qed
  moreover have "broker_log b2 = broker_log b1" "broker_entry b2 ?topic ?part = Some l'"
    using s(1,5) by (auto simp: on_leadership_Ok broker_log_def broker_entry_def apply_leadership_Ok(1) fun_eq_iff)
  moreover have "unat (pl_leader_epoch l') = unat (pl_leader_epoch l) + 1"
    using s(1,2) by (simp add: unat_plus_no_overflow)
  ultimately show ?thesis
    using s(1,6) assms(5,6) by (auto simp: broker_has_def log_end_def)
qed

section \<open>Elections in small clusters\<close>

definition three_nodes :: "cluster_node list" where
  "three_nodes = two_nodes @ [\<lparr>cn_id = 3, cn_host = ''c'', cn_port = 1, cn_admin_port = 2, cn_replication_port = 3\<rparr>]"

definition election_cluster :: cluster where
  "election_cluster = \<lparr>cl_brokers = [1 \<mapsto> sample_broker 3 three_nodes 1 (single_log 0),
     2 \<mapsto> sample_broker 3 three_nodes 2 (single_log 0), 3 \<mapsto> sample_broker 3 three_nodes 3 (fresh_log 1024 256)],
     cl_net = [Delivered]\<rparr>"

lemma election_offsets:
  "offset_at election_cluster ''t'' 0 1 = Some 3" "offset_at election_cluster ''t'' 0 2 = Some 3"
  "offset_at election_cluster ''t'' 0 3 = Some 0"
  using single_log_fine(3) fresh_log_sample(3)
  by (simp_all add: offset_at_def election_cluster_def log_end_def broker_log_def sample_broker_def)

lemma election_replicas:
  "replica_nodes \<lparr>cm_responding_broker_id = i, cm_nodes = three_nodes\<rparr> 0 3 = Ok three_nodes"
  "replica_nodes \<lparr>cm_responding_broker_id = i, cm_nodes = two_nodes\<rparr> 0 2 = Ok two_nodes"
proof -
  have "[0..<3] = [0, 1, 2]" "[0..<2] = [0, 1 :: nat]" by (simp_all add: upt_rec)
  then show "replica_nodes \<lparr>cm_responding_broker_id = i, cm_nodes = three_nodes\<rparr> 0 3 = Ok three_nodes"
    "replica_nodes \<lparr>cm_responding_broker_id = i, cm_nodes = two_nodes\<rparr> 0 2 = Ok two_nodes"
    by (simp_all add: replica_nodes_def three_nodes_def two_nodes_def sample_cluster_def Let_def)
qed

lemma election_answers:
  "query_offsets 1 \<lparr>cm_responding_broker_id = 1, cm_nodes = three_nodes\<rparr> 3 (Some 2) ''t'' 0 three_nodes election_cluster =
     (Ok [(1, 3), (3, 0)], election_cluster\<lparr>cl_net := []\<rparr>)"
proof -
  have "broker_log (sample_broker 3 three_nodes k log) ''t'' 0 = Some log" for k log
    by (simp add: sample_broker_def broker_log_def)
  note off = offset_answers [OF _ this]
  have "local_offset 1 ''t'' 0 election_cluster = (Some 3, election_cluster)"
    "query_partition_offset 3 ''t'' 0 election_cluster = (Some 0, election_cluster\<lparr>cl_net := []\<rparr>)"
    using off(1) [of election_cluster 1 1 "single_log 0"] off(2) [of election_cluster 3 3 "fresh_log 1024 256" "[]"]
      single_log_fine(3) fresh_log_sample(3) by (simp_all add: election_cluster_def)
  moreover have "is_partition_replica \<lparr>cm_responding_broker_id = 1, cm_nodes = three_nodes\<rparr> k 0 3 =
      Ok (list_ex (\<lambda>node. cn_id node = k) three_nodes)" for k
    by (simp add: is_partition_replica_def election_replicas)
  ultimately show ?thesis
    by (simp add: three_nodes_def two_nodes_def sample_cluster_def)
qed

theorem automatic_candidate_complete_witness:
  "\<exists>c'. select_automatic_candidate 1 ''t'' (sample_entry_of 2) election_cluster = (Ok (Some 1), c') \<and>
     (\<exists>n. offset_at election_cluster ''t'' 0 1 = Some n \<and> 2 < n)"
proof -
  let ?b = "sample_broker 3 three_nodes 1 (single_log 0)"
  have b: "cl_brokers election_cluster 1 = Some ?b" by (simp add: election_cluster_def)
  have m: "bk_metadata ?b = \<lparr>cm_responding_broker_id = 1, cm_nodes = three_nodes\<rparr>" "bk_replication_factor ?b = 3"
    "bk_min_in_sync_replicas ?b = 2" by (simp_all add: sample_broker_def)
  obtain c' where sel: "select_automatic_candidate 1 ''t'' (sample_entry_of 2) election_cluster = (Ok (Some 1), c')"
    using election_answers
    by (simp add: select_automatic_candidate_def at_broker_pure [OF b] m sample_entry_of_def
        choose_automatic_candidate_def better_def)
  have "membership_fits ?b"
    unfolding membership_fits_def m by (simp add: three_nodes_def two_nodes_def sample_cluster_def)
  moreover have "replica_ids ?b 0 = {1, 2, 3}"
    unfolding replica_ids_def m election_replicas by (simp add: three_nodes_def two_nodes_def sample_cluster_def)
  ultimately show ?thesis
    using automatic_candidate_complete [OF b _ _ sel, of "{1, 2}" 2] sel election_offsets
    by (simp add: m sample_entry_of_def word_less_nat_alt)
qed

definition lagging_broker :: broker where
  "lagging_broker = (let b = sample_broker 2 two_nodes 1 (single_log 0) in
     b\<lparr>bk_leadership := (bk_leadership b)\<lparr>lr_entries := [((''t'', 0), (sample_entry_of 2)\<lparr>pl_high_watermark := 2\<rparr>)]\<rparr>\<rparr>)"

definition lagging_cluster :: cluster where
  "lagging_cluster = \<lparr>cl_brokers = [1 \<mapsto> lagging_broker, 2 \<mapsto> sample_broker 2 two_nodes 2 (single_log 0)],
     cl_net = [Delivered]\<rparr>"

definition promote_one :: promote_leader_request where
  "promote_one = \<lparr>pm_topic = ''t'', pm_partition = 0, pm_leader_id = 1\<rparr>"

lemma lagging_broker_select [simp]:
  "bk_metadata lagging_broker = \<lparr>cm_responding_broker_id = 1, cm_nodes = two_nodes\<rparr>"
  "bk_replication_factor lagging_broker = 2" "bk_min_in_sync_replicas lagging_broker = 2"
  "broker_entry lagging_broker ''t'' 0 = Some ((sample_entry_of 2)\<lparr>pl_high_watermark := 2\<rparr>)"
  "broker_log lagging_broker ''t'' 0 = Some (single_log 0)"
  by (simp_all add: lagging_broker_def Let_def sample_broker_def broker_entry_def broker_log_def)

lemma lagging_answers:
  "query_offsets 1 \<lparr>cm_responding_broker_id = 1, cm_nodes = two_nodes\<rparr> 2 None ''t'' 0 two_nodes lagging_cluster =
     (Ok [(1, 3), (2, 3)], lagging_cluster\<lparr>cl_net := []\<rparr>)"
proof -
  have "broker_log (sample_broker 2 two_nodes 2 log) ''t'' 0 = Some log" for log
    by (simp add: sample_broker_def broker_log_def)
  then have "local_offset 1 ''t'' 0 lagging_cluster = (Some 3, lagging_cluster)"
    "query_partition_offset 2 ''t'' 0 lagging_cluster = (Some 3, lagging_cluster\<lparr>cl_net := []\<rparr>)"
    using offset_answers(1) [of lagging_cluster 1 lagging_broker "''t''" 0 "single_log 0"]
      offset_answers(2) [of lagging_cluster 2 _ "''t''" 0 "single_log 0" "[]"] single_log_fine(3)
    by (simp_all add: lagging_cluster_def)
  moreover have "is_partition_replica \<lparr>cm_responding_broker_id = 1, cm_nodes = two_nodes\<rparr> k 0 2 =
      Ok (list_ex (\<lambda>node. cn_id node = k) two_nodes)" for k
    by (simp add: is_partition_replica_def election_replicas)
  ultimately show ?thesis
    by (simp add: two_nodes_def sample_cluster_def)
qed

lemma promote_lagging:
  assumes "cut_back sample_platform ''t'' 0 2 lagging_broker = (Ok (), b1)"
    and "bk_leadership b1 = bk_leadership lagging_broker"
  shows "\<exists>l' c'. promote_leader sample_platform 1 promote_one lagging_cluster = (Ok (RLeadershipChanged l'), c')"
proof -
  let ?c = lagging_cluster and ?l = "(sample_entry_of 2)\<lparr>pl_high_watermark := 2\<rparr>"
  let ?l' = "\<lparr>pl_partition = 0, pl_leader_id = 1, pl_leader_epoch = 1, pl_high_watermark = 2\<rparr>"
  have b: "cl_brokers ?c 1 = Some lagging_broker" by (simp add: lagging_cluster_def)
  have bl: "broker_leader ''t'' 0 lagging_broker = (Ok ?l, lagging_broker)" by (simp add: broker_leader_Ok)
  have lead: "at_broker 1 (broker_leader ''t'' 0) ?c = (Ok ?l, ?c)" using at_broker_leader [OF b, of "''t''" 0] bl by simp
  have ver: "verify_promotion_candidate 1 promote_one 2 ?c = (Ok (), ?c\<lparr>cl_net := []\<rparr>)"
    using lagging_answers by (simp add: verify_promotion_candidate_def at_broker_pure [OF b] promote_one_def check_candidate_def ok_or_def)
  have cut: "at_broker 1 (cut_to_watermark sample_platform ''t'' ?l') (?c\<lparr>cl_net := []\<rparr>) = (Ok (), set_broker 1 b1 (?c\<lparr>cl_net := []\<rparr>))"
    using assms(1) b by (simp add: at_broker_def cut_to_watermark_def)
  obtain reg where "apply_leadership ''t'' ?l' (bk_leadership b1) = (Ok (), reg)"
    using assms(2) by (simp add: apply_leadership_def lagging_broker_def sample_broker_def Let_def two_nodes_def
        sample_cluster_def sample_entry_of_def stale_def)
  then have app: "at_broker 1 (on_leadership (apply_leadership ''t'' ?l')) (set_broker 1 b1 (?c\<lparr>cl_net := []\<rparr>)) =
      (Ok (), set_broker 1 (b1\<lparr>bk_leadership := reg\<rparr>) (set_broker 1 b1 (?c\<lparr>cl_net := []\<rparr>)))"
    by (simp add: at_broker_def on_leadership_def)
  have rep: "is_partition_replica \<lparr>cm_responding_broker_id = 1, cm_nodes = two_nodes\<rparr> 1 0 2 = Ok True"
    by (simp add: is_partition_replica_def election_replicas) (simp add: two_nodes_def sample_cluster_def)
  have pm: "pm_topic promote_one = ''t''" "pm_partition promote_one = 0" "pm_leader_id promote_one = 1"
    by (simp_all add: promote_one_def)
  have n: "two_nodes = x # xs \<Longrightarrow> cn_id x = 1" "two_nodes \<noteq> []" for x xs by (auto simp: two_nodes_def sample_cluster_def)
  have "promote_leader sample_platform 1 promote_one ?c =
      (Ok (RLeadershipChanged ?l'), broadcast_leadership sample_platform 1 ''t'' ?l' two_nodes
        (set_broker 1 (b1\<lparr>bk_leadership := reg\<rparr>) (set_broker 1 b1 (?c\<lparr>cl_net := []\<rparr>))))"
    using lead ver cut app rep n
    by (auto simp: promote_leader_def at_broker_pure [OF b] pm sample_entry_of_def checked_add_def ok_or_def Let_def
        split: list.split)
  then show ?thesis by blast
qed

theorem promotion_keeps_committed_prefix_witness:
  "\<exists>l' c' b'. promote_leader sample_platform 1 promote_one lagging_cluster = (Ok (RLeadershipChanged l'), c') \<and>
     cl_brokers c' 1 = Some b' \<and> log_end b' ''t'' 0 = Some 2"
proof -
  have b: "cl_brokers lagging_cluster 1 = Some lagging_broker" by (simp add: lagging_cluster_def)
  have lb: "bk_id lagging_broker = 1" "membership_fits lagging_broker" "broker_log lagging_broker ''t'' 0 = Some (single_log 0)"
    by (simp_all add: membership_fits_def) (simp add: two_nodes_def sample_cluster_def)
  have len: "length sample_hist = 3" by (simp add: sample_hist_def)
  have sz: "\<forall>x \<in> set (map fst sample_hist). record_sizes_ok (record_of_stored x)" using sample_hist_ok(5) by blast
  have rep: "log_rep (pf_hash sample_platform) sample_hist 0 (single_log 0)"
    using single_log_rep [of 0] by (simp add: sample_platform_def)
  obtain b1 where b1: "cut_back sample_platform ''t'' 0 2 lagging_broker = (Ok (), b1)"
    "bk_leadership b1 = bk_leadership lagging_broker"
    using cut_to_prefix [OF lb(3) rep, of 2] sz len by auto
  obtain l' c' where pr: "promote_leader sample_platform 1 promote_one lagging_cluster = (Ok (RLeadershipChanged l'), c')"
    using promote_lagging [OF b1] by blast
  from promotion_keeps_committed_prefix [OF b lb(1,2) _ _ _ rep sz _ pr] lb(3) len
  have "\<exists>b'. cl_brokers c' 1 = Some b' \<and> log_end b' ''t'' 0 = Some 2"
    by (auto simp: promote_one_def)
  with pr show ?thesis by blast
qed

end
