(* ===== verification/Replica_Fence.thy ===== *)
theory Replica_Fence
  imports Cluster_Election
begin

text \<open>
  The replication port of a follower with all interleavings (\<open>handle_replication_connection\<close> in \<open>crates/broker/src/lib.rs\<close>): the
  handling of a replicated record is a sequence of turns, one for each point at which the code awaits the storage worker or
  takes the lock of the leadership registry, and between any two turns other connections and tasks may run.  Without
  interruption the turns are \<open>receive_replica\<close>.  Shown: the records a follower admits in one epoch come from one leader, and a
  record of an older epoch is refused when it arrives after a newer one was admitted.  A record that had passed the check
  before is still stored afterwards, see \<open>stale_record_stored\<close>.
\<close>

section \<open>The turns of a replicated record\<close>

text \<open>Where the handler is: before the check of the epoch; before the queries and the truncation of a newer epoch and the registration of
  its leader; before the query of the expected offset; before the append; or at its end, with the offset it acknowledges or an error.\<close>

datatype replica_phase =
    Received
  | Measuring partition_leadership
  | Cutting partition_leadership
  | Joining partition_leadership
  | Expecting
  | Storing
  | Ended "(u64, connection_error) outcome"

definition awaiting :: "'a broker_result \<Rightarrow> ('a \<Rightarrow> replica_phase) \<Rightarrow> replica_phase \<times> broker" where
  "awaiting m f = (case m of (Ok x, b) \<Rightarrow> (f x, b) | (Err e, b) \<Rightarrow> (Ended (Err e), b) | (Panic, b) \<Rightarrow> (Ended Panic, b))"

fun replica_turn :: "platform \<Rightarrow> replicate_record \<Rightarrow> replica_phase \<Rightarrow> broker \<Rightarrow> replica_phase \<times> broker" where
  "replica_turn pf r Received b =
    awaiting (broker_leader (rr_topic r) (rr_partition r) b) (\<lambda>current.
      if fenced r current then Ended (Err StaleLeaderEpoch)
      else if pl_leader_epoch current < rr_leader_epoch r then Measuring current
      else Expecting)"
| "replica_turn pf r (Measuring current) b =
    awaiting (handle_partition_offset (rr_topic r) (rr_partition r) b) (\<lambda>local_offset.
      if rr_offset r < local_offset then Cutting current else Joining current)"
| "replica_turn pf r (Cutting current) b =
    awaiting (handle_truncate pf (rr_topic r) (rr_partition r) (rr_offset r) b) (\<lambda>_. Joining current)"
| "replica_turn pf r (Joining current) b =
    awaiting (on_leadership (apply_leadership (rr_topic r) \<lparr>pl_partition = rr_partition r, pl_leader_id = rr_leader_id r,
      pl_leader_epoch = rr_leader_epoch r, pl_high_watermark = pl_high_watermark current\<rparr>) b) (\<lambda>_. Expecting)"
| "replica_turn pf r Expecting b =
    awaiting (handle_partition_offset (rr_topic r) (rr_partition r) b) (\<lambda>expected.
      if expected < rr_offset r then Ended (Ok expected) else Storing)"
| "replica_turn pf r Storing b = awaiting (handle_replicate pf r b) (\<lambda>next_offset. Ended (Ok next_offset))"
| "replica_turn pf r (Ended res) b = (Ended res, b)"

fun replica_turns :: "platform \<Rightarrow> replicate_record \<Rightarrow> nat \<Rightarrow> replica_phase \<times> broker \<Rightarrow> replica_phase \<times> broker" where
  "replica_turns pf r 0 s = s"
| "replica_turns pf r (Suc n) s = replica_turns pf r n (replica_turn pf r (fst s) (snd s))"

section \<open>All interleavings\<close>

record replica_task =
  rt_record :: replicate_record
  rt_phase :: replica_phase

record follower =
  fw_broker :: broker
  fw_tasks :: "replica_task list"

definition started_follower :: "broker \<Rightarrow> follower" where
  "started_follower b = \<lparr>fw_broker = b, fw_tasks = []\<rparr>"

abbreviation record_of :: "follower \<Rightarrow> nat \<Rightarrow> replicate_record" where
  "record_of s i \<equiv> rt_record (fw_tasks s ! i)"

abbreviation replica_phase_of :: "follower \<Rightarrow> nat \<Rightarrow> replica_phase" where
  "replica_phase_of s i \<equiv> rt_phase (fw_tasks s ! i)"

fun awaits_storage :: "replica_phase \<Rightarrow> bool" where
  "awaits_storage (Measuring _) = True"
| "awaits_storage (Cutting _) = True"
| "awaits_storage Expecting = True"
| "awaits_storage Storing = True"
| "awaits_storage _ = False"

definition set_replica :: "nat \<Rightarrow> replica_phase \<times> broker \<Rightarrow> follower \<Rightarrow> follower" where
  "set_replica i pb s = s\<lparr>fw_broker := snd pb, fw_tasks := (fw_tasks s)[i := (fw_tasks s ! i)\<lparr>rt_phase := fst pb\<rparr>]\<rparr>"

text \<open>A record arrives, its handler takes a turn, or the storage queue refuses a call of it; and between the turns the other tasks of the
  broker run.  What they do to the broker are storage commands and changes of the registry and of the groups: so the
  announcements of leaders, promotions, commits, the synchronisation with the controller and the recovery of followers are covered, with every
  interleaving of their parts.\<close>

inductive follower_step :: "platform \<Rightarrow> follower \<Rightarrow> follower \<Rightarrow> bool" for pf where
  replica_arrives: "follower_step pf s (s\<lparr>fw_tasks := fw_tasks s @ [\<lparr>rt_record = r, rt_phase = Received\<rparr>]\<rparr>)"
| replica_turns: "i < length (fw_tasks s) \<Longrightarrow>
    follower_step pf s (set_replica i (replica_turn pf (record_of s i) (replica_phase_of s i) (fw_broker s)) s)"
| storage_refuses: "i < length (fw_tasks s) \<Longrightarrow> awaits_storage (replica_phase_of s i) \<Longrightarrow> e = BrokerBusy \<or> e = StorageUnavailable \<Longrightarrow>
    follower_step pf s (set_replica i (Ended (Err e), fw_broker s) s)"
| leader_announced: "follower_step pf s (s\<lparr>fw_broker := snd (on_leadership (apply_leadership topic l) (fw_broker s))\<rparr>)"
| topic_registered: "follower_step pf s (s\<lparr>fw_broker := snd (on_leadership (ensure_topic topic partitions) (fw_broker s))\<rparr>)"
| storage_changes: "follower_step pf s (s\<lparr>fw_broker := snd (on_storage
    (run_command (pf_hash pf) (bk_settings (fw_broker s)) clock elapsed command) (fw_broker s))\<rparr>)"
| groups_change: "follower_step pf s (s\<lparr>fw_broker := (fw_broker s)\<lparr>bk_groups := groups\<rparr>\<rparr>)"

section \<open>Without interruption\<close>

lemma awaiting_simps [simp]:
  "awaiting (Ok x, b) f = (f x, b)" "awaiting (Err e, b) f = (Ended (Err e), b)" "awaiting (Panic, b) f = (Ended Panic, b)"
  by (simp_all add: awaiting_def)

lemma replica_turns_Ended [simp]: "replica_turns pf r n (Ended res, b) = (Ended res, b)"
  by (induction n) simp_all

lemma replica_turns_add: "replica_turns pf r (m + n) s = replica_turns pf r n (replica_turns pf r m s)"
  by (induction m arbitrary: s) simp_all

lemma turns_unfold:
  "replica_turns pf r 6 s = replica_turns pf r 5 (replica_turn pf r (fst s) (snd s))"
  "replica_turns pf r 5 s = replica_turns pf r 4 (replica_turn pf r (fst s) (snd s))"
  "replica_turns pf r 4 s = replica_turns pf r 3 (replica_turn pf r (fst s) (snd s))"
  "replica_turns pf r 3 s = replica_turns pf r 2 (replica_turn pf r (fst s) (snd s))"
  "replica_turns pf r 2 s = replica_turns pf r 1 (replica_turn pf r (fst s) (snd s))"
  "replica_turns pf r 1 s = replica_turn pf r (fst s) (snd s)"
  by (simp_all add: eval_nat_numeral)

lemma storing_turns:
  assumes "2 \<le> n"
  shows "replica_turns pf r n (Expecting, b) =
    (case step_bind (handle_partition_offset (rr_topic r) (rr_partition r) b) (\<lambda>expected b.
        if expected < rr_offset r then (Ok expected, b) else handle_replicate pf r b) of
       (res, b) \<Rightarrow> (Ended res, b))"
proof -
  obtain m where n: "n = Suc (Suc m)" using assms by (metis add_2_eq_Suc le_Suc_ex)
  obtain res1 b1 where o: "handle_partition_offset (rr_topic r) (rr_partition r) b = (res1, b1)" by fastforce
  show ?thesis
  proof (cases res1)
    case (Ok expected)
    obtain res2 b2 where "handle_replicate pf r b1 = (res2, b2)" by fastforce
    with o Ok show ?thesis by (cases res2) (simp_all add: n)
  qed (use o in \<open>simp_all add: n\<close>)
qed

text \<open>When nobody interferes, six turns are the handling of a record as one step.\<close>

lemma uninterrupted_turns:
  "replica_turns pf r 6 (Received, b) =
     (case receive_replica pf r b of (res, b') \<Rightarrow> (Ended (map_ok ra_next_offset res), b'))"
proof -
  have last: "(case step_bind (handle_partition_offset (rr_topic r) (rr_partition r) b) (\<lambda>expected b.
        step_bind (if expected < rr_offset r then (Ok expected, b) else handle_replicate pf r b) (\<lambda>next_offset b.
        (Ok \<lparr>ra_partition = rr_partition r, ra_next_offset = next_offset\<rparr>, b))) of
       (res, b') \<Rightarrow> (Ended (map_ok ra_next_offset res), b')) = replica_turns pf r n (Expecting, b)" if "2 \<le> n" for n b
  proof -
    obtain res1 b1 where o: "handle_partition_offset (rr_topic r) (rr_partition r) b = (res1, b1)" by fastforce
    show ?thesis
    proof (cases res1)
      case (Ok expected)
      obtain res2 b2 where "handle_replicate pf r b1 = (res2, b2)" by fastforce
      with o Ok show ?thesis by (cases res2) (simp_all add: storing_turns [OF that])
    qed (use o in \<open>simp_all add: storing_turns [OF that]\<close>)
  qed
  obtain res1 b1 where l: "broker_leader (rr_topic r) (rr_partition r) b = (res1, b1)" by fastforce
  show ?thesis
  proof (cases res1)
    case (Ok current)
    let ?join = "\<lambda>b. on_leadership (apply_leadership (rr_topic r) \<lparr>pl_partition = rr_partition r, pl_leader_id = rr_leader_id r,
      pl_leader_epoch = rr_leader_epoch r, pl_high_watermark = pl_high_watermark current\<rparr>) b"
    have join: "replica_turns pf r (Suc n) (Joining current, b) = (case ?join b of (Ok u, b) \<Rightarrow> replica_turns pf r n (Expecting, b)
        | (Err e, b) \<Rightarrow> (Ended (Err e), b) | (Panic, b) \<Rightarrow> (Ended Panic, b))" for n b
      by (cases "?join b"; cases "fst (?join b)") auto
    consider "fenced r current" | "\<not> fenced r current" "\<not> pl_leader_epoch current < rr_leader_epoch r"
      | "\<not> fenced r current" "pl_leader_epoch current < rr_leader_epoch r" by blast
    then show ?thesis
    proof cases
      case 1
      with l Ok show ?thesis by (simp add: receive_replica_def turns_unfold(1))
    next
      case 2
      with l Ok last [of 5 b1] show ?thesis by (simp add: receive_replica_def join_epoch_def turns_unfold(1))
    next
      case 3
      obtain res2 b2 where o: "handle_partition_offset (rr_topic r) (rr_partition r) b1 = (res2, b2)" by fastforce
      have joined: "replica_turns pf r (Suc (Suc (Suc n))) (Joining current, b) =
          (case step_bind (?join b) (\<lambda>_ b. step_bind (handle_partition_offset (rr_topic r) (rr_partition r) b) (\<lambda>expected b.
            step_bind (if expected < rr_offset r then (Ok expected, b) else handle_replicate pf r b) (\<lambda>next_offset b.
            (Ok \<lparr>ra_partition = rr_partition r, ra_next_offset = next_offset\<rparr>, b)))) of
           (res, b') \<Rightarrow> (Ended (map_ok ra_next_offset res), b'))" for n b
        using last [of "Suc (Suc n)"] by (cases "?join b"; cases "fst (?join b)") (auto simp: join)
      show ?thesis
      proof (cases res2)
        case Ok2: (Ok local_offset)
        obtain res3 b3 where t: "handle_truncate pf (rr_topic r) (rr_partition r) (rr_offset r) b2 = (res3, b3)" by fastforce
        show ?thesis
          using 3 l Ok o Ok2 t joined [of 1 b2] joined [of 0 b3]
          by (cases res3) (auto simp: receive_replica_def join_epoch_def cut_back_def turns_unfold eval_nat_numeral)
      qed (use 3 l Ok o in \<open>auto simp: receive_replica_def join_epoch_def cut_back_def turns_unfold(1,2)\<close>)
    qed
  qed (use l in \<open>simp_all add: receive_replica_def turns_unfold(1)\<close>)
qed

section \<open>The registry moves forward\<close>

definition follower_epoch :: "broker \<Rightarrow> string \<times> u32 \<Rightarrow> u64 option" where
  "follower_epoch b k = map_option pl_leader_epoch (broker_entry b (fst k) (snd k))"

definition follower_leader :: "broker \<Rightarrow> string \<times> u32 \<Rightarrow> u32 \<Rightarrow> unit \<Rightarrow> bool" where
  "follower_leader b k i u \<longleftrightarrow> (\<exists>l. broker_entry b (fst k) (snd k) = Some l \<and> pl_leader_id l = i)"

definition newer :: "partition_leadership \<Rightarrow> partition_leadership \<Rightarrow> bool" where
  "newer l l' \<longleftrightarrow> pl_leader_epoch l \<le> pl_leader_epoch l' \<and>
     (pl_leader_epoch l' = pl_leader_epoch l \<longrightarrow> pl_leader_id l' = pl_leader_id l)"

definition moves_on :: "broker \<Rightarrow> broker \<Rightarrow> bool" where
  "moves_on b b' \<longleftrightarrow> (\<forall>topic part l. broker_entry b topic part = Some l \<longrightarrow>
     (\<exists>l'. broker_entry b' topic part = Some l' \<and> newer l l'))"

lemma newer_trans: "newer l l' \<Longrightarrow> newer l' l'' \<Longrightarrow> newer l l''"
  by (auto simp: newer_def)

lemma moves_on_refl [simp]: "moves_on b b" "bk_leadership b' = bk_leadership b \<Longrightarrow> moves_on b b'"
  by (simp_all add: moves_on_def broker_entry_def newer_def)

lemma moves_on_trans:
  assumes "moves_on b b'" and "moves_on b' b''"
  shows "moves_on b b''"
  unfolding moves_on_def
proof (intro allI impI)
  fix topic part l
  assume "broker_entry b topic part = Some l"
  then obtain l1 where l1: "broker_entry b' topic part = Some l1" "newer l l1"
    using assms(1) unfolding moves_on_def by blast
  then obtain l2 where "broker_entry b'' topic part = Some l2" "newer l1 l2"
    using assms(2) unfolding moves_on_def by blast
  with l1(2) show "\<exists>l'. broker_entry b'' topic part = Some l' \<and> newer l l'" using newer_trans by blast
qed

lemma apply_leadership_moves:
  "moves_on b (snd (on_leadership (apply_leadership topic l) b))"
  by (auto simp: moves_on_def newer_def on_leadership_def apply_leadership_def broker_entry_def stale_def Let_def persist_def
      update_conv' split: option.splits)

lemma storage_moves: "moves_on b (snd (on_storage f b))"
  by (simp add: on_storage_def split: prod.splits)

lemma handle_moves:
  "moves_on b (snd (handle_partition_offset topic part b))" "moves_on b (snd (handle_truncate pf topic part offset b))"
  "moves_on b (snd (handle_replicate pf r b))" "moves_on b (snd (broker_leader topic part b))"
  by (simp_all add: handle_partition_offset_def handle_truncate_def handle_replicate_def storage_moves)


lemma ensure_partitions_keeps:
  "map_of (lr_entries reg) k = Some l \<Longrightarrow> map_of (lr_entries (snd (ensure_partitions topic parts changed reg))) k = Some l"
proof (induction parts arbitrary: changed reg)
  case (Cons part parts)
  show ?case
  proof (cases "map_of (lr_entries reg) (topic, part) = None")
    case True
    with Cons.prems have "k \<noteq> (topic, part)" by auto
    with Cons True show ?thesis by (cases "deterministic_leader (lr_cluster reg) part") (simp_all add: update_conv')
  qed (use Cons in auto)
qed simp

lemma ensure_topic_moves: "moves_on b (snd (on_leadership (ensure_topic topic partitions) b))"
proof -
  have "map_of (lr_entries (snd (ensure_topic topic partitions reg))) k = Some l" if "map_of (lr_entries reg) k = Some l" for reg k l
    using ensure_partitions_keeps [OF that, of topic "partition_range partitions" False]
    by (cases "ensure_partitions topic (partition_range partitions) False reg";
        cases "fst (ensure_partitions topic (partition_range partitions) False reg)")
      (auto simp: ensure_topic_def persist_def)
  then have "broker_entry (snd (on_leadership (ensure_topic topic partitions) b)) topic' part = Some l"
    if "broker_entry b topic' part = Some l" for topic' part l
    using that by (simp add: on_leadership_def broker_entry_def case_prod_beta)
  then show ?thesis unfolding moves_on_def newer_def by blast
qed

lemma awaiting_state [simp]: "snd (awaiting m f) = snd m"
  by (cases m; cases "fst m") (auto simp: awaiting_def)

lemma replica_turn_moves: "moves_on b (snd (replica_turn pf r p b))"
  by (cases p) (simp_all add: handle_moves apply_leadership_moves)

lemma follower_step_moves: "follower_step pf s s' \<Longrightarrow> moves_on (fw_broker s) (fw_broker s')"
  by (induction rule: follower_step.induct)
    (simp_all add: set_replica_def replica_turn_moves apply_leadership_moves ensure_topic_moves storage_moves)

interpretation followers: generation_fence "follower_step pf" "\<lambda>_. True" "\<lambda>s. follower_epoch (fw_broker s)"
  "\<lambda>s. follower_leader (fw_broker s)" for pf
proof unfold_locales
  fix s s' and k :: "string \<times> u32" and n
  assume "follower_step pf s s'" and n: "follower_epoch (fw_broker s) k = Some n"
  then have "moves_on (fw_broker s) (fw_broker s')" by (simp add: follower_step_moves)
  with n show "\<exists>n'. follower_epoch (fw_broker s') k = Some n' \<and> n \<le> n' \<and>
      (n' = n \<longrightarrow> follower_leader (fw_broker s') k = follower_leader (fw_broker s) k)"
    by (fastforce simp: moves_on_def newer_def follower_epoch_def follower_leader_def fun_eq_iff)
qed (auto simp: follower_leader_def)

section \<open>Who may write to a follower\<close>

text \<open>A record that is past the check, in the epoch of the registry: it is being stored or has been acknowledged.\<close>

fun admitted :: "replica_phase \<Rightarrow> bool" where
  "admitted Expecting = True"
| "admitted Storing = True"
| "admitted (Ended (Ok _)) = True"
| "admitted _ = False"

abbreviation partition_of :: "replicate_record \<Rightarrow> string \<times> u32" where
  "partition_of r \<equiv> (rr_topic r, rr_partition r)"

text \<open>The registry has moved to the epoch of a record, or beyond it.\<close>

definition known_to :: "broker \<Rightarrow> replicate_record \<Rightarrow> bool" where
  "known_to b r \<longleftrightarrow> (\<exists>l. broker_entry b (rr_topic r) (rr_partition r) = Some l \<and> rr_leader_epoch r \<le> pl_leader_epoch l \<and>
     (pl_leader_epoch l = rr_leader_epoch r \<longrightarrow> pl_leader_id l = rr_leader_id r))"

definition current_for :: "broker \<Rightarrow> replicate_record \<Rightarrow> bool" where
  "current_for b r \<longleftrightarrow> (\<exists>l. broker_entry b (rr_topic r) (rr_partition r) = Some l \<and> pl_leader_epoch l = rr_leader_epoch r \<and>
     pl_leader_id l = rr_leader_id r)"

lemma known_to_moves: "known_to b r \<Longrightarrow> moves_on b b' \<Longrightarrow> known_to b' r"
  unfolding known_to_def moves_on_def
proof (elim exE conjE)
  fix l
  assume l: "broker_entry b (rr_topic r) (rr_partition r) = Some l" "rr_leader_epoch r \<le> pl_leader_epoch l"
    "pl_leader_epoch l = rr_leader_epoch r \<longrightarrow> pl_leader_id l = rr_leader_id r"
    and m: "\<forall>topic part l. broker_entry b topic part = Some l \<longrightarrow> (\<exists>l'. broker_entry b' topic part = Some l' \<and> newer l l')"
  from m l(1) obtain l' where l': "broker_entry b' (rr_topic r) (rr_partition r) = Some l'" "newer l l'" by blast
  with l(2,3) have "rr_leader_epoch r \<le> pl_leader_epoch l'" "pl_leader_epoch l' = rr_leader_epoch r \<longrightarrow> pl_leader_id l' = rr_leader_id r"
    by (auto simp: newer_def)
  with l'(1) show "\<exists>l. broker_entry b' (rr_topic r) (rr_partition r) = Some l \<and> rr_leader_epoch r \<le> pl_leader_epoch l \<and>
      (pl_leader_epoch l = rr_leader_epoch r \<longrightarrow> pl_leader_id l = rr_leader_id r)" by blast
qed

text \<open>A turn that admits a record finds its leader in the registry, or has put it there.\<close>

lemma turn_admits:
  assumes "replica_turn pf r p b = (p', b')" and "admitted p'" and "\<not> admitted p"
  shows "current_for b' r"
proof (cases p)
  case Received
  then obtain current where c: "broker_entry b (rr_topic r) (rr_partition r) = Some current" "b' = b" "\<not> fenced r current"
      "\<not> pl_leader_epoch current < rr_leader_epoch r"
    using assms by (cases "broker_leader (rr_topic r) (rr_partition r) b"; cases "fst (broker_leader (rr_topic r) (rr_partition r) b)")
      (auto simp: broker_leader_Ok split: if_splits)
  then show ?thesis by (auto simp: current_for_def fenced_def)
next
  case (Measuring current)
  then show ?thesis using assms
    by (cases "handle_partition_offset (rr_topic r) (rr_partition r) b"; cases "fst (handle_partition_offset (rr_topic r) (rr_partition r) b)")
      (auto split: if_splits)
next
  case (Cutting current)
  then show ?thesis using assms
    by (cases "handle_truncate pf (rr_topic r) (rr_partition r) (rr_offset r) b";
        cases "fst (handle_truncate pf (rr_topic r) (rr_partition r) (rr_offset r) b)") auto
next
  case (Joining current)
  let ?l = "\<lparr>pl_partition = rr_partition r, pl_leader_id = rr_leader_id r, pl_leader_epoch = rr_leader_epoch r,
    pl_high_watermark = pl_high_watermark current\<rparr>"
  obtain u where "on_leadership (apply_leadership (rr_topic r) ?l) b = (Ok u, b')"
    using assms Joining by (cases "on_leadership (apply_leadership (rr_topic r) ?l) b";
        cases "fst (on_leadership (apply_leadership (rr_topic r) ?l) b)") auto
  then show ?thesis
    by (auto simp: on_leadership_Ok current_for_def broker_entry_def dest: apply_leadership_Ok(1))
qed (use assms in auto)

text \<open>What all reachable states have: the registry knows every admitted record, and two admitted records of one partition and epoch have
  the same leader.\<close>

definition agree :: "replica_task \<Rightarrow> replica_task \<Rightarrow> bool" where
  "agree t u \<longleftrightarrow> (admitted (rt_phase t) \<and> admitted (rt_phase u) \<and> partition_of (rt_record t) = partition_of (rt_record u) \<and>
     rr_leader_epoch (rt_record t) = rr_leader_epoch (rt_record u) \<longrightarrow> rr_leader_id (rt_record t) = rr_leader_id (rt_record u))"

definition writers_ok :: "follower \<Rightarrow> bool" where
  "writers_ok s \<longleftrightarrow>
     (\<forall>t \<in> set (fw_tasks s). admitted (rt_phase t) \<longrightarrow> known_to (fw_broker s) (rt_record t)) \<and>
     (\<forall>t \<in> set (fw_tasks s). \<forall>u \<in> set (fw_tasks s). agree t u)"

lemma current_known: "current_for b r \<Longrightarrow> known_to b r"
  by (auto simp: current_for_def known_to_def)

lemma current_same_leader:
  "current_for b r \<Longrightarrow> known_to b r' \<Longrightarrow> partition_of r = partition_of r' \<Longrightarrow> rr_leader_epoch r = rr_leader_epoch r' \<Longrightarrow>
     rr_leader_id r = rr_leader_id r'"
  by (auto simp: current_for_def known_to_def)

lemma writers_ok_moves:
  assumes "writers_ok s" and "moves_on (fw_broker s) b"
  shows "writers_ok (s\<lparr>fw_broker := b\<rparr>)"
  using assms(1) known_to_moves [OF _ assms(2)] by (simp add: writers_ok_def)

text \<open>Replacing a task by one that is not admitted, was admitted before, or is the record of the registry.\<close>

lemma writers_ok_task:
  assumes "writers_ok s" and "i < length (fw_tasks s)" and "rt_record t = record_of s i"
    and "admitted (rt_phase t) \<Longrightarrow> admitted (replica_phase_of s i) \<or> current_for (fw_broker s) (rt_record t)"
  shows "writers_ok (s\<lparr>fw_tasks := (fw_tasks s)[i := t]\<rparr>)"
proof -
  have mem: "fw_tasks s ! i \<in> set (fw_tasks s)" using assms(2) by simp
  have sub: "set ((fw_tasks s)[i := t]) \<subseteq> insert t (set (fw_tasks s))" by (rule set_update_subset_insert)
  have known: "known_to (fw_broker s) (rt_record u)" if "u \<in> insert t (set (fw_tasks s))" "admitted (rt_phase u)" for u
    using that assms(1,3,4) mem current_known unfolding writers_ok_def by (metis insertE)
  have old: "\<exists>v \<in> set (fw_tasks s). rt_record v = rt_record u \<and> admitted (rt_phase v)"
    if "u \<in> insert t (set (fw_tasks s))" "admitted (rt_phase u)" "\<not> (u = t \<and> current_for (fw_broker s) (rt_record t))" for u
    using that assms(3,4) mem by (cases "u = t") auto
  have same: "rr_leader_id (rt_record u) = rr_leader_id (rt_record v)"
    if uv: "u \<in> insert t (set (fw_tasks s))" "v \<in> insert t (set (fw_tasks s))" "admitted (rt_phase u)" "admitted (rt_phase v)"
      "partition_of (rt_record u) = partition_of (rt_record v)" "rr_leader_epoch (rt_record u) = rr_leader_epoch (rt_record v)" for u v
  proof (cases "current_for (fw_broker s) (rt_record t) \<and> (u = t \<or> v = t)")
    case True
    then show ?thesis
      using current_same_leader [of "fw_broker s" "rt_record u" "rt_record v"] current_same_leader [of "fw_broker s" "rt_record v" "rt_record u"]
        known [OF uv(1,3)] known [OF uv(2,4)] uv(5,6) by metis
  next
    case False
    then obtain u' v' where "u' \<in> set (fw_tasks s)" "rt_record u' = rt_record u" "admitted (rt_phase u')"
      "v' \<in> set (fw_tasks s)" "rt_record v' = rt_record v" "admitted (rt_phase v')"
      using old [OF uv(1,3)] old [OF uv(2,4)] by blast
    moreover from this have "agree u' v'" using assms(1) by (simp add: writers_ok_def)
    ultimately show ?thesis using uv(5,6) by (simp add: agree_def)
  qed
  have "agree u v" if "u \<in> set ((fw_tasks s)[i := t])" "v \<in> set ((fw_tasks s)[i := t])" for u v
    unfolding agree_def using same [of u v] that sub by blast
  moreover have "known_to (fw_broker s) (rt_record u)" if "u \<in> set ((fw_tasks s)[i := t])" "admitted (rt_phase u)" for u
    using known that sub by blast
  ultimately show ?thesis by (simp add: writers_ok_def)
qed

lemma writers_ok_step: "follower_step pf s s' \<Longrightarrow> writers_ok s \<Longrightarrow> writers_ok s'"
proof (induction rule: follower_step.induct)
  case (replica_arrives s r)
  have "agree t u" if "\<not> admitted (rt_phase t) \<or> \<not> admitted (rt_phase u)" for t u using that by (auto simp: agree_def)
  with replica_arrives show ?case by (simp add: writers_ok_def ball_Un)
next
  case (replica_turns i s)
  obtain p b where t: "replica_turn pf (record_of s i) (replica_phase_of s i) (fw_broker s) = (p, b)" by fastforce
  have "writers_ok (s\<lparr>fw_broker := b\<rparr>)"
    using writers_ok_moves [OF replica_turns(2)] replica_turn_moves [of "fw_broker s" pf "record_of s i" "replica_phase_of s i"] t by simp
  moreover have "admitted (replica_phase_of s i) \<or> current_for b (record_of s i)" if "admitted p"
    using turn_admits [OF t that] by blast
  ultimately have "writers_ok ((s\<lparr>fw_broker := b\<rparr>)\<lparr>fw_tasks := (fw_tasks s)[i := (fw_tasks s ! i)\<lparr>rt_phase := p\<rparr>]\<rparr>)"
    using writers_ok_task [of "s\<lparr>fw_broker := b\<rparr>" i "(fw_tasks s ! i)\<lparr>rt_phase := p\<rparr>"] replica_turns(1) by simp
  then show ?case by (simp add: t set_replica_def)
next
  case (storage_refuses i s e)
  then show ?case using writers_ok_task [of s i "(fw_tasks s ! i)\<lparr>rt_phase := Ended (Err e)\<rparr>"] by (simp add: set_replica_def)
qed (simp_all add: writers_ok_moves apply_leadership_moves ensure_topic_moves storage_moves)

lemma writers_ok_steps: "(follower_step pf)\<^sup>*\<^sup>* (started_follower b) s \<Longrightarrow> writers_ok s"
proof (induction rule: rtranclp_induct)
  case base
  then show ?case by (simp add: writers_ok_def started_follower_def)
qed (rule writers_ok_step)

text \<open>Tasks keep their records, and what has ended stays so.\<close>

definition goes_on :: "follower \<Rightarrow> follower \<Rightarrow> bool" where
  "goes_on s s' \<longleftrightarrow> length (fw_tasks s) \<le> length (fw_tasks s') \<and>
     (\<forall>i < length (fw_tasks s). record_of s' i = record_of s i \<and>
        (\<forall>res. replica_phase_of s i = Ended res \<longrightarrow> replica_phase_of s' i = Ended res))"

lemma goes_on_step: "follower_step pf s s' \<Longrightarrow> goes_on s s'"
proof (induction rule: follower_step.induct)
  case (replica_turns i s)
  then show ?case by (simp add: goes_on_def set_replica_def nth_list_update)
qed (auto simp: goes_on_def set_replica_def nth_append nth_list_update)

lemma goes_on_steps: "(follower_step pf)\<^sup>*\<^sup>* s s' \<Longrightarrow> goes_on s s'"
proof (induction rule: rtranclp_induct)
  case (step s1 s2)
  with goes_on_step [OF step(2)] show ?case by (fastforce simp: goes_on_def)
qed (simp add: goes_on_def)

text \<open>What an admitted record \<open>r\<close> means for all that follows: the registry never goes behind it, and whoever is admitted in its
  epoch has its leader.\<close>

definition ruled :: "replicate_record \<Rightarrow> follower \<Rightarrow> bool" where
  "ruled r s \<longleftrightarrow> known_to (fw_broker s) r \<and> (\<forall>t \<in> set (fw_tasks s). agree \<lparr>rt_record = r, rt_phase = Expecting\<rparr> t)"

definition superseded_by :: "replicate_record \<Rightarrow> replicate_record \<Rightarrow> bool" where
  "superseded_by r' r \<longleftrightarrow> partition_of r = partition_of r' \<and>
     (rr_leader_epoch r' < rr_leader_epoch r \<or> rr_leader_epoch r' = rr_leader_epoch r \<and> rr_leader_id r' \<noteq> rr_leader_id r)"

definition kept_out :: "replica_phase \<Rightarrow> bool" where
  "kept_out p \<longleftrightarrow> p = Received \<or> p = Ended (Err StaleLeaderEpoch)"

lemma ruled_moves: "ruled r s \<Longrightarrow> moves_on (fw_broker s) b \<Longrightarrow> ruled r (s\<lparr>fw_broker := b\<rparr>)"
  using known_to_moves [of "fw_broker s" r b] by (simp add: ruled_def)

lemma ruled_task:
  assumes "ruled r s" and "i < length (fw_tasks s)" and "rt_record t = record_of s i"
    and "admitted (rt_phase t) \<Longrightarrow> admitted (replica_phase_of s i) \<or> current_for (fw_broker s) (rt_record t)"
  shows "ruled r (s\<lparr>fw_tasks := (fw_tasks s)[i := t]\<rparr>)"
proof -
  have old: "agree \<lparr>rt_record = r, rt_phase = Expecting\<rparr> (fw_tasks s ! i)" and known: "known_to (fw_broker s) r"
    using assms(1,2) by (simp_all add: ruled_def)
  have "agree \<lparr>rt_record = r, rt_phase = Expecting\<rparr> t"
  proof (cases "admitted (rt_phase t) \<and> \<not> admitted (replica_phase_of s i)")
    case True
    with assms(4) have "current_for (fw_broker s) (rt_record t)" by simp
    from current_same_leader [OF this known] show ?thesis by (simp add: agree_def)
  next
    case False
    with old assms(3) show ?thesis by (auto simp: agree_def)
  qed
  then have "agree \<lparr>rt_record = r, rt_phase = Expecting\<rparr> u" if "u \<in> set ((fw_tasks s)[i := t])" for u
    using that set_update_subset_insert [of "fw_tasks s" i t] assms(1) by (auto simp: ruled_def)
  with known show ?thesis by (simp add: ruled_def)
qed

lemma ruled_step: "follower_step pf s s' \<Longrightarrow> ruled r s \<Longrightarrow> ruled r s'"
proof (induction rule: follower_step.induct)
  case (replica_arrives s r')
  then show ?case by (simp add: ruled_def agree_def)
next
  case (replica_turns i s)
  obtain p b where t: "replica_turn pf (record_of s i) (replica_phase_of s i) (fw_broker s) = (p, b)" by fastforce
  have "ruled r (s\<lparr>fw_broker := b\<rparr>)"
    using ruled_moves [OF replica_turns(2)] replica_turn_moves [of "fw_broker s" pf "record_of s i" "replica_phase_of s i"] t by simp
  moreover have "admitted (replica_phase_of s i) \<or> current_for b (record_of s i)" if "admitted p"
    using turn_admits [OF t that] by blast
  ultimately have "ruled r ((s\<lparr>fw_broker := b\<rparr>)\<lparr>fw_tasks := (fw_tasks s)[i := (fw_tasks s ! i)\<lparr>rt_phase := p\<rparr>]\<rparr>)"
    using ruled_task [of r "s\<lparr>fw_broker := b\<rparr>" i "(fw_tasks s ! i)\<lparr>rt_phase := p\<rparr>"] replica_turns(1) by simp
  then show ?case by (simp add: t set_replica_def)
next
  case (storage_refuses i s e)
  then show ?case using ruled_task [of r s i "(fw_tasks s ! i)\<lparr>rt_phase := Ended (Err e)\<rparr>"] by (simp add: set_replica_def)
qed (simp_all add: ruled_moves apply_leadership_moves ensure_topic_moves storage_moves)

lemma ruled_steps: "(follower_step pf)\<^sup>*\<^sup>* s s' \<Longrightarrow> ruled r s \<Longrightarrow> ruled r s'"
  by (induction rule: rtranclp_induct) (auto intro: ruled_step)

lemma ruled_from:
  assumes "writers_ok s" and "i < length (fw_tasks s)" and "admitted (replica_phase_of s i)"
  shows "ruled (record_of s i) s"
proof -
  have mem: "fw_tasks s ! i \<in> set (fw_tasks s)" using assms(2) by simp
  then have "agree (fw_tasks s ! i) t" if "t \<in> set (fw_tasks s)" for t
    using assms(1) that unfolding writers_ok_def by blast
  then have "agree \<lparr>rt_record = record_of s i, rt_phase = Expecting\<rparr> t" if "t \<in> set (fw_tasks s)" for t
    using that assms(3) by (simp add: agree_def)
  moreover have "known_to (fw_broker s) (record_of s i)" using assms(1,3) mem by (simp add: writers_ok_def)
  ultimately show ?thesis by (simp add: ruled_def)
qed

text \<open>The check turns a superseded record away.\<close>

lemma kept_out_turn:
  assumes "known_to b r" and "superseded_by r' r" and "kept_out p"
  shows "fst (replica_turn pf r' p b) = Ended (Err StaleLeaderEpoch)"
proof -
  obtain l where l: "broker_entry b (rr_topic r') (rr_partition r') = Some l" "rr_leader_epoch r \<le> pl_leader_epoch l"
    "pl_leader_epoch l = rr_leader_epoch r \<longrightarrow> pl_leader_id l = rr_leader_id r"
    using assms(1,2) by (auto simp: known_to_def superseded_by_def)
  then have "fenced r' l" using assms(2) by (auto simp: fenced_def superseded_by_def)
  moreover have "broker_leader (rr_topic r') (rr_partition r') b = (Ok l, b)" using l(1) by (simp add: broker_leader_Ok)
  ultimately show ?thesis using assms(3) by (auto simp: kept_out_def)
qed

lemma kept_out_step:
  assumes "follower_step pf s s'" and "known_to (fw_broker s) r" and "superseded_by (record_of s' j) r"
    and "j < length (fw_tasks s')" and "j < length (fw_tasks s) \<Longrightarrow> kept_out (replica_phase_of s j)"
  shows "kept_out (replica_phase_of s' j)"
  using assms
proof (induction rule: follower_step.induct)
  case (replica_arrives s r')
  then show ?case by (cases "j < length (fw_tasks s)") (simp_all add: nth_append less_Suc_eq kept_out_def)
next
  case (replica_turns i s)
  show ?case
  proof (cases "j = i")
    case True
    with replica_turns have "superseded_by (record_of s i) r" "kept_out (replica_phase_of s i)" by (simp_all add: set_replica_def)
    from kept_out_turn [OF replica_turns(2) this] True replica_turns(1) show ?thesis by (simp add: set_replica_def kept_out_def)
  qed (use replica_turns in \<open>simp add: set_replica_def\<close>)
next
  case (storage_refuses i s e)
  then have "j \<noteq> i" by (auto simp: set_replica_def kept_out_def)
  with storage_refuses show ?case by (simp add: set_replica_def)
qed (simp_all add: kept_out_def)

lemma kept_out_steps:
  assumes "(follower_step pf)\<^sup>*\<^sup>* s s'" and "known_to (fw_broker s) r" and "superseded_by (record_of s' j) r"
    and "j < length (fw_tasks s')" and "j < length (fw_tasks s) \<Longrightarrow> kept_out (replica_phase_of s j)"
  shows "kept_out (replica_phase_of s' j)"
  using assms
proof (induction rule: rtranclp_induct)
  case (step s1 s2)
  have "known_to (fw_broker s1) r"
    using step.hyps(1) step.prems(1)
    by (induction rule: rtranclp_induct) (auto intro: known_to_moves follower_step_moves)
  moreover have "kept_out (replica_phase_of s1 j)" if "j < length (fw_tasks s1)"
    using step.IH [OF step.prems(1) _ that step.prems(4)] step.prems(2) goes_on_step [OF step.hyps(2)] that
    by (simp add: goes_on_def)
  ultimately show ?case using kept_out_step [OF step.hyps(2)] step.prems(2,3) by blast
qed blast

text \<open>C4: A follower has one writer per epoch, with every interleaving of the handlers of its replication port and of its other
  tasks: once a record of some leader and epoch has been admitted (it is past the check, its epoch is registered, and it is being stored or has been
  acknowledged), then whatever happens afterwards, an admitted record of the same partition and epoch comes from the same leader; and a
  record of an older epoch, or of another leader in this epoch, that had not been checked yet, is never stored: it waits for the check or is
  refused as stale.  (A record of an older epoch that passed the check earlier, on another connection, is not stopped any more.)\<close>

theorem one_writer_per_epoch:
  assumes "(follower_step pf)\<^sup>*\<^sup>* (started_follower b) s" and "(follower_step pf)\<^sup>*\<^sup>* s s'"
    and "i < length (fw_tasks s)" and "admitted (replica_phase_of s i)"
    and "j < length (fw_tasks s')" and "partition_of (record_of s i) = partition_of (record_of s' j)"
  shows "(admitted (replica_phase_of s' j) \<and> rr_leader_epoch (record_of s' j) = rr_leader_epoch (record_of s i) \<longrightarrow>
      rr_leader_id (record_of s' j) = rr_leader_id (record_of s i)) \<and>
    ((j < length (fw_tasks s) \<longrightarrow> replica_phase_of s j = Received) \<and>
      (rr_leader_epoch (record_of s' j) < rr_leader_epoch (record_of s i) \<or>
       rr_leader_epoch (record_of s' j) = rr_leader_epoch (record_of s i) \<and> rr_leader_id (record_of s' j) \<noteq> rr_leader_id (record_of s i)) \<longrightarrow>
      replica_phase_of s' j = Received \<or> replica_phase_of s' j = Ended (Err StaleLeaderEpoch))"
proof (intro conjI impI)
  from ruled_from [OF writers_ok_steps [OF assms(1)] assms(3,4)] have r: "ruled (record_of s i) s" .
  let ?r' = "record_of s' j"
  show "rr_leader_id ?r' = rr_leader_id (record_of s i)"
    if "admitted (replica_phase_of s' j) \<and> rr_leader_epoch ?r' = rr_leader_epoch (record_of s i)"
  proof -
    have "agree \<lparr>rt_record = record_of s i, rt_phase = Expecting\<rparr> (fw_tasks s' ! j)"
      using ruled_steps [OF assms(2) r] assms(5) by (simp add: ruled_def)
    with that assms(6) show ?thesis by (simp add: agree_def)
  qed
  assume *: "(j < length (fw_tasks s) \<longrightarrow> replica_phase_of s j = Received) \<and>
      (rr_leader_epoch ?r' < rr_leader_epoch (record_of s i) \<or>
       rr_leader_epoch ?r' = rr_leader_epoch (record_of s i) \<and> rr_leader_id ?r' \<noteq> rr_leader_id (record_of s i))"
  then have "superseded_by ?r' (record_of s i)" using assms(6) by (simp add: superseded_by_def)
  moreover have "known_to (fw_broker s) (record_of s i)" using r by (simp add: ruled_def)
  ultimately have "kept_out (replica_phase_of s' j)"
    using kept_out_steps [OF assms(2) _ _ assms(5)] * by (simp add: kept_out_def)
  then show "replica_phase_of s' j = Received \<or> replica_phase_of s' j = Ended (Err StaleLeaderEpoch)" by (simp add: kept_out_def)
qed

section \<open>Runs of a follower\<close>

lemma turns_reach:
  assumes "i < length (fw_tasks s)"
  shows "(follower_step pf)\<^sup>*\<^sup>* s (set_replica i (replica_turns pf (record_of s i) n (replica_phase_of s i, fw_broker s)) s)"
  using assms
proof (induction n arbitrary: s)
  case 0
  then show ?case by (simp add: set_replica_def)
next
  case (Suc n)
  let ?s = "set_replica i (replica_turn pf (record_of s i) (replica_phase_of s i) (fw_broker s)) s"
  have "follower_step pf s ?s" using Suc.prems by (rule follower_step.replica_turns)
  moreover have "(follower_step pf)\<^sup>*\<^sup>* ?s (set_replica i (replica_turns pf (record_of ?s i) n (replica_phase_of ?s i, fw_broker ?s)) ?s)"
    by (rule Suc.IH) (use Suc.prems in \<open>simp add: set_replica_def\<close>)
  ultimately have "(follower_step pf)\<^sup>*\<^sup>* s (set_replica i (replica_turns pf (record_of ?s i) n (replica_phase_of ?s i, fw_broker ?s)) ?s)"
    by (rule converse_rtranclp_into_rtranclp)
  with Suc.prems show ?case by (simp add: set_replica_def)
qed

text \<open>A record that arrives and takes some turns.\<close>

lemma arrival_reach:
  "(follower_step pf)\<^sup>*\<^sup>* s (s\<lparr>fw_broker := snd (replica_turns pf r n (Received, fw_broker s)),
     fw_tasks := fw_tasks s @ [\<lparr>rt_record = r, rt_phase = fst (replica_turns pf r n (Received, fw_broker s))\<rparr>]\<rparr>)"
proof -
  let ?s = "s\<lparr>fw_tasks := fw_tasks s @ [\<lparr>rt_record = r, rt_phase = Received\<rparr>]\<rparr>"
  have "follower_step pf s ?s" by (rule follower_step.replica_arrives)
  from converse_rtranclp_into_rtranclp [OF this turns_reach [of "length (fw_tasks s)" ?s pf n]]
  show ?thesis by (simp add: set_replica_def)
qed

definition sample_replica :: "u64 \<Rightarrow> replicate_record" where
  "sample_replica offset = (replication_record ''t'' (fetched_of (fst (sample_entry 0))) Durable (sample_entry_of 1))\<lparr>rr_offset := offset\<rparr>"

definition sample_follower :: broker where
  "sample_follower = sample_broker 3 three_nodes 3 (fresh_log 1024 256)"

lemma sample_replica_simps [simp]:
  "rr_topic (sample_replica n) = ''t''" "rr_partition (sample_replica n) = 0" "rr_offset (sample_replica n) = n"
  "rr_leader_id (sample_replica n) = 1" "rr_leader_epoch (sample_replica n) = 0"
  by (simp_all add: sample_replica_def replication_record_def sample_entry_of_def)

lemma sample_replica_sizes: "record_sizes_ok (replica_input (sample_replica n))"
  by (simp add: sample_replica_def replication_record_def replica_input_def fetched_of_def sample_entry_def stored_of_def
      plain_record_def record_sizes_ok_def opt_len_def)

lemma sample_follower_ready:
  "n \<le> 50 \<Longrightarrow> n \<le> log_capacity \<Longrightarrow> ready sample_platform n ''t'' 0 (sample_entry_of 1) 0 sample_follower"
  using sample_broker_ok(5) [OF fresh_log_sample(1) fresh_log_sample(2), where replicas = 3 and nodes = three_nodes and i = 3 and n = n] fresh_log_sample(3)
  by (simp add: sample_follower_def)

lemma storing_next:
  assumes "ready pf (Suc k) topic part l n b" and "rr_topic r = topic" and "rr_partition r = part"
    and "rr_offset r = n" and "record_sizes_ok (replica_input r)"
  shows "\<exists>b'. replica_turns pf r 2 (Expecting, b) = (Ended (Ok (n + 1)), b') \<and> ready pf k topic part l (n + 1) b' \<and>
    broker_has pf b' topic part n (record_content (replica_input r))"
proof -
  from handle_replicate_next [OF assms] obtain b' where b': "handle_replicate pf r b = (Ok (n + 1), b')"
    "ready pf k topic part l (n + 1) b'" "broker_has pf b' topic part n (record_content (replica_input r))" by blast
  have "handle_partition_offset topic part b = (Ok n, b)"
    using assms(1) by (auto simp: ready_def log_end_def handle_partition_offset_Ok)
  with b' assms(2,3,4) show ?thesis by (simp add: storing_turns)
qed

theorem one_writer_per_epoch_witness:
  "\<exists>s s'. (follower_step sample_platform)\<^sup>*\<^sup>* (started_follower sample_follower) s \<and> (follower_step sample_platform)\<^sup>*\<^sup>* s s' \<and>
     replica_phase_of s 0 = Ended (Ok 1) \<and> record_of s' 1 = (sample_replica 0)\<lparr>rr_leader_id := 2\<rparr> \<and>
     replica_phase_of s' 1 = Ended (Err StaleLeaderEpoch)"
proof -
  let ?r = "sample_replica 0" and ?r' = "(sample_replica 0)\<lparr>rr_leader_id := 2\<rparr>" and ?pf = sample_platform
  have rdy: "ready ?pf (Suc 0) ''t'' 0 (sample_entry_of 1) 0 sample_follower" using sample_follower_ready [of 1] log_capacity_pos by simp
  obtain b1 where b1: "replica_turns ?pf ?r 2 (Expecting, sample_follower) = (Ended (Ok 1), b1)"
    using storing_next [OF rdy, of ?r] sample_replica_sizes by auto
  define s where "s = \<lparr>fw_broker = b1, fw_tasks = [\<lparr>rt_record = ?r, rt_phase = Ended (Ok 1)\<rparr>]\<rparr>"
  have "broker_leader ''t'' 0 sample_follower = (Ok (sample_entry_of 1), sample_follower)"
    by (simp add: broker_leader_Ok sample_follower_def sample_broker_def broker_entry_def)
  then have "replica_turns ?pf ?r 3 (Received, sample_follower) = (Ended (Ok 1), b1)"
    using b1 by (simp add: turns_unfold(4) fenced_def sample_entry_of_def)
  with arrival_reach [of ?pf "started_follower sample_follower" ?r 3]
  have s: "(follower_step ?pf)\<^sup>*\<^sup>* (started_follower sample_follower) s" by (simp add: started_follower_def s_def)
  define s' where "s' = s\<lparr>fw_broker := snd (replica_turns ?pf ?r' 1 (Received, b1)),
    fw_tasks := fw_tasks s @ [\<lparr>rt_record = ?r', rt_phase = fst (replica_turns ?pf ?r' 1 (Received, b1))\<rparr>]\<rparr>"
  have s': "(follower_step ?pf)\<^sup>*\<^sup>* s s'" using arrival_reach [of ?pf s ?r' 1] by (simp add: s'_def s_def)
  have "replica_phase_of s' 1 \<noteq> Received"
    by (simp add: s'_def s_def awaiting_def split: prod.split outcome.split)
  with one_writer_per_epoch [OF s s', of 0 1] have "replica_phase_of s' 1 = Ended (Err StaleLeaderEpoch)"
    by (simp add: s'_def s_def)
  with s s' show ?thesis by (intro exI [of _ s] exI [of _ s']) (simp add: s_def s'_def)
qed

section \<open>A stale record that is stored\<close>

text \<open>The check is not repeated before the append.  A record of the old leader passes it; before it is stored, a record of a new leader in
  a newer epoch arrives on another connection and is stored and acknowledged; and then the old record is appended behind it and acknowledged
  as well, although the registry is already in the newer epoch.\<close>

lemma joining_turns:
  assumes "r = (sample_replica 0)\<lparr>rr_leader_id := 2, rr_leader_epoch := 1\<rparr>" and "n \<le> 50" and "n \<le> log_capacity"
  shows "\<exists>b l. replica_turns sample_platform r 3 (Received, sample_follower) = (Expecting, b) \<and>
    ready sample_platform n ''t'' 0 l 0 b \<and> pl_leader_epoch l = 1"
proof -
  let ?b = sample_follower
  have rdy: "ready sample_platform n ''t'' 0 (sample_entry_of 1) 0 ?b" using sample_follower_ready assms(2,3) by simp
  define l where "l = \<lparr>pl_partition = 0 :: u32, pl_leader_id = 2 :: u32, pl_leader_epoch = 1 :: u64, pl_high_watermark = 0 :: u64\<rparr>"
  obtain reg where reg: "apply_leadership ''t'' l (bk_leadership ?b) = (Ok (), reg)"
    by (simp add: apply_leadership_def l_def sample_follower_def sample_broker_def Let_def three_nodes_def two_nodes_def
        sample_cluster_def sample_entry_of_def stale_def)
  have "broker_leader ''t'' 0 ?b = (Ok (sample_entry_of 1), ?b)"
    by (simp add: broker_leader_Ok sample_follower_def sample_broker_def broker_entry_def)
  moreover have "handle_partition_offset ''t'' 0 ?b = (Ok 0, ?b)"
    using rdy by (auto simp: ready_def log_end_def handle_partition_offset_Ok)
  moreover have "on_leadership (apply_leadership ''t'' l) ?b = (Ok (), ?b\<lparr>bk_leadership := reg\<rparr>)"
    using reg by (simp add: on_leadership_Ok)
  ultimately have "replica_turns sample_platform r 3 (Received, ?b) = (Expecting, ?b\<lparr>bk_leadership := reg\<rparr>)"
    by (simp add: assms(1) eval_nat_numeral fenced_def sample_entry_of_def l_def)
  moreover have "ready sample_platform n ''t'' 0 l 0 (?b\<lparr>bk_leadership := reg\<rparr>)"
    using rdy apply_leadership_Ok(1) [OF reg]
    by (simp add: ready_def broker_ok_def log_end_def broker_log_def broker_entry_def l_def)
  ultimately show ?thesis by (auto simp: l_def)
qed

lemma stale_record_stored:
  "\<exists>s1 s2. (follower_step sample_platform)\<^sup>*\<^sup>* (started_follower sample_follower) s1 \<and> (follower_step sample_platform)\<^sup>*\<^sup>* s1 s2 \<and>
     replica_phase_of s1 1 = Ended (Ok 1) \<and> rr_leader_epoch (record_of s1 1) = 1 \<and> follower_epoch (fw_broker s1) (''t'', 0) = Some 1 \<and>
     replica_phase_of s1 0 = Expecting \<and> rr_leader_epoch (record_of s1 0) = 0 \<and>
     replica_phase_of s2 0 = Ended (Ok 2) \<and>
     broker_has sample_platform (fw_broker s2) ''t'' 0 1 (record_content (replica_input (record_of s1 0)))"
proof -
  let ?old = "sample_replica 1" and ?new = "(sample_replica 0)\<lparr>rr_leader_id := 2, rr_leader_epoch := 1\<rparr>" and ?pf = sample_platform
  have sz: "record_sizes_ok (replica_input ?new)" using sample_replica_sizes [of 0] by (simp add: replica_input_def)
  have lead: "broker_leader ''t'' 0 sample_follower = (Ok (sample_entry_of 1), sample_follower)"
    by (simp add: broker_leader_Ok sample_follower_def sample_broker_def broker_entry_def)
  define s0 where "s0 = \<lparr>fw_broker = sample_follower, fw_tasks = [\<lparr>rt_record = ?old, rt_phase = Expecting\<rparr>]\<rparr>"
  have s0: "(follower_step ?pf)\<^sup>*\<^sup>* (started_follower sample_follower) s0"
    using arrival_reach [of ?pf "started_follower sample_follower" ?old 1] lead
    by (simp add: started_follower_def s0_def fenced_def sample_entry_of_def)
  obtain b l where b: "replica_turns ?pf ?new 3 (Received, sample_follower) = (Expecting, b)"
    "ready ?pf (Suc (Suc 0)) ''t'' 0 l 0 b" "pl_leader_epoch l = 1"
    using joining_turns [OF refl, of 2] log_capacity_pos by (auto simp: numeral_2_eq_2)
  from storing_next [OF b(2), of ?new] sz obtain b1 where b1: "replica_turns ?pf ?new 2 (Expecting, b) = (Ended (Ok 1), b1)"
    "ready ?pf (Suc 0) ''t'' 0 l 1 b1" by auto
  from storing_next [OF b1(2), of ?old] sample_replica_sizes obtain b2 where
    b2: "replica_turns ?pf ?old 2 (Expecting, b1) = (Ended (Ok 2), b2)"
      "broker_has ?pf b2 ''t'' 0 1 (record_content (replica_input ?old))" by auto
  have five: "replica_turns ?pf ?new 5 (Received, sample_follower) = (Ended (Ok 1), b1)"
    using b(1) b1(1) replica_turns_add [of ?pf ?new 3 2] by simp
  define s1 where "s1 = \<lparr>fw_broker = b1, fw_tasks = [\<lparr>rt_record = ?old, rt_phase = Expecting\<rparr>, \<lparr>rt_record = ?new, rt_phase = Ended (Ok 1)\<rparr>]\<rparr>"
  have "(follower_step ?pf)\<^sup>*\<^sup>* s0 s1"
    using arrival_reach [of ?pf s0 ?new 5] five by (simp add: s0_def s1_def)
  with s0 have "(follower_step ?pf)\<^sup>*\<^sup>* (started_follower sample_follower) s1" by simp
  moreover define s2 where "s2 = set_replica 0 (Ended (Ok 2), b2) s1"
  moreover have "(follower_step ?pf)\<^sup>*\<^sup>* s1 s2" using turns_reach [of 0 s1 ?pf 2] b2(1) by (simp add: s1_def s2_def)
  moreover have "follower_epoch b1 (''t'', 0) = Some 1" using b1(2) b(3) by (auto simp: ready_def follower_epoch_def)
  ultimately show ?thesis
    using b2(2) by (intro exI [of _ s1] exI [of _ s2]) (simp add: s1_def set_replica_def)
qed

end
