(* ===== verification/Produce_Fetch.thy ===== *)
theory Produce_Fetch
  imports Cluster_Progress
begin

text \<open>
  Produce and fetch together: what a client was acknowledged for, the next fetch at the same broker
  returns, through the append, the replication, the commit and the read.
\<close>

lemma append_record_partition:
  assumes "append_record hash settings clock input w = (Ok ack, w')" and "ai_partition input = Some p"
  shows "pa_partition ack = p"
  using assms
  by (auto simp: append_record_def choose_partition_def append_to_partition_def step_bind_eq_Ok Let_def case_prod_beta
      split: if_splits)

lemma process_produce_partition:
  assumes "cl_brokers c self = Some b" and "pr_ack_mode req = Durable" and "broker_ok pf (Suc n) b"
    and "process_produce pf self req c = (Ok (RProduceAck ack), c')" and "pr_partition req = Some p"
  shows "pa_partition ack = p"
proof -
  obtain b1 where "handle_append pf (produce_input req) b = (Ok ack, b1)"
    using process_produce_steps [OF assms(1-4)] by blast
  then show ?thesis
    using append_record_partition assms(5) by (fastforce simp: handle_append_def on_storage_Ok produce_input_def)
qed

lemma process_produce_guard:
  assumes "cl_brokers c self = Some b" and "process_produce pf self req c = (Ok (RProduceAck ack), c')"
    and "length (cm_nodes (bk_metadata b)) \<noteq> 1"
  shows "\<exists>p l. pr_partition req = Some p \<and> broker_entry b (pr_topic req) p = Some l \<and> pl_leader_id l = bk_id b"
proof -
  obtain refused where g: "fst (cluster_leadership_error (pr_topic req) (pr_partition req) b) = Ok refused"
    using assms(2) by (auto simp: process_produce_def at_broker_guard [OF assms(1)] step_bind_eq_Ok)
  then have ge: "cluster_leadership_error (pr_topic req) (pr_partition req) b = (Ok refused, b)"
    using leadership_error_state by (metis prod.collapse)
  have "refused = None"
    using assms(2) g leadership_error_not_ack [of "pr_topic req" "pr_partition req" b "RProduceAck ack" b] ge
    by (cases refused) (auto simp: process_produce_def at_broker_guard [OF assms(1)])
  with ge assms(3) show ?thesis
    by (auto simp: cluster_leadership_error_def step_bind_eq_Ok broker_leader_Ok split: option.splits if_splits)
qed

lemma process_fetch_has:
  assumes "hosts b topic part" and "broker_has pf b topic part offset x" and "broker_entry b topic part = Some l"
    and "offset < pl_high_watermark l" and "length (cm_nodes (bk_metadata b)) \<noteq> 1 \<Longrightarrow> pl_leader_id l = bk_id b"
    and "fr_topic r = topic" and "fr_partition r = part" and "fr_offset r = offset" and "fr_max_bytes r \<noteq> 0"
  shows "\<exists>y rest. process_fetch pf r b = (Ok (RFetch (y # rest)), b) \<and> fd_offset y = offset \<and> content_of y = x"
proof -
  obtain log where log: "broker_log b topic part = Some log" "log_has (pf_hash pf) log offset x"
    using assms(2) by (auto simp: broker_has_def)
  have "unat (fr_max_bytes r) \<noteq> 0" using assms(9) by (simp add: unat_eq_0)
  then obtain s rest where s: "read_log (pf_hash pf) log offset (unat (fr_max_bytes r)) = Ok (s # rest)"
    "sr_offset s = offset" "stored_content s = x" using log(2) unfolding log_has_def by blast
  obtain n where "map_of (sw_topics (bk_storage b)) topic = Some n" using assms(1) by (auto simp: hosts_def)
  then have rd: "read_once pf topic part offset (fr_max_bytes r) b = (Ok (map fetched_of (s # rest)), b)"
    using log(1) s(1)
    by (simp add: read_once_def on_storage_def read_records_def worker_ensure_topic_def broker_log_def)
  have lead: "broker_leader topic part b = (Ok l, b)" using assms(3) by (simp add: broker_leader_Ok)
  have guard: "cluster_leadership_error topic (Some part) b = (Ok None, b)"
    using lead assms(5) by (auto simp: cluster_leadership_error_def)
  have "process_fetch pf r b =
      (Ok (RFetch (fetched_of s # visible (pl_high_watermark l) (map fetched_of rest))), b)"
    using guard rd lead assms(4,6,7,8) s(2) by (simp add: process_fetch_def visible_def fetched_of_def)
  moreover have "fd_offset (fetched_of s) = offset" "content_of (fetched_of s) = x"
    using s(2,3) by (simp_all add: fetched_of_def content_of_def stored_content_def)
  ultimately show ?thesis by blast
qed

text \<open>C6: Read your writes: after a durable produce was acknowledged, a fetch at the same broker from the
  acknowledged partition and offset succeeds at once, and its first record has this offset.  For a client without a producer
  identity it has exactly the key and payload that were produced.  (A client that uses a sequence number of its identity again, with
  whatever payload, is acknowledged the offset of the record it sent first, and the fetch returns that one.)\<close>

theorem produce_then_fetch:
  assumes "cluster_ok pf 1 c" and "cl_brokers c self = Some b" and "membership_fits b"
    and "pr_ack_mode req = Durable"
    and "process_produce pf self req c = (Ok (RProduceAck ack), c')"
    and "fr_topic r = pr_topic req" and "fr_partition r = pa_partition ack" and "fr_offset r = pa_offset ack"
    and "fr_max_bytes r \<noteq> 0"
  shows "\<exists>b' x rest. cl_brokers c' self = Some b' \<and> process_fetch pf r b' = (Ok (RFetch (x # rest)), b') \<and>
    fd_offset x = pa_offset ack \<and> (pr_producer req = None \<longrightarrow>
      fd_key x = (if pr_key req = [] then None else Some (pr_key req)) \<and> fd_value x = pr_payload req)"
proof -
  let ?topic = "pr_topic req" and ?part = "pa_partition ack" and ?o = "pa_offset ack"
  obtain A x b' l l0 where h: "self \<in> A" "\<forall>i\<in>A. \<exists>bi. cl_brokers c' i = Some bi \<and> broker_has pf bi ?topic ?part ?o x"
    "pr_producer req = None \<longrightarrow> snd x = (if pr_key req = [] then None else Some (pr_key req), pr_payload req)"
    "cl_brokers c' self = Some b'" "broker_entry b' ?topic ?part = Some l" "?o < pl_high_watermark l"
    "hosts b' ?topic ?part" "bk_metadata b' = bk_metadata b" "broker_entry b ?topic ?part = Some l0"
    "pl_leader_id l = pl_leader_id l0"
    using durable_produce_holds [OF assms(1-5)] by (elim exE conjE) simp
  have has: "broker_has pf b' ?topic ?part ?o x" using h(1,2,4) by force
  have lead: "pl_leader_id l = bk_id b'" if "length (cm_nodes (bk_metadata b')) \<noteq> 1"
  proof -
    have "broker_ok pf (Suc (length (cl_net c))) b" using assms(1,2) by (auto simp: cluster_ok_def)
    with process_produce_guard [OF assms(2,5)] process_produce_partition [OF assms(2,4) _ assms(5)] that h(8-10)
    show ?thesis by fastforce
  qed
  from process_fetch_has [OF h(7) has h(5,6) lead assms(6,7,8,9)] obtain y rest where
    "process_fetch pf r b' = (Ok (RFetch (y # rest)), b')" "fd_offset y = ?o" "content_of y = x" by blast
  with h(3,4) show ?thesis by (auto simp: content_of_def)
qed

theorem produce_then_fetch_witness:
  "\<exists>c' b' x rest. process_produce sample_platform 1 durable_request (two_brokers [Delivered, Delivered]) =
      (Ok (RProduceAck \<lparr>pa_partition = 0, pa_offset = 0\<rparr>), c') \<and> cl_brokers c' 1 = Some b' \<and>
    process_fetch sample_platform \<lparr>fr_topic = ''t'', fr_partition = 0, fr_offset = 0, fr_max_bytes = 100, fr_max_wait_ms = 0\<rparr> b' =
      (Ok (RFetch (x # rest)), b') \<and> fd_value x = [7]"
proof -
  obtain c' where p: "process_produce sample_platform 1 durable_request (two_brokers [Delivered, Delivered]) =
      (Ok (RProduceAck \<lparr>pa_partition = 0, pa_offset = 0\<rparr>), c')" using two_brokers_produce by blast
  have "membership_fits (sample_broker 2 two_nodes 1 (fresh_log 1024 256))"
    by (simp add: membership_fits_def sample_broker_def two_nodes_def sample_cluster_def)
  from produce_then_fetch [OF two_brokers_ok _ this _ p, where r = "\<lparr>fr_topic = ''t'', fr_partition = 0,
      fr_offset = 0, fr_max_bytes = 100, fr_max_wait_ms = 0\<rparr>"] p show ?thesis
    by (auto simp: two_brokers_def durable_request_def)
qed

end
