(* ===== verification/Client.thy ===== *)
theory Client
  imports Cluster_Control Cluster_Config Wire_Request
begin

text \<open>
  The client library (\<open>crates/client/src/lib.rs\<close>): every operation of \<open>Client\<close>, with its routing to the
  controller and to partition leaders.  A client is known by the broker it is connected to, a
  socket address by the broker that listens there; every request takes the head of the list of
  deliveries, as between brokers.  A request is checked by its encoder before it is sent; that the bytes
  carry it unchanged is the subject of the wire theories.  A client whose encoder failed is
  not used again.
\<close>

section \<open>Requests\<close>

text \<open>What the client takes from outside: the brokers' platform, the zstd crate, and which strings
  parse as socket addresses.\<close>

record client_env =
  ce_platform :: platform
  ce_zstd :: zstd_lib
  ce_parses :: "string \<Rightarrow> bool"

datatype client_error =
    ClientIo
  | ClientProtocol protocol_error
  | ConnectionClosed
  | UnexpectedResponse
  | InvalidBrokerAddress
  | EmptyCluster
  | InvalidPartition
  | UnknownLeader u32
  | BatchSpansPartitions
  | Server string

type_synonym 'a client_result = "('a, client_error) outcome \<times> cluster"

fun server_error :: "response \<Rightarrow> (response, client_error) outcome" where
  "server_error (RError message) = Err (Server message)"
| "server_error response = Ok response"

text \<open>One exchange with broker \<open>i\<close>; a broker that answers nothing closed the connection.\<close>

definition client_exchange :: "client_env \<Rightarrow> u32 \<Rightarrow> request \<Rightarrow> cluster \<Rightarrow> response client_result" where
  "client_exchange env i r c =
    (case cl_net c of
       [] \<Rightarrow> (Err ClientIo, c)
     | d # ds \<Rightarrow>
         let c = c\<lparr>cl_net := ds\<rparr> in
         if d = RequestLost then (Err ClientIo, c)
         else case answer_request (ce_platform env) i r c of
           (Some response, c) \<Rightarrow> (if d = Delivered then server_error response else Err ClientIo, c)
         | (None, c) \<Rightarrow> (Err ConnectionClosed, c))"

definition client_request :: "client_env \<Rightarrow> u32 \<Rightarrow> request \<Rightarrow> cluster \<Rightarrow> response client_result" where
  "client_request env i r c =
    step_bind (map_err ClientProtocol (fst (encode_request (ce_zstd env) r [])), c) (\<lambda>_ c.
    client_exchange env i r c)"

text \<open>The end of every operation: a response of the expected kind.\<close>

definition expect :: "(response \<Rightarrow> 'a option) \<Rightarrow> response client_result \<Rightarrow> 'a client_result" where
  "expect f m = step_bind m (\<lambda>response c. (ok_or (f response) UnexpectedResponse, c))"

section \<open>Addresses\<close>

definition node_address :: "client_env \<Rightarrow> cluster_node \<Rightarrow> (u32, client_error) outcome" where
  "node_address env node =
    (if ce_parses env (endpoint (cn_host node) (cn_port node)) then Ok (cn_id node) else Err InvalidBrokerAddress)"

definition controller_address :: "client_env \<Rightarrow> cluster_metadata \<Rightarrow> (u32, client_error) outcome" where
  "controller_address env m =
    (case cm_nodes m of [] \<Rightarrow> Err EmptyCluster | node # _ \<Rightarrow> node_address env node)"

definition topic_leader_address ::
    "client_env \<Rightarrow> cluster_metadata \<Rightarrow> topic_metadata \<Rightarrow> u32 \<Rightarrow> (u32, client_error) outcome" where
  "topic_leader_address env m t part =
    (if length (tm_leaders t) \<le> unat part then Err InvalidPartition
     else let leader_id = tm_leaders t ! unat part in
       try_bind (ok_or (find (\<lambda>node. cn_id node = leader_id) (cm_nodes m)) (UnknownLeader leader_id))
         (node_address env))"

section \<open>Metadata and topics\<close>

fun cluster_of :: "response \<Rightarrow> cluster_metadata option" where
  "cluster_of (RClusterMetadata m) = Some m"
| "cluster_of _ = None"

fun single_topic :: "response \<Rightarrow> topic_metadata option" where
  "single_topic (RTopics [t]) = Some t"
| "single_topic _ = None"

fun topics_of :: "response \<Rightarrow> topic_metadata list option" where
  "topics_of (RTopics ts) = Some ts"
| "topics_of _ = None"

fun leadership_of :: "response \<Rightarrow> partition_leadership option" where
  "leadership_of (RLeadershipChanged l) = Some l"
| "leadership_of _ = None"

definition client_cluster_metadata :: "client_env \<Rightarrow> u32 \<Rightarrow> cluster \<Rightarrow> cluster_metadata client_result" where
  "client_cluster_metadata env peer c = expect cluster_of (client_request env peer ClusterMetadata c)"

text \<open>A request that is sent to the controller.\<close>

definition request_controller :: "client_env \<Rightarrow> u32 \<Rightarrow> request \<Rightarrow> cluster \<Rightarrow> response client_result" where
  "request_controller env peer r c =
    step_bind (client_cluster_metadata env peer c) (\<lambda>m c.
    step_bind (controller_address env m, c) (\<lambda>address c.
    client_request env address r c))"

definition client_create_topic :: "client_env \<Rightarrow> u32 \<Rightarrow> string \<Rightarrow> u32 \<Rightarrow> cluster \<Rightarrow> topic_metadata client_result" where
  "client_create_topic env peer topic partitions c =
    expect single_topic (request_controller env peer (CreateTopic \<lparr>ct_topic = topic, ct_partitions = partitions\<rparr>) c)"

definition client_list_topics :: "client_env \<Rightarrow> u32 \<Rightarrow> cluster \<Rightarrow> topic_metadata list client_result" where
  "client_list_topics env peer c = expect topics_of (request_controller env peer ListTopics c)"

definition client_describe_topic :: "client_env \<Rightarrow> u32 \<Rightarrow> string \<Rightarrow> cluster \<Rightarrow> topic_metadata client_result" where
  "client_describe_topic env peer topic c = expect single_topic (request_controller env peer (DescribeTopic topic) c)"

definition client_promote_leader ::
    "client_env \<Rightarrow> u32 \<Rightarrow> string \<Rightarrow> u32 \<Rightarrow> u32 \<Rightarrow> cluster \<Rightarrow> partition_leadership client_result" where
  "client_promote_leader env peer topic part leader_id c =
    expect leadership_of (request_controller env peer
      (PromoteLeader \<lparr>pm_topic = topic, pm_partition = part, pm_leader_id = leader_id\<rparr>) c)"

text \<open>The three operations that brokers use among themselves go to the given address.\<close>

definition client_apply_topic :: "client_env \<Rightarrow> u32 \<Rightarrow> string \<Rightarrow> u32 \<Rightarrow> cluster \<Rightarrow> unit client_result" where
  "client_apply_topic env address topic partitions c =
    expect (\<lambda>response. map_option (\<lambda>_. ()) (topics_of response))
      (client_request env address (CreateTopic \<lparr>ct_topic = topic, ct_partitions = partitions\<rparr>) c)"

definition client_apply_leadership ::
    "client_env \<Rightarrow> u32 \<Rightarrow> string \<Rightarrow> partition_leadership \<Rightarrow> cluster \<Rightarrow> unit client_result" where
  "client_apply_leadership env address topic l c =
    expect (\<lambda>response. map_option (\<lambda>_. ()) (leadership_of response))
      (client_request env address (ApplyLeadership \<lparr>al_topic = topic, al_leadership = l\<rparr>) c)"

fun status_of :: "response \<Rightarrow> u64 option" where
  "status_of (RPartitionStatus offset) = Some offset"
| "status_of _ = None"

definition client_partition_status :: "client_env \<Rightarrow> u32 \<Rightarrow> string \<Rightarrow> u32 \<Rightarrow> cluster \<Rightarrow> u64 client_result" where
  "client_partition_status env address topic part c =
    expect status_of (client_request env address (PartitionStatus \<lparr>ps_topic = topic, ps_partition = part\<rparr>) c)"

section \<open>Produce and fetch\<close>

text \<open>The key that decides the partition: the record's own, or the producer's identifier.  Without
  either the record goes to partition 0; a topic without partitions makes the remainder panic.\<close>

definition client_routing_key :: "bytes \<Rightarrow> producer_identity option \<Rightarrow> bytes option" where
  "client_routing_key key producer =
    (if key = [] then map_option (\<lambda>p. as_bytes (pi_id p)) producer else Some key)"

definition client_partition :: "(bytes \<Rightarrow> u32) \<Rightarrow> u32 \<Rightarrow> bytes option \<Rightarrow> (u32, client_error) outcome" where
  "client_partition hash partitions key =
    (case key of
       None \<Rightarrow> Ok 0
     | Some key \<Rightarrow> if partitions = 0 then Panic else Ok (hash key mod partitions))"

fun produce_ack_of :: "response \<Rightarrow> produce_ack option" where
  "produce_ack_of (RProduceAck ack) = Some ack"
| "produce_ack_of _ = None"

fun batch_acks_of :: "response \<Rightarrow> produce_ack list option" where
  "batch_acks_of (RProduceBatchAck acks) = Some acks"
| "batch_acks_of _ = None"

fun fetched_records :: "response \<Rightarrow> fetched_record list option" where
  "fetched_records (RFetch records) = Some records"
| "fetched_records _ = None"

text \<open>Where a record goes: the broker and the request with its partition.\<close>

definition route_produce ::
    "client_env \<Rightarrow> u32 \<Rightarrow> cluster_metadata \<Rightarrow> produce_request \<Rightarrow> cluster \<Rightarrow> (u32 \<times> produce_request) client_result" where
  "route_produce env peer m r c =
    (if length (cm_nodes m) = 1 then (Ok (peer, r), c)
     else
     step_bind (client_describe_topic env peer (pr_topic r) c) (\<lambda>t c.
     step_bind (client_partition (pf_hash (ce_platform env)) (tm_partitions t)
         (client_routing_key (pr_key r) (pr_producer r)), c) (\<lambda>part c.
     step_bind (topic_leader_address env m t part, c) (\<lambda>address c.
     (Ok (address, r\<lparr>pr_partition := Some part\<rparr>), c)))))"

definition client_produce ::
    "client_env \<Rightarrow> u32 \<Rightarrow> string \<Rightarrow> bytes \<Rightarrow> bytes \<Rightarrow> ack_mode \<Rightarrow> producer_identity option \<Rightarrow> cluster
     \<Rightarrow> produce_ack client_result" where
  "client_produce env peer topic key payload ack_mode producer c =
    step_bind (client_cluster_metadata env peer c) (\<lambda>m c.
    step_bind (map_err ClientProtocol (produce_request_new topic key payload ack_mode producer), c) (\<lambda>r c.
    step_bind (route_produce env peer m r c) (\<lambda>(address, r) c.
    expect produce_ack_of (client_request env address (Produce r) c))))"

text \<open>The partition of a batch is that of its first record; another keyed record must agree.\<close>

definition batch_partition :: "(bytes \<Rightarrow> u32) \<Rightarrow> u32 \<Rightarrow> batch_record list \<Rightarrow> (u32, client_error) outcome" where
  "batch_partition hash partitions records =
    (if partitions = 0 \<and> list_ex (\<lambda>r. br_key r \<noteq> []) records then Panic
     else let part = (case records of r # _ \<Rightarrow> if br_key r = [] then 0 else hash (br_key r) mod partitions | [] \<Rightarrow> 0) in
       if list_ex (\<lambda>r. br_key r \<noteq> [] \<and> hash (br_key r) mod partitions \<noteq> part) records then Err BatchSpansPartitions
       else Ok part)"

definition route_batch ::
    "client_env \<Rightarrow> u32 \<Rightarrow> cluster_metadata \<Rightarrow> produce_batch_request \<Rightarrow> cluster
     \<Rightarrow> (u32 \<times> produce_batch_request) client_result" where
  "route_batch env peer m r c =
    (if length (cm_nodes m) = 1 then (Ok (peer, r), c)
     else
     step_bind (client_describe_topic env peer (pb_topic r) c) (\<lambda>t c.
     step_bind (batch_partition (pf_hash (ce_platform env)) (tm_partitions t) (pb_records r), c) (\<lambda>part c.
     step_bind (topic_leader_address env m t part, c) (\<lambda>address c.
     (Ok (address, r\<lparr>pb_partition := Some part\<rparr>), c)))))"

definition client_produce_batch ::
    "client_env \<Rightarrow> u32 \<Rightarrow> produce_batch_request \<Rightarrow> cluster \<Rightarrow> produce_ack list client_result" where
  "client_produce_batch env peer r c =
    step_bind (client_cluster_metadata env peer c) (\<lambda>m c.
    step_bind (route_batch env peer m r c) (\<lambda>(address, r) c.
    expect batch_acks_of (client_request env address (ProduceBatch r) c)))"

definition client_fetch ::
    "client_env \<Rightarrow> u32 \<Rightarrow> string \<Rightarrow> u32 \<Rightarrow> u64 \<Rightarrow> u32 \<Rightarrow> u32 \<Rightarrow> cluster \<Rightarrow> fetched_record list client_result" where
  "client_fetch env peer topic part offset max_bytes max_wait_ms c =
    step_bind (map_err ClientProtocol (fetch_request_new topic part offset max_bytes max_wait_ms), c) (\<lambda>r c.
    step_bind (client_cluster_metadata env peer c) (\<lambda>m c.
    step_bind (if length (cm_nodes m) = 1 then (Ok peer, c)
      else step_bind (client_describe_topic env peer (fr_topic r) c) (\<lambda>t c.
        (topic_leader_address env m t part, c))) (\<lambda>address c.
    expect fetched_records (client_request env address (Fetch r) c))))"

section \<open>Consumer groups\<close>

fun joined_of :: "response \<Rightarrow> join_group_response option" where
  "joined_of (RJoinGroup j) = Some j"
| "joined_of _ = None"

fun group_acked :: "response \<Rightarrow> unit option" where
  "group_acked RGroupAck = Some ()"
| "group_acked _ = None"

fun committed_of :: "response \<Rightarrow> u64 option option" where
  "committed_of (RCommittedOffset offset) = Some offset"
| "committed_of _ = None"

definition group_ack :: "client_env \<Rightarrow> u32 \<Rightarrow> request \<Rightarrow> cluster \<Rightarrow> unit client_result" where
  "group_ack env peer r c = expect group_acked (client_request env peer r c)"

definition client_join_group ::
    "client_env \<Rightarrow> u32 \<Rightarrow> string \<Rightarrow> string \<Rightarrow> string \<Rightarrow> cluster \<Rightarrow> join_group_response client_result" where
  "client_join_group env peer grp topic member c =
    expect joined_of (client_request env peer (JoinGroup \<lparr>gm_group = grp, gm_topic = topic, gm_member = member\<rparr>) c)"

definition client_heartbeat ::
    "client_env \<Rightarrow> u32 \<Rightarrow> string \<Rightarrow> string \<Rightarrow> string \<Rightarrow> u64 \<Rightarrow> cluster \<Rightarrow> unit client_result" where
  "client_heartbeat env peer grp topic member generation c =
    group_ack env peer (Heartbeat \<lparr>gg_group = grp, gg_topic = topic, gg_member = member, gg_generation = generation\<rparr>) c"

definition client_leave_group ::
    "client_env \<Rightarrow> u32 \<Rightarrow> string \<Rightarrow> string \<Rightarrow> string \<Rightarrow> u64 \<Rightarrow> cluster \<Rightarrow> unit client_result" where
  "client_leave_group env peer grp topic member generation c =
    group_ack env peer (LeaveGroup \<lparr>gg_group = grp, gg_topic = topic, gg_member = member, gg_generation = generation\<rparr>) c"

definition client_commit_offset :: "client_env \<Rightarrow> u32 \<Rightarrow> commit_offset_request \<Rightarrow> cluster \<Rightarrow> unit client_result" where
  "client_commit_offset env peer r c = group_ack env peer (CommitOffset r) c"

definition client_committed_offset ::
    "client_env \<Rightarrow> u32 \<Rightarrow> string \<Rightarrow> string \<Rightarrow> u32 \<Rightarrow> cluster \<Rightarrow> u64 option client_result" where
  "client_committed_offset env peer grp topic part c =
    expect committed_of (client_request env peer
      (FetchCommittedOffset \<lparr>fc_group = grp, fc_topic = topic, fc_partition = part\<rparr>) c)"

definition client_group_fetch ::
    "client_env \<Rightarrow> u32 \<Rightarrow> group_fetch_request \<Rightarrow> cluster \<Rightarrow> fetched_record list client_result" where
  "client_group_fetch env peer r c = expect fetched_records (client_request env peer (GroupFetch r) c)"

end
