(* ===== verification/Client_Service.thy ===== *)
theory Client_Service
  imports Client Cluster_Progress
begin

text \<open>
  What the client library promises: where its records go, and what its acknowledgements mean in the
  whole system.
\<close>

section \<open>Routing\<close>

text \<open>The client's choice of a partition, the broker's own choice and the choice for a batch are the same
  function of the key.\<close>

lemma client_partition_select:
  "n \<noteq> 0 \<Longrightarrow> client_partition hash n (Some k) = Ok p \<longleftrightarrow> (\<forall>w. select_partition hash n topic (Some k) w = (Ok p, w))"
  by (auto simp: client_partition_def select_partition_def)

lemma batch_partition_Ok:
  assumes "n \<noteq> 0" and "records \<noteq> []"
  shows "batch_partition hash n records = Ok p \<longleftrightarrow>
    (br_key (hd records) = [] \<longrightarrow> p = 0) \<and>
    (\<forall>r\<in>set records. br_key r \<noteq> [] \<longrightarrow> client_partition hash n (Some (br_key r)) = Ok p)"
  using assms
  by (cases records) (auto simp: batch_partition_def client_partition_def Let_def list_ex_iff)

text \<open>C33: The client and the broker route alike: for a record with a key or a producer identifier, the partition
  the client computes from the topic's metadata is the one the broker would choose itself, and
  the broker accepts the client's choice unchanged; a batch is routed to a partition exactly when every
  keyed record of it would go there alone (and an unkeyed first record means partition 0), so
  a batch never moves a key to another partition.\<close>

theorem client_routing_agrees:
  assumes "n \<noteq> 0" and "client_routing_key (pr_key r) (pr_producer r) = Some k" and "records \<noteq> []"
  shows "\<exists>p < n. client_partition hash n (client_routing_key (pr_key r) (pr_producer r)) = Ok p \<and>
      (\<forall>w. choose_partition hash n (produce_input (r\<lparr>pr_partition := None\<rparr>)) w = (Ok p, w) \<and>
        choose_partition hash n (produce_input (r\<lparr>pr_partition := Some p\<rparr>)) w = (Ok p, w)) \<and>
      (batch_partition hash n records = Ok q \<longleftrightarrow> (br_key (hd records) = [] \<longrightarrow> q = 0) \<and>
        (\<forall>x\<in>set records. br_key x \<noteq> [] \<longrightarrow>
          (\<forall>w. select_partition hash n topic (Some (br_key x)) w = (Ok q, w))))"
proof -
  define p where "p = hash k mod n"
  have p: "p < n" using assms(1) by (simp add: p_def word_less_nat_alt unat_mod_word unat_gt_0)
  have "routing_key (produce_input (r\<lparr>pr_partition := None\<rparr>)) = Some k"
    using assms(2) by (auto simp: routing_key_def produce_input_def client_routing_key_def split: if_splits)
  moreover have "batch_partition hash n records = Ok q \<longleftrightarrow> (br_key (hd records) = [] \<longrightarrow> q = 0) \<and>
      (\<forall>x\<in>set records. br_key x \<noteq> [] \<longrightarrow>
        (\<forall>w. select_partition hash n topic (Some (br_key x)) w = (Ok q, w)))"
    by (simp add: batch_partition_Ok [OF assms(1,3)] client_partition_select [OF assms(1), of hash _ _ topic])
  ultimately show ?thesis
    using assms(1,2) p
    by (intro exI [of _ p])
       (auto simp: client_partition_def choose_partition_def select_partition_def produce_input_def p_def not_le)
qed

section \<open>Exchanges that keep the cluster in order\<close>

definition entries_keyed :: "leadership_registry \<Rightarrow> bool" where
  "entries_keyed reg \<longleftrightarrow> (\<forall>topic part l. map_of (lr_entries reg) (topic, part) = Some l \<longrightarrow> pl_partition l = part)"

definition broker_fine :: "platform \<Rightarrow> nat \<Rightarrow> u32 \<Rightarrow> nat \<Rightarrow> broker \<Rightarrow> bool" where
  "broker_fine pf k i n b \<longleftrightarrow> bk_id b = i \<and> broker_ok pf n b \<and> entries_keyed (bk_leadership b) \<and> membership_fits b \<and>
     bk_min_in_sync_replicas b = k"

definition cluster_fine :: "platform \<Rightarrow> nat \<Rightarrow> cluster \<Rightarrow> bool" where
  "cluster_fine pf k c \<longleftrightarrow> (\<forall>i b. cl_brokers c i = Some b \<longrightarrow> broker_fine pf k i (1 + length (cl_net c)) b)"

lemma cluster_fine_ok: "cluster_fine pf k c \<Longrightarrow> cluster_ok pf 1 c"
  by (auto simp: cluster_fine_def cluster_ok_def broker_fine_def entries_keyed_def broker_entry_def)

lemma broker_fine_mono: "broker_fine pf k i n b \<Longrightarrow> m \<le> n \<Longrightarrow> broker_fine pf k i m b"
  by (auto simp: broker_fine_def elim: broker_ok_mono)

lemma ensure_partitions_keyed:
  assumes "entries_keyed reg" and "ensure_partitions topic parts changed reg = (res, reg')"
  shows "entries_keyed reg' \<and> lr_cluster reg' = lr_cluster reg"
  using assms
proof (induction parts arbitrary: changed reg)
  case (Cons part parts)
  show ?case
  proof (cases "map_of (lr_entries reg) (topic, part)")
    case None
    have k: "entries_keyed (reg\<lparr>lr_entries := AList.update (topic, part)
        \<lparr>pl_partition = part, pl_leader_id = i, pl_leader_epoch = 0, pl_high_watermark = 0\<rparr> (lr_entries reg)\<rparr>)" for i
      using Cons.prems(1) by (auto simp: entries_keyed_def update_conv')
    from None Cons.prems Cons.IH [OF k] show ?thesis
      by (cases "deterministic_leader (lr_cluster reg) part") auto
  qed (use Cons in auto)
qed simp

lemma topic_leaders_keyed:
  assumes "entries_keyed reg" and "topic_leaders topic n reg = (res, reg')"
  shows "entries_keyed reg' \<and> lr_cluster reg' = lr_cluster reg"
proof -
  obtain r1 reg1 where e: "ensure_partitions topic (partition_range n) False reg = (r1, reg1)" by fastforce
  from ensure_partitions_keyed [OF assms(1) e] have "entries_keyed reg1" "lr_cluster reg1 = lr_cluster reg" by auto
  moreover have "entries_keyed (persist reg1) \<longleftrightarrow> entries_keyed reg1" by (simp add: entries_keyed_def)
  ultimately show ?thesis using assms(2) e by (cases r1) (auto simp: topic_leaders_def ensure_topic_def)
qed

lemma describe_fine:
  assumes "broker_fine pf k i n b" and "process_describe_topic topic b = (res, b')"
  shows "broker_fine pf k i n b'"
proof -
  have st: "snd (handle_describe_topic topic b) = b"
    by (cases "find (\<lambda>m. tm_topic m = topic) (storage_topic_metadata (bk_storage b))")
       (simp_all add: handle_describe_topic_def handle_list_topics_def on_storage_def)
  obtain r where h: "handle_describe_topic topic b = (r, b)" using st by (metis prod.collapse)
  show ?thesis
  proof (cases r)
    case (Ok m)
    obtain r1 reg where t: "topic_leaders (tm_topic m) (tm_partitions m) (bk_leadership b) = (r1, reg)" by fastforce
    have "b' = b\<lparr>bk_leadership := reg\<rparr>"
      using assms(2) h Ok t by (cases r1) (auto simp: process_describe_topic_def with_leaders_def on_leadership_def)
    with topic_leaders_keyed [OF _ t] assms(1) show ?thesis
      by (auto simp: broker_fine_def broker_ok_def membership_fits_def)
  next
    case (Err e)
    then show ?thesis using assms h by (cases e) (auto simp: process_describe_topic_def)
  qed (use assms h in \<open>auto simp: process_describe_topic_def\<close>)
qed

lemma at_broker_fine:
  assumes "cluster_fine pf k c" and "at_broker i f c = (res, c')"
    and "\<And>n b. broker_fine pf k i n b \<Longrightarrow> broker_fine pf k i n (snd (f b))"
  shows "cluster_fine pf k c'"
  using assms by (auto simp: at_broker_def cluster_fine_def set_broker_def split: option.splits prod.splits if_splits)
    (metis snd_conv)+

lemma net_fine: "cluster_fine pf k c \<Longrightarrow> length ds \<le> length (cl_net c) \<Longrightarrow> cluster_fine pf k (c\<lparr>cl_net := ds\<rparr>)"
  by (auto simp: cluster_fine_def elim!: broker_fine_mono)

text \<open>Asking for the membership or for a topic keeps the cluster in order.\<close>

lemma query_fine:
  assumes "cluster_fine pf k c" and "r = ClusterMetadata \<or> (\<exists>topic. r = DescribeTopic topic)"
  shows "cluster_fine pf k (snd (process_request pf i r c))"
proof -
  have "broker_fine pf k i n (snd (process_describe_topic topic b))" if "broker_fine pf k i n b" for n b topic
    using describe_fine [OF that] by (cases "process_describe_topic topic b") simp
  note d = at_broker_fine [OF assms(1) _ this]
  show ?thesis using assms(2)
  proof
    assume "r = ClusterMetadata"
    moreover obtain res c1 where c1: "cluster_info i c = (res, c1)" by fastforce
    moreover have "cluster_fine pf k c1"
      using at_broker_fine [OF assms(1), of i "\<lambda>b. (Ok (bk_metadata b), b)"] c1 by (simp add: cluster_info_def)
    ultimately show ?thesis by (cases res) auto
  next
    assume "\<exists>topic. r = DescribeTopic topic"
    then show ?thesis using d by (auto intro: d [OF prod.collapse [symmetric]])
  qed
qed

lemma client_query_fine:
  assumes "cluster_fine (ce_platform env) k c" and "r = ClusterMetadata \<or> (\<exists>topic. r = DescribeTopic topic)"
    and "client_request env i r c = (res, c')"
  shows "cluster_fine (ce_platform env) k c'"
proof (cases "fst (encode_request (ce_zstd env) r [])")
  case (Ok u)
  then have ex: "client_exchange env i r c = (res, c')" using assms(3) by (simp add: client_request_def)
  show ?thesis
  proof (cases "cl_net c")
    case Nil
    then show ?thesis using ex assms(1) by (simp add: client_exchange_def)
  next
    case (Cons d ds)
    have f: "cluster_fine (ce_platform env) k (c\<lparr>cl_net := ds\<rparr>)" using net_fine [OF assms(1)] Cons by simp
    from query_fine [OF this assms(2), of i] f ex Cons show ?thesis
      by (auto simp: client_exchange_def answer_request_def Let_def split: if_splits prod.splits outcome.splits option.splits)
  qed
qed (use assms in \<open>simp_all add: client_request_def\<close>)

lemma expect_Ok: "expect f m = (Ok x, c) \<longleftrightarrow> (\<exists>response. m = (Ok response, c) \<and> f response = Some x)"
  by (auto simp: expect_def step_bind_eq_Ok ok_or_eq_Ok)

lemma client_metadata_fine:
  "cluster_fine (ce_platform env) k c \<Longrightarrow> client_cluster_metadata env peer c = (Ok m, c') \<Longrightarrow>
     cluster_fine (ce_platform env) k c'"
  by (auto simp: client_cluster_metadata_def expect_Ok elim: client_query_fine)

lemma client_describe_fine:
  assumes "cluster_fine (ce_platform env) k c" and "client_describe_topic env peer topic c = (Ok t, c')"
  shows "cluster_fine (ce_platform env) k c'"
proof -
  obtain m c1 address response where a: "client_cluster_metadata env peer c = (Ok m, c1)"
    "client_request env address (DescribeTopic topic) c1 = (Ok response, c')"
    using assms(2) by (auto simp: client_describe_topic_def request_controller_def expect_Ok step_bind_eq_Ok)
  show ?thesis using client_query_fine [OF client_metadata_fine [OF assms(1) a(1)] _ a(2)] by simp
qed

section \<open>Acknowledgements\<close>

text \<open>A good answer to a produce request is the answer of \<open>process_produce\<close>.\<close>

lemma server_error_Ok: "server_error response = Ok x \<longleftrightarrow> response = x \<and> (\<forall>msg. x \<noteq> RError msg)"
  by (cases response) auto

lemma client_produce_served:
  assumes "client_request env i (Produce r) c = (Ok (RProduceAck ack), c')"
  shows "\<exists>ds. cl_net c = Delivered # ds \<and>
    process_produce (ce_platform env) i r (c\<lparr>cl_net := ds\<rparr>) = (Ok (RProduceAck ack), c')"
proof -
  have "client_exchange env i (Produce r) c = (Ok (RProduceAck ack), c')"
    using assms by (auto simp: client_request_def step_bind_eq_Ok)
  then obtain ds where ds: "cl_net c = Delivered # ds"
    "answer_request (ce_platform env) i (Produce r) (c\<lparr>cl_net := ds\<rparr>) = (Some (RProduceAck ack), c')"
    by (auto simp: client_exchange_def server_error_Ok Let_def split: list.splits if_splits prod.splits option.splits)
  then show ?thesis
    by (auto simp: answer_request_def elim: error_response.elims split: prod.splits outcome.splits)
qed

lemma route_produce_fine:
  assumes "cluster_fine (ce_platform env) k c" and "route_produce env peer m r c = (Ok (address, r'), c')"
  shows "cluster_fine (ce_platform env) k c' \<and> pr_topic r' = pr_topic r \<and> pr_key r' = pr_key r \<and>
    pr_payload r' = pr_payload r \<and> pr_ack_mode r' = pr_ack_mode r \<and> pr_producer r' = pr_producer r"
  using assms client_describe_fine [OF assms(1)]
  by (auto simp: route_produce_def step_bind_eq_Ok split: if_splits)

lemma produce_request_new_select:
  "produce_request_new topic key payload m producer = Ok r \<Longrightarrow> r = \<lparr>pr_topic = topic, pr_key = key,
     pr_payload = payload, pr_ack_mode = m, pr_producer = producer, pr_partition = None\<rparr>"
  by (auto simp: produce_request_new_def try_bind_eq_Ok)

lemma produce_ack_of_Some: "produce_ack_of response = Some ack \<longleftrightarrow> response = RProduceAck ack"
  by (cases response) auto

lemma process_produce_broker:
  "process_produce pf i r c = (Ok response, c') \<Longrightarrow> \<exists>b. cl_brokers c i = Some b"
  by (auto simp: process_produce_def step_bind_eq_Ok at_broker_Ok)

text \<open>C2: What the client library's answer to \<open>produce\<close> (the call for a single record) means: when it returns a partition and an offset
  for a record with durable acknowledgement, then a broker and replicas of that partition, together at least
  \<open>min_in_sync_replicas\<close> brokers, hold the same record at that position, whatever the routing asked of the brokers before.  For a call
  without a producer identity it has exactly the key and payload of the call; with an identity whose sequence number was
  used before it may be the record of the earlier call.\<close>

theorem client_produce_durable:
  assumes "cluster_fine (ce_platform env) k c"
    and "client_produce env peer topic key payload Durable producer c = (Ok ack, c')"
  shows "\<exists>leader b A x. cl_brokers c' leader = Some b \<and> leader \<in> A \<and> A \<subseteq> insert leader (replica_ids b (pa_partition ack)) \<and>
    k \<le> card A \<and> (producer = None \<longrightarrow> snd x = (if key = [] then None else Some key, payload)) \<and>
    (\<forall>i\<in>A. \<exists>b. cl_brokers c' i = Some b \<and>
      broker_has (ce_platform env) b topic (pa_partition ack) (pa_offset ack) x)"
proof -
  let ?pf = "ce_platform env"
  obtain m c1 r c2 address r' where s: "client_cluster_metadata env peer c = (Ok m, c1)"
    "produce_request_new topic key payload Durable producer = Ok r" "route_produce env peer m r c1 = (Ok (address, r'), c2)"
    "client_request env address (Produce r') c2 = (Ok (RProduceAck ack), c')"
    using assms(2)
    by (auto simp: client_produce_def step_bind_eq_Ok map_err_eq_Ok expect_Ok produce_ack_of_Some)
  have r': "cluster_fine ?pf k c2" "pr_topic r' = topic" "pr_key r' = key" "pr_payload r' = payload"
    "pr_ack_mode r' = Durable" "pr_producer r' = producer"
    using route_produce_fine [OF client_metadata_fine [OF assms(1) s(1)] s(3)] produce_request_new_select [OF s(2)]
    by simp_all
  obtain ds where ds: "cl_net c2 = Delivered # ds"
    "process_produce ?pf address r' (c2\<lparr>cl_net := ds\<rparr>) = (Ok (RProduceAck ack), c')"
    using client_produce_served [OF s(4)] by blast
  have fine: "cluster_fine ?pf k (c2\<lparr>cl_net := ds\<rparr>)" using net_fine [OF r'(1)] ds(1) by simp
  obtain b where b: "cl_brokers (c2\<lparr>cl_net := ds\<rparr>) address = Some b" using process_produce_broker [OF ds(2)] by blast
  with fine have k: "membership_fits b" "bk_min_in_sync_replicas b = k" by (auto simp: cluster_fine_def broker_fine_def)
  from durable_produce_holds [OF cluster_fine_ok [OF fine] b k(1) r'(5) ds(2)]
  obtain A x b' where h: "address \<in> A" "A \<subseteq> insert address (replica_ids b (pa_partition ack))"
    "bk_min_in_sync_replicas b \<le> card A" "cl_brokers c' address = Some b'" "replica_ids b' = replica_ids b"
    "\<forall>i\<in>A. \<exists>bi. cl_brokers c' i = Some bi \<and> broker_has ?pf bi (pr_topic r') (pa_partition ack) (pa_offset ack) x"
    "pr_producer r' = None \<longrightarrow> snd x = (if pr_key r' = [] then None else Some (pr_key r'), pr_payload r')"
    by (elim exE conjE) simp
  show ?thesis
    by (intro exI [of _ address] exI [of _ b'] exI [of _ A] exI [of _ x]) (use h k r' in simp)
qed

section \<open>A client of two brokers\<close>

definition sample_env :: client_env where
  "sample_env = \<lparr>ce_platform = sample_platform, ce_zstd = \<lparr>zstd_compress = Some, zstd_decompress = \<lambda>_. Some\<rparr>,
     ce_parses = \<lambda>_. True\<rparr>"

lemma client_request_delivered:
  assumes "fst (encode_request (ce_zstd env) r []) = Ok ()" and "cl_net c = Delivered # ds"
    and "process_request (ce_platform env) i r (c\<lparr>cl_net := ds\<rparr>) = (Ok response, c')"
    and "\<And>msg. response \<noteq> RError msg"
  shows "client_request env i r c = (Ok response, c')"
  using assms by (simp add: client_request_def client_exchange_def answer_request_def server_error_Ok)

lemma sample_requests_encode:
  "fst (encode_request Z ClusterMetadata []) = Ok ()" "fst (encode_request Z (DescribeTopic ''t'') []) = Ok ()"
  "fst (encode_request Z (Produce durable_request) []) = Ok ()"
proof -
  have "encode_string_request DESCRIBE_TOPIC [''t''] [] =
      (Ok 0, frame_of (DESCRIBE_TOPIC # concat (map string_bytes [''t''])))"
    by (simp add: encode_string_request_Ok string_bytes_def)
  then show "fst (encode_request Z (DescribeTopic ''t'') []) = Ok ()" by (simp add: validate_topic_def validate_size_def)
qed (simp_all add: encode_produce_def durable_request_def try_from_def Let_def)

theorem client_routing_agrees_witness:
  "\<exists>p < 3. client_partition byte_sum 3 (client_routing_key [1, 2] None) = Ok p \<and>
     (\<forall>w. choose_partition byte_sum 3 (produce_input \<lparr>pr_topic = ''t'', pr_key = [1, 2], pr_payload = [7],
        pr_ack_mode = Durable, pr_producer = None, pr_partition = None\<rparr>) w = (Ok p, w))"
  using client_routing_agrees [of 3 "\<lparr>pr_topic = ''t'', pr_key = [1, 2], pr_payload = [7], pr_ack_mode = Durable,
      pr_producer = None, pr_partition = None\<rparr>" "[1, 2]" "[\<lparr>br_key = [], br_payload = []\<rparr>]" byte_sum 0 "''t''"]
  by (auto simp: client_routing_key_def)

lemma two_brokers_net [simp]:
  "cl_net (two_brokers ds) = ds" "(two_brokers ds)\<lparr>cl_net := ds'\<rparr> = two_brokers ds'"
  "cl_brokers (two_brokers ds) 1 = Some (sample_broker 2 two_nodes 1 (fresh_log 1024 256))"
  by (simp_all add: two_brokers_def)

lemma two_brokers_metadata:
  "client_cluster_metadata sample_env 1 (two_brokers (Delivered # ds)) =
     (Ok \<lparr>cm_responding_broker_id = 1, cm_nodes = two_nodes\<rparr>, two_brokers ds)"
proof -
  have b: "cl_brokers (two_brokers ds) 1 = Some (sample_broker 2 two_nodes 1 (fresh_log 1024 256))" by simp
  have "process_request sample_platform 1 ClusterMetadata (two_brokers ds) =
      (Ok (RClusterMetadata \<lparr>cm_responding_broker_id = 1, cm_nodes = two_nodes\<rparr>), two_brokers ds)"
    by (simp add: cluster_info_def at_broker_pure [OF b] del: two_brokers_net(3)) (simp add: sample_broker_def)
  then show ?thesis
    using client_request_delivered [of sample_env ClusterMetadata "two_brokers (Delivered # ds)" ds 1] sample_requests_encode(1)
    by (simp add: client_cluster_metadata_def expect_Ok sample_env_def)
qed

lemma two_brokers_describe:
  "client_describe_topic sample_env 1 ''t'' (two_brokers (Delivered # Delivered # ds)) =
     (Ok \<lparr>tm_topic = ''t'', tm_partitions = 1, tm_leaders = [1], tm_leader_epochs = [0], tm_high_watermarks = [0]\<rparr>,
      two_brokers ds)"
proof -
  let ?b = "sample_broker 2 two_nodes 1 (fresh_log 1024 256)"
  let ?t = "\<lparr>tm_topic = ''t'', tm_partitions = 1, tm_leaders = [1], tm_leader_epochs = [0], tm_high_watermarks = [0]\<rparr>"
  have "partition_range 1 = [0]" by (simp add: partition_range_def)
  then have "topic_leaders ''t'' 1 (bk_leadership ?b) = (Ok [sample_entry_of 1], bk_leadership ?b)"
    by (simp add: topic_leaders_def ensure_topic_def sample_broker_def)
  then have "process_describe_topic ''t'' ?b = (Ok (RTopics [?t]), ?b)"
    by (simp add: process_describe_topic_def handle_describe_topic_def handle_list_topics_def on_storage_def
        storage_topic_metadata_def bare_topic_def with_leaders_def on_leadership_def sample_broker_def sample_entry_of_def)
  then have "process_request sample_platform 1 (DescribeTopic ''t'') (two_brokers ds) = (Ok (RTopics [?t]), two_brokers ds)"
    by (simp add: at_broker_def set_broker_same)
  then have "client_request sample_env 1 (DescribeTopic ''t'') (two_brokers (Delivered # ds)) = (Ok (RTopics [?t]), two_brokers ds)"
    using client_request_delivered [of sample_env "DescribeTopic ''t''" "two_brokers (Delivered # ds)" ds 1]
      sample_requests_encode(2) by (simp add: sample_env_def)
  moreover have "controller_address sample_env \<lparr>cm_responding_broker_id = 1, cm_nodes = two_nodes\<rparr> = Ok 1"
    by (simp add: controller_address_def node_address_def sample_env_def two_nodes_def sample_cluster_def)
  ultimately show ?thesis
    by (simp add: client_describe_topic_def request_controller_def two_brokers_metadata expect_Ok)
qed

lemma two_brokers_client_produce:
  "\<exists>c'. client_produce sample_env 1 ''t'' [] [7] Durable None (two_brokers (replicate 6 Delivered)) =
     (Ok \<lparr>pa_partition = 0, pa_offset = 0\<rparr>, c')"
proof -
  let ?m = "\<lparr>cm_responding_broker_id = 1, cm_nodes = two_nodes\<rparr>" and ?r = "durable_request\<lparr>pr_partition := None\<rparr>"
  obtain c' where p: "process_produce sample_platform 1 durable_request (two_brokers [Delivered, Delivered]) =
      (Ok (RProduceAck \<lparr>pa_partition = 0, pa_offset = 0\<rparr>), c')" using two_brokers_produce by blast
  have "client_request sample_env 1 (Produce durable_request) (two_brokers [Delivered, Delivered, Delivered]) =
      (Ok (RProduceAck \<lparr>pa_partition = 0, pa_offset = 0\<rparr>), c')"
    by (rule client_request_delivered [where ds = "[Delivered, Delivered]"])
       (use p sample_requests_encode(3) in \<open>simp_all add: sample_env_def\<close>)
  moreover have "route_produce sample_env 1 ?m ?r (two_brokers [Delivered, Delivered, Delivered, Delivered, Delivered]) =
      (Ok (1, durable_request), two_brokers [Delivered, Delivered, Delivered])"
    by (simp add: route_produce_def durable_request_def two_brokers_describe client_partition_def client_routing_key_def
        topic_leader_address_def)
       (simp add: two_nodes_def sample_cluster_def node_address_def sample_env_def)
  moreover have "produce_request_new ''t'' [] [7] Durable None = Ok ?r"
    by (simp add: produce_request_new_def validate_topic_def validate_size_def durable_request_def)
  moreover have "replicate 6 Delivered = [Delivered, Delivered, Delivered, Delivered, Delivered, Delivered]"
    by (simp add: numeral_eq_Suc)
  ultimately show ?thesis by (simp add: client_produce_def two_brokers_metadata expect_Ok)
qed

theorem client_produce_durable_witness:
  "\<exists>c' leader b A x. client_produce sample_env 1 ''t'' [] [7] Durable None (two_brokers (replicate 6 Delivered)) =
      (Ok \<lparr>pa_partition = 0, pa_offset = 0\<rparr>, c') \<and> cl_brokers c' leader = Some b \<and>
    A \<subseteq> insert leader (replica_ids b 0) \<and> 2 \<le> card A \<and> snd x = (None, [7]) \<and>
    (\<forall>i\<in>A. \<exists>b. cl_brokers c' i = Some b \<and> broker_has sample_platform b ''t'' 0 0 x)"
proof -
  have "broker_fine sample_platform 2 i 7 (sample_broker 2 two_nodes i (fresh_log 1024 256))" for i
  proof -
    have cap: "7 \<le> log_capacity" using log_capacity_pos by simp
    note ok = sample_broker_ok(1) [OF fresh_log_sample(1) fresh_log_sample(2) cap]
    then show ?thesis
      by (simp add: broker_fine_def) (auto simp: sample_broker_def entries_keyed_def sample_entry_of_def
          membership_fits_def two_nodes_def sample_cluster_def split: if_splits)
  qed
  then have "cluster_fine sample_platform 2 (two_brokers (replicate 6 Delivered))"
    by (auto simp: cluster_fine_def two_brokers_def split: if_splits)
  moreover obtain c' where "client_produce sample_env 1 ''t'' [] [7] Durable None (two_brokers (replicate 6 Delivered)) =
      (Ok \<lparr>pa_partition = 0, pa_offset = 0\<rparr>, c')" using two_brokers_client_produce by blast
  ultimately have p: "client_produce sample_env 1 ''t'' [] [7] Durable None (two_brokers (replicate 6 Delivered)) =
      (Ok \<lparr>pa_partition = 0, pa_offset = 0\<rparr>, c')" and f: "cluster_fine (ce_platform sample_env) 2 (two_brokers (replicate 6 Delivered))"
    by (simp_all add: sample_env_def)
  from client_produce_durable [OF f p] obtain leader b A x where
    "cl_brokers c' leader = Some b" "A \<subseteq> insert leader (replica_ids b 0)" "2 \<le> card A" "snd x = (None, [7])"
    "\<forall>i\<in>A. \<exists>b. cl_brokers c' i = Some b \<and> broker_has sample_platform b ''t'' 0 0 x"
    by (auto simp: sample_env_def)
  with p show ?thesis by blast
qed

end
