(* ===== verification/Retry.thy ===== *)
theory Retry
  imports Client
begin

text \<open>
  Retries of the command-line consumer (\<open>bin/sevlamq-cli/src/commands/retry.rs\<close>): the envelope that carries a
  failed message to a retry topic or to the dead-letter topic, the handler process, and the
  routing of a failure.  The handler program is a parameter: what it does with a payload is its exit.
\<close>

section \<open>Errors and state\<close>

datatype cli_error =
    CliClient client_error
  | CliProtocol protocol_error
  | CliOffsetOverflow
  | AttemptOverflow
  | RetryEnvelopeTooLarge
  | InvalidRetryEnvelope
  | InvalidSystemTime
  | MissingHandlerStdin
  | CliIo

text \<open>How a handler process ends: with a status (its text, and whether it is a success) and what it
  wrote to its standard error, not within the time limit, or not at all for an I/O error.\<close>

datatype handler_exit = Exited bool string bytes | TimedOut | HandlerIo

text \<open>What the outside does while one record is handled: the clock when the consumer waits for the record
  to become available, the handler program, and the clock when a failure is published.  Each record has its own
  moment, so clock and handler may change from one to the next.\<close>

record moment =
  mo_clock :: "nat option"
  mo_handler :: "string \<Rightarrow> bytes \<Rightarrow> handler_exit"
  mo_later :: "nat option"

record cli_env =
  cx_client :: client_env
  cx_moment :: "nat \<Rightarrow> moment"

record message_context =
  mc_original_topic :: string
  mc_original_partition :: u32
  mc_original_offset :: u64
  mc_original_timestamp_ms :: u64
  mc_attempt :: u32
  mc_available_at_ms :: u64
  mc_key :: bytes
  mc_payload :: bytes

abbreviation MAGIC :: bytes where "MAGIC \<equiv> [83, 86, 82, 49]"
abbreviation MAX_ERROR_BYTES :: nat where "MAX_ERROR_BYTES \<equiv> 4096"

section \<open>The envelope\<close>

definition encode_envelope ::
    "message_context \<Rightarrow> u32 \<Rightarrow> u64 \<Rightarrow> string \<Rightarrow> (bytes, cli_error) outcome" where
  "encode_envelope ctx attempt available_at_ms error =
    (let error = take MAX_ERROR_BYTES (as_bytes error) in
     try_bind (ok_or (try_from (length (mc_original_topic ctx))) RetryEnvelopeTooLarge) (\<lambda>topic_len.
     try_bind (ok_or (try_from (length error)) RetryEnvelopeTooLarge) (\<lambda>error_len.
     try_bind (ok_or (try_from (length (mc_payload ctx))) RetryEnvelopeTooLarge) (\<lambda>payload_len.
     try_bind (ok_or (try_from (length (mc_key ctx))) RetryEnvelopeTooLarge) (\<lambda>key_len.
     let encoded = MAGIC @ put_u32 attempt @ put_u64 available_at_ms @ put_u32 (mc_original_partition ctx)
       @ put_u64 (mc_original_offset ctx) @ put_u64 (mc_original_timestamp_ms ctx) @ put_u16 topic_len
       @ put_u16 error_len @ put_u32 key_len @ put_u32 payload_len @ as_bytes (mc_original_topic ctx) @ error
       @ mc_key ctx @ mc_payload ctx in
     if MAX_MESSAGE_SIZE < length encoded then Err RetryEnvelopeTooLarge else Ok encoded)))))"

text \<open>The lengths in the header are at most 16 and 32 bits wide, so their sum fits.\<close>

definition decode_envelope :: "fetched_record \<Rightarrow> (message_context, cli_error) outcome" where
  "decode_envelope r =
    (let encoded = fd_value r in
     if length encoded < 48 then Err InvalidRetryEnvelope
     else
     try_bind (split_to (length MAGIC) encoded) (\<lambda>(_, encoded).
     try_bind (get_u32 encoded) (\<lambda>(attempt, encoded).
     try_bind (get_u64 encoded) (\<lambda>(available_at_ms, encoded).
     try_bind (get_u32 encoded) (\<lambda>(original_partition, encoded).
     try_bind (get_u64 encoded) (\<lambda>(original_offset, encoded).
     try_bind (get_u64 encoded) (\<lambda>(original_timestamp_ms, encoded).
     try_bind (get_u16 encoded) (\<lambda>(topic_len, encoded).
     try_bind (get_u16 encoded) (\<lambda>(error_len, encoded).
     try_bind (get_u32 encoded) (\<lambda>(key_len, encoded).
     try_bind (get_u32 encoded) (\<lambda>(payload_len, encoded).
     if length encoded \<noteq> unat topic_len + unat error_len + unat key_len + unat payload_len
     then Err InvalidRetryEnvelope
     else
     try_bind (split_to (unat topic_len) encoded) (\<lambda>(topic, encoded).
     try_bind (ok_or (from_utf8 topic) InvalidRetryEnvelope) (\<lambda>original_topic.
     try_bind (split_to (unat error_len) encoded) (\<lambda>(_, encoded).
     try_bind (split_to (unat key_len) encoded) (\<lambda>(key, encoded).
     try_bind (split_to (unat payload_len) encoded) (\<lambda>(payload, _).
     Ok \<lparr>mc_original_topic = original_topic, mc_original_partition = original_partition,
       mc_original_offset = original_offset, mc_original_timestamp_ms = original_timestamp_ms,
       mc_attempt = attempt, mc_available_at_ms = available_at_ms, mc_key = key, mc_payload = payload\<rparr>))))))))))))))))"

definition message_context_of :: "string \<Rightarrow> u32 \<Rightarrow> fetched_record \<Rightarrow> (message_context, cli_error) outcome" where
  "message_context_of consumed_topic part r =
    (if take (length MAGIC) (fd_value r) \<noteq> MAGIC then
       Ok \<lparr>mc_original_topic = consumed_topic, mc_original_partition = part, mc_original_offset = fd_offset r,
         mc_original_timestamp_ms = fd_timestamp_ms r, mc_attempt = 0, mc_available_at_ms = 0,
         mc_key = (case fd_key r of None \<Rightarrow> [] | Some key \<Rightarrow> key), mc_payload = fd_value r\<rparr>
     else decode_envelope r)"

section \<open>Time and names\<close>

definition now_ms :: "nat option \<Rightarrow> (u64, cli_error) outcome" where
  "now_ms clock = try_bind (ok_or clock InvalidSystemTime) (\<lambda>ms. ok_or (try_from ms) InvalidSystemTime)"

text \<open>Waiting changes nothing but the time; only the clock can fail.\<close>

definition wait_until_available :: "nat option \<Rightarrow> message_context \<Rightarrow> (unit, cli_error) outcome" where
  "wait_until_available clock ctx = map_ok (\<lambda>_. ()) (now_ms clock)"

definition format_delay :: "u64 \<Rightarrow> string" where
  "format_delay delay_ms =
    (if unat delay_ms mod 1000 = 0 then show_nat (unat delay_ms div 1000) @ ''s''
     else show_nat (unat delay_ms) @ ''ms'')"

definition hex_digit :: "nat \<Rightarrow> char" where
  "hex_digit d = (if d < 10 then char_of (48 + d) else char_of (87 + d))"

fun hex_digits :: "nat \<Rightarrow> nat \<Rightarrow> string" where
  "hex_digits 0 n = []"
| "hex_digits (Suc k) n = hex_digits k (n div 16) @ [hex_digit (n mod 16)]"

text \<open>The hasher is fed in pieces, which hashes their concatenation.\<close>

definition retry_producer_id :: "(bytes \<Rightarrow> u32) \<Rightarrow> string \<Rightarrow> message_context \<Rightarrow> u32 \<Rightarrow> string \<Rightarrow> string" where
  "retry_producer_id hash grp ctx attempt destination =
    ''retry-'' @ hex_digits 8 (unat (hash (as_bytes grp @ as_bytes (mc_original_topic ctx)
      @ put_u32 (mc_original_partition ctx) @ put_u64 (mc_original_offset ctx) @ put_u32 attempt
      @ as_bytes destination))) @ ''-'' @ show_nat (unat attempt)"

section \<open>The handler\<close>

text \<open>\<open>String::from_utf8_lossy\<close>: a maximal invalid sequence becomes U+FFFD.\<close>

abbreviation replacement :: bytes where "replacement \<equiv> [239, 191, 189]"

definition second_of_three :: "nat \<Rightarrow> u8 \<Rightarrow> bool" where
  "second_of_three x b \<longleftrightarrow> continuation b \<and> (x = 224 \<longrightarrow> 160 \<le> unat b) \<and> (x = 237 \<longrightarrow> unat b < 160)"

definition second_of_four :: "nat \<Rightarrow> u8 \<Rightarrow> bool" where
  "second_of_four x b \<longleftrightarrow> continuation b \<and> (x = 240 \<longrightarrow> 144 \<le> unat b) \<and> (x = 244 \<longrightarrow> unat b < 144)"

fun utf8_lossy :: "bytes \<Rightarrow> bytes" where
  "utf8_lossy [] = []"
| "utf8_lossy (b # bs) =
    (let x = unat b in
     if x < 128 then b # utf8_lossy bs
     else if 194 \<le> x \<and> x < 224 then
       (case bs of b1 # r \<Rightarrow> if continuation b1 then b # b1 # utf8_lossy r else replacement @ utf8_lossy bs
        | [] \<Rightarrow> replacement)
     else if 224 \<le> x \<and> x < 240 then
       (case bs of
          b1 # r \<Rightarrow>
            if second_of_three x b1 then
              (case r of b2 # r' \<Rightarrow> if continuation b2 then b # b1 # b2 # utf8_lossy r' else replacement @ utf8_lossy r
               | [] \<Rightarrow> replacement)
            else replacement @ utf8_lossy bs
        | [] \<Rightarrow> replacement)
     else if 240 \<le> x \<and> x < 245 then
       (case bs of
          b1 # r \<Rightarrow>
            if second_of_four x b1 then
              (case r of
                 b2 # r' \<Rightarrow>
                   if continuation b2 then
                     (case r' of
                        b3 # r'' \<Rightarrow> if continuation b3 then b # b1 # b2 # b3 # utf8_lossy r'' else replacement @ utf8_lossy r'
                      | [] \<Rightarrow> replacement)
                   else replacement @ utf8_lossy r
               | [] \<Rightarrow> replacement)
            else replacement @ utf8_lossy bs
        | [] \<Rightarrow> replacement)
     else replacement @ utf8_lossy bs)"

lemma replacement_valid: "utf8_valid (replacement @ bs) = utf8_valid bs"
  by (simp add: continuation_def)

lemma utf8_valid_heads:
  "unat b < 128 \<Longrightarrow> utf8_valid (b # r) = utf8_valid r"
  "194 \<le> unat b \<Longrightarrow> unat b < 224 \<Longrightarrow> continuation b1 \<Longrightarrow> utf8_valid (b # b1 # r) = utf8_valid r"
  "224 \<le> unat b \<Longrightarrow> unat b < 240 \<Longrightarrow> second_of_three (unat b) b1 \<Longrightarrow> continuation b2 \<Longrightarrow>
     utf8_valid (b # b1 # b2 # r) = utf8_valid r"
  "240 \<le> unat b \<Longrightarrow> unat b < 245 \<Longrightarrow> second_of_four (unat b) b1 \<Longrightarrow> continuation b2 \<Longrightarrow> continuation b3 \<Longrightarrow>
     utf8_valid (b # b1 # b2 # b3 # r) = utf8_valid r"
  by (simp_all add: second_of_three_def second_of_four_def)

lemma utf8_lossy_valid: "utf8_valid (utf8_lossy bs)"
proof (induction bs rule: length_induct)
  case (1 bs)
  show ?case
  proof (cases bs)
    case (Cons b r)
    have IH: "utf8_valid (utf8_lossy cs)" if "length cs \<le> length r" for cs using 1 that Cons by auto
    have v: "utf8_valid replacement" using replacement_valid [of "[]"] by simp
    show ?thesis
      unfolding Cons utf8_lossy.simps(2) Let_def
      by (simp add: IH v replacement_valid utf8_valid_heads
          del: utf8_lossy.simps utf8_valid.simps append.simps split: list.split)
  qed simp
qed

lemma utf8_valid_cases:
  assumes "utf8_valid (b # bs)"
  obtains "unat b < 128" "utf8_valid bs"
  | b1 r where "194 \<le> unat b" "unat b < 224" "bs = b1 # r" "continuation b1" "utf8_valid r"
  | b1 b2 r where "224 \<le> unat b" "unat b < 240" "bs = b1 # b2 # r" "second_of_three (unat b) b1" "continuation b2" "utf8_valid r"
  | b1 b2 b3 r where "240 \<le> unat b" "unat b < 245" "bs = b1 # b2 # b3 # r" "second_of_four (unat b) b1"
      "continuation b2" "continuation b3" "utf8_valid r"
  using assms unfolding utf8_valid.simps(2) Let_def second_of_three_def second_of_four_def
  by (simp del: utf8_valid.simps split: if_splits list.splits)

lemma utf8_lossy_id: "utf8_valid bs \<Longrightarrow> utf8_lossy bs = bs"
proof (induction bs rule: length_induct)
  case (1 bs)
  show ?case
  proof (cases bs)
    case (Cons b r)
    have IH: "utf8_lossy cs = cs" if "utf8_valid cs" "length cs \<le> length r" for cs using 1 that Cons by auto
    have "utf8_valid (b # r)" using 1(2) Cons by simp
    then show ?thesis
      unfolding Cons utf8_lossy.simps(2) Let_def
      by (cases rule: utf8_valid_cases) (simp_all add: IH del: utf8_lossy.simps utf8_valid.simps)
  qed simp
qed

text \<open>\<open>Inl\<close> is the handler's failure, with its text; of the white space that \<open>trim\<close> removes from its ends,
  only ASCII is modelled.\<close>

definition run_handler ::
    "(string \<Rightarrow> bytes \<Rightarrow> handler_exit) \<Rightarrow> string option \<Rightarrow> u64 \<Rightarrow> bytes \<Rightarrow> (string + unit, cli_error) outcome" where
  "run_handler run handler timeout_ms payload =
    (case handler of
       None \<Rightarrow> Ok (Inr ())
     | Some program \<Rightarrow>
         (case run program payload of
            HandlerIo \<Rightarrow> Err CliIo
          | TimedOut \<Rightarrow> Ok (Inl (''handler timed out after '' @ show_nat (unat timeout_ms) @ ''ms''))
          | Exited success status stderr \<Rightarrow>
              if success then Ok (Inr ())
              else let error = trim (map char_of_byte (utf8_lossy (take MAX_ERROR_BYTES stderr))) in
                Ok (Inl (if error = [] then ''handler exited with status '' @ status else error))))"

section \<open>Routing a failure\<close>

text \<open>The topic, the attempt and the time of the next try: the retry topic of this attempt, or the
  dead-letter topic when the attempts are used up.\<close>

definition retry_destination ::
    "nat option \<Rightarrow> message_context \<Rightarrow> u64 list \<Rightarrow> (string \<times> u32 \<times> u64, cli_error) outcome" where
  "retry_destination clock ctx retry_delays_ms =
    (if unat (mc_attempt ctx) < length retry_delays_ms then
       let delay = retry_delays_ms ! unat (mc_attempt ctx) in
       try_bind (ok_or (checked_add (mc_attempt ctx) 1) AttemptOverflow) (\<lambda>attempt.
       try_bind (now_ms clock) (\<lambda>now.
       Ok (mc_original_topic ctx @ ''.retry.'' @ format_delay delay, attempt, saturating_add now delay)))
     else
       try_bind (now_ms clock) (\<lambda>now. Ok (mc_original_topic ctx @ ''.DLQ'', mc_attempt ctx, now)))"

text \<open>What a failure publishes: the topic, the key that routes it, the envelope, and an identity that makes the
  publish of one failure idempotent.\<close>

definition failure_message ::
    "(bytes \<Rightarrow> u32) \<Rightarrow> nat option \<Rightarrow> string \<Rightarrow> message_context \<Rightarrow> string \<Rightarrow> u64 list
     \<Rightarrow> (string \<times> bytes \<times> bytes \<times> producer_identity, cli_error) outcome" where
  "failure_message hash clock grp ctx error retry_delays_ms =
    try_bind (retry_destination clock ctx retry_delays_ms) (\<lambda>(topic, next_attempt, available_at_ms).
    try_bind (encode_envelope ctx next_attempt available_at_ms error) (\<lambda>envelope.
    let producer_id = retry_producer_id hash grp ctx next_attempt topic;
        routing_key = (if mc_key ctx = [] then as_bytes producer_id else mc_key ctx) in
    Ok (topic, routing_key, envelope, \<lparr>pi_id = producer_id, pi_sequence = 0\<rparr>)))"

definition publish_failure ::
    "client_env \<Rightarrow> nat option \<Rightarrow> u32 \<Rightarrow> string \<Rightarrow> message_context \<Rightarrow> string \<Rightarrow> u64 list \<Rightarrow> cluster
     \<Rightarrow> (string, cli_error) outcome \<times> cluster" where
  "publish_failure env clock peer grp ctx error retry_delays_ms c =
    step_bind (failure_message (pf_hash (ce_platform env)) clock grp ctx error retry_delays_ms, c)
      (\<lambda>(topic, routing_key, envelope, producer) c.
    (case client_produce env peer topic routing_key envelope Durable (Some producer) c of
       (res, c) \<Rightarrow> step_bind (map_err CliClient res, c) (\<lambda>_ c. (Ok topic, c))))"

section \<open>The envelope carries the message\<close>

definition envelope_fits :: "message_context \<Rightarrow> string \<Rightarrow> bool" where
  "envelope_fits ctx error \<longleftrightarrow> length (mc_original_topic ctx) < 2 ^ 16 \<and>
     48 + length (mc_original_topic ctx) + min MAX_ERROR_BYTES (length error) + length (mc_key ctx)
       + length (mc_payload ctx) \<le> MAX_MESSAGE_SIZE"

lemma encode_envelope_fits:
  "envelope_fits ctx error \<Longrightarrow> \<exists>bs. encode_envelope ctx attempt at error = Ok bs"
  by (auto simp: envelope_fits_def encode_envelope_def try_from_def Let_def)

lemma envelope_roundtrip:
  assumes "encode_envelope ctx attempt at error = Ok bs" and "utf8_string (mc_original_topic ctx)" and "fd_value r = bs"
  shows "message_context_of topic part r = Ok (ctx\<lparr>mc_attempt := attempt, mc_available_at_ms := at\<rparr>)"
proof -
  define err where "err = take MAX_ERROR_BYTES (as_bytes error)"
  let ?t = "as_bytes (mc_original_topic ctx)" and ?k = "mc_key ctx" and ?p = "mc_payload ctx"
  define tail where "tail = ?t @ err @ ?k @ ?p"
  have len: "length (mc_original_topic ctx) < 65536" "length err < 65536" "length ?p < 4294967296" "length ?k < 4294967296"
    and bs: "bs = MAGIC @ put_u32 attempt @ put_u64 at @ put_u32 (mc_original_partition ctx)
       @ put_u64 (mc_original_offset ctx) @ put_u64 (mc_original_timestamp_ms ctx)
       @ put_u16 (word_of_nat (length (mc_original_topic ctx))) @ put_u16 (word_of_nat (length err))
       @ put_u32 (word_of_nat (length ?k)) @ put_u32 (word_of_nat (length ?p)) @ tail"
    using assms(1) by (auto simp: encode_envelope_def try_bind_eq_Ok ok_or_eq_Ok try_from_def Let_def err_def tail_def
        split: if_splits)
  have u: "unat (word_of_nat (length (mc_original_topic ctx)) :: u16) = length (mc_original_topic ctx)"
    "unat (word_of_nat (length err) :: u16) = length err"
    "unat (word_of_nat (length ?k) :: u32) = length ?k" "unat (word_of_nat (length ?p) :: u32) = length ?p"
    using len by (simp_all add: unat_word_of_nat_small)
  have sp: "split_to (length MAGIC) (MAGIC @ x) = Ok (MAGIC, x)" for x by (rule split_to_append) simp
  show ?thesis
    using assms(2,3) unfolding message_context_of_def decode_envelope_def bs
    by (simp add: sp u tail_def del: append.simps)
qed

lemma decode_envelope_total: "decode_envelope r \<noteq> Panic"
  by (auto simp: decode_envelope_def try_bind_Panic_iff Let_def split: if_splits dest!: get_length)

section \<open>Retries end\<close>

text \<open>One failed handling of a message: the clock and the error when the failure is published, the cluster as the client then finds
  it, and the record by which the next consumer meets the message, but for its value.\<close>

record failed_attempt =
  fa_clock :: "nat option"
  fa_error :: string
  fa_cluster :: cluster
  fa_partition :: u32
  fa_fetched :: fetched_record

text \<open>The topics a message goes through when its handler fails again and again, as in \<open>process_record\<close>: each failure is published, and
  the next consumer decodes its context from a record that carries the published envelope.\<close>

fun failure_path ::
    "client_env \<Rightarrow> u32 \<Rightarrow> string \<Rightarrow> u64 list \<Rightarrow> failed_attempt list \<Rightarrow> message_context \<Rightarrow> (string list, cli_error) outcome" where
  "failure_path env peer grp delays [] ctx = Ok []"
| "failure_path env peer grp delays (a # attempts) ctx =
    try_bind (fst (publish_failure env (fa_clock a) peer grp ctx (fa_error a) delays (fa_cluster a))) (\<lambda>topic.
    try_bind (failure_message (pf_hash (ce_platform env)) (fa_clock a) grp ctx (fa_error a) delays) (\<lambda>(_, _, envelope, _).
    try_bind (message_context_of topic (fa_partition a) ((fa_fetched a)\<lparr>fd_value := envelope\<rparr>)) (\<lambda>ctx.
    map_ok (Cons topic) (failure_path env peer grp delays attempts ctx))))"

text \<open>The publish of the \<open>k\<close>-th failure of a message.\<close>

definition published ::
    "client_env \<Rightarrow> u32 \<Rightarrow> string \<Rightarrow> u64 list \<Rightarrow> failed_attempt \<Rightarrow> message_context \<Rightarrow> nat \<Rightarrow> (string, cli_error) outcome" where
  "published env peer grp delays a ctx k =
    fst (publish_failure env (fa_clock a) peer grp (ctx\<lparr>mc_attempt := word_of_nat k\<rparr>) (fa_error a) delays (fa_cluster a))"

definition retry_route :: "string \<Rightarrow> u64 list \<Rightarrow> string list" where
  "retry_route topic delays = map (\<lambda>d. topic @ ''.retry.'' @ format_delay d) delays @ [topic @ ''.DLQ'']"

definition clock_works :: "nat option \<Rightarrow> bool" where
  "clock_works clock \<longleftrightarrow> (\<exists>now. now_ms clock = Ok now)"

definition attempt_fine :: "message_context \<Rightarrow> failed_attempt \<Rightarrow> bool" where
  "attempt_fine ctx a \<longleftrightarrow> clock_works (fa_clock a) \<and> envelope_fits ctx (fa_error a)"

lemma retry_route_nth:
  "k < length delays \<Longrightarrow> retry_route topic delays ! k = topic @ ''.retry.'' @ format_delay (delays ! k)"
  "retry_route topic delays ! length delays = topic @ ''.DLQ''"
  "length (retry_route topic delays) = Suc (length delays)"
  by (simp_all add: retry_route_def nth_append)

lemma attempt_fine_cong [simp]: "attempt_fine (ctx\<lparr>mc_attempt := n, mc_available_at_ms := at\<rparr>) a = attempt_fine ctx a"
  "attempt_fine (ctx\<lparr>mc_attempt := n\<rparr>) a = attempt_fine ctx a"
  by (simp_all add: attempt_fine_def envelope_fits_def)

text \<open>When the message became available has no part in what is published.\<close>

lemma publish_available [simp]:
  "failure_message hash clock grp (ctx\<lparr>mc_available_at_ms := at\<rparr>) error delays = failure_message hash clock grp ctx error delays"
  "publish_failure env clock peer grp (ctx\<lparr>mc_available_at_ms := at\<rparr>) error delays c =
     publish_failure env clock peer grp ctx error delays c"
proof -
  show "failure_message hash clock grp (ctx\<lparr>mc_available_at_ms := at\<rparr>) error delays = failure_message hash clock grp ctx error delays" for hash
  proof -
    have "retry_destination clock (ctx\<lparr>mc_available_at_ms := at\<rparr>) delays = retry_destination clock ctx delays"
      "encode_envelope (ctx\<lparr>mc_available_at_ms := at\<rparr>) n t error = encode_envelope ctx n t error"
      "retry_producer_id hash grp (ctx\<lparr>mc_available_at_ms := at\<rparr>) n topic = retry_producer_id hash grp ctx n topic" for n t topic
      by (simp_all add: retry_destination_def encode_envelope_def retry_producer_id_def)
    then show ?thesis by (simp add: failure_message_def Let_def cong: if_cong)
  qed
  then show "publish_failure env clock peer grp (ctx\<lparr>mc_available_at_ms := at\<rparr>) error delays c =
     publish_failure env clock peer grp ctx error delays c"
    by (simp add: publish_failure_def)
qed

text \<open>The \<open>k\<close>-th failure goes to the \<open>k\<close>-th topic of the route, and its envelope is decoded to the message it came from.\<close>

lemma failure_message_at:
  assumes "k \<le> length delays" and "length delays < 2 ^ 32" and "attempt_fine ctx a" and "utf8_string (mc_original_topic ctx)"
  obtains key envelope producer at where
    "failure_message hash (fa_clock a) grp (ctx\<lparr>mc_attempt := word_of_nat k\<rparr>) (fa_error a) delays =
       Ok (retry_route (mc_original_topic ctx) delays ! k, key, envelope, producer)"
    "\<And>topic part r. fd_value r = envelope \<Longrightarrow> message_context_of topic part r =
       Ok (ctx\<lparr>mc_attempt := word_of_nat (min (Suc k) (length delays)), mc_available_at_ms := at\<rparr>)"
proof -
  let ?ctx = "ctx\<lparr>mc_attempt := word_of_nat k\<rparr>" and ?n = "word_of_nat (min (Suc k) (length delays)) :: u32"
  have u: "unat (word_of_nat k :: u32) = k" using assms(1,2) by (simp add: unat_word_of_nat_small)
  obtain now where now: "now_ms (fa_clock a) = Ok now" using assms(3) by (auto simp: attempt_fine_def clock_works_def)
  obtain at where at: "retry_destination (fa_clock a) ?ctx delays = Ok (retry_route (mc_original_topic ctx) delays ! k, ?n, at)"
  proof (cases "k < length delays")
    case True
    have "checked_add (mc_attempt ?ctx) 1 = Some (mc_attempt ?ctx + 1)"
      using True assms(2) by (simp add: checked_add_def u)
    moreover have "mc_attempt ?ctx + 1 = ?n" using True by (simp add: min_absorb1 add.commute)
    ultimately have "retry_destination (fa_clock a) ?ctx delays =
        Ok (retry_route (mc_original_topic ctx) delays ! k, ?n, saturating_add now (delays ! k))"
      using True now u by (simp add: retry_destination_def retry_route_nth Let_def add.commute)
    then show thesis by (rule that)
  next
    case False
    with assms(1) have "k = length delays" by simp
    with now u have "retry_destination (fa_clock a) ?ctx delays = Ok (retry_route (mc_original_topic ctx) delays ! k, ?n, now)"
      by (simp add: retry_destination_def retry_route_nth)
    then show thesis by (rule that)
  qed
  have "envelope_fits ?ctx (fa_error a)" using assms(3) by (simp add: attempt_fine_def envelope_fits_def)
  then obtain bs where bs: "encode_envelope ?ctx ?n at (fa_error a) = Ok bs" using encode_envelope_fits by blast
  have "message_context_of topic part r = Ok (ctx\<lparr>mc_attempt := ?n, mc_available_at_ms := at\<rparr>)" if "fd_value r = bs" for topic part r
    using envelope_roundtrip [OF bs _ that] assms(4) by simp
  then show thesis using that at bs by (simp add: failure_message_def Let_def)
qed

lemma failure_path_step:
  assumes "k \<le> length delays" and "length delays < 2 ^ 32" and "attempt_fine ctx a" and "utf8_string (mc_original_topic ctx)"
    and "mc_attempt ctx = word_of_nat k"
  obtains at where "failure_path env peer grp delays (a # attempts) ctx =
    try_bind (published env peer grp delays a ctx k) (\<lambda>topic. map_ok (Cons topic) (failure_path env peer grp delays attempts
      (ctx\<lparr>mc_attempt := word_of_nat (min (Suc k) (length delays)), mc_available_at_ms := at\<rparr>)))"
proof -
  obtain key envelope producer at where m:
    "failure_message (pf_hash (ce_platform env)) (fa_clock a) grp (ctx\<lparr>mc_attempt := word_of_nat k\<rparr>) (fa_error a) delays =
       Ok (retry_route (mc_original_topic ctx) delays ! k, key, envelope, producer)"
    "\<And>topic part r. fd_value r = envelope \<Longrightarrow> message_context_of topic part r =
       Ok (ctx\<lparr>mc_attempt := word_of_nat (min (Suc k) (length delays)), mc_available_at_ms := at\<rparr>)"
    using failure_message_at [OF assms(1-4), of "pf_hash (ce_platform env)" grp] by blast
  have "ctx\<lparr>mc_attempt := word_of_nat k\<rparr> = ctx" using assms(5) by simp
  with m that [of at] show thesis
    by (cases "published env peer grp delays a ctx k") (simp_all add: published_def)
qed

lemma published_cong [simp]:
  "published env peer grp delays a (ctx\<lparr>mc_attempt := n, mc_available_at_ms := at\<rparr>) k = published env peer grp delays a ctx k"
proof -
  have "ctx\<lparr>mc_attempt := n, mc_available_at_ms := at\<rparr>\<lparr>mc_attempt := word_of_nat k\<rparr> =
      ctx\<lparr>mc_attempt := word_of_nat k\<rparr>\<lparr>mc_available_at_ms := at\<rparr>" by simp
  then show ?thesis unfolding published_def by (metis publish_available(2))
qed

text \<open>The answer of a publish is that of the client library, with the topic in place of the acknowledgement.\<close>

lemma published_answer:
  assumes "k \<le> length delays" and "length delays < 2 ^ 32" and "attempt_fine ctx a" and "utf8_string (mc_original_topic ctx)"
  shows "\<exists>key envelope producer. published env peer grp delays a ctx k =
      map_ok (\<lambda>_. retry_route (mc_original_topic ctx) delays ! k) (map_err CliClient (fst (client_produce env peer
        (retry_route (mc_original_topic ctx) delays ! k) key envelope Durable (Some producer) (fa_cluster a)))) \<and>
    (\<forall>topic part r. fd_value r = envelope \<longrightarrow>
      (\<exists>at. message_context_of topic part r = Ok (ctx\<lparr>mc_attempt := word_of_nat (min (Suc k) (length delays)), mc_available_at_ms := at\<rparr>)))"
proof -
  let ?topic = "retry_route (mc_original_topic ctx) delays ! k"
  obtain key envelope producer at where m:
    "failure_message (pf_hash (ce_platform env)) (fa_clock a) grp (ctx\<lparr>mc_attempt := word_of_nat k\<rparr>) (fa_error a) delays =
       Ok (?topic, key, envelope, producer)"
    "\<And>topic part r. fd_value r = envelope \<Longrightarrow> message_context_of topic part r =
       Ok (ctx\<lparr>mc_attempt := word_of_nat (min (Suc k) (length delays)), mc_available_at_ms := at\<rparr>)"
    using failure_message_at [OF assms, of "pf_hash (ce_platform env)" grp] by blast
  obtain res c where p: "client_produce env peer ?topic key envelope Durable (Some producer) (fa_cluster a) = (res, c)" by fastforce
  then have "published env peer grp delays a ctx k = map_ok (\<lambda>_. ?topic) (map_err CliClient res)"
    using m(1) by (cases res) (simp_all add: published_def publish_failure_def)
  then have "published env peer grp delays a ctx k = map_ok (\<lambda>_. ?topic) (map_err CliClient (fst (client_produce env peer
        ?topic key envelope Durable (Some producer) (fa_cluster a))))" by (simp add: p)
  with m(2) show ?thesis by blast
qed

lemma published_topic:
  assumes "k \<le> length delays" and "length delays < 2 ^ 32" and "attempt_fine ctx a" and "utf8_string (mc_original_topic ctx)"
    and "published env peer grp delays a ctx k = Ok topic"
  shows "topic = retry_route (mc_original_topic ctx) delays ! k"
  using published_answer [OF assms(1-4), of env peer grp] unfolding assms(5) by (auto simp: map_ok_eq_Ok dest: sym)

lemma failure_path_acknowledged:
  assumes "list_all (attempt_fine ctx) attempts" and "length delays < 2 ^ 32" and "utf8_string (mc_original_topic ctx)"
    and "k + length attempts = Suc (length delays)" and "mc_attempt ctx = word_of_nat (min k (length delays))"
    and "\<forall>i < length attempts. \<exists>topic. published env peer grp delays (attempts ! i) ctx (k + i) = Ok topic"
  shows "failure_path env peer grp delays attempts ctx = Ok (drop k (retry_route (mc_original_topic ctx) delays))"
  using assms(1,3-)
proof (induction attempts arbitrary: k ctx)
  case Nil
  then show ?case by (simp add: retry_route_nth)
next
  case (Cons a attempts)
  let ?route = "retry_route (mc_original_topic ctx) delays"
  have k: "k \<le> length delays" "attempt_fine ctx a" "mc_attempt ctx = word_of_nat k" using Cons.prems by simp_all
  obtain at where step: "failure_path env peer grp delays (a # attempts) ctx =
    try_bind (published env peer grp delays a ctx k) (\<lambda>topic. map_ok (Cons topic) (failure_path env peer grp delays attempts
      (ctx\<lparr>mc_attempt := word_of_nat (min (Suc k) (length delays)), mc_available_at_ms := at\<rparr>)))"
    using failure_path_step [OF k(1) assms(2) k(2) Cons.prems(2) k(3), of env peer grp attempts] by blast
  let ?ctx = "ctx\<lparr>mc_attempt := word_of_nat (min (Suc k) (length delays)), mc_available_at_ms := at\<rparr>"
  obtain topic where "published env peer grp delays a ctx k = Ok topic" using Cons.prems(5) by (force dest: spec [of _ 0])
  moreover from published_topic [OF k(1) assms(2) k(2) Cons.prems(2) this] have "topic = ?route ! k" .
  moreover have "failure_path env peer grp delays attempts ?ctx = Ok (drop (Suc k) (retry_route (mc_original_topic ?ctx) delays))"
  proof (rule Cons.IH)
    show "\<forall>i < length attempts. \<exists>topic. published env peer grp delays (attempts ! i) ?ctx (Suc k + i) = Ok topic"
    proof (intro allI impI)
      fix i
      assume "i < length attempts"
      with Cons.prems(5) have "\<exists>topic. published env peer grp delays ((a # attempts) ! Suc i) ctx (k + Suc i) = Ok topic"
        by (metis Suc_less_eq length_Cons)
      then show "\<exists>topic. published env peer grp delays (attempts ! i) ?ctx (Suc k + i) = Ok topic" by simp
    qed
  qed (use Cons.prems in \<open>simp_all add: list_all_iff\<close>)
  ultimately show ?case
    using step k(1) Cons_nth_drop_Suc [of k ?route, symmetric] by (simp add: retry_route_nth(3))
qed

lemma failure_path_refused:
  assumes "list_all (attempt_fine ctx) attempts" and "length delays < 2 ^ 32" and "utf8_string (mc_original_topic ctx)"
    and "k + length attempts = Suc (length delays)" and "mc_attempt ctx = word_of_nat (min k (length delays))"
    and "i < length attempts" and "\<forall>j < i. \<exists>topic. published env peer grp delays (attempts ! j) ctx (k + j) = Ok topic"
    and "\<forall>topic. published env peer grp delays (attempts ! i) ctx (k + i) \<noteq> Ok topic"
  shows "failure_path env peer grp delays attempts ctx = map_ok (\<lambda>_. []) (published env peer grp delays (attempts ! i) ctx (k + i))"
  using assms(1,3-)
proof (induction attempts arbitrary: k i ctx)
  case (Cons a attempts)
  have k: "k \<le> length delays" "attempt_fine ctx a" "mc_attempt ctx = word_of_nat k" using Cons.prems by simp_all
  obtain at where step: "failure_path env peer grp delays (a # attempts) ctx =
    try_bind (published env peer grp delays a ctx k) (\<lambda>topic. map_ok (Cons topic) (failure_path env peer grp delays attempts
      (ctx\<lparr>mc_attempt := word_of_nat (min (Suc k) (length delays)), mc_available_at_ms := at\<rparr>)))"
    using failure_path_step [OF k(1) assms(2) k(2) Cons.prems(2) k(3), of env peer grp attempts] by blast
  let ?ctx = "ctx\<lparr>mc_attempt := word_of_nat (min (Suc k) (length delays)), mc_available_at_ms := at\<rparr>"
  show ?case
  proof (cases i)
    case 0
    with step Cons.prems(7) show ?thesis by (cases "published env peer grp delays a ctx k") simp_all
  next
    case (Suc n)
    obtain topic where t: "published env peer grp delays a ctx k = Ok topic" using Cons.prems(6) Suc by (force dest: spec [of _ 0])
    have "failure_path env peer grp delays attempts ?ctx = map_ok (\<lambda>_. []) (published env peer grp delays (attempts ! n) ?ctx (Suc k + n))"
    proof (rule Cons.IH)
      show "\<forall>j < n. \<exists>topic. published env peer grp delays (attempts ! j) ?ctx (Suc k + j) = Ok topic"
      proof (intro allI impI)
        fix j
        assume "j < n"
        with Cons.prems(6) Suc have "\<exists>topic. published env peer grp delays ((a # attempts) ! Suc j) ctx (k + Suc j) = Ok topic"
          by (metis Suc_less_eq)
        then show "\<exists>topic. published env peer grp delays (attempts ! j) ?ctx (Suc k + j) = Ok topic" by simp
      qed
    qed (use Cons.prems Suc in \<open>simp_all add: list_all_iff\<close>)
    with step t Suc Cons.prems(7) show ?thesis
      by (cases "published env peer grp delays (attempts ! n) ctx (Suc (k + n))") simp_all
  qed
qed simp


text \<open>The name of the destination is longer than that of the topic it comes from, so not every topic can be retried.\<close>

lemma client_produce_topic:
  assumes "client_produce env peer topic key payload mode producer c = (Ok ack, c')"
  shows "length topic \<le> MAX_TOPIC_NAME"
  using assms by (auto simp: client_produce_def step_bind_eq_Ok map_err_eq_Ok produce_request_new_def try_bind_eq_Ok validate_topic_def
      validate_size_def split: if_splits)

lemma long_topic_not_retried:
  assumes "fst (publish_failure env clock peer grp ctx error delays c) = Ok topic"
  shows "length (mc_original_topic ctx) + 4 \<le> MAX_TOPIC_NAME"
proof -
  obtain t key envelope producer where m: "failure_message (pf_hash (ce_platform env)) clock grp ctx error delays = Ok (t, key, envelope, producer)"
    using assms by (cases "failure_message (pf_hash (ce_platform env)) clock grp ctx error delays") (auto simp: publish_failure_def)
  obtain res c1 where p: "client_produce env peer t key envelope Durable (Some producer) c = (res, c1)" by fastforce
  obtain ack where "res = Ok ack" using assms m p by (cases res) (auto simp: publish_failure_def)
  from client_produce_topic [OF p [unfolded this]] have "length t \<le> MAX_TOPIC_NAME" .
  moreover have "length (mc_original_topic ctx) + 4 \<le> length t"
    using m by (auto simp: failure_message_def try_bind_eq_Ok retry_destination_def Let_def split: if_splits)
  ultimately show ?thesis by simp
qed

end
