(* ===== verification/Retry_Service.thy ===== *)
theory Retry_Service
  imports Retry Client_Service
begin

text \<open>
  A failure that is published: a broker of its own that has the dead-letter topic of \<open>t\<close>, and a message of \<open>t\<close> whose handler
  fails with no retries configured.
\<close>

definition plain_platform :: platform where
  "plain_platform = \<lparr>pf_hash = \<lambda>_. 0, pf_clock = Some 5, pf_now = 0\<rparr>"

definition plain_env :: client_env where
  "plain_env = sample_env\<lparr>ce_platform := plain_platform\<rparr>"

definition dead_letter_broker :: "partition_log \<Rightarrow> broker" where
  "dead_letter_broker log = \<lparr>bk_settings = sample_settings,
     bk_storage = \<lparr>sw_disk = [], sw_meta = [], sw_logs = [((''t.DLQ'', 0), log)], sw_topics = [(''t.DLQ'', 1)], sw_round_robin = []\<rparr>,
     bk_leadership = \<lparr>lr_file = None, lr_cluster = \<lparr>cm_responding_broker_id = 1, cm_nodes = [hd two_nodes]\<rparr>,
       lr_entries = [((''t.DLQ'', 0), sample_entry_of 1)]\<rparr>,
     bk_groups = sample_coordinator, bk_replication_factor = 1, bk_min_in_sync_replicas = 1\<rparr>"

definition dead_letter_cluster :: "partition_log \<Rightarrow> delivery list \<Rightarrow> cluster" where
  "dead_letter_cluster log ds = \<lparr>cl_brokers = [1 \<mapsto> dead_letter_broker log], cl_net = ds\<rparr>"

definition failing_context :: message_context where
  "failing_context = \<lparr>mc_original_topic = ''t'', mc_original_partition = 0, mc_original_offset = 41,
     mc_original_timestamp_ms = 1234, mc_attempt = 0, mc_available_at_ms = 0, mc_key = [1], mc_payload = [7]\<rparr>"

definition failing_attempt :: failed_attempt where
  "failing_attempt = \<lparr>fa_clock = Some 9, fa_error = ''boom'', fa_cluster = dead_letter_cluster (fresh_log 1024 256) [Delivered, Delivered],
     fa_partition = 0, fa_fetched = \<lparr>fd_offset = 0, fd_timestamp_ms = 5, fd_key = Some [1], fd_value = []\<rparr>\<rparr>"

definition dead_letter :: "bytes \<Rightarrow> produce_request" where
  "dead_letter envelope = \<lparr>pr_topic = ''t.DLQ'', pr_key = [1], pr_payload = envelope, pr_ack_mode = Durable,
     pr_producer = Some \<lparr>pi_id = ''retry-00000000-0'', pi_sequence = 0\<rparr>, pr_partition = None\<rparr>"

lemma failing_message:
  "\<exists>bs. length bs = 55 \<and> failure_message (\<lambda>_. 0) (Some 9) ''g'' failing_context ''boom'' [] =
     Ok (''t.DLQ'', [1], bs, \<lparr>pi_id = ''retry-00000000-0'', pi_sequence = 0\<rparr>)"
proof -
  obtain bs where bs: "encode_envelope failing_context 0 9 ''boom'' = Ok bs" "length bs = 55"
    by (auto simp: encode_envelope_def failing_context_def try_from_def Let_def put_u16_def put_u32_def put_u64_def)
  have "retry_destination (Some 9) failing_context [] = Ok (''t.DLQ'', 0, 9)"
    by (simp add: retry_destination_def failing_context_def now_ms_def try_from_def)
  moreover have "retry_producer_id (\<lambda>_. 0) ''g'' failing_context 0 ''t.DLQ'' = ''retry-00000000-0''"
  proof -
    have "hex_digits 8 0 = ''00000000''" "show_nat 0 = ''0''" by code_simp+
    then show ?thesis by (simp add: retry_producer_id_def del: hex_digits.simps show_nat.simps)
  qed
  ultimately show ?thesis using bs by (simp add: failure_message_def failing_context_def)
qed

lemma dead_letter_identity: "list_all id_char ''retry-00000000-0''"
  by code_simp

lemma dead_letter_produce:
  assumes "length bs = 55"
  shows "\<exists>c'. process_produce plain_platform 1 (dead_letter bs) (dead_letter_cluster (fresh_log 1024 256) []) =
     (Ok (RProduceAck \<lparr>pa_partition = 0, pa_offset = 0\<rparr>), c')"
proof -
  let ?pf = plain_platform and ?b = "dead_letter_broker (fresh_log 1024 256)"
  define rec where "rec = input_record (produce_input (dead_letter bs)) 5"
  have "record_sizes_ok rec" "producer_ok (lg_producer_state (fresh_log 1024 256)) (lr_producer rec)"
    using assms dead_letter_identity
    by (simp_all add: rec_def record_sizes_ok_def producer_ok_def input_record_def produce_input_def dead_letter_def opt_len_def
        fresh_log_def validate_producer_id_def check_sequence_def)
  then obtain log' where log': "append_log (\<lambda>_. 0) rec (fresh_log 1024 256) = (Ok 0, log')"
    "read_log (\<lambda>_. 0) log' 0 (16 * 1024 * 1024) = Ok [stored_of rec 0]"
    using append_then_read [OF fresh_log_rep [of 1024 256 "\<lambda>_. 0"], of rec "16 * 1024 * 1024"] fresh_log_sample(3) by auto
  define b1 where "b1 = dead_letter_broker log'"
  have app: "handle_append ?pf (produce_input (dead_letter bs)) ?b = (Ok \<lparr>pa_partition = 0, pa_offset = 0\<rparr>, b1)"
    using log'(1) by (simp add: handle_append_def on_storage_def append_record_def worker_ensure_topic_def
        dead_letter_broker_def b1_def produce_input_def dead_letter_def choose_partition_def select_partition_def routing_key_def
        append_to_partition_def timestamp_def plain_platform_def try_from_def put_log_def rec_def)
  define r where "r = fetched_of (stored_of rec 0)"
  have ra: "record_at ?pf ''t.DLQ'' 0 0 b1 = (Ok r, b1)"
    using log'(2) by (simp add: record_at_def read_once_def on_storage_def read_records_def worker_ensure_topic_def
        b1_def dead_letter_broker_def plain_platform_def r_def fetched_of_def stored_of_def)
  let ?c = "dead_letter_cluster (fresh_log 1024 256) []" and ?c1 = "dead_letter_cluster log' []"
  have c: "cl_brokers ?c 1 = Some ?b" "cl_brokers ?c1 1 = Some b1" "set_broker 1 b1 ?c = ?c1"
    by (simp_all add: dead_letter_cluster_def b1_def set_broker_def)
  have "at_broker 1 (cluster_leadership_error ''t.DLQ'' None) ?c = (Ok None, ?c)"
    by (simp add: at_broker_guard [OF c(1)]) (simp add: cluster_leadership_error_def dead_letter_broker_def)
  moreover have "at_broker 1 (handle_append ?pf (produce_input (dead_letter bs))) ?c = (Ok \<lparr>pa_partition = 0, pa_offset = 0\<rparr>, ?c1)"
    using app c by (simp add: at_broker_def)
  moreover have "at_broker 1 (record_at ?pf ''t.DLQ'' 0 0) ?c1 = (Ok r, ?c1)"
    using ra c(2) by (simp add: at_broker_def set_broker_same)
  moreover have "\<exists>c'. replicate_one ?pf 1 ''t.DLQ'' 0 r Durable ?c1 = (Ok (), c')"
  proof -
    have fol: "replica_followers b1 0 = Ok []" "bk_min_in_sync_replicas b1 = 1"
      by (simp_all add: replica_followers_def replica_nodes_def b1_def dead_letter_broker_def two_nodes_def sample_cluster_def Let_def)
    obtain reg where "apply_leadership ''t.DLQ'' ((sample_entry_of 1)\<lparr>pl_high_watermark := 1\<rparr>) (bk_leadership b1) = (Ok (), reg)"
      by (simp add: apply_leadership_def b1_def dead_letter_broker_def two_nodes_def sample_cluster_def sample_entry_of_def stale_def Let_def)
    then have "\<exists>c'. commit_offset ?pf 1 ''t.DLQ'' 0 1 ?c1 = (Ok (), c')"
      using c(2) at_broker_leader [OF c(2), of "''t.DLQ''" 0]
      by (auto simp: commit_offset_def broker_leader_def on_leadership_def partition_leader_def b1_def dead_letter_broker_def
          sample_entry_of_def Let_def at_broker_def cluster_info_def)
    moreover have "fd_offset r = 0" by (simp add: r_def fetched_of_def stored_of_def)
    ultimately show ?thesis using fol by (auto simp: replicate_one_def at_broker_pure [OF c(2)] saturating_add_def)
  qed
  ultimately show ?thesis
    by (auto simp: process_produce_def dead_letter_def dispatch_replication_def)
qed

lemma dead_letter_published: "published plain_env 1 ''g'' [] failing_attempt failing_context 0 = Ok ''t.DLQ''"
proof -
  obtain bs where bs: "length bs = 55" "failure_message (\<lambda>_. 0) (Some 9) ''g'' failing_context ''boom'' [] =
     Ok (''t.DLQ'', [1], bs, \<lparr>pi_id = ''retry-00000000-0'', pi_sequence = 0\<rparr>)" using failing_message by blast
  let ?c = "dead_letter_cluster (fresh_log 1024 256)" and ?m = "\<lparr>cm_responding_broker_id = 1, cm_nodes = [hd two_nodes]\<rparr>"
  have b: "cl_brokers (?c ds) 1 = Some (dead_letter_broker (fresh_log 1024 256))" for ds by (simp add: dead_letter_cluster_def)
  have net: "cl_net (?c ds) = ds" "(?c ds)\<lparr>cl_net := ds'\<rparr> = ?c ds'" for ds ds' by (simp_all add: dead_letter_cluster_def)
  have "process_request plain_platform 1 ClusterMetadata (?c [Delivered]) = (Ok (RClusterMetadata ?m), ?c [Delivered])"
    by (simp add: cluster_info_def at_broker_pure [OF b]) (simp add: dead_letter_broker_def)
  then have "client_cluster_metadata plain_env 1 (?c [Delivered, Delivered]) = (Ok ?m, ?c [Delivered])"
    using client_request_delivered [of plain_env ClusterMetadata "?c [Delivered, Delivered]" "[Delivered]" 1] sample_requests_encode(1)
    by (simp add: client_cluster_metadata_def expect_Ok plain_env_def net)
  moreover have "produce_request_new ''t.DLQ'' [1] bs Durable (Some \<lparr>pi_id = ''retry-00000000-0'', pi_sequence = 0\<rparr>) = Ok (dead_letter bs)"
    using bs(1) dead_letter_identity
    by (simp add: produce_request_new_def validate_topic_def validate_size_def validate_identifier_def dead_letter_def)
  moreover have "route_produce plain_env 1 ?m (dead_letter bs) (?c [Delivered]) = (Ok (1, dead_letter bs), ?c [Delivered])"
    by (simp add: route_produce_def)
  moreover obtain c' where "process_produce plain_platform 1 (dead_letter bs) (?c []) = (Ok (RProduceAck \<lparr>pa_partition = 0, pa_offset = 0\<rparr>), c')"
    using dead_letter_produce [OF bs(1)] by blast
  then have "client_request plain_env 1 (Produce (dead_letter bs)) (?c [Delivered]) = (Ok (RProduceAck \<lparr>pa_partition = 0, pa_offset = 0\<rparr>), c')"
    by (intro client_request_delivered [where ds = "[]"])
       (use bs(1) in \<open>simp_all add: net plain_env_def encode_produce_def dead_letter_def try_from_def Let_def\<close>)
  ultimately have "client_produce plain_env 1 ''t.DLQ'' [1] bs Durable (Some \<lparr>pi_id = ''retry-00000000-0'', pi_sequence = 0\<rparr>)
      (?c [Delivered, Delivered]) = (Ok \<lparr>pa_partition = 0, pa_offset = 0\<rparr>, c')"
    by (simp add: client_produce_def expect_Ok)
  moreover have "failing_context\<lparr>mc_attempt := 0\<rparr> = failing_context" by (simp add: failing_context_def)
  ultimately show ?thesis
    using bs(2) by (simp add: published_def publish_failure_def failing_attempt_def plain_env_def plain_platform_def)
qed


end
