(* ===== verification/Observability.thy ===== *)
theory Observability
  imports Mq_Prelude
begin

text \<open>
  The runtime metrics of a broker (\<open>crates/broker/src/observability.rs\<close>): latency histograms, counters, the state of
  replicas, and their rendering in the Prometheus text format.  The counters are atomics that wrap around; each operation
  is one step.  The three hash maps are association lists; their iteration order, which the code leaves open, is
  the order of insertion.  Rendering returns the text that the code appends to its output.
\<close>

section \<open>Text\<close>

abbreviation newline_char :: char where "newline_char \<equiv> CHR 0x0A"
abbreviation quote_char :: char where "quote_char \<equiv> CHR 0x22"
abbreviation backslash_char :: char where "backslash_char \<equiv> CHR 0x5C"

definition line :: "string \<Rightarrow> string" where
  "line s = s @ [newline_char]"

fun join_with :: "string \<Rightarrow> string list \<Rightarrow> string" where
  "join_with separator [] = []"
| "join_with separator [s] = s"
| "join_with separator (s # t # ss) = s @ separator @ join_with separator (t # ss)"

text \<open>A label of a metric and a whole line of one with labels.\<close>

definition label :: "string \<Rightarrow> string \<Rightarrow> string" where
  "label name value = name @ ''='' @ [quote_char] @ value @ [quote_char]"

definition labelled :: "string \<Rightarrow> string list \<Rightarrow> string \<Rightarrow> string" where
  "labelled name labels value = line (name @ ''{'' @ join_with '','' labels @ ''} '' @ value)"

text \<open>\<open>str::replace\<close> of a character by a string, three times.\<close>

definition replace_char :: "char \<Rightarrow> string \<Rightarrow> string \<Rightarrow> string" where
  "replace_char a t s = concat (map (\<lambda>x. if x = a then t else [x]) s)"

definition escape_label :: "string \<Rightarrow> string" where
  "escape_label value =
    replace_char quote_char [backslash_char, quote_char]
      (replace_char newline_char [backslash_char, CHR ''n'']
        (replace_char backslash_char [backslash_char, backslash_char] value))"

section \<open>Histograms\<close>

abbreviation LATENCY_BUCKETS_US :: "u64 list" where
  "LATENCY_BUCKETS_US \<equiv> [100, 500, 1000, 5000, 10000, 50000, 100000, 500000, 1000000]"

record histogram =
  hi_buckets :: "u64 list"
  hi_count :: u64
  hi_sum_us :: u64

definition histogram_default :: histogram where
  "histogram_default = \<lparr>hi_buckets = replicate (length LATENCY_BUCKETS_US + 1) 0, hi_count = 0, hi_sum_us = 0\<rparr>"

text \<open>A duration is its number of microseconds, which may not fit 64 bits.\<close>

definition micros_of :: "nat \<Rightarrow> u64" where
  "micros_of duration = (case try_from duration of Some micros \<Rightarrow> micros | None \<Rightarrow> - 1)"

fun observe_bounds :: "u64 \<Rightarrow> nat \<Rightarrow> u64 list \<Rightarrow> u64 list \<Rightarrow> u64 list" where
  "observe_bounds micros i [] buckets = buckets"
| "observe_bounds micros i (bound # bounds) buckets =
    observe_bounds micros (Suc i) bounds (if micros \<le> bound then buckets[i := buckets ! i + 1] else buckets)"

definition histogram_observe :: "nat \<Rightarrow> histogram \<Rightarrow> histogram" where
  "histogram_observe duration h =
    (let micros = micros_of duration;
         buckets = observe_bounds micros 0 LATENCY_BUCKETS_US (hi_buckets h);
         n = length LATENCY_BUCKETS_US in
     \<lparr>hi_buckets = buckets[n := buckets ! n + 1], hi_count = hi_count h + 1, hi_sum_us = hi_sum_us h + micros\<rparr>)"

definition format_seconds :: "u64 \<Rightarrow> string" where
  "format_seconds micros =
    (let fraction = show_nat (unat micros mod 1000000) in
     show_nat (unat micros div 1000000) @ ''.'' @ replicate (6 - length fraction) (CHR ''0'') @ fraction)"

definition histogram_render :: "string \<Rightarrow> string \<Rightarrow> histogram \<Rightarrow> string" where
  "histogram_render name help h =
    line (''# HELP '' @ name @ '' '' @ help) @ line (''# TYPE '' @ name @ '' histogram'') @
    concat (map (\<lambda>(bound, value). labelled (name @ ''_bucket'') [label ''le'' (format_seconds bound)] (show_nat (unat value)))
      (zip LATENCY_BUCKETS_US (hi_buckets h))) @
    labelled (name @ ''_bucket'') [label ''le'' ''+Inf''] (show_nat (unat (hi_buckets h ! length LATENCY_BUCKETS_US))) @
    line (name @ ''_count '' @ show_nat (unat (hi_count h))) @
    line (name @ ''_sum '' @ format_seconds (hi_sum_us h))"

section \<open>Runtime metrics\<close>

type_synonym replica_key = "u32 \<times> string \<times> u32"

record runtime_metrics =
  rm_active_connections :: u64
  rm_produced_messages :: u64
  rm_produced_bytes :: u64
  rm_fetched_messages :: u64
  rm_fetched_bytes :: u64
  rm_broker_busy :: u64
  rm_retention_segments_removed :: u64
  rm_replication_records_sent :: u64
  rm_replication_records_received :: u64
  rm_replication_failures :: u64
  rm_replication_reconnects :: u64
  rm_automatic_leader_promotions :: u64
  rm_replica_offsets :: "(replica_key \<times> u64) list"
  rm_replica_sync :: "(replica_key \<times> bool) list"
  rm_in_sync_replicas :: "(replica_key \<times> bool) list"
  rm_produce_latency :: histogram
  rm_fetch_latency :: histogram
  rm_append_latency :: histogram
  rm_flush_latency :: histogram

definition runtime_metrics_default :: runtime_metrics where
  "runtime_metrics_default = \<lparr>rm_active_connections = 0, rm_produced_messages = 0, rm_produced_bytes = 0,
     rm_fetched_messages = 0, rm_fetched_bytes = 0, rm_broker_busy = 0, rm_retention_segments_removed = 0,
     rm_replication_records_sent = 0, rm_replication_records_received = 0, rm_replication_failures = 0,
     rm_replication_reconnects = 0, rm_automatic_leader_promotions = 0, rm_replica_offsets = [], rm_replica_sync = [],
     rm_in_sync_replicas = [], rm_produce_latency = histogram_default, rm_fetch_latency = histogram_default,
     rm_append_latency = histogram_default, rm_flush_latency = histogram_default\<rparr>"

text \<open>\<open>u64::try_from(n).unwrap_or(u64::MAX)\<close> on a \<open>usize\<close>.\<close>

definition u64_of_usize :: "nat \<Rightarrow> u64" where
  "u64_of_usize n = (case try_from n of Some m \<Rightarrow> m | None \<Rightarrow> - 1)"

definition metrics_connection_opened :: "runtime_metrics \<Rightarrow> runtime_metrics" where
  "metrics_connection_opened m = m\<lparr>rm_active_connections := rm_active_connections m + 1\<rparr>"

definition metrics_connection_closed :: "runtime_metrics \<Rightarrow> runtime_metrics" where
  "metrics_connection_closed m = m\<lparr>rm_active_connections := rm_active_connections m - 1\<rparr>"

definition metrics_produced :: "nat \<Rightarrow> nat \<Rightarrow> runtime_metrics \<Rightarrow> runtime_metrics" where
  "metrics_produced messages payload_bytes m = m\<lparr>rm_produced_messages := rm_produced_messages m + u64_of_usize messages,
     rm_produced_bytes := rm_produced_bytes m + u64_of_usize payload_bytes\<rparr>"

definition metrics_fetched :: "nat \<Rightarrow> nat \<Rightarrow> runtime_metrics \<Rightarrow> runtime_metrics" where
  "metrics_fetched messages payload_bytes m = m\<lparr>rm_fetched_messages := rm_fetched_messages m + u64_of_usize messages,
     rm_fetched_bytes := rm_fetched_bytes m + u64_of_usize payload_bytes\<rparr>"

definition metrics_broker_busy :: "runtime_metrics \<Rightarrow> runtime_metrics" where
  "metrics_broker_busy m = m\<lparr>rm_broker_busy := rm_broker_busy m + 1\<rparr>"

definition metrics_retention_removed :: "nat \<Rightarrow> runtime_metrics \<Rightarrow> runtime_metrics" where
  "metrics_retention_removed segments m =
    m\<lparr>rm_retention_segments_removed := rm_retention_segments_removed m + u64_of_usize segments\<rparr>"

definition metrics_replication_sent :: "u32 \<Rightarrow> string \<Rightarrow> u32 \<Rightarrow> u64 \<Rightarrow> bool \<Rightarrow> runtime_metrics \<Rightarrow> runtime_metrics" where
  "metrics_replication_sent follower_id topic part next_offset record_accepted m =
    (let m = (if record_accepted then m\<lparr>rm_replication_records_sent := rm_replication_records_sent m + 1\<rparr> else m) in
     m\<lparr>rm_replica_offsets := AList.update (follower_id, topic, part) next_offset (rm_replica_offsets m)\<rparr>)"

definition metrics_replication_received :: "runtime_metrics \<Rightarrow> runtime_metrics" where
  "metrics_replication_received m = m\<lparr>rm_replication_records_received := rm_replication_records_received m + 1\<rparr>"

definition metrics_replication_failed :: "runtime_metrics \<Rightarrow> runtime_metrics" where
  "metrics_replication_failed m = m\<lparr>rm_replication_failures := rm_replication_failures m + 1\<rparr>"

definition metrics_replication_reconnect :: "u32 \<Rightarrow> string \<Rightarrow> u32 \<Rightarrow> runtime_metrics \<Rightarrow> runtime_metrics" where
  "metrics_replication_reconnect leader_id topic part m =
    (if map_of (rm_replica_sync m) (leader_id, topic, part) = Some False
     then m\<lparr>rm_replication_reconnects := rm_replication_reconnects m + 1\<rparr> else m)"

definition metrics_automatic_leader_promotion :: "runtime_metrics \<Rightarrow> runtime_metrics" where
  "metrics_automatic_leader_promotion m = m\<lparr>rm_automatic_leader_promotions := rm_automatic_leader_promotions m + 1\<rparr>"

definition metrics_replica_sync :: "u32 \<Rightarrow> string \<Rightarrow> u32 \<Rightarrow> bool \<Rightarrow> runtime_metrics \<Rightarrow> runtime_metrics" where
  "metrics_replica_sync leader_id topic part in_sync m =
    m\<lparr>rm_replica_sync := AList.update (leader_id, topic, part) in_sync (rm_replica_sync m)\<rparr>"

definition metrics_in_sync_replica :: "u32 \<Rightarrow> string \<Rightarrow> u32 \<Rightarrow> bool \<Rightarrow> runtime_metrics \<Rightarrow> runtime_metrics" where
  "metrics_in_sync_replica broker_id topic part in_sync m =
    m\<lparr>rm_in_sync_replicas := AList.update (broker_id, topic, part) in_sync (rm_in_sync_replicas m)\<rparr>"

text \<open>The maps as lists, as the admin listener reads them.\<close>

definition flat_entry :: "replica_key \<times> 'a \<Rightarrow> u32 \<times> string \<times> u32 \<times> 'a" where
  "flat_entry = (\<lambda>((broker_id, topic, part), x). (broker_id, topic, part, x))"

definition replica_sync_states :: "runtime_metrics \<Rightarrow> (u32 \<times> string \<times> u32 \<times> bool) list" where
  "replica_sync_states m = map flat_entry (rm_replica_sync m)"

definition in_sync_replica_states :: "runtime_metrics \<Rightarrow> (u32 \<times> string \<times> u32 \<times> bool) list" where
  "in_sync_replica_states m = map flat_entry (rm_in_sync_replicas m)"

definition replica_offsets :: "runtime_metrics \<Rightarrow> (u32 \<times> string \<times> u32 \<times> u64) list" where
  "replica_offsets m = map flat_entry (rm_replica_offsets m)"

definition observe_produce :: "nat \<Rightarrow> runtime_metrics \<Rightarrow> runtime_metrics" where
  "observe_produce duration m = m\<lparr>rm_produce_latency := histogram_observe duration (rm_produce_latency m)\<rparr>"

definition observe_fetch :: "nat \<Rightarrow> runtime_metrics \<Rightarrow> runtime_metrics" where
  "observe_fetch duration m = m\<lparr>rm_fetch_latency := histogram_observe duration (rm_fetch_latency m)\<rparr>"

definition observe_append :: "nat \<Rightarrow> runtime_metrics \<Rightarrow> runtime_metrics" where
  "observe_append duration m = m\<lparr>rm_append_latency := histogram_observe duration (rm_append_latency m)\<rparr>"

definition observe_flush :: "nat \<Rightarrow> runtime_metrics \<Rightarrow> runtime_metrics" where
  "observe_flush duration m = m\<lparr>rm_flush_latency := histogram_observe duration (rm_flush_latency m)\<rparr>"

definition metric :: "string \<Rightarrow> string \<Rightarrow> string \<Rightarrow> u64 \<Rightarrow> string" where
  "metric name help kind value =
    line (''# HELP '' @ name @ '' '' @ help) @ line (''# TYPE '' @ name @ '' '' @ kind) @
    line (name @ '' '' @ show_nat (unat value))"

definition render_automatic_promotions :: "runtime_metrics \<Rightarrow> string" where
  "render_automatic_promotions m =
    metric ''sevlamq_automatic_leader_promotions_total'' ''Partition leaders promoted automatically after probe failures.''
      ''counter'' (rm_automatic_leader_promotions m)"

definition metrics_render :: "runtime_metrics \<Rightarrow> string" where
  "metrics_render m =
    metric ''sevlamq_active_connections'' ''Current client TCP connections.'' ''gauge'' (rm_active_connections m) @
    metric ''sevlamq_messages_produced_total'' ''Messages accepted by the broker.'' ''counter'' (rm_produced_messages m) @
    metric ''sevlamq_bytes_produced_total'' ''Uncompressed payload bytes accepted by the broker.'' ''counter''
      (rm_produced_bytes m) @
    metric ''sevlamq_messages_fetched_total'' ''Messages returned by fetch requests.'' ''counter'' (rm_fetched_messages m) @
    metric ''sevlamq_bytes_fetched_total'' ''Payload bytes returned by fetch requests.'' ''counter'' (rm_fetched_bytes m) @
    metric ''sevlamq_broker_busy_total'' ''Requests rejected because the storage queue remained full.'' ''counter''
      (rm_broker_busy m) @
    metric ''sevlamq_retention_segments_removed_total'' ''Closed log segments removed by retention.'' ''counter''
      (rm_retention_segments_removed m) @
    metric ''sevlamq_replication_records_sent_total'' ''Records acknowledged by followers.'' ''counter''
      (rm_replication_records_sent m) @
    metric ''sevlamq_replication_records_received_total'' ''Records accepted through the replication listener.'' ''counter''
      (rm_replication_records_received m) @
    metric ''sevlamq_replication_failures_total'' ''Replication operations that failed before acknowledgement.'' ''counter''
      (rm_replication_failures m) @
    metric ''sevlamq_replication_reconnects_total'' ''Follower recovery retries after a failed connection.'' ''counter''
      (rm_replication_reconnects m) @
    render_automatic_promotions m @
    histogram_render ''sevlamq_produce_duration_seconds'' ''End-to-end produce request latency.'' (rm_produce_latency m) @
    histogram_render ''sevlamq_fetch_duration_seconds'' ''End-to-end fetch request latency.'' (rm_fetch_latency m) @
    histogram_render ''sevlamq_append_duration_seconds'' ''Storage append latency.'' (rm_append_latency m) @
    histogram_render ''sevlamq_flush_duration_seconds'' ''Durable storage synchronization latency.'' (rm_flush_latency m)"

section \<open>A histogram counts its observations\<close>

definition at_most :: "u64 \<Rightarrow> nat list \<Rightarrow> nat" where
  "at_most bound ds = length (filter (\<lambda>d. micros_of d \<le> bound) ds)"

lemma observe_bounds_nth:
  assumes "i + length bounds \<le> length buckets"
  shows "length (observe_bounds micros i bounds buckets) = length buckets \<and>
    (\<forall>k < length buckets. observe_bounds micros i bounds buckets ! k =
       (if i \<le> k \<and> k < i + length bounds \<and> micros \<le> bounds ! (k - i) then buckets ! k + 1 else buckets ! k))"
  using assms
proof (induction bounds arbitrary: i buckets)
  case (Cons bound bounds)
  define b where "b = (if micros \<le> bound then buckets[i := buckets ! i + 1] else buckets)"
  have len: "length b = length buckets" and b: "k < length buckets \<Longrightarrow> b ! k = (if k = i \<and> micros \<le> bound then buckets ! k + 1 else buckets ! k)" for k
    by (auto simp: b_def)
  note IH = Cons.IH [of "Suc i" b]
  show ?case
  proof (intro conjI allI impI)
    show "length (observe_bounds micros i (bound # bounds) buckets) = length buckets"
      using IH len Cons.prems by (simp add: b_def)
    fix k assume k: "k < length buckets"
    have "observe_bounds micros i (bound # bounds) buckets ! k =
      (if Suc i \<le> k \<and> k < Suc i + length bounds \<and> micros \<le> bounds ! (k - Suc i) then b ! k + 1 else b ! k)"
      using IH len Cons.prems k by (simp add: b_def [symmetric])
    moreover have "Suc i \<le> k \<Longrightarrow> (bound # bounds) ! (k - i) = bounds ! (k - Suc i)"
      by (simp add: nth_Cons')
    ultimately show "observe_bounds micros i (bound # bounds) buckets ! k =
      (if i \<le> k \<and> k < i + length (bound # bounds) \<and> micros \<le> (bound # bounds) ! (k - i) then buckets ! k + 1 else buckets ! k)"
      using b [OF k] by (cases "k = i") (auto simp: not_less_eq_eq)
  qed
qed simp

text \<open>The observations of a histogram, one after the other.\<close>

definition observed :: "nat list \<Rightarrow> histogram" where
  "observed ds = fold histogram_observe ds histogram_default"

lemma observed_snoc: "observed (ds @ [d]) = histogram_observe d (observed ds)"
  by (simp add: observed_def)

lemma observed_counts:
  "length (hi_buckets (observed ds)) = 10 \<and>
   (\<forall>i < 9. hi_buckets (observed ds) ! i = word_of_nat (at_most (LATENCY_BUCKETS_US ! i) ds)) \<and>
   hi_buckets (observed ds) ! 9 = word_of_nat (length ds) \<and> hi_count (observed ds) = word_of_nat (length ds) \<and>
   hi_sum_us (observed ds) = word_of_nat (sum_list (map (unat \<circ> micros_of) ds))"
proof (induction ds rule: rev_induct)
  case Nil
  have "hi_buckets (observed []) = replicate 10 0" "hi_count (observed []) = 0" "hi_sum_us (observed []) = 0"
    by (simp_all add: observed_def histogram_default_def eval_nat_numeral)
  then show ?case by (simp add: at_most_def)
next
  case (snoc d ds)
  have nine: "length LATENCY_BUCKETS_US = 9" by simp
  have b: "length (observe_bounds (micros_of d) 0 LATENCY_BUCKETS_US (hi_buckets (observed ds))) = 10 \<and>
    (\<forall>k < 10. observe_bounds (micros_of d) 0 LATENCY_BUCKETS_US (hi_buckets (observed ds)) ! k =
       (if k < 9 \<and> micros_of d \<le> LATENCY_BUCKETS_US ! k then hi_buckets (observed ds) ! k + 1 else hi_buckets (observed ds) ! k))"
    using observe_bounds_nth [of 0 LATENCY_BUCKETS_US "hi_buckets (observed ds)" "micros_of d"] snoc
    by (simp del: observe_bounds.simps)
  show ?case
    using b snoc unfolding observed_snoc histogram_observe_def Let_def nine
    by (auto simp: at_most_def add.commute simp del: observe_bounds.simps)
qed


text \<open>C40: A latency histogram is what a scraper takes it for: after any sequence of fewer than \<open>2\<^sup>6\<^sup>4\<close>
  observations, the bucket of each bound holds exactly the number of observations up to that bound, so the buckets
  are cumulative; the last bucket and the count hold the number of observations; and the sum is the sum of
  the observed microseconds modulo \<open>2\<^sup>6\<^sup>4\<close>.\<close>

theorem histogram_correct:
  assumes "length ds < 2 ^ 64"
  shows "(\<forall>i < 9. unat (hi_buckets (observed ds) ! i) = at_most (LATENCY_BUCKETS_US ! i) ds) \<and>
    sorted (hi_buckets (observed ds)) \<and>
    unat (hi_buckets (observed ds) ! 9) = length ds \<and> unat (hi_count (observed ds)) = length ds \<and>
    unat (hi_sum_us (observed ds)) = sum_list (map (unat \<circ> micros_of) ds) mod 2 ^ 64"
proof -
  note c = observed_counts [of ds]
  have le: "at_most b ds \<le> length ds" for b by (simp add: at_most_def)
  have small: "unat (word_of_nat n :: u64) = n" if "n \<le> length ds" for n
    using assms that by (intro unat_word_of_nat_small) simp
  have bucket: "unat (hi_buckets (observed ds) ! i) = (if i < 9 then at_most (LATENCY_BUCKETS_US ! i) ds else length ds)"
    if "i < 10" for i
    using c le that small by (cases "i = 9") auto
  have mono: "at_most a ds \<le> at_most b ds" if "a \<le> b" for a b
    unfolding at_most_def using that by (induction ds) auto
  have bounds: "sorted LATENCY_BUCKETS_US" by simp
  have "sorted (hi_buckets (observed ds))"
    unfolding sorted_iff_nth_mono_less
  proof (intro allI impI)
    fix i j assume ij: "i < j" "j < length (hi_buckets (observed ds))"
    then have "j < 10" using c by simp
    moreover have "at_most (LATENCY_BUCKETS_US ! i) ds \<le> at_most (LATENCY_BUCKETS_US ! j) ds" if "j < 9"
      using sorted_nth_mono [OF bounds, of i j] ij(1) that by (intro mono) simp
    ultimately show "hi_buckets (observed ds) ! i \<le> hi_buckets (observed ds) ! j"
      using bucket [of i] bucket [of j] ij(1) le by (auto simp: word_le_nat_alt)
  qed
  moreover have "\<forall>i < 9. unat (hi_buckets (observed ds) ! i) = at_most (LATENCY_BUCKETS_US ! i) ds" using bucket by simp
  moreover have "unat (hi_buckets (observed ds) ! 9) = length ds" "unat (hi_count (observed ds)) = length ds"
    using c small by simp_all
  moreover have "unat (hi_sum_us (observed ds)) = sum_list (map (unat \<circ> micros_of) ds) mod 2 ^ 64"
    using c by (simp add: unat_of_nat take_bit_eq_mod)
  ultimately show ?thesis by blast
qed

theorem histogram_correct_witness:
  "unat (hi_buckets (observed [7, 100, 2000000]) ! 0) = 2 \<and> unat (hi_count (observed [7, 100, 2000000])) = 3"
proof -
  have "at_most 100 [7, 100, 2000000] = 2" by (simp add: at_most_def micros_of_def try_from_def)
  with histogram_correct [of "[7, 100, 2000000]"] show ?thesis by auto
qed

section \<open>Labels cannot be broken out of\<close>

text \<open>How a scraper reads a quoted label value: up to the first quote that is not escaped.\<close>

fun read_label :: "string \<Rightarrow> (string \<times> string) option" where
  "read_label [] = None"
| "read_label (x # xs) =
    (if x = quote_char then Some ([], xs)
     else if x = backslash_char then
       (case xs of
          [] \<Rightarrow> None
        | y # ys \<Rightarrow> map_option (\<lambda>(v, rest). ((if y = CHR ''n'' then newline_char else y) # v, rest)) (read_label ys))
     else map_option (\<lambda>(v, rest). (x # v, rest)) (read_label xs))"

lemma escape_label_Cons:
  "escape_label (x # xs) =
    (if x = backslash_char then [backslash_char, backslash_char]
     else if x = newline_char then [backslash_char, CHR ''n'']
     else if x = quote_char then [backslash_char, quote_char] else [x]) @ escape_label xs"
  by (simp add: escape_label_def replace_char_def)

lemma escape_label_Nil [simp]: "escape_label [] = []"
  by (simp add: escape_label_def replace_char_def)

text \<open>Labels are safe: whatever characters a topic, group or host name has, the escaped value stays on its line,
  and a scraper that reads the quoted label gets exactly the name back and goes on right behind the
  closing quote, so no name can add labels or metrics of its own.\<close>

theorem escape_label_safe:
  "read_label (escape_label s @ quote_char # rest) = Some (s, rest) \<and> newline_char \<notin> set (escape_label s)"
  by (induction s) (simp_all add: escape_label_Cons)

end
