(* ===== verification/Consumer.thy ===== *)
theory Consumer
  imports Retry Observability
begin

text \<open>
  The coordinated consumer of the command line (\<open>bin/sevlamq-cli/src/commands/consume.rs\<close>): a loop that
  joins its group, fetches from its partitions, runs a handler on every record and commits before or
  after it.  The cluster, the lines it has printed and what it has done so far, as a list of events, are its state.
  The time at which the heartbeat task runs and at which Ctrl-C is pressed comes from
  outside, as one \<open>turn\<close> per turn of the loop; \<open>None\<close> as the outcome means that the turns are used up
  and the consumer still runs.
\<close>

section \<open>Options, events and state\<close>

datatype delivery_mode = AtMostOnce | AtLeastOnce

record consume_options =
  op_topic :: string
  op_group :: string
  op_member :: string
  op_delivery :: delivery_mode
  op_wait_ms :: u32
  op_heartbeat_ms :: u64
  op_max_bytes :: u32
  op_handler :: "string option"
  op_handler_timeout_ms :: u64
  op_retry_delays_ms :: "u64 list"

datatype generation_outcome = Shutdown | Rejoin

datatype consumer_event =
    Processed u32 u64
  | Routed u32 u64 string
  | Committed u32 u64
  | CommitFailed u32 u64

record consumer_run =
  rn_cluster :: cluster
  rn_records :: nat
  rn_events :: "consumer_event list"
  rn_stdout :: "string list"
  rn_stderr :: "string list"

type_synonym 'a consumer_result = "('a, cli_error) outcome \<times> consumer_run"

text \<open>What happens from outside during a turn of the loop: whether the heartbeat task has a tick before
  it, and at which of the fetches of the turn Ctrl-C arrives.\<close>

record turn =
  tn_heartbeat :: bool
  tn_interrupt :: "nat option"

definition on_cluster :: "(cluster \<Rightarrow> 'a client_result) \<Rightarrow> consumer_run \<Rightarrow> ('a, client_error) outcome \<times> consumer_run" where
  "on_cluster f s = (case f (rn_cluster s) of (res, c) \<Rightarrow> (res, s\<lparr>rn_cluster := c\<rparr>))"

definition record_event :: "consumer_event \<Rightarrow> consumer_run \<Rightarrow> consumer_run" where
  "record_event e s = s\<lparr>rn_events := rn_events s @ [e]\<rparr>"

definition started_run :: "cluster \<Rightarrow> consumer_run" where
  "started_run c = \<lparr>rn_cluster = c, rn_records = 0, rn_events = [], rn_stdout = [], rn_stderr = []\<rparr>"

section \<open>Printing\<close>

definition lossy_text :: "bytes \<Rightarrow> string" where
  "lossy_text bs = map char_of_byte (utf8_lossy bs)"

definition print_out :: "string \<Rightarrow> consumer_run \<Rightarrow> consumer_run" where
  "print_out l s = s\<lparr>rn_stdout := rn_stdout s @ [l]\<rparr>"

definition print_err :: "string \<Rightarrow> consumer_run \<Rightarrow> consumer_run" where
  "print_err l s = s\<lparr>rn_stderr := rn_stderr s @ [l]\<rparr>"

definition print_generation :: "join_group_response \<Rightarrow> string" where
  "print_generation j = ''generation='' @ show_nat (unat (jg_generation j)) @ '' partitions=['' @
     join_with '', '' (map (\<lambda>p. show_nat (unat p)) (jg_partitions j)) @ '']''"

definition print_processed :: "u32 \<Rightarrow> fetched_record \<Rightarrow> message_context \<Rightarrow> string" where
  "print_processed part r ctx =
    ''partition='' @ show_nat (unat part) @ '' offset='' @ show_nat (unat (fd_offset r)) @
    '' original_topic='' @ mc_original_topic ctx @ '' original_partition='' @ show_nat (unat (mc_original_partition ctx)) @
    '' original_offset='' @ show_nat (unat (mc_original_offset ctx)) @ '' attempt='' @ show_nat (unat (mc_attempt ctx)) @
    '' key='' @ (if mc_key ctx = [] then ''-'' else lossy_text (mc_key ctx)) @ '' value='' @ lossy_text (mc_payload ctx)"

definition print_routed :: "u32 \<Rightarrow> fetched_record \<Rightarrow> message_context \<Rightarrow> string \<Rightarrow> string \<Rightarrow> string" where
  "print_routed part r ctx error destination =
    ''partition='' @ show_nat (unat part) @ '' offset='' @ show_nat (unat (fd_offset r)) @ '' attempt='' @
    show_nat (unat (mc_attempt ctx)) @ '' failed='' @ error @ '' routed_to='' @ destination"

section \<open>Committing\<close>

definition commit_request :: "consume_options \<Rightarrow> u64 \<Rightarrow> u32 \<Rightarrow> u64 \<Rightarrow> commit_offset_request" where
  "commit_request opts generation part offset = \<lparr>co_group = op_group opts, co_topic = op_topic opts,
     co_member = op_member opts, co_generation = generation, co_partition = part, co_offset = offset\<rparr>"

definition consumer_commit ::
    "cli_env \<Rightarrow> u32 \<Rightarrow> consume_options \<Rightarrow> u64 \<Rightarrow> u32 \<Rightarrow> u64 \<Rightarrow> consumer_run \<Rightarrow> (unit, client_error) outcome \<times> consumer_run" where
  "consumer_commit env peer opts generation part offset s =
    (case on_cluster (client_commit_offset (cx_client env) peer (commit_request opts generation part offset)) s of
       (res, s) \<Rightarrow> (res, record_event (if res = Ok () then Committed part offset else CommitFailed part offset) s))"

fun commit_requires_rejoin :: "(unit, client_error) outcome \<Rightarrow> (bool, cli_error) outcome" where
  "commit_requires_rejoin (Ok _) = Ok False"
| "commit_requires_rejoin (Err (Server _)) = Ok True"
| "commit_requires_rejoin (Err e) = Err (CliClient e)"
| "commit_requires_rejoin Panic = Panic"

text \<open>A commit in the given mode, if that is the mode of the consumer.\<close>

definition commit_in_mode ::
    "delivery_mode \<Rightarrow> cli_env \<Rightarrow> u32 \<Rightarrow> consume_options \<Rightarrow> u64 \<Rightarrow> u32 \<Rightarrow> u64 \<Rightarrow> consumer_run \<Rightarrow> bool consumer_result" where
  "commit_in_mode mode env peer opts generation part next_offset s =
    (if op_delivery opts = mode then
       (case consumer_commit env peer opts generation part next_offset s of (res, s) \<Rightarrow> (commit_requires_rejoin res, s))
     else (Ok False, s))"

section \<open>One record\<close>

text \<open>The handler's verdict on a record, and what is done with it, at the moment of that record.\<close>

definition handle_record ::
    "cli_env \<Rightarrow> u32 \<Rightarrow> consume_options \<Rightarrow> u32 \<Rightarrow> fetched_record \<Rightarrow> consumer_run \<Rightarrow> unit consumer_result" where
  "handle_record env peer opts part r s =
    (let now = cx_moment env (rn_records s); s = s\<lparr>rn_records := Suc (rn_records s)\<rparr> in
    step_bind (message_context_of (op_topic opts) part r, s) (\<lambda>ctx s.
    step_bind (wait_until_available (mo_clock now) ctx, s) (\<lambda>_ s.
    step_bind (run_handler (mo_handler now) (op_handler opts) (op_handler_timeout_ms opts) (mc_payload ctx), s) (\<lambda>verdict s.
    case verdict of
      Inr _ \<Rightarrow> (Ok (), record_event (Processed part (fd_offset r)) (print_out (print_processed part r ctx) s))
    | Inl error \<Rightarrow>
        (case publish_failure (cx_client env) (mo_later now) peer (op_group opts) ctx error (op_retry_delays_ms opts)
            (rn_cluster s) of
           (res, c) \<Rightarrow> step_bind (res, s\<lparr>rn_cluster := c\<rparr>) (\<lambda>destination s.
             (Ok (), record_event (Routed part (fd_offset r) destination)
               (print_err (print_routed part r ctx error destination) s))))))))"

definition process_record ::
    "cli_env \<Rightarrow> u32 \<Rightarrow> consume_options \<Rightarrow> u64 \<Rightarrow> u32 \<Rightarrow> fetched_record \<Rightarrow> u64 \<Rightarrow> consumer_run \<Rightarrow> bool consumer_result" where
  "process_record env peer opts generation part r next_offset s =
    step_bind (commit_in_mode AtMostOnce env peer opts generation part next_offset s) (\<lambda>rejoin s.
    if rejoin then (Ok True, s)
    else
    step_bind (handle_record env peer opts part r s) (\<lambda>_ s.
    commit_in_mode AtLeastOnce env peer opts generation part next_offset s))"

section \<open>The loop of a generation\<close>

type_synonym offsets = "(u32 \<times> u64) list"

fun load_consumer_offsets ::
    "cli_env \<Rightarrow> u32 \<Rightarrow> consume_options \<Rightarrow> u32 list \<Rightarrow> offsets \<Rightarrow> consumer_run \<Rightarrow> offsets consumer_result" where
  "load_consumer_offsets env peer opts [] offsets s = (Ok offsets, s)"
| "load_consumer_offsets env peer opts (part # parts) offsets s =
    (case on_cluster (client_committed_offset (cx_client env) peer (op_group opts) (op_topic opts) part) s of
       (res, s) \<Rightarrow> step_bind (map_err CliClient res, s) (\<lambda>offset s.
         load_consumer_offsets env peer opts parts
           (AList.update part (case offset of None \<Rightarrow> 0 | Some n \<Rightarrow> n) offsets) s))"

text \<open>The records of one fetch; \<open>True\<close> asks for a new generation.\<close>

fun process_records ::
    "cli_env \<Rightarrow> u32 \<Rightarrow> consume_options \<Rightarrow> u64 \<Rightarrow> u32 \<Rightarrow> fetched_record list \<Rightarrow> offsets \<Rightarrow> consumer_run
     \<Rightarrow> (bool \<times> offsets) consumer_result" where
  "process_records env peer opts generation part [] offsets s = (Ok (False, offsets), s)"
| "process_records env peer opts generation part (r # rs) offsets s =
    step_bind (ok_or (checked_add (fd_offset r) 1) CliOffsetOverflow, s) (\<lambda>next_offset s.
    step_bind (process_record env peer opts generation part r next_offset s) (\<lambda>rejoin s.
    if rejoin then (Ok (True, offsets), s)
    else process_records env peer opts generation part rs (AList.update part next_offset offsets) s))"

definition fetch_partition ::
    "cli_env \<Rightarrow> u32 \<Rightarrow> consume_options \<Rightarrow> u64 \<Rightarrow> u32 \<Rightarrow> u64 \<Rightarrow> consumer_run
     \<Rightarrow> (fetched_record list, client_error) outcome \<times> consumer_run" where
  "fetch_partition env peer opts generation part offset =
    on_cluster (client_group_fetch (cx_client env) peer \<lparr>gf_group = op_group opts, gf_topic = op_topic opts,
      gf_member = op_member opts, gf_generation = generation, gf_partition = part, gf_offset = offset,
      gf_max_bytes = op_max_bytes opts, gf_max_wait_ms = op_wait_ms opts\<rparr>)"

text \<open>One turn over the partitions: \<open>Inl\<close> ends the generation, \<open>Inr\<close> are the offsets to go on with.\<close>

fun consume_partitions ::
    "cli_env \<Rightarrow> u32 \<Rightarrow> consume_options \<Rightarrow> u64 \<Rightarrow> nat option \<Rightarrow> u32 list \<Rightarrow> offsets \<Rightarrow> consumer_run
     \<Rightarrow> (generation_outcome + offsets) consumer_result" where
  "consume_partitions env peer opts generation interrupt [] offsets s = (Ok (Inr offsets), s)"
| "consume_partitions env peer opts generation interrupt (part # parts) offsets s =
    (if interrupt = Some 0 then (Ok (Inl Shutdown), s)
     else
     let offset = (case map_of offsets part of None \<Rightarrow> 0 | Some n \<Rightarrow> n) in
     case fetch_partition env peer opts generation part offset s of
       (Err (Server _), s) \<Rightarrow> (Ok (Inl Rejoin), s)
     | (res, s) \<Rightarrow>
         step_bind (map_err CliClient res, s) (\<lambda>records s.
         step_bind (process_records env peer opts generation part records offsets s) (\<lambda>(rejoin, offsets) s.
         if rejoin then (Ok (Inl Rejoin), s)
         else consume_partitions env peer opts generation (map_option (\<lambda>n. n - 1) interrupt) parts offsets s)))"

text \<open>The heartbeat task ends at its first failing heartbeat.\<close>

definition heartbeat_finished ::
    "cli_env \<Rightarrow> u32 \<Rightarrow> consume_options \<Rightarrow> u64 \<Rightarrow> turn \<Rightarrow> consumer_run \<Rightarrow> bool \<times> consumer_run" where
  "heartbeat_finished env peer opts generation t s =
    (if tn_heartbeat t then
       (case on_cluster (client_heartbeat (cx_client env) peer (op_group opts) (op_topic opts) (op_member opts) generation) s of
          (res, s) \<Rightarrow> (res \<noteq> Ok (), s))
     else (False, s))"

fun consume_turns ::
    "cli_env \<Rightarrow> u32 \<Rightarrow> consume_options \<Rightarrow> u64 \<Rightarrow> u32 list \<Rightarrow> turn list \<Rightarrow> offsets \<Rightarrow> consumer_run
     \<Rightarrow> generation_outcome option consumer_result" where
  "consume_turns env peer opts generation partitions [] offsets s = (Ok None, s)"
| "consume_turns env peer opts generation partitions (t # ts) offsets s =
    (case heartbeat_finished env peer opts generation t s of (finished, s) \<Rightarrow>
       if finished then (Ok (Some Rejoin), s)
       else
       step_bind (consume_partitions env peer opts generation (tn_interrupt t) partitions offsets s) (\<lambda>outcome s.
       case outcome of
         Inl outcome \<Rightarrow> (Ok (Some outcome), s)
       | Inr offsets \<Rightarrow> consume_turns env peer opts generation partitions ts offsets s))"

definition consume_generation ::
    "cli_env \<Rightarrow> u32 \<Rightarrow> consume_options \<Rightarrow> u64 \<Rightarrow> u32 list \<Rightarrow> turn list \<Rightarrow> consumer_run
     \<Rightarrow> generation_outcome option consumer_result" where
  "consume_generation env peer opts generation partitions turns s =
    step_bind (load_consumer_offsets env peer opts partitions [] s) (\<lambda>offsets s.
    consume_turns env peer opts generation partitions turns offsets s)"

text \<open>The outer loop, with the turns of one generation after the other.\<close>

fun consume_execute ::
    "cli_env \<Rightarrow> u32 \<Rightarrow> consume_options \<Rightarrow> turn list list \<Rightarrow> consumer_run \<Rightarrow> unit consumer_result" where
  "consume_execute env peer opts [] s = (Ok (), s)"
| "consume_execute env peer opts (turns # generations) s =
    (case on_cluster (client_join_group (cx_client env) peer (op_group opts) (op_topic opts) (op_member opts)) s of
       (res, s) \<Rightarrow>
         step_bind (map_err CliClient res, s) (\<lambda>joined s.
         step_bind (consume_generation env peer opts (jg_generation joined) (jg_partitions joined) turns
           (print_out (print_generation joined) s)) (\<lambda>outcome s.
         case outcome of
           None \<Rightarrow> (Ok (), s)
         | Some Shutdown \<Rightarrow>
             (Ok (), snd (on_cluster (client_leave_group (cx_client env) peer (op_group opts) (op_topic opts)
                (op_member opts) (jg_generation joined)) s))
         | Some Rejoin \<Rightarrow> consume_execute env peer opts generations (print_err ''group generation changed; rejoining'' s))))"

section \<open>Delivery guarantees\<close>

text \<open>A record was taken care of: its handler succeeded, or it was published to a retry or dead-letter
  topic.\<close>

definition taken_care :: "u32 \<Rightarrow> u64 \<Rightarrow> consumer_event \<Rightarrow> bool" where
  "taken_care p off e \<longleftrightarrow> e = Processed p off \<or> (\<exists>topic. e = Routed p off topic)"

text \<open>Every commit that was sent, even one whose answer got lost, comes after the care for the record
  before it.\<close>

definition at_least_once :: "consumer_event list \<Rightarrow> bool" where
  "at_least_once es \<longleftrightarrow> (\<forall>i < length es. \<forall>p n. es ! i = Committed p n \<or> es ! i = CommitFailed p n \<longrightarrow>
     (\<exists>off. checked_add off 1 = Some n \<and> (\<exists>e \<in> set (take i es). taken_care p off e)))"

text \<open>A record is only taken care of after its offset was committed.\<close>

definition at_most_once :: "consumer_event list \<Rightarrow> bool" where
  "at_most_once es \<longleftrightarrow> (\<forall>i < length es. \<forall>p off. taken_care p off (es ! i) \<longrightarrow>
     (\<exists>n. checked_add off 1 = Some n \<and> Committed p n \<in> set (take i es)))"

definition guaranteed :: "delivery_mode \<Rightarrow> consumer_event list \<Rightarrow> bool" where
  "guaranteed mode es \<longleftrightarrow> (case mode of AtLeastOnce \<Rightarrow> at_least_once es | AtMostOnce \<Rightarrow> at_most_once es)"

lemma at_least_once_snoc:
  "at_least_once (es @ [e]) \<longleftrightarrow> at_least_once es \<and>
     (\<forall>p n. e = Committed p n \<or> e = CommitFailed p n \<longrightarrow>
       (\<exists>off. checked_add off 1 = Some n \<and> (\<exists>x\<in>set es. taken_care p off x)))"
  by (auto simp: at_least_once_def All_less_Suc nth_append)

lemma at_most_once_snoc:
  "at_most_once (es @ [e]) \<longleftrightarrow> at_most_once es \<and>
     (\<forall>p off. taken_care p off e \<longrightarrow> (\<exists>n. checked_add off 1 = Some n \<and> Committed p n \<in> set es))"
  by (auto simp: at_most_once_def All_less_Suc nth_append)

text \<open>The events of the steps of one record.\<close>

lemma on_cluster_events: "rn_events (snd (on_cluster f s)) = rn_events s"
  by (simp add: on_cluster_def split: prod.splits)

lemma on_cluster_eq: "on_cluster f s = (res, s') \<Longrightarrow> rn_events s' = rn_events s"
  by (metis on_cluster_events snd_conv)

lemma record_event_events [simp]:
  "rn_events (record_event e s) = rn_events s @ [e]" "rn_events (print_out l s) = rn_events s" "rn_events (print_err l s) = rn_events s"
  by (simp_all add: record_event_def print_out_def print_err_def)

lemma commit_in_mode_events:
  assumes "commit_in_mode mode env peer opts generation part n s = (res, s')"
  shows "rn_events s' = (if op_delivery opts = mode
      then rn_events s @ [if res = Ok False then Committed part n else CommitFailed part n] else rn_events s)"
proof (cases "op_delivery opts = mode")
  case True
  obtain r s1 where r: "on_cluster (client_commit_offset (cx_client env) peer (commit_request opts generation part n)) s = (r, s1)"
    by fastforce
  have "commit_requires_rejoin r = Ok False \<longleftrightarrow> r = Ok ()"
    by (cases r; cases "\<exists>e. r = Err e") (auto elim: commit_requires_rejoin.elims)
  with assms True r on_cluster_eq [OF r] show ?thesis
    by (auto simp: commit_in_mode_def consumer_commit_def)
qed (use assms in \<open>simp add: commit_in_mode_def\<close>)

lemma handle_record_events:
  assumes "handle_record env peer opts part r s = (res, s')"
  shows "(\<exists>e. taken_care part (fd_offset r) e \<and> rn_events s' = rn_events s @ [e]) \<or> res \<noteq> Ok () \<and> rn_events s' = rn_events s"
proof -
  define now where "now = cx_moment env (rn_records s)"
  note df = handle_record_def Let_def now_def [symmetric]
  consider ctx error where "message_context_of (op_topic opts) part r = Ok ctx" "wait_until_available (mo_clock now) ctx = Ok ()"
      "run_handler (mo_handler now) (op_handler opts) (op_handler_timeout_ms opts) (mc_payload ctx) = Ok (Inl error)"
    | e where "taken_care part (fd_offset r) e" "rn_events s' = rn_events s @ [e]"
    | "res \<noteq> Ok ()" "rn_events s' = rn_events s"
  proof (cases "message_context_of (op_topic opts) part r")
    case (Ok ctx)
    note ctx = this
    show ?thesis
    proof (cases "wait_until_available (mo_clock now) ctx")
      case (Ok u)
      then show ?thesis using that assms ctx
        by (cases "run_handler (mo_handler now) (op_handler opts) (op_handler_timeout_ms opts) (mc_payload ctx)")
          (auto simp: df taken_care_def split: sum.splits)
    qed (rule that(3), use assms ctx in \<open>auto simp: df\<close>)+
  qed (rule that(3), use assms in \<open>auto simp: df\<close>)+
  then show ?thesis
  proof cases
    case 1
    obtain dest c where "publish_failure (cx_client env) (mo_later now) peer (op_group opts) ctx error
        (op_retry_delays_ms opts) (rn_cluster s) = (dest, c)"
      by fastforce
    with 1 assms show ?thesis by (cases dest) (auto simp: df taken_care_def)
  qed auto
qed

lemma not_taken_care [simp]: "\<not> taken_care p off (Committed q n)" "\<not> taken_care p off (CommitFailed q n)"
  by (simp_all add: taken_care_def)

lemma taken_care_not_commit: "taken_care p off e \<Longrightarrow> e \<noteq> Committed q n \<and> e \<noteq> CommitFailed q n"
  by (auto simp: taken_care_def)

lemma taken_care_inject: "taken_care p off e \<Longrightarrow> taken_care q off' e \<longleftrightarrow> q = p \<and> off' = off"
  by (auto simp: taken_care_def)

lemma process_record_at_least_once:
  assumes "op_delivery opts = AtLeastOnce" and "at_least_once (rn_events s)" and "checked_add (fd_offset r) 1 = Some n"
  shows "at_least_once (rn_events (snd (process_record env peer opts generation part r n s)))"
proof -
  have first: "commit_in_mode AtMostOnce env peer opts generation part n s = (Ok False, s)"
    using assms(1) by (simp add: commit_in_mode_def)
  obtain res s1 where h: "handle_record env peer opts part r s = (res, s1)" by fastforce
  from handle_record_events [OF h] consider
    e where "taken_care part (fd_offset r) e" "rn_events s1 = rn_events s @ [e]" | "res \<noteq> Ok ()" "rn_events s1 = rn_events s"
    by blast
  then show ?thesis
  proof cases
    case 1
    have g: "at_least_once (rn_events s1)"
      using assms(2) taken_care_not_commit [OF 1(1)] unfolding 1(2) at_least_once_snoc by blast
    obtain res2 s2 where c: "commit_in_mode AtLeastOnce env peer opts generation part n s1 = (res2, s2)" by fastforce
    have ev: "rn_events s2 = rn_events s1 @ [if res2 = Ok False then Committed part n else CommitFailed part n]"
      using commit_in_mode_events [OF c] assms(1) by simp
    have "\<exists>x\<in>set (rn_events s1). taken_care part (fd_offset r) x" using 1 by auto
    with g assms(3) have "at_least_once (rn_events s2)" unfolding ev at_least_once_snoc by (auto split: if_splits)
    with g first h c show ?thesis by (cases res) (auto simp: process_record_def)
  next
    case 2
    with assms(2) first h show ?thesis by (cases res) (auto simp: process_record_def)
  qed
qed

lemma process_record_at_most_once:
  assumes "op_delivery opts = AtMostOnce" and "at_most_once (rn_events s)" and "checked_add (fd_offset r) 1 = Some n"
  shows "at_most_once (rn_events (snd (process_record env peer opts generation part r n s)))"
proof -
  obtain res s1 where c: "commit_in_mode AtMostOnce env peer opts generation part n s = (res, s1)" by fastforce
  have ev: "rn_events s1 = rn_events s @ [if res = Ok False then Committed part n else CommitFailed part n]"
    using commit_in_mode_events [OF c] assms(1) by simp
  have g: "at_most_once (rn_events s1)" using assms(2) unfolding ev at_most_once_snoc by simp
  show ?thesis
  proof (cases "res = Ok False")
    case True
    obtain res2 s2 where h: "handle_record env peer opts part r s1 = (res2, s2)" by fastforce
    have "Committed part n \<in> set (rn_events s1)" using ev True by simp
    with g handle_record_events [OF h] assms(3) have "at_most_once (rn_events s2)"
      by (auto simp: at_most_once_snoc taken_care_inject)
    moreover have "commit_in_mode AtLeastOnce env peer opts generation part n s2 = (Ok False, s2)"
      using assms(1) by (simp add: commit_in_mode_def)
    ultimately show ?thesis using c h True by (cases res2) (auto simp: process_record_def)
  next
    case False
    then show ?thesis using c g by (cases res) (auto simp: process_record_def)
  qed
qed

text \<open>What holds of the events of a consumer when every record it processes keeps it so.\<close>

locale event_discipline =
  fixes opts :: consume_options and good :: "consumer_event list \<Rightarrow> bool"
  assumes process_good: "good (rn_events s) \<Longrightarrow> checked_add (fd_offset r) 1 = Some n \<Longrightarrow>
    good (rn_events (snd (process_record env peer opts generation part r n s)))"
begin

lemma process_records_good:
  "good (rn_events s) \<Longrightarrow> good (rn_events (snd (process_records env peer opts generation part rs offsets s)))"
proof (induction rs arbitrary: offsets s)
  case (Cons r rs)
  show ?case
  proof (cases "checked_add (fd_offset r) 1")
    case (Some n)
    obtain res s1 where p: "process_record env peer opts generation part r n s = (res, s1)" by fastforce
    with process_good [OF Cons.prems Some, of env peer generation part] have "good (rn_events s1)" by simp
    with Cons.IH [OF this] Some p show ?thesis by (cases res) auto
  qed (use Cons.prems in simp)
qed simp

lemma consume_partitions_good:
  "good (rn_events s) \<Longrightarrow> good (rn_events (snd (consume_partitions env peer opts generation interrupt parts offsets s)))"
proof (induction parts arbitrary: interrupt offsets s)
  case (Cons part parts)
  define offset where "offset = (case map_of offsets part of None \<Rightarrow> 0 | Some n \<Rightarrow> n)"
  obtain res s1 where f: "fetch_partition env peer opts generation part offset s = (res, s1)" by fastforce
  then have g: "good (rn_events s1)" using Cons.prems by (simp add: fetch_partition_def on_cluster_eq)
  show ?case
  proof (cases res)
    case (Ok records)
    obtain res2 s2 where p: "process_records env peer opts generation part records offsets s1 = (res2, s2)" by fastforce
    with process_records_good [OF g] have "good (rn_events s2)" by (metis snd_conv)
    with Cons.IH [OF this] Ok p f Cons.prems show ?thesis
      by (cases res2) (auto simp: offset_def [symmetric] split: prod.splits)
  next
    case (Err e)
    with f g Cons.prems show ?thesis by (cases e) (auto simp: offset_def [symmetric])
  qed (use f g Cons.prems in \<open>auto simp: offset_def [symmetric]\<close>)
qed simp

lemma consume_turns_good:
  "good (rn_events s) \<Longrightarrow> good (rn_events (snd (consume_turns env peer opts generation parts turns offsets s)))"
proof (induction turns arbitrary: offsets s)
  case (Cons t ts)
  obtain fin s1 where h: "heartbeat_finished env peer opts generation t s = (fin, s1)" by fastforce
  then have g: "good (rn_events s1)" using Cons.prems
    by (auto simp: heartbeat_finished_def dest: on_cluster_eq split: if_splits prod.splits)
  obtain res s2 where p: "consume_partitions env peer opts generation (tn_interrupt t) parts offsets s1 = (res, s2)" by fastforce
  with consume_partitions_good [OF g] have "good (rn_events s2)" by (metis snd_conv)
  with Cons.IH [OF this] g h p show ?case by (cases res) (auto split: sum.splits)
qed simp

lemma load_good:
  "good (rn_events s) \<Longrightarrow> good (rn_events (snd (load_consumer_offsets env peer opts parts offsets s)))"
proof (induction parts arbitrary: offsets s)
  case (Cons part parts)
  obtain res s1 where p: "on_cluster (client_committed_offset (cx_client env) peer (op_group opts) (op_topic opts) part) s = (res, s1)"
    by fastforce
  then have "good (rn_events s1)" using Cons.prems by (simp add: on_cluster_eq)
  with Cons.IH [OF this] p show ?case by (cases res) auto
qed simp

lemma consume_execute_good:
  "good (rn_events s) \<Longrightarrow> good (rn_events (snd (consume_execute env peer opts generations s)))"
proof (induction generations arbitrary: s)
  case (Cons turns generations)
  obtain res s1 where j: "on_cluster (client_join_group (cx_client env) peer (op_group opts) (op_topic opts) (op_member opts)) s = (res, s1)"
    by fastforce
  then have g1: "good (rn_events s1)" using Cons.prems by (simp add: on_cluster_eq)
  show ?case
  proof (cases res)
    case (Ok joined)
    let ?s1 = "print_out (print_generation joined) s1"
    have g1': "good (rn_events ?s1)" using g1 by simp
    obtain r2 s2 where l: "load_consumer_offsets env peer opts (jg_partitions joined) [] ?s1 = (r2, s2)" by fastforce
    with load_good [OF g1'] have g2: "good (rn_events s2)" by (metis snd_conv)
    obtain r3 s3 where t: "consume_generation env peer opts (jg_generation joined) (jg_partitions joined) turns ?s1 = (r3, s3)" by fastforce
    have g3: "good (rn_events s3)"
    proof (cases r2)
      case (Ok offsets)
      with consume_turns_good [OF g2, of env peer "jg_generation joined" "jg_partitions joined" turns offsets] l t
      show ?thesis by (simp add: consume_generation_def)
    qed (use g2 l t in \<open>auto simp: consume_generation_def\<close>)
    then have "good (rn_events (print_err ''group generation changed; rejoining'' s3))" by simp
    with Cons.IH [OF this] g3 j Ok t show ?thesis
      by (cases r3) (auto simp: on_cluster_events split: option.splits generation_outcome.splits)
  qed (use j g1 in auto)
qed simp

end

interpretation consumer: event_discipline opts "guaranteed (op_delivery opts)" for opts
  by unfold_locales
    (auto simp: guaranteed_def process_record_at_least_once process_record_at_most_once split: delivery_mode.splits)

text \<open>C10: The consumer keeps its delivery mode, whatever the brokers, the network, the handler and the user do, and
  wherever its run is cut off: with at-least-once delivery no commit is even sent before the
  record in front of it was processed or published to a retry or dead-letter topic; with
  at-most-once delivery no record is processed or published before its offset was committed.\<close>

theorem consumer_keeps_delivery_mode:
  "guaranteed (op_delivery opts) (rn_events (snd (consume_execute env peer opts generations (started_run c))))"
  by (rule consumer.consume_execute_good) (simp add: started_run_def guaranteed_def at_least_once_def at_most_once_def split: delivery_mode.split)

text \<open>A member without partitions does not wait for Ctrl-C: its loop never ends with a shutdown.\<close>

lemma idle_member_ignores_interrupt:
  "fst (consume_turns env peer opts generation [] turns offsets s) \<noteq> Ok (Some Shutdown)"
  by (induction turns arbitrary: s) (auto split: prod.splits)

end
