(* ===== verification/Commands.thy ===== *)
theory Commands
  imports Consumer
begin

text \<open>
  The commands of the command line (\<open>bin/sevlamq-cli/src/commands\<close>): each sends one operation of the client
  library and prints its answer.  Their arguments, as \<open>clap\<close> delivers them, are datatypes; what is printed is a list of
  lines.  The consume command runs the coordinated consumer.
\<close>

section \<open>Commands\<close>

datatype produce_acks = AcksLeader | AcksDurable

datatype batch_compression = BatchNone | BatchZstd

datatype group_command =
    GroupJoin string string string
  | GroupHeartbeat string string string u64
  | GroupLeave string string string u64
  | GroupCommit string string string u64 u32 u64
  | GroupOffset string string u32
  | GroupFetchRecords string string string u64 u32 u64 u32 u32

datatype topic_command = TopicCreate string u32 | TopicList | TopicDescribe string

datatype cluster_command = ClusterStatus | ClusterPromote string u32 u32

datatype cli_command =
    CliProduce string string "string option" produce_acks "string option" "u64 option"
  | CliProduceBatch string "string list" "string option" produce_acks batch_compression
  | CliFetch string u32 u64 u32 u32
  | CliGroup group_command
  | CliTopic topic_command
  | CliCluster cluster_command
  | CliConsume consume_options

section \<open>Printing\<close>

definition print_ack :: "produce_ack \<Rightarrow> string" where
  "print_ack ack = ''partition='' @ show_nat (unat (pa_partition ack)) @ '' offset='' @ show_nat (unat (pa_offset ack))"

definition print_fetched :: "fetched_record \<Rightarrow> string" where
  "print_fetched r = ''offset='' @ show_nat (unat (fd_offset r)) @ '' timestamp_ms='' @ show_nat (unat (fd_timestamp_ms r))
     @ '' key='' @ (case fd_key r of None \<Rightarrow> ''-'' | Some key \<Rightarrow> lossy_text key) @ '' value='' @ lossy_text (fd_value r)"

definition nth_or_zero :: "u64 list \<Rightarrow> nat \<Rightarrow> u64" where
  "nth_or_zero xs i = (if i < length xs then xs ! i else 0)"

definition print_leader :: "topic_metadata \<Rightarrow> nat \<Rightarrow> string" where
  "print_leader t i = show_nat i @ '':'' @ show_nat (unat (tm_leaders t ! i)) @ ''@'' @
     show_nat (unat (nth_or_zero (tm_leader_epochs t) i)) @ ''/hw='' @ show_nat (unat (nth_or_zero (tm_high_watermarks t) i))"

definition print_topic :: "topic_metadata \<Rightarrow> string" where
  "print_topic t = ''topic='' @ tm_topic t @ '' partitions='' @ show_nat (unat (tm_partitions t)) @ '' leaders=['' @
     join_with '','' (map (print_leader t) [0..<length (tm_leaders t)]) @ '']''"

definition print_joined :: "join_group_response \<Rightarrow> string" where
  "print_joined j = ''generation='' @ show_nat (unat (jg_generation j)) @ '' partitions='' @
     join_with '','' (map (\<lambda>p. show_nat (unat p)) (jg_partitions j))"

definition print_node :: "cluster_metadata \<Rightarrow> cluster_node \<Rightarrow> string" where
  "print_node m node = ''broker='' @ show_nat (unat (cn_id node)) @ '' address='' @ endpoint (cn_host node) (cn_port node) @
     '' admin='' @ endpoint (cn_host node) (cn_admin_port node) @ '' replication='' @
     endpoint (cn_host node) (cn_replication_port node) @
     (if cn_id node = cm_responding_broker_id m then '' current'' else [])"

section \<open>Execution\<close>

type_synonym printed = "(string list, cli_error) outcome \<times> cluster"

text \<open>A client operation, and the lines its answer is printed as.\<close>

definition show_answer :: "('a \<Rightarrow> string list) \<Rightarrow> 'a client_result \<Rightarrow> printed" where
  "show_answer f m = (case m of (res, c) \<Rightarrow> (map_ok f (map_err CliClient res), c))"

fun ack_mode_of :: "produce_acks \<Rightarrow> ack_mode" where
  "ack_mode_of AcksLeader = Leader"
| "ack_mode_of AcksDurable = Durable"

fun compression_of :: "batch_compression \<Rightarrow> compression" where
  "compression_of BatchNone = NoCompression"
| "compression_of BatchZstd = Zstd"

definition key_bytes :: "string option \<Rightarrow> bytes" where
  "key_bytes key = (case key of None \<Rightarrow> [] | Some key \<Rightarrow> as_bytes key)"

definition producer_of :: "string option \<Rightarrow> u64 option \<Rightarrow> producer_identity option" where
  "producer_of producer_id sequence =
    (case (producer_id, sequence) of
       (Some i, Some n) \<Rightarrow> Some \<lparr>pi_id = i, pi_sequence = n\<rparr>
     | _ \<Rightarrow> None)"

definition produce_command ::
    "client_env \<Rightarrow> u32 \<Rightarrow> string \<Rightarrow> string \<Rightarrow> string option \<Rightarrow> produce_acks \<Rightarrow> string option \<Rightarrow> u64 option \<Rightarrow> cluster \<Rightarrow> printed" where
  "produce_command env peer topic message key acks producer_id sequence c =
    show_answer (\<lambda>ack. [print_ack ack]) (client_produce env peer topic (key_bytes key) (as_bytes message) (ack_mode_of acks)
      (producer_of producer_id sequence) c)"

definition produce_batch_command ::
    "client_env \<Rightarrow> u32 \<Rightarrow> string \<Rightarrow> string list \<Rightarrow> string option \<Rightarrow> produce_acks \<Rightarrow> batch_compression \<Rightarrow> cluster \<Rightarrow> printed" where
  "produce_batch_command env peer topic messages key acks batch_compression c =
    step_bind (map_err CliProtocol (produce_batch_request_new topic
        (map (\<lambda>message. \<lparr>br_key = key_bytes key, br_payload = as_bytes message\<rparr>) messages) (ack_mode_of acks)
        (compression_of batch_compression)), c) (\<lambda>request c.
    show_answer (map print_ack) (client_produce_batch env peer request c))"

definition fetch_execute :: "client_env \<Rightarrow> u32 \<Rightarrow> string \<Rightarrow> u32 \<Rightarrow> u64 \<Rightarrow> u32 \<Rightarrow> u32 \<Rightarrow> cluster \<Rightarrow> printed" where
  "fetch_execute env peer topic part offset max_bytes wait_ms c =
    show_answer (map print_fetched) (client_fetch env peer topic part offset max_bytes wait_ms c)"

fun group_execute :: "client_env \<Rightarrow> u32 \<Rightarrow> group_command \<Rightarrow> cluster \<Rightarrow> printed" where
  "group_execute env peer (GroupJoin grp topic member) c =
    show_answer (\<lambda>j. [print_joined j]) (client_join_group env peer grp topic member c)"
| "group_execute env peer (GroupHeartbeat grp topic member generation) c =
    show_answer (\<lambda>_. [''heartbeat accepted'']) (client_heartbeat env peer grp topic member generation c)"
| "group_execute env peer (GroupLeave grp topic member generation) c =
    show_answer (\<lambda>_. [''member left group'']) (client_leave_group env peer grp topic member generation c)"
| "group_execute env peer (GroupCommit grp topic member generation part offset) c =
    show_answer (\<lambda>_. [''offset committed'']) (client_commit_offset env peer \<lparr>co_group = grp, co_topic = topic,
      co_member = member, co_generation = generation, co_partition = part, co_offset = offset\<rparr> c)"
| "group_execute env peer (GroupOffset grp topic part) c =
    show_answer (\<lambda>offset. [case offset of Some n \<Rightarrow> ''offset='' @ show_nat (unat n) | None \<Rightarrow> ''offset=-''])
      (client_committed_offset env peer grp topic part c)"
| "group_execute env peer (GroupFetchRecords grp topic member generation part offset max_bytes wait_ms) c =
    show_answer (map print_fetched) (client_group_fetch env peer \<lparr>gf_group = grp, gf_topic = topic, gf_member = member,
      gf_generation = generation, gf_partition = part, gf_offset = offset, gf_max_bytes = max_bytes,
      gf_max_wait_ms = wait_ms\<rparr> c)"

fun topic_execute :: "client_env \<Rightarrow> u32 \<Rightarrow> topic_command \<Rightarrow> cluster \<Rightarrow> printed" where
  "topic_execute env peer (TopicCreate topic partitions) c =
    show_answer (\<lambda>t. [print_topic t]) (client_create_topic env peer topic partitions c)"
| "topic_execute env peer TopicList c = show_answer (map print_topic) (client_list_topics env peer c)"
| "topic_execute env peer (TopicDescribe topic) c =
    show_answer (\<lambda>t. [print_topic t]) (client_describe_topic env peer topic c)"

fun cluster_execute :: "client_env \<Rightarrow> u32 \<Rightarrow> cluster_command \<Rightarrow> cluster \<Rightarrow> printed" where
  "cluster_execute env peer ClusterStatus c =
    show_answer (\<lambda>m. (''responding_broker='' @ show_nat (unat (cm_responding_broker_id m))) # map (print_node m) (cm_nodes m))
      (client_cluster_metadata env peer c)"
| "cluster_execute env peer (ClusterPromote topic part broker_id) c =
    show_answer (\<lambda>l. [''partition='' @ show_nat (unat (pl_partition l)) @ '' leader='' @ show_nat (unat (pl_leader_id l)) @
      '' epoch='' @ show_nat (unat (pl_leader_epoch l))]) (client_promote_leader env peer topic part broker_id c)"

fun execute_single :: "client_env \<Rightarrow> u32 \<Rightarrow> cli_command \<Rightarrow> cluster \<Rightarrow> printed" where
  "execute_single env peer (CliProduce topic message key acks producer_id sequence) c =
    produce_command env peer topic message key acks producer_id sequence c"
| "execute_single env peer (CliProduceBatch topic messages key acks batch_compression) c =
    produce_batch_command env peer topic messages key acks batch_compression c"
| "execute_single env peer (CliFetch topic part offset max_bytes wait_ms) c =
    fetch_execute env peer topic part offset max_bytes wait_ms c"
| "execute_single env peer (CliGroup command) c = group_execute env peer command c"
| "execute_single env peer (CliTopic command) c = topic_execute env peer command c"
| "execute_single env peer (CliCluster command) c = cluster_execute env peer command c"
| "execute_single env peer (CliConsume opts) c = (Panic, c)"

text \<open>The whole command line: what it prints on standard output, with the turns of the consumer for the
  consume command.\<close>

definition consume_command ::
    "cli_env \<Rightarrow> u32 \<Rightarrow> consume_options \<Rightarrow> turn list list \<Rightarrow> cluster \<Rightarrow> printed" where
  "consume_command env peer opts generations c =
    (case consume_execute env peer opts generations (started_run c) of
       (res, s) \<Rightarrow> (map_ok (\<lambda>_. rn_stdout s) res, rn_cluster s))"

definition execute :: "cli_env \<Rightarrow> u32 \<Rightarrow> cli_command \<Rightarrow> turn list list \<Rightarrow> cluster \<Rightarrow> printed" where
  "execute env peer command generations c =
    (case command of
       CliConsume opts \<Rightarrow> consume_command env peer opts generations c
     | _ \<Rightarrow> execute_single (cx_client env) peer command c)"

section \<open>Batches of the command line\<close>

text \<open>The records of a batch command share their key, so the client never refuses such a batch for spanning partitions.\<close>

lemma batch_command_one_partition:
  "batch_partition hash partitions (map (\<lambda>message. \<lparr>br_key = key, br_payload = as_bytes message\<rparr>) messages)
     \<noteq> Err BatchSpansPartitions"
  by (cases messages) (auto simp: batch_partition_def Let_def list_ex_iff)

text \<open>What is printed of a key or a value is text, and it is the value itself when that is text.\<close>

lemma lossy_text_utf8: "utf8_string (lossy_text bs)"
  by (simp add: utf8_string_def lossy_text_def as_bytes_def comp_def utf8_lossy_valid)

lemma lossy_text_as_bytes: "utf8_string s \<Longrightarrow> lossy_text (as_bytes s) = s"
  by (simp add: lossy_text_def utf8_string_def utf8_lossy_id as_bytes_def comp_def)

end
