(* ===== verification/Connection.thy ===== *)
theory Connection
  imports Cluster_Control Wire_Request Wire_Response Wire_Replication
begin

text \<open>
  The connections of a broker (\<open>handle_connection\<close> and \<open>handle_replication_connection\<close> in
  \<open>crates/broker/src/lib.rs\<close>): any number of them are served at once, each reads bytes in pieces of any size,
  decodes one frame after the other, handles it and writes the encoded answer.  The step relation
  \<open>service_step\<close> interleaves them with each other and with everything else that runs.  It refines
  \<open>session_step\<close>, in which whole requests are handled and whole answers given.
\<close>

section \<open>Connections\<close>

text \<open>A connection: what the peer has sent and the broker has not read, whether the peer has closed its
  side, the read buffer, what was written back, and how the task ended, if it has.\<close>

record connection =
  cn_inflight :: bytes
  cn_closing :: bool
  cn_buffer :: bytes
  cn_written :: bytes
  cn_end :: "(unit, connection_error) outcome option"

definition opened_connection :: connection where
  "opened_connection = \<lparr>cn_inflight = [], cn_closing = False, cn_buffer = [], cn_written = [], cn_end = None\<rparr>"

text \<open>\<open>read_buf\<close> with a result other than 0, and with the result 0.\<close>

definition read_socket :: "nat \<Rightarrow> connection \<Rightarrow> connection" where
  "read_socket n cn = cn\<lparr>cn_buffer := cn_buffer cn @ take n (cn_inflight cn), cn_inflight := drop n (cn_inflight cn)\<rparr>"

definition end_of_stream :: "connection \<Rightarrow> connection" where
  "end_of_stream cn = cn\<lparr>cn_end := Some (if cn_buffer cn \<noteq> [] then Err TruncatedFrame else Ok ())\<rparr>"

text \<open>The answer to a decoded message, or the end of the task: the handler may fail, and so may the
  encoder of its answer.\<close>

definition write_answer ::
    "('r \<Rightarrow> bytes \<Rightarrow> (unit, protocol_error) outcome \<times> bytes) \<Rightarrow> ('r, connection_error) outcome \<Rightarrow> connection \<Rightarrow> connection" where
  "write_answer encode_answer res cn =
    (case res of
       Ok r \<Rightarrow>
         (case encode_answer r [] of
            (Ok _, out) \<Rightarrow> cn\<lparr>cn_written := cn_written cn @ out\<rparr>
          | (Err e, _) \<Rightarrow> cn\<lparr>cn_end := Some (Err (ConnProtocol e))\<rparr>
          | (Panic, _) \<Rightarrow> cn\<lparr>cn_end := Some Panic\<rparr>)
     | Err e \<Rightarrow> cn\<lparr>cn_end := Some (Err e)\<rparr>
     | Panic \<Rightarrow> cn\<lparr>cn_end := Some Panic\<rparr>)"

text \<open>One turn of the inner loop, for a buffer with which the decoder does not ask for more bytes.\<close>

definition serve_next ::
    "(bytes \<Rightarrow> ('m option, protocol_error) outcome \<times> bytes) \<Rightarrow> ('m \<Rightarrow> 's \<Rightarrow> ('r, connection_error) outcome \<times> 's)
     \<Rightarrow> ('r \<Rightarrow> bytes \<Rightarrow> (unit, protocol_error) outcome \<times> bytes) \<Rightarrow> connection \<Rightarrow> 's \<Rightarrow> connection \<times> 's" where
  "serve_next decode handle encode_answer cn s =
    (case decode (cn_buffer cn) of
       (Ok None, b) \<Rightarrow> (cn\<lparr>cn_buffer := b\<rparr>, s)
     | (Ok (Some m), b) \<Rightarrow>
         (case handle m s of (res, s) \<Rightarrow> (write_answer encode_answer res (cn\<lparr>cn_buffer := b\<rparr>), s))
     | (Err e, b) \<Rightarrow> (cn\<lparr>cn_buffer := b, cn_end := Some (Err (ConnProtocol e))\<rparr>, s)
     | (Panic, b) \<Rightarrow> (cn\<lparr>cn_buffer := b, cn_end := Some Panic\<rparr>, s))"

definition wants_more :: "(bytes \<Rightarrow> ('m option, protocol_error) outcome \<times> bytes) \<Rightarrow> connection \<Rightarrow> bool" where
  "wants_more decode cn \<longleftrightarrow> fst (decode (cn_buffer cn)) = Ok None"

section \<open>Many connections at once\<close>

text \<open>A peer sends a message or closes its side; a connection reads, meets the end of its stream, or serves
  a message; and the state changes for some other reason: other listeners, other brokers, the
  background tasks.\<close>

inductive service_step ::
    "('m \<Rightarrow> bool) \<Rightarrow> ('m \<Rightarrow> bytes \<Rightarrow> (unit, protocol_error) outcome \<times> bytes)
     \<Rightarrow> (bytes \<Rightarrow> ('m option, protocol_error) outcome \<times> bytes) \<Rightarrow> ('m \<Rightarrow> 's \<Rightarrow> ('r, connection_error) outcome \<times> 's)
     \<Rightarrow> ('r \<Rightarrow> bytes \<Rightarrow> (unit, protocol_error) outcome \<times> bytes)
     \<Rightarrow> 's \<times> connection list \<Rightarrow> 's \<times> connection list \<Rightarrow> bool"
  for valid encode decode handle encode_answer where
  send: "i < length cns \<Longrightarrow> \<not> cn_closing (cns ! i) \<Longrightarrow> valid m \<Longrightarrow> encode m [] = (Ok (), out) \<Longrightarrow>
    service_step valid encode decode handle encode_answer (s, cns)
      (s, cns[i := (cns ! i)\<lparr>cn_inflight := cn_inflight (cns ! i) @ out\<rparr>])"
| finish: "i < length cns \<Longrightarrow>
    service_step valid encode decode handle encode_answer (s, cns) (s, cns[i := (cns ! i)\<lparr>cn_closing := True\<rparr>])"
| read: "i < length cns \<Longrightarrow> cn_end (cns ! i) = None \<Longrightarrow> wants_more decode (cns ! i) \<Longrightarrow> 0 < n \<Longrightarrow>
    n \<le> length (cn_inflight (cns ! i)) \<Longrightarrow>
    service_step valid encode decode handle encode_answer (s, cns) (s, cns[i := read_socket n (cns ! i)])"
| stream_ends: "i < length cns \<Longrightarrow> cn_end (cns ! i) = None \<Longrightarrow> wants_more decode (cns ! i) \<Longrightarrow>
    cn_inflight (cns ! i) = [] \<Longrightarrow> cn_closing (cns ! i) \<Longrightarrow>
    service_step valid encode decode handle encode_answer (s, cns) (s, cns[i := end_of_stream (cns ! i)])"
| serve: "i < length cns \<Longrightarrow> cn_end (cns ! i) = None \<Longrightarrow> \<not> wants_more decode (cns ! i) \<Longrightarrow>
    serve_next decode handle encode_answer (cns ! i) s = (cn, s') \<Longrightarrow>
    service_step valid encode decode handle encode_answer (s, cns) (s', cns[i := cn])"
| other: "service_step valid encode decode handle encode_answer (s, cns) (s', cns)"

section \<open>Sessions: the abstract service\<close>

text \<open>A session has the requests that wait for an answer, in the order they were sent, and the answers given.\<close>

record ('m, 'r) session =
  ss_pending :: "'m list"
  ss_answers :: "'r list"
  ss_ended :: bool

definition opened_session :: "('m, 'r) session" where
  "opened_session = \<lparr>ss_pending = [], ss_answers = [], ss_ended = False\<rparr>"

inductive session_step ::
    "('m \<Rightarrow> bool) \<Rightarrow> ('m \<Rightarrow> 's \<Rightarrow> ('r, connection_error) outcome \<times> 's) \<Rightarrow> ('r \<Rightarrow> bool)
     \<Rightarrow> 's \<times> ('m, 'r) session list \<Rightarrow> 's \<times> ('m, 'r) session list \<Rightarrow> bool"
  for valid handle encodable where
  submit: "i < length ss \<Longrightarrow> valid m \<Longrightarrow>
    session_step valid handle encodable (s, ss) (s, ss[i := (ss ! i)\<lparr>ss_pending := ss_pending (ss ! i) @ [m]\<rparr>])"
| answer: "i < length ss \<Longrightarrow> \<not> ss_ended (ss ! i) \<Longrightarrow> ss_pending (ss ! i) = m # ms \<Longrightarrow> handle m s = (Ok r, s') \<Longrightarrow> encodable r \<Longrightarrow>
    session_step valid handle encodable (s, ss)
      (s', ss[i := (ss ! i)\<lparr>ss_pending := ms, ss_answers := ss_answers (ss ! i) @ [r]\<rparr>])"
| break: "i < length ss \<Longrightarrow> \<not> ss_ended (ss ! i) \<Longrightarrow> ss_pending (ss ! i) = m # ms \<Longrightarrow> handle m s = (res, s') \<Longrightarrow>
    (\<forall>r. res = Ok r \<longrightarrow> \<not> encodable r) \<Longrightarrow>
    session_step valid handle encodable (s, ss) (s', ss[i := (ss ! i)\<lparr>ss_pending := ms, ss_ended := True\<rparr>])"
| hang_up: "i < length ss \<Longrightarrow> \<not> ss_ended (ss ! i) \<Longrightarrow> ss_pending (ss ! i) = [] \<Longrightarrow>
    session_step valid handle encodable (s, ss) (s, ss[i := (ss ! i)\<lparr>ss_ended := True\<rparr>])"
| interfere: "session_step valid handle encodable (s, ss) (s', ss)"

section \<open>The refinement\<close>

text \<open>The bytes a connection has not decoded are exactly the encodings of the requests of its session that wait,
  and what it has written are the encodings of the answers.\<close>

definition speaks_for ::
    "('m \<Rightarrow> bool) \<Rightarrow> ('m \<Rightarrow> bytes \<Rightarrow> (unit, protocol_error) outcome \<times> bytes)
     \<Rightarrow> ('r \<Rightarrow> bytes \<Rightarrow> (unit, protocol_error) outcome \<times> bytes) \<Rightarrow> connection \<Rightarrow> ('m, 'r) session \<Rightarrow> bool" where
  "speaks_for valid encode encode_answer cn ss \<longleftrightarrow>
     ss_ended ss = (cn_end cn \<noteq> None) \<and>
     (cn_end cn = None \<longrightarrow> list_all (\<lambda>m. valid m \<and> fst (encode m []) = Ok ()) (ss_pending ss) \<and>
        cn_buffer cn @ cn_inflight cn = concat (map (\<lambda>m. snd (encode m [])) (ss_pending ss))) \<and>
     list_all (\<lambda>r. fst (encode_answer r []) = Ok ()) (ss_answers ss) \<and>
     cn_written cn = concat (map (\<lambda>r. snd (encode_answer r [])) (ss_answers ss))"

text \<open>What a listener needs: a codec for the messages it receives, a handler, and an encoder of answers.\<close>

locale listener = framed_codec encode decode valid
  for encode :: "'m \<Rightarrow> bytes \<Rightarrow> (unit, protocol_error) outcome \<times> bytes"
    and decode :: "bytes \<Rightarrow> ('m option, protocol_error) outcome \<times> bytes" and valid :: "'m \<Rightarrow> bool" +
  fixes handle :: "'m \<Rightarrow> 's \<Rightarrow> ('r, connection_error) outcome \<times> 's"
    and encode_answer :: "'r \<Rightarrow> bytes \<Rightarrow> (unit, protocol_error) outcome \<times> bytes"
begin

lemma speaks_for_wire:
  "speaks_for valid encode encode_answer cn ss \<longleftrightarrow> ss_ended ss = (cn_end cn \<noteq> None) \<and>
     (cn_end cn = None \<longrightarrow> list_all sendable (ss_pending ss) \<and>
        cn_buffer cn @ cn_inflight cn = concat (map wire_bytes (ss_pending ss))) \<and>
     list_all (\<lambda>r. fst (encode_answer r []) = Ok ()) (ss_answers ss) \<and>
     cn_written cn = concat (map (\<lambda>r. snd (encode_answer r [])) (ss_answers ss))"
  by (simp add: speaks_for_def sendable_def [abs_def] wire_bytes_def [abs_def])

text \<open>What the decoder makes of the buffer of a running connection: it asks for more bytes, and then either
  nothing is outstanding or bytes are on their way; or it delivers the first request that waits.\<close>

lemma decode_pending:
  assumes "list_all sendable ms" and "buf @ later = concat (map wire_bytes ms)"
  shows "fst (decode buf) = Ok None \<and> (ms = [] \<or> later \<noteq> []) \<or>
    (\<exists>m ms' b. ms = m # ms' \<and> decode buf = (Ok (Some m), b) \<and> b @ later = concat (map wire_bytes ms'))"
proof (cases ms)
  case Nil
  with assms(2) show ?thesis by (simp add: decode_empty)
next
  case (Cons m ms')
  have m: "sendable m" using assms(1) Cons by simp
  have eq: "buf @ later = wire_bytes m @ concat (map wire_bytes ms')" using assms(2) Cons by simp
  then consider us where "wire_bytes m = buf @ us" "later = us @ concat (map wire_bytes ms')" "us \<noteq> []"
    | us where "buf = wire_bytes m @ us" "us @ later = concat (map wire_bytes ms')"
    by (fastforce simp: append_eq_append_conv2)
  then show ?thesis
  proof cases
    case 1
    then have "fst (decode buf) = Ok None" using wire_bytes_frame(3) [OF m, of "length buf"] by simp
    with 1 show ?thesis by simp
  next
    case 2
    with wire_bytes_frame(2) [OF m] Cons show ?thesis by auto
  qed
qed

lemma serve_next_simulates:
  assumes rel: "speaks_for valid encode encode_answer cn ss" and run: "cn_end cn = None" "\<not> wants_more decode cn"
    and serve: "serve_next decode handle encode_answer cn s = (cn', s')"
  obtains m ms r where "ss_pending ss = m # ms" "handle m s = (Ok r, s')" "fst (encode_answer r []) = Ok ()"
      "speaks_for valid encode encode_answer cn' (ss\<lparr>ss_pending := ms, ss_answers := ss_answers ss @ [r]\<rparr>)"
  | m ms res where "ss_pending ss = m # ms" "handle m s = (res, s')" "\<forall>r. res = Ok r \<longrightarrow> fst (encode_answer r []) \<noteq> Ok ()"
      "speaks_for valid encode encode_answer cn' (ss\<lparr>ss_pending := ms, ss_ended := True\<rparr>)"
proof -
  have p: "list_all sendable (ss_pending ss)" "cn_buffer cn @ cn_inflight cn = concat (map wire_bytes (ss_pending ss))"
    and w: "list_all (\<lambda>r. fst (encode_answer r []) = Ok ()) (ss_answers ss)"
      "cn_written cn = concat (map (\<lambda>r. snd (encode_answer r [])) (ss_answers ss))"
    using rel run(1) by (simp_all add: speaks_for_wire)
  from decode_pending [OF p] run(2) obtain m ms b where d: "ss_pending ss = m # ms" "decode (cn_buffer cn) = (Ok (Some m), b)"
    "b @ cn_inflight cn = concat (map wire_bytes ms)"
    by (auto simp: wants_more_def)
  obtain res s1 where h: "handle m s = (res, s1)" by fastforce
  have cn': "cn' = write_answer encode_answer res (cn\<lparr>cn_buffer := b\<rparr>)" "s' = s1"
    using serve d(2) h by (simp_all add: serve_next_def)
  have ms: "list_all sendable ms" using p(1) d(1) by simp
  show thesis
  proof (cases "\<exists>r. res = Ok r \<and> fst (encode_answer r []) = Ok ()")
    case True
    then obtain r out where r: "res = Ok r" "encode_answer r [] = (Ok (), out)"
      by (metis (full_types) old.unit.exhaust prod.collapse)
    have "speaks_for valid encode encode_answer cn' (ss\<lparr>ss_pending := ms, ss_answers := ss_answers ss @ [r]\<rparr>)"
      using rel run(1) ms d(3) w r(2) unfolding cn' r(1) by (simp add: speaks_for_wire write_answer_def)
    with that(1) d(1) h cn'(2) r True show thesis by auto
  next
    case False
    then have "cn_end cn' \<noteq> None \<and> cn_written cn' = cn_written cn"
      unfolding cn'(1) write_answer_def by (auto split: outcome.splits prod.splits)
    then have "speaks_for valid encode encode_answer cn' (ss\<lparr>ss_pending := ms, ss_ended := True\<rparr>)"
      using w by (auto simp: speaks_for_wire)
    with that(2) d(1) h cn'(2) False show thesis by auto
  qed
qed

text \<open>Every step of the connections is a step of the sessions, or is not visible there.\<close>

lemma step_simulates:
  assumes "service_step valid encode decode handle encode_answer (s, cns) (s', cns')"
    and "list_all2 (speaks_for valid encode encode_answer) cns ss"
  shows "\<exists>ss'. (session_step valid handle (\<lambda>r. fst (encode_answer r []) = Ok ()))\<^sup>*\<^sup>* (s, ss) (s', ss') \<and>
    list_all2 (speaks_for valid encode encode_answer) cns' ss'"
    (is "\<exists>ss'. ?R\<^sup>*\<^sup>* _ (s', ss') \<and> list_all2 ?rel cns' ss'")
proof -
  have len: "length ss = length cns" using assms(2) by (simp add: list_all2_lengthD)
  have rel: "?rel (cns ! i) (ss ! i)" if "i < length cns" for i using assms(2) that by (simp add: list_all2_nthD)
  have upd: "list_all2 ?rel (cns[i := cn]) (ss[i := a])" if "?rel cn a" for i cn a
    using assms(2) that by (simp add: list_all2_update_cong)
  have same: "list_all2 ?rel (cns[i := cn]) ss" if "i < length cns" "?rel cn (ss ! i)" for i cn
    using upd [OF that(2), of i] by simp
  show ?thesis
    using assms(1)
  proof cases
    case (send i m out)
    define a where "a = (ss ! i)\<lparr>ss_pending := ss_pending (ss ! i) @ [m]\<rparr>"
    have "?rel ((cns ! i)\<lparr>cn_inflight := cn_inflight (cns ! i) @ out\<rparr>) a"
      using rel [OF send(3)] send(5,6) by (auto simp: speaks_for_def a_def simp flip: append_assoc)
    moreover have "?R (s, ss) (s, ss[i := a])" unfolding a_def using send len by (intro session_step.submit) simp_all
    ultimately show ?thesis using upd send by (blast intro: r_into_rtranclp)
  next
    case (finish i)
    then have "?rel ((cns ! i)\<lparr>cn_closing := True\<rparr>) (ss ! i)" using rel [OF finish(3)] by (simp add: speaks_for_def)
    with same finish show ?thesis by blast
  next
    case (read i n)
    then have "?rel (read_socket n (cns ! i)) (ss ! i)" using rel [OF read(3)] by (simp add: speaks_for_def read_socket_def)
    with same read show ?thesis by blast
  next
    case (stream_ends i)
    have p: "list_all sendable (ss_pending (ss ! i))" "cn_buffer (cns ! i) @ [] = concat (map wire_bytes (ss_pending (ss ! i)))"
      using rel [OF stream_ends(3)] stream_ends(4,6) by (simp_all add: speaks_for_wire)
    have "ss_pending (ss ! i) = []" using decode_pending [OF p] stream_ends(5) by (auto simp: wants_more_def)
    moreover define a where "a = (ss ! i)\<lparr>ss_ended := True\<rparr>"
    moreover have "?rel (end_of_stream (cns ! i)) a"
      using rel [OF stream_ends(3)] by (simp add: speaks_for_wire end_of_stream_def a_def)
    moreover have "\<not> ss_ended (ss ! i)" using rel [OF stream_ends(3)] stream_ends(4) by (simp add: speaks_for_def)
    ultimately have "?R (s, ss) (s, ss[i := a])" using stream_ends len by (auto intro: session_step.hang_up)
    with upd [OF \<open>?rel (end_of_stream (cns ! i)) a\<close>] stream_ends show ?thesis by (blast intro: r_into_rtranclp)
  next
    case (serve i cn)
    have run: "\<not> ss_ended (ss ! i)" using rel [OF serve(2)] serve(3) by (simp add: speaks_for_def)
    from rel [OF serve(2)] serve(3-5) show ?thesis
    proof (cases rule: serve_next_simulates)
      case (1 m ms r)
      have "?R (s, ss) (s', ss[i := (ss ! i)\<lparr>ss_pending := ms, ss_answers := ss_answers (ss ! i) @ [r]\<rparr>])"
        using serve(2) len run 1 by (intro session_step.answer) simp_all
      with upd [OF 1(4)] serve(1) show ?thesis by (blast intro: r_into_rtranclp)
    next
      case (2 m ms res)
      have "?R (s, ss) (s', ss[i := (ss ! i)\<lparr>ss_pending := ms, ss_ended := True\<rparr>])"
        using serve(2) len run 2 by (intro session_step.break) simp_all
      with upd [OF 2(4)] serve(1) show ?thesis by (blast intro: r_into_rtranclp)
    qed
  next
    case other
    with assms(2) show ?thesis by (blast intro: r_into_rtranclp session_step.interfere)
  qed
qed

lemma steps_simulate:
  assumes "(service_step valid encode decode handle encode_answer)\<^sup>*\<^sup>* (s, cns) (s', cns')"
    and "list_all2 (speaks_for valid encode encode_answer) cns ss"
  shows "\<exists>ss'. (session_step valid handle (\<lambda>r. fst (encode_answer r []) = Ok ()))\<^sup>*\<^sup>* (s, ss) (s', ss') \<and>
    list_all2 (speaks_for valid encode encode_answer) cns' ss'"
  using assms
proof (induction rule: rtranclp_induct2)
  case (step s1 cns1 s2 cns2)
  then obtain ss1 where "(session_step valid handle (\<lambda>r. fst (encode_answer r []) = Ok ()))\<^sup>*\<^sup>* (s, ss) (s1, ss1)"
    "list_all2 (speaks_for valid encode encode_answer) cns1 ss1" by blast
  with step_simulates [OF step.hyps(2) this(2)] show ?case by (meson rtranclp_trans)
qed auto

lemma opened_speak: "list_all2 (speaks_for valid encode encode_answer) (replicate n opened_connection) (replicate n opened_session)"
  by (simp add: list_all2_conv_all_nth speaks_for_def opened_connection_def opened_session_def)

text \<open>A running connection whose session has a request waiting is never stuck: it can serve, or it can read.\<close>

lemma can_proceed:
  assumes "speaks_for valid encode encode_answer cn ss" and "cn_end cn = None" and "ss_pending ss \<noteq> []"
  shows "\<not> wants_more decode cn \<or> cn_inflight cn \<noteq> []"
  using decode_pending [of "ss_pending ss" "cn_buffer cn" "cn_inflight cn"] assms
  by (auto simp: speaks_for_wire wants_more_def)

end

section \<open>The two listeners\<close>

text \<open>What \<open>handle_connection\<close> does with a request: some errors are answered, the others end the task.\<close>

definition reply_to :: "platform \<Rightarrow> u32 \<Rightarrow> request \<Rightarrow> cluster \<Rightarrow> response cluster_result" where
  "reply_to pf self r c =
    (case process_request pf self r c of
       (Err e, c) \<Rightarrow> (case error_response e of Some response \<Rightarrow> Ok response | None \<Rightarrow> Err e, c)
     | (res, c) \<Rightarrow> (res, c))"

lemma answer_request_reply:
  "answer_request pf self r c = (case reply_to pf self r c of (Ok response, c) \<Rightarrow> (Some response, c) | (_, c) \<Rightarrow> (None, c))"
  by (auto simp: answer_request_def reply_to_def split: prod.splits outcome.splits option.splits)

interpretation clients: listener "encode_request Z" "decode_request Z" "\<lambda>q. request_ok q \<and> zstd_roundtrips Z"
    "reply_to pf self" encode_response for Z pf self
  by unfold_locales

interpretation leaders: listener encode_replicate_record decode_replicate_record replicate_ok "receive_replica pf"
    encode_replicate_ack for pf
  by unfold_locales

lemma written_responses:
  assumes "speaks_for valid encode encode_response cn ss" and "list_all response_wf (ss_answers ss)"
    and "concat chunks = cn_written cn"
  shows "feed decode_response [] chunks = (ss_answers ss, Ok (), [])"
proof (rule resp.feed_stream)
  show "list_all resp.sendable (ss_answers ss)"
    using assms by (auto simp: resp.sendable_def list_all_iff speaks_for_def)
  show "concat chunks = concat (map resp.wire_bytes (ss_answers ss))"
    using assms by (simp add: speaks_for_def resp.wire_bytes_def [abs_def])
qed

lemma written_acks:
  assumes "speaks_for valid encode encode_replicate_ack cn ss" and "concat chunks = cn_written cn"
  shows "feed decode_replicate_ack [] chunks = (ss_answers ss, Ok (), [])"
proof (rule ack.feed_stream)
  show "list_all ack.sendable (ss_answers ss)"
    using assms by (auto simp: ack.sendable_def list_all_iff speaks_for_def)
  show "concat chunks = concat (map ack.wire_bytes (ss_answers ss))"
    using assms by (simp add: speaks_for_def ack.wire_bytes_def [abs_def])
qed

text \<open>C8: The client port serves sessions: however many clients send valid requests, however their bytes are split
  and the connections are interleaved with each other and with anything else that changes the
  brokers, everything that happens is a run of sessions in which whole requests are answered one by one, in the order each client sent
  them, exactly as \<open>process_request\<close> answers them at that moment; a session with a waiting request can always
  proceed; and each client decodes exactly the answers of its session from the bytes written to it.\<close>

theorem connections_refine_sessions:
  assumes "zstd_roundtrips Z"
    and "(service_step request_ok (encode_request Z) (decode_request Z) (reply_to pf self) encode_response)\<^sup>*\<^sup>*
      (c, replicate n opened_connection) (c', cns)"
  shows "\<exists>ss. (session_step request_ok (reply_to pf self) (\<lambda>r. fst (encode_response r []) = Ok ()))\<^sup>*\<^sup>*
      (c, replicate n opened_session) (c', ss) \<and>
    list_all2 (speaks_for request_ok (encode_request Z) encode_response) cns ss \<and>
    list_all2 (\<lambda>cn s. cn_end cn = None \<longrightarrow> ss_pending s \<noteq> [] \<longrightarrow>
      \<not> wants_more (decode_request Z) cn \<or> cn_inflight cn \<noteq> []) cns ss \<and>
    list_all2 (\<lambda>cn s. \<forall>chunks. list_all response_wf (ss_answers s) \<longrightarrow> concat chunks = cn_written cn \<longrightarrow>
      feed decode_response [] chunks = (ss_answers s, Ok (), [])) cns ss"
proof -
  have v: "(\<lambda>q. request_ok q \<and> zstd_roundtrips Z) = request_ok" using assms(1) by simp
  obtain ss where ss: "(session_step request_ok (reply_to pf self) (\<lambda>r. fst (encode_response r []) = Ok ()))\<^sup>*\<^sup>*
      (c, replicate n opened_session) (c', ss)"
    and rel: "list_all2 (speaks_for request_ok (encode_request Z) encode_response) cns ss"
    using clients.steps_simulate [where Z = Z, unfolded v, OF assms(2) clients.opened_speak [where Z = Z, unfolded v]] by blast
  have proceed: "list_all2 (\<lambda>cn s. cn_end cn = None \<longrightarrow> ss_pending s \<noteq> [] \<longrightarrow>
      \<not> wants_more (decode_request Z) cn \<or> cn_inflight cn \<noteq> []) cns ss"
    using rel by (rule list_all2_mono) (metis clients.can_proceed [where Z = Z, unfolded v])
  have "list_all2 (\<lambda>cn s. \<forall>chunks. list_all response_wf (ss_answers s) \<longrightarrow> concat chunks = cn_written cn \<longrightarrow>
      feed decode_response [] chunks = (ss_answers s, Ok (), [])) cns ss"
    using rel by (rule list_all2_mono) (blast intro: written_responses)
  with ss rel proceed show ?thesis by blast
qed

text \<open>The same for the replication port, where the peers are leaders and every answer is an acknowledgement.\<close>

lemma replica_connections_refine_sessions:
  assumes "(service_step replicate_ok encode_replicate_record decode_replicate_record (receive_replica pf) encode_replicate_ack)\<^sup>*\<^sup>*
      (b, replicate n opened_connection) (b', cns)"
  shows "\<exists>ss. (session_step replicate_ok (receive_replica pf) (\<lambda>r. fst (encode_replicate_ack r []) = Ok ()))\<^sup>*\<^sup>*
      (b, replicate n opened_session) (b', ss) \<and>
    list_all2 (\<lambda>cn s. \<forall>chunks. concat chunks = cn_written cn \<longrightarrow>
      feed decode_replicate_ack [] chunks = (ss_answers s, Ok (), [])) cns ss"
proof -
  obtain ss where ss: "(session_step replicate_ok (receive_replica pf) (\<lambda>r. fst (encode_replicate_ack r []) = Ok ()))\<^sup>*\<^sup>*
      (b, replicate n opened_session) (b', ss)"
    and rel: "list_all2 (speaks_for replicate_ok encode_replicate_record encode_replicate_ack) cns ss"
    using leaders.steps_simulate [OF assms leaders.opened_speak] by blast
  have "list_all2 (\<lambda>cn s. \<forall>chunks. concat chunks = cn_written cn \<longrightarrow>
      feed decode_replicate_ack [] chunks = (ss_answers s, Ok (), [])) cns ss"
    using rel by (rule list_all2_mono) (blast intro: written_acks)
  with ss show ?thesis by blast
qed

text \<open>A run in which a client asks for the cluster's members, and its bytes arrive in two pieces.\<close>

definition lonely_metadata :: cluster_metadata where
  "lonely_metadata = \<lparr>cm_responding_broker_id = 1, cm_nodes = [\<lparr>cn_id = 1, cn_host = ''h'', cn_port = 7400,
     cn_admin_port = 7401, cn_replication_port = 7402\<rparr>]\<rparr>"

definition lonely_cluster :: cluster where
  "lonely_cluster = \<lparr>cl_brokers = [1 \<mapsto> \<lparr>bk_settings = sample_settings, bk_storage = empty_worker,
     bk_leadership = \<lparr>lr_file = None, lr_cluster = lonely_metadata, lr_entries = []\<rparr>,
     bk_groups = sample_coordinator, bk_replication_factor = 1, bk_min_in_sync_replicas = 1\<rparr>], cl_net = []\<rparr>"

lemma lonely_reply:
  "reply_to pf 1 ClusterMetadata lonely_cluster =
     (Ok (RClusterMetadata lonely_metadata), lonely_cluster)"
  by (simp add: reply_to_def cluster_info_def at_broker_def set_broker_def lonely_cluster_def)

definition metadata_answer :: bytes where
  "metadata_answer = snd (encode_response (RClusterMetadata lonely_metadata) [])"

lemma lonely_run:
  "(service_step request_ok (encode_request zstd_stored) (decode_request zstd_stored) (reply_to pf 1) encode_response)\<^sup>*\<^sup>*
     (lonely_cluster, replicate 1 opened_connection)
     (lonely_cluster, [opened_connection\<lparr>cn_written := metadata_answer\<rparr>])"
    (is "?step\<^sup>*\<^sup>* _ _")
proof -
  define f where "f = put_u32 1 @ [CLUSTER_METADATA]"
  have len: "length f = 5" by (simp add: f_def)
  have enc: "encode_request zstd_stored ClusterMetadata [] = (Ok (), f)"
    by (simp add: f_def)
  have "req.sendable zstd_stored ClusterMetadata"
    unfolding req.sendable_def using enc zstd_stored_roundtrips by simp
  note w = req.wire_bytes_frame [OF this, unfolded req.wire_bytes_def enc snd_conv len]
  define cn where "cn inflight buffer written =
    \<lparr>cn_inflight = inflight, cn_closing = False, cn_buffer = buffer, cn_written = written, cn_end = None\<rparr>"
    for inflight buffer written :: bytes
  have 1: "?step (lonely_cluster, [cn [] [] []]) (lonely_cluster, [cn f [] []])"
    using service_step.send [of 0 "[cn [] [] []]" request_ok ClusterMetadata "encode_request zstd_stored" f] enc
    by (simp add: cn_def)
  have 2: "?step (lonely_cluster, [cn f [] []]) (lonely_cluster, [cn (drop 2 f) (take 2 f) []])"
    using service_step.read [of 0 "[cn f [] []]" "decode_request zstd_stored" 2] w(3) [of 0] len
    by (simp add: wants_more_def read_socket_def cn_def)
  have 3: "?step (lonely_cluster, [cn (drop 2 f) (take 2 f) []]) (lonely_cluster, [cn [] f []])"
    using service_step.read [of 0 "[cn (drop 2 f) (take 2 f) []]" "decode_request zstd_stored" 3] w(3) [of 2] len
    by (simp add: wants_more_def read_socket_def cn_def)
  have out: "encode_response (RClusterMetadata lonely_metadata) [] = (Ok (), metadata_answer)"
    by (simp add: metadata_answer_def encode_cluster_metadata_def lonely_metadata_def Let_def try_from_def set_frame_len_def
        encode_string_def)
  have 4: "?step (lonely_cluster, [cn [] f []]) (lonely_cluster, [cn [] [] metadata_answer])"
    using service_step.serve [of 0 "[cn [] f []]" "decode_request zstd_stored" "reply_to pf 1" encode_response
        lonely_cluster "cn [] [] metadata_answer" lonely_cluster] w(2) [of "[]"]
    by (simp add: wants_more_def serve_next_def lonely_reply write_answer_def out [simplified] cn_def)
  have "opened_connection = cn [] [] []" "opened_connection\<lparr>cn_written := metadata_answer\<rparr> = cn [] [] metadata_answer"
    by (simp_all add: opened_connection_def cn_def)
  with 1 2 3 4 show ?thesis by (simp add: converse_rtranclp_into_rtranclp)
qed

theorem connections_refine_sessions_witness:
  "\<forall>pf. \<exists>ss. (session_step request_ok (reply_to pf 1) (\<lambda>r. fst (encode_response r []) = Ok ()))\<^sup>*\<^sup>*
      (lonely_cluster, replicate 1 opened_session) (lonely_cluster, ss) \<and>
    list_all2 (speaks_for request_ok (encode_request zstd_stored) encode_response)
      [opened_connection\<lparr>cn_written := metadata_answer\<rparr>] ss"
  using connections_refine_sessions [OF zstd_stored_roundtrips lonely_run] by blast

end
