(* ===== verification/Admin.thy ===== *)
theory Admin
  imports Broker Observability
begin

text \<open>
  The admin listener of a broker (\<open>handle_admin_connection\<close> and the rendering of \<open>/metrics\<close> in
  \<open>crates/broker/src/lib.rs\<close>).  The bytes a connection reads come in pieces; what it writes is a string, \<open>None\<close> when it
  closes the connection without an answer.  The metrics and the number of commands in the storage queue are
  arguments.
\<close>

section \<open>Requests\<close>

abbreviation MAX_REQUEST_BYTES :: nat where "MAX_REQUEST_BYTES \<equiv> 8192"

fun has_blank_line :: "bytes \<Rightarrow> bool" where
  "has_blank_line (a # b # c # d # rest) \<longleftrightarrow> [a, b, c, d] = [13, 10, 13, 10] \<or> has_blank_line (b # c # d # rest)"
| "has_blank_line _ \<longleftrightarrow> False"

datatype admin_read = RequestRead bytes | RequestTooLarge | RequestEnded

text \<open>An empty piece is the end of the stream.\<close>

fun read_admin_request :: "bytes list \<Rightarrow> bytes \<Rightarrow> admin_read" where
  "read_admin_request [] request =
    (if has_blank_line request then RequestRead request
     else if MAX_REQUEST_BYTES \<le> length request then RequestTooLarge
     else RequestEnded)"
| "read_admin_request (piece # pieces) request =
    (if has_blank_line request then RequestRead request
     else if MAX_REQUEST_BYTES \<le> length request then RequestTooLarge
     else if piece = [] then RequestEnded
     else read_admin_request pieces (request @ piece))"

definition is_ascii_whitespace :: "char \<Rightarrow> bool" where
  "is_ascii_whitespace c \<longleftrightarrow> (of_char c :: nat) \<in> {9, 10, 12, 13, 32}"

fun split_ascii_whitespace :: "string \<Rightarrow> string \<Rightarrow> string list" where
  "split_ascii_whitespace word [] = (if word = [] then [] else [word])"
| "split_ascii_whitespace word (c # cs) =
    (if is_ascii_whitespace c
     then (if word = [] then [] else [word]) @ split_ascii_whitespace [] cs
     else split_ascii_whitespace (word @ [c]) cs)"

definition request_path :: "bytes \<Rightarrow> string option" where
  "request_path request =
    (let request_line = (case from_utf8 (takeWhile (\<lambda>b. b \<noteq> 10) request) of Some s \<Rightarrow> s | None \<Rightarrow> []) in
     case split_ascii_whitespace [] request_line of _ # path # _ \<Rightarrow> Some path | _ \<Rightarrow> None)"

section \<open>Responses\<close>

abbreviation crlf :: string where "crlf \<equiv> [CHR 0x0D, CHR 0x0A]"

definition write_http_response :: "string \<Rightarrow> string \<Rightarrow> string \<Rightarrow> string" where
  "write_http_response status content_type body =
    ''HTTP/1.1 '' @ status @ crlf @ ''Content-Type: '' @ content_type @ crlf @
    ''Content-Length: '' @ show_nat (length body) @ crlf @ ''Connection: close'' @ crlf @ crlf @ body"

section \<open>Rendering the metrics\<close>

definition gauge_header :: "string \<Rightarrow> string \<Rightarrow> string" where
  "gauge_header name help = line (''# HELP '' @ name @ '' '' @ help) @ line (''# TYPE '' @ name @ '' gauge'')"

definition flag :: "bool \<Rightarrow> string" where
  "flag b = (if b then ''1'' else ''0'')"

definition partition_labels :: "partition_snapshot \<Rightarrow> string list" where
  "partition_labels s = [label ''topic'' (escape_label (sn_topic s)), label ''partition'' (show_nat (unat (sn_partition s)))]"

definition render_partition :: "partition_snapshot \<Rightarrow> string" where
  "render_partition s =
    (let labels = partition_labels s in
     labelled ''sevlamq_partition_high_watermark'' labels (show_nat (unat (sn_high_watermark s))) @
     labelled ''sevlamq_partition_log_end_offset'' labels (show_nat (unat (sn_log_end_offset s))) @
     labelled ''sevlamq_partition_low_watermark'' labels (show_nat (unat (sn_low_watermark s))) @
     labelled ''sevlamq_partition_records'' labels
       (show_nat (unat (saturating_sub (sn_high_watermark s) (sn_low_watermark s)))) @
     labelled ''sevlamq_partition_log_size_bytes'' labels (show_nat (unat (sn_log_size_bytes s))) @
     labelled ''sevlamq_partition_segments'' labels (show_nat (sn_segments s)))"

definition render_partition_metrics :: "partition_snapshot list \<Rightarrow> string" where
  "render_partition_metrics partitions =
    gauge_header ''sevlamq_partition_high_watermark'' ''Next offset of a partition.'' @
    gauge_header ''sevlamq_partition_log_end_offset'' ''Next locally stored offset.'' @
    gauge_header ''sevlamq_partition_low_watermark'' ''Earliest available offset.'' @
    gauge_header ''sevlamq_partition_records'' ''Records currently retained in a partition.'' @
    gauge_header ''sevlamq_partition_log_size_bytes'' ''Bytes stored in partition logs.'' @
    gauge_header ''sevlamq_partition_segments'' ''Number of log segments.'' @
    concat (map render_partition partitions)"

definition replica_labels :: "string \<Rightarrow> replica_key \<Rightarrow> string list" where
  "replica_labels name = (\<lambda>(broker, topic, part). [label name (show_nat (unat broker)),
     label ''topic'' (escape_label topic), label ''partition'' (show_nat (unat part))])"

definition known_high_watermark :: "partition_snapshot list \<Rightarrow> string \<Rightarrow> u32 \<Rightarrow> u64" where
  "known_high_watermark partitions topic part =
    (case find (\<lambda>s. sn_topic s = topic \<and> sn_partition s = part) partitions of
       None \<Rightarrow> 0 | Some s \<Rightarrow> sn_high_watermark s)"

definition render_replica_offset :: "partition_snapshot list \<Rightarrow> u32 \<times> string \<times> u32 \<times> u64 \<Rightarrow> string" where
  "render_replica_offset partitions = (\<lambda>(follower, topic, part, offset).
    labelled ''sevlamq_replica_offset'' (replica_labels ''follower_id'' (follower, topic, part)) (show_nat (unat offset)) @
    labelled ''sevlamq_replication_lag_records'' (replica_labels ''follower_id'' (follower, topic, part))
      (show_nat (unat (saturating_sub (known_high_watermark partitions topic part) offset))))"

definition render_replication_metrics :: "runtime_metrics \<Rightarrow> partition_snapshot list \<Rightarrow> string" where
  "render_replication_metrics m partitions =
    gauge_header ''sevlamq_replica_offset'' ''Next offset acknowledged by a follower.'' @
    gauge_header ''sevlamq_replication_lag_records'' ''Records not yet acknowledged by a follower.'' @
    concat (map (render_replica_offset partitions) (replica_offsets m)) @
    gauge_header ''sevlamq_replica_in_sync'' ''Whether this follower reached its leader.'' @
    concat (map (\<lambda>(leader, topic, part, in_sync).
      labelled ''sevlamq_replica_in_sync'' (replica_labels ''leader_id'' (leader, topic, part)) (flag in_sync))
      (replica_sync_states m)) @
    gauge_header ''sevlamq_partition_isr'' ''Broker membership in a partition ISR.'' @
    concat (map (\<lambda>(broker_id, topic, part, in_sync).
      labelled ''sevlamq_partition_isr'' (replica_labels ''broker_id'' (broker_id, topic, part)) (flag in_sync))
      (in_sync_replica_states m))"

text \<open>The lag of a group on a partition, and on all partitions of its topic.\<close>

definition committed_on :: "group_snapshot \<Rightarrow> partition_snapshot \<Rightarrow> u64" where
  "committed_on g s = (case map_of (gs_committed_offsets g) (sn_partition s) of None \<Rightarrow> 0 | Some offset \<Rightarrow> offset)"

definition group_lag :: "group_snapshot \<Rightarrow> partition_snapshot \<Rightarrow> u64" where
  "group_lag g s = saturating_sub (sn_high_watermark s) (max (committed_on g s) (sn_low_watermark s))"

definition group_partitions :: "partition_snapshot list \<Rightarrow> group_snapshot \<Rightarrow> partition_snapshot list" where
  "group_partitions partitions g = filter (\<lambda>s. sn_topic s = gs_topic g) partitions"

definition total_lag :: "partition_snapshot list \<Rightarrow> group_snapshot \<Rightarrow> u64" where
  "total_lag partitions g = foldl (\<lambda>lag s. saturating_add lag (group_lag g s)) 0 (group_partitions partitions g)"

definition group_labels :: "group_snapshot \<Rightarrow> string list" where
  "group_labels g = [label ''group'' (escape_label (gs_group g)), label ''topic'' (escape_label (gs_topic g))]"

definition render_group_partition :: "group_snapshot \<Rightarrow> partition_snapshot \<Rightarrow> string" where
  "render_group_partition g s =
    (let labels = group_labels g @ [label ''partition'' (show_nat (unat (sn_partition s)))] in
     labelled ''sevlamq_consumer_group_committed_offset'' labels (show_nat (unat (committed_on g s))) @
     labelled ''sevlamq_consumer_group_lag'' labels (show_nat (unat (group_lag g s))))"

definition render_group :: "partition_snapshot list \<Rightarrow> group_snapshot \<Rightarrow> string" where
  "render_group partitions g =
    labelled ''sevlamq_consumer_group_members'' (group_labels g) (show_nat (gs_members g)) @
    labelled ''sevlamq_consumer_group_generation'' (group_labels g) (show_nat (unat (gs_generation g))) @
    labelled ''sevlamq_consumer_group_assigned_partitions'' (group_labels g) (show_nat (gs_assigned_partitions g)) @
    concat (map (render_group_partition g) (group_partitions partitions g)) @
    labelled ''sevlamq_consumer_group_lag_total'' (group_labels g) (show_nat (unat (total_lag partitions g)))"

definition render_group_metrics :: "partition_snapshot list \<Rightarrow> group_snapshot list \<Rightarrow> string" where
  "render_group_metrics partitions groups =
    gauge_header ''sevlamq_consumer_group_members'' ''Active consumer group members.'' @
    gauge_header ''sevlamq_consumer_group_generation'' ''Current consumer group generation.'' @
    gauge_header ''sevlamq_consumer_group_assigned_partitions'' ''Partitions assigned to active members.'' @
    gauge_header ''sevlamq_consumer_group_committed_offset'' ''Committed next offset for a partition.'' @
    gauge_header ''sevlamq_consumer_group_lag'' ''Records between the committed offset and high watermark.'' @
    gauge_header ''sevlamq_consumer_group_lag_total'' ''Total consumer group lag across a topic.'' @
    concat (map (render_group partitions) groups)"

text \<open>The topics of the snapshots in the order of a \<open>BTreeMap\<close>, and the totals over their partitions.\<close>

definition snapshot_topics :: "partition_snapshot list \<Rightarrow> string list" where
  "snapshot_topics partitions = sort (remdups (map sn_topic partitions))"

definition topic_total :: "(partition_snapshot \<Rightarrow> u64) \<Rightarrow> partition_snapshot list \<Rightarrow> string \<Rightarrow> u64" where
  "topic_total f partitions topic =
    foldl (\<lambda>total s. saturating_add total (f s)) 0 (filter (\<lambda>s. sn_topic s = topic) partitions)"

definition render_topic_count :: "partition_snapshot list \<Rightarrow> string \<Rightarrow> string" where
  "render_topic_count partitions topic =
    labelled ''sevlamq_topic_partitions'' [label ''topic'' (escape_label topic)]
      (show_nat (length (filter (\<lambda>s. sn_topic s = topic) partitions)))"

definition render_topic_totals :: "partition_snapshot list \<Rightarrow> string \<Rightarrow> string" where
  "render_topic_totals partitions topic =
    labelled ''sevlamq_topic_high_watermark_sum'' [label ''topic'' (escape_label topic)]
      (show_nat (unat (topic_total sn_high_watermark partitions topic))) @
    labelled ''sevlamq_topic_log_size_bytes'' [label ''topic'' (escape_label topic)]
      (show_nat (unat (topic_total sn_log_size_bytes partitions topic)))"

definition render_node :: "cluster_metadata \<Rightarrow> cluster_node \<Rightarrow> string" where
  "render_node cluster node =
    labelled ''sevlamq_broker_info'' [label ''broker_id'' (show_nat (unat (cn_id node))),
      label ''host'' (escape_label (cn_host node)), label ''port'' (show_nat (unat (cn_port node))),
      label ''current'' (flag (cn_id node = cm_responding_broker_id cluster))] ''1''"

definition render_metrics ::
    "runtime_metrics \<Rightarrow> nat \<Rightarrow> partition_snapshot list \<Rightarrow> group_snapshot list \<Rightarrow> cluster_metadata \<Rightarrow> string" where
  "render_metrics m storage_queue_depth partitions groups cluster =
    metrics_render m @
    gauge_header ''sevlamq_broker_info'' ''Static broker identity and endpoint.'' @
    concat (map (render_node cluster) (cm_nodes cluster)) @
    gauge_header ''sevlamq_storage_queue_depth'' ''Commands waiting in the storage worker queue.'' @
    line (''sevlamq_storage_queue_depth '' @ show_nat storage_queue_depth) @
    gauge_header ''sevlamq_topic_partitions'' ''Number of partitions in a topic.'' @
    concat (map (render_topic_count partitions) (snapshot_topics partitions)) @
    gauge_header ''sevlamq_topic_high_watermark_sum'' ''Sum of partition high watermarks.'' @
    gauge_header ''sevlamq_topic_log_size_bytes'' ''Bytes stored by all partitions of a topic.'' @
    concat (map (render_topic_totals partitions) (snapshot_topics partitions)) @
    render_partition_metrics partitions @
    render_replication_metrics m partitions @
    render_group_metrics partitions groups"

section \<open>The connection\<close>

definition with_watermark :: "leadership_registry \<Rightarrow> partition_snapshot \<Rightarrow> partition_snapshot" where
  "with_watermark reg s =
    (case partition_leader reg (sn_topic s) (sn_partition s) of
       Ok current \<Rightarrow> s\<lparr>sn_high_watermark := pl_high_watermark current\<rparr>
     | _ \<Rightarrow> s)"

definition answer_path :: "runtime_metrics \<Rightarrow> nat \<Rightarrow> string option \<Rightarrow> broker \<Rightarrow> (string, connection_error) outcome" where
  "answer_path m queue_depth path b =
    (if path = Some ''/health/live'' then Ok (write_http_response ''200 OK'' ''text/plain'' (line ''ok''))
     else if path = Some ''/health/ready'' then
       (case handle_snapshot b of
          (Ok _, _) \<Rightarrow> Ok (write_http_response ''200 OK'' ''text/plain'' (line ''ready''))
        | _ \<Rightarrow> Ok (write_http_response ''503 Service Unavailable'' ''text/plain'' (line ''not ready'')))
     else if path = Some ''/metrics'' then
       try_bind (fst (handle_snapshot b)) (\<lambda>partitions.
       Ok (write_http_response ''200 OK'' ''text/plain; version=0.0.4; charset=utf-8''
         (render_metrics m queue_depth (map (with_watermark (bk_leadership b)) partitions) (group_snapshots (bk_groups b))
           (bk_metadata b))))
     else Ok (write_http_response ''404 Not Found'' ''text/plain'' (line ''not found'')))"

definition handle_admin_connection ::
    "runtime_metrics \<Rightarrow> nat \<Rightarrow> bytes list \<Rightarrow> broker \<Rightarrow> (string option, connection_error) outcome" where
  "handle_admin_connection m queue_depth pieces b =
    (case read_admin_request pieces [] of
       RequestEnded \<Rightarrow> Ok None
     | RequestTooLarge \<Rightarrow> Ok (Some (write_http_response ''413 Payload Too Large'' ''text/plain'' []))
     | RequestRead request \<Rightarrow> map_ok Some (answer_path m queue_depth (request_path request) b))"

section \<open>The answer depends on the request only\<close>

lemma has_blank_line_append: "has_blank_line xs \<Longrightarrow> has_blank_line (xs @ ys)"
  by (induction xs rule: has_blank_line.induct) auto

lemma has_blank_line_newline: "has_blank_line xs \<Longrightarrow> 10 \<in> set xs"
  by (induction xs rule: has_blank_line.induct) auto

lemma request_path_append: "has_blank_line xs \<Longrightarrow> request_path (xs @ ys) = request_path xs"
  using takeWhile_append1 [OF has_blank_line_newline, of xs "\<lambda>b. b \<noteq> 10" ys] by (simp add: request_path_def)

lemma read_admin_request_reads:
  assumes "has_blank_line (take MAX_REQUEST_BYTES (request @ concat pieces))" and "\<forall>piece \<in> set pieces. piece \<noteq> []"
  shows "\<exists>got later. read_admin_request pieces request = RequestRead got \<and> has_blank_line got \<and>
    request @ concat pieces = got @ later"
  using assms
proof (induction pieces arbitrary: request)
  case Nil
  then have "has_blank_line request"
    using has_blank_line_append [of "take MAX_REQUEST_BYTES request" "drop MAX_REQUEST_BYTES request"] by simp
  then show ?case by simp
next
  case (Cons piece pieces)
  show ?case
  proof (cases "has_blank_line request")
    case False
    have "length request < MAX_REQUEST_BYTES"
      using Cons.prems(1) False has_blank_line_append [of "take MAX_REQUEST_BYTES request" "drop MAX_REQUEST_BYTES request"]
      by (cases "MAX_REQUEST_BYTES \<le> length request") auto
    then show ?thesis using Cons.IH [of "request @ piece"] Cons.prems False by simp
  qed simp
qed

text \<open>However the bytes of a request are split, as long as its header ends within the first 8 KiB, it is answered
  according to the path of its first line.\<close>

lemma admin_request_answered:
  assumes "has_blank_line (take MAX_REQUEST_BYTES (concat pieces))" and "\<forall>piece \<in> set pieces. piece \<noteq> []"
  shows "handle_admin_connection m queue_depth pieces b =
    map_ok Some (answer_path m queue_depth (request_path (concat pieces)) b)"
proof -
  obtain got later where "read_admin_request pieces [] = RequestRead got" "has_blank_line got" "concat pieces = got @ later"
    using read_admin_request_reads [of "[]" pieces] assms by auto
  then show ?thesis by (simp add: handle_admin_connection_def request_path_append)
qed

text \<open>Totals are exact until they saturate; the lag of a group counts, for each partition of its topic, the records
  that are still retained and not yet committed.\<close>

lemma foldl_saturating_add:
  "unat (foldl (\<lambda>total x. saturating_add total (f x)) (a :: u64) xs) =
     min (unat a + sum_list (map (unat \<circ> f) xs)) (2 ^ 64 - 1)"
proof (induction xs arbitrary: a)
  case Nil
  have "unat a \<le> 2 ^ 64 - 1" using unat_u64_lt [of a] by (simp del: unat_u64_lt)
  then show ?case by (simp add: min_def)
next
  case (Cons x xs)
  then show ?case by (simp add: unat_saturating_add)
qed

lemma topic_total_exact:
  "unat (topic_total f partitions topic) =
     min (sum_list (map (unat \<circ> f) (filter (\<lambda>s. sn_topic s = topic) partitions))) (2 ^ 64 - 1)"
  by (simp add: topic_total_def foldl_saturating_add)

lemma total_lag_exact:
  "unat (total_lag partitions g) =
     min (sum_list (map (\<lambda>s. unat (sn_high_watermark s) - max (unat (committed_on g s)) (unat (sn_low_watermark s)))
       (group_partitions partitions g))) (2 ^ 64 - 1)"
proof -
  have "unat (group_lag g s) = unat (sn_high_watermark s) - max (unat (committed_on g s)) (unat (sn_low_watermark s))" for s
    by (simp add: group_lag_def unat_saturating_sub max_def word_le_nat_alt)
  then show ?thesis by (simp add: total_lag_def foldl_saturating_add comp_def)
qed

end
