(* ===== verification/Storage_Queue.thy ===== *)
theory Storage_Queue
  imports Broker
begin

text \<open>
  The storage queue of \<open>crates/broker/src/lib.rs\<close>: \<open>StorageHandle\<close> with \<open>enqueue\<close>, its calls and the long-polling
  \<open>read\<close>, the bounded channel, the worker thread of \<open>start_storage_worker\<close> and the retention timer.  Any number of tasks call the
  handle at once; the step relation \<open>queue_step\<close> interleaves them with the worker.  Every call behaves as if it ran alone at
  one moment between its start and its return, a call that is answered \<open>BrokerBusy\<close> has no effect, a poll that
  waits misses no record, and at shutdown the worker executes what was accepted before it stops.
\<close>

section \<open>Calls\<close>

text \<open>A call of the handle sends one command; \<open>read\<close> sends its command again after every notification, until there are
  records, the deadline has passed, or at once when \<open>max_wait_ms\<close> is 0.\<close>

datatype storage_call =
    Call storage_command
  | Poll string u32 u64 u32 u32

fun call_command :: "storage_call \<Rightarrow> storage_command" where
  "call_command (Call command) = command"
| "call_command (Poll topic part offset max_bytes max_wait_ms) = CmdRead topic part offset max_bytes"

text \<open>Where a task is in its call: in \<open>sender.send\<close> under the enqueue timeout; waiting for the answer; with the answer
  in the oneshot channel; with the other end of that channel dropped; waiting for a notification or the deadline; returned; or
  dropped itself, because the task was aborted.\<close>

datatype call_phase =
    Enqueueing
  | AwaitingReply
  | Answered "(storage_reply, storage_error) outcome"
  | ReplyDropped
  | Parked
  | Returned "(storage_reply, connection_error) outcome"
  | Dropped

record storage_task =
  tk_call :: storage_call
  tk_phase :: call_phase
  tk_notified :: bool

fun finished :: "call_phase \<Rightarrow> bool" where
  "finished (Returned _) = True"
| "finished Dropped = True"
| "finished _ = False"

text \<open>Which calls end with \<open>notify_waiters\<close>: \<open>append\<close>, \<open>append_batch\<close> and \<open>replicate\<close>, when they succeed.\<close>

fun appends :: "storage_command \<Rightarrow> bool" where
  "appends (CmdAppend _) = True"
| "appends (CmdAppendBatch _) = True"
| "appends (CmdReplicate _) = True"
| "appends _ = False"

section \<open>State\<close>

text \<open>The broker serves, has begun to stop (the connections and background tasks are being aborted), or has dropped its own
  handle.\<close>

datatype serving_mode = Serving | Stopping | Closed

text \<open>A command the worker took from the queue, with the task that waits for the answer, the clocks it saw and the result.\<close>

record executed =
  ex_task :: "nat option"
  ex_command :: storage_command
  ex_clock :: "nat option"
  ex_elapsed :: "partition_key \<Rightarrow> string \<Rightarrow> nat option"
  ex_result :: "(storage_reply, storage_error) outcome"

text \<open>\<open>sy_ticking\<close>: the retention timer holds a sender, from its tick until its command is in the queue.
  \<open>sy_detached\<close>: the replication tasks that a produce request with leader acknowledgement has spawned and that still hold a handle; nobody
  aborts or awaits them.  The last two fields are histories: what was ever accepted into the queue, and what was executed.\<close>

record storage_system =
  sy_worker :: storage_worker
  sy_running :: bool
  sy_queue :: "(nat option \<times> storage_command) list"
  sy_mode :: serving_mode
  sy_ticking :: bool
  sy_detached :: nat
  sy_tasks :: "storage_task list"
  sy_accepted :: "(nat option \<times> storage_command) list"
  sy_executed :: "executed list"

definition started_system :: "storage_worker \<Rightarrow> storage_system" where
  "started_system w = \<lparr>sy_worker = w, sy_running = True, sy_queue = [], sy_mode = Serving, sy_ticking = False, sy_detached = 0, sy_tasks = [],
     sy_accepted = [], sy_executed = []\<rparr>"

definition queue_depth :: "storage_system \<Rightarrow> nat" where
  "queue_depth s = length (sy_queue s)"

section \<open>Steps of a task\<close>

definition set_task :: "nat \<Rightarrow> storage_task \<Rightarrow> storage_system \<Rightarrow> storage_system" where
  "set_task i t s = s\<lparr>sy_tasks := (sy_tasks s)[i := t]\<rparr>"

definition set_phase :: "nat \<Rightarrow> call_phase \<Rightarrow> storage_system \<Rightarrow> storage_system" where
  "set_phase i p s = set_task i ((sy_tasks s ! i)\<lparr>tk_phase := p\<rparr>) s"

abbreviation phase_of :: "storage_system \<Rightarrow> nat \<Rightarrow> call_phase" where
  "phase_of s i \<equiv> tk_phase (sy_tasks s ! i)"

abbreviation call_of :: "storage_system \<Rightarrow> nat \<Rightarrow> storage_call" where
  "call_of s i \<equiv> tk_call (sy_tasks s ! i)"

definition push_command :: "nat option \<Rightarrow> storage_command \<Rightarrow> storage_system \<Rightarrow> storage_system" where
  "push_command who command s = s\<lparr>sy_queue := sy_queue s @ [(who, command)], sy_accepted := sy_accepted s @ [(who, command)]\<rparr>"

text \<open>\<open>Notify::notify_waiters\<close> reaches the polls that are in a turn of their loop: they are registered from its
  first line on.\<close>

definition notify_task :: "storage_task \<Rightarrow> storage_task" where
  "notify_task t = (case tk_call t of
     Poll _ _ _ _ _ \<Rightarrow> if finished (tk_phase t) then t else t\<lparr>tk_notified := True\<rparr>
   | Call _ \<Rightarrow> t)"

definition notify_waiters :: "storage_system \<Rightarrow> storage_system" where
  "notify_waiters s = s\<lparr>sy_tasks := map notify_task (sy_tasks s)\<rparr>"

text \<open>What a task does with its answer.\<close>

definition take_answer :: "nat \<Rightarrow> (storage_reply, storage_error) outcome \<Rightarrow> storage_system \<Rightarrow> storage_system" where
  "take_answer i res s =
    (case call_of s i of
       Call command \<Rightarrow>
         set_phase i (Returned (map_err ConnStorage res))
           (if appends command \<and> (\<exists>r. res = Ok r) then notify_waiters s else s)
     | Poll _ _ _ _ max_wait_ms \<Rightarrow>
         if res = Ok (RepRecords []) \<and> max_wait_ms \<noteq> 0 then set_phase i Parked s
         else set_phase i (Returned (map_err ConnStorage res)) s)"

section \<open>Steps of the worker\<close>

definition deliver :: "nat option \<Rightarrow> (storage_reply, storage_error) outcome \<Rightarrow> storage_system \<Rightarrow> storage_system" where
  "deliver who res s =
    (case who of
       None \<Rightarrow> s
     | Some i \<Rightarrow> if phase_of s i = AwaitingReply then set_phase i (Answered res) s else s)"

text \<open>A panic ends the worker thread: the receiver is dropped, with the commands in the queue and the channels for
  their answers.\<close>

definition drop_replies :: "storage_system \<Rightarrow> storage_system" where
  "drop_replies s = s\<lparr>sy_running := False, sy_queue := [],
     sy_tasks := map (\<lambda>t. if tk_phase t = AwaitingReply then t\<lparr>tk_phase := ReplyDropped\<rparr> else t) (sy_tasks s)\<rparr>"

definition execute_front ::
    "(bytes \<Rightarrow> u32) \<Rightarrow> storage_settings \<Rightarrow> nat option \<Rightarrow> (partition_key \<Rightarrow> string \<Rightarrow> nat option)
     \<Rightarrow> nat option \<times> storage_command \<Rightarrow> storage_system \<Rightarrow> storage_system" where
  "execute_front hash settings clock elapsed front s =
    (case front of (who, command) \<Rightarrow>
     case run_command hash settings clock elapsed command (sy_worker s) of (res, w) \<Rightarrow>
       let s = s\<lparr>sy_worker := w, sy_queue := tl (sy_queue s), sy_executed := sy_executed s @
             [\<lparr>ex_task = who, ex_command = command, ex_clock = clock, ex_elapsed = elapsed, ex_result = res\<rparr>]\<rparr> in
       (case res of Panic \<Rightarrow> drop_replies s | _ \<Rightarrow> deliver who res s))"

text \<open>Somebody holds a sender: the broker itself, a task in a call, a detached task, or the timer.  Between its ticks the timer has a weak one.\<close>

definition has_senders :: "storage_system \<Rightarrow> bool" where
  "has_senders s \<longleftrightarrow> sy_mode s \<noteq> Closed \<or> sy_ticking s \<or> 0 < sy_detached s \<or> list_ex (\<lambda>t. \<not> finished (tk_phase t)) (sy_tasks s)"

section \<open>All interleavings\<close>

text \<open>A send that is under way may time out at any moment, which includes the moments at which the queue is full.  Shutdown aborts any
  task; before it, a call can be dropped by a timeout around it.  The calls in such a scope (\<open>replicate_to_follower\<close>,
  \<open>initial_controller_sync\<close>) append nothing.\<close>

inductive queue_step ::
    "(bytes \<Rightarrow> u32) \<Rightarrow> storage_settings \<Rightarrow> nat \<Rightarrow> storage_system \<Rightarrow> storage_system \<Rightarrow> bool"
  for hash settings capacity where
  begin_call: "sy_mode s \<noteq> Closed \<or> 0 < sy_detached s \<Longrightarrow>
    queue_step hash settings capacity s
      (s\<lparr>sy_tasks := sy_tasks s @ [\<lparr>tk_call = call, tk_phase = Enqueueing, tk_notified = False\<rparr>]\<rparr>)"
| enqueue: "i < length (sy_tasks s) \<Longrightarrow> phase_of s i = Enqueueing \<Longrightarrow> sy_running s \<Longrightarrow> queue_depth s < capacity \<Longrightarrow>
    queue_step hash settings capacity s (push_command (Some i) (call_command (call_of s i)) (set_phase i AwaitingReply s))"
| enqueue_timeout: "i < length (sy_tasks s) \<Longrightarrow> phase_of s i = Enqueueing \<Longrightarrow>
    queue_step hash settings capacity s (set_phase i (Returned (Err BrokerBusy)) s)"
| enqueue_closed: "i < length (sy_tasks s) \<Longrightarrow> phase_of s i = Enqueueing \<Longrightarrow> \<not> sy_running s \<Longrightarrow>
    queue_step hash settings capacity s (set_phase i (Returned (Err StorageUnavailable)) s)"
| execute: "sy_running s \<Longrightarrow> sy_queue s = front # rest \<Longrightarrow>
    queue_step hash settings capacity s (execute_front hash settings clock elapsed front s)"
| answer: "i < length (sy_tasks s) \<Longrightarrow> phase_of s i = Answered res \<Longrightarrow>
    queue_step hash settings capacity s (take_answer i res s)"
| no_answer: "i < length (sy_tasks s) \<Longrightarrow> phase_of s i = ReplyDropped \<Longrightarrow>
    queue_step hash settings capacity s (set_phase i (Returned (Err StorageUnavailable)) s)"
| wake: "i < length (sy_tasks s) \<Longrightarrow> phase_of s i = Parked \<Longrightarrow> tk_notified (sy_tasks s ! i) \<Longrightarrow>
    queue_step hash settings capacity s (set_task i ((sy_tasks s ! i)\<lparr>tk_phase := Enqueueing, tk_notified := False\<rparr>) s)"
| deadline: "i < length (sy_tasks s) \<Longrightarrow> phase_of s i = Parked \<Longrightarrow>
    queue_step hash settings capacity s (set_phase i (Returned (Ok (RepRecords []))) s)"
| retention_tick: "has_senders s \<Longrightarrow> queue_step hash settings capacity s (s\<lparr>sy_ticking := True\<rparr>)"
| retention_send: "sy_ticking s \<Longrightarrow> sy_running s \<Longrightarrow> queue_depth s < capacity \<Longrightarrow>
    queue_step hash settings capacity s (push_command None CmdApplyRetention (s\<lparr>sy_ticking := False\<rparr>))"
| retention_ends: "sy_ticking s \<Longrightarrow> \<not> sy_running s \<Longrightarrow>
    queue_step hash settings capacity s (s\<lparr>sy_ticking := False\<rparr>)"
| stop: "sy_mode s = Serving \<Longrightarrow> queue_step hash settings capacity s (s\<lparr>sy_mode := Stopping\<rparr>)"
| detach: "sy_mode s \<noteq> Closed \<Longrightarrow> queue_step hash settings capacity s (s\<lparr>sy_detached := sy_detached s + 1\<rparr>)"
| detached_ends: "0 < sy_detached s \<Longrightarrow> queue_step hash settings capacity s (s\<lparr>sy_detached := sy_detached s - 1\<rparr>)"
| abort: "sy_mode s \<noteq> Serving \<or> \<not> appends (call_command (call_of s i)) \<Longrightarrow> i < length (sy_tasks s) \<Longrightarrow> \<not> finished (phase_of s i) \<Longrightarrow>
    queue_step hash settings capacity s (set_phase i Dropped s)"
| drop_handle: "sy_mode s = Stopping \<Longrightarrow> queue_step hash settings capacity s (s\<lparr>sy_mode := Closed\<rparr>)"
| worker_ends: "sy_running s \<Longrightarrow> \<not> has_senders s \<Longrightarrow> sy_queue s = [] \<Longrightarrow>
    queue_step hash settings capacity s (s\<lparr>sy_running := False\<rparr>)"

section \<open>What the steps change\<close>

named_theorems queue_simps

lemma set_task_select [queue_simps]:
  "sy_worker (set_task i t s) = sy_worker s" "sy_running (set_task i t s) = sy_running s"
  "sy_queue (set_task i t s) = sy_queue s" "sy_mode (set_task i t s) = sy_mode s" "sy_ticking (set_task i t s) = sy_ticking s" "sy_detached (set_task i t s) = sy_detached s"
  "sy_accepted (set_task i t s) = sy_accepted s" "sy_executed (set_task i t s) = sy_executed s"
  "sy_tasks (set_task i t s) = (sy_tasks s)[i := t]"
  by (simp_all add: set_task_def)

lemma set_phase_select [queue_simps]:
  "sy_worker (set_phase i p s) = sy_worker s" "sy_running (set_phase i p s) = sy_running s"
  "sy_queue (set_phase i p s) = sy_queue s" "sy_mode (set_phase i p s) = sy_mode s" "sy_ticking (set_phase i p s) = sy_ticking s" "sy_detached (set_phase i p s) = sy_detached s"
  "sy_accepted (set_phase i p s) = sy_accepted s" "sy_executed (set_phase i p s) = sy_executed s"
  "sy_tasks (set_phase i p s) = (sy_tasks s)[i := (sy_tasks s ! i)\<lparr>tk_phase := p\<rparr>]"
  by (simp_all add: set_phase_def queue_simps)

lemma push_command_select [queue_simps]:
  "sy_worker (push_command who command s) = sy_worker s" "sy_running (push_command who command s) = sy_running s"
  "sy_queue (push_command who command s) = sy_queue s @ [(who, command)]" "sy_mode (push_command who command s) = sy_mode s" "sy_ticking (push_command who command s) = sy_ticking s" "sy_detached (push_command who command s) = sy_detached s"
  "sy_accepted (push_command who command s) = sy_accepted s @ [(who, command)]"
  "sy_executed (push_command who command s) = sy_executed s" "sy_tasks (push_command who command s) = sy_tasks s"
  by (simp_all add: push_command_def)

lemma notify_waiters_select [queue_simps]:
  "sy_worker (notify_waiters s) = sy_worker s" "sy_running (notify_waiters s) = sy_running s"
  "sy_queue (notify_waiters s) = sy_queue s" "sy_mode (notify_waiters s) = sy_mode s" "sy_ticking (notify_waiters s) = sy_ticking s" "sy_detached (notify_waiters s) = sy_detached s"
  "sy_accepted (notify_waiters s) = sy_accepted s" "sy_executed (notify_waiters s) = sy_executed s"
  "sy_tasks (notify_waiters s) = map notify_task (sy_tasks s)"
  by (simp_all add: notify_waiters_def)

lemma notify_task_select [queue_simps]:
  "tk_call (notify_task t) = tk_call t" "tk_phase (notify_task t) = tk_phase t"
  by (simp_all add: notify_task_def split: storage_call.splits)

lemma take_answer_select [queue_simps]:
  "sy_worker (take_answer i res s) = sy_worker s" "sy_running (take_answer i res s) = sy_running s"
  "sy_queue (take_answer i res s) = sy_queue s" "sy_mode (take_answer i res s) = sy_mode s" "sy_ticking (take_answer i res s) = sy_ticking s" "sy_detached (take_answer i res s) = sy_detached s"
  "sy_accepted (take_answer i res s) = sy_accepted s" "sy_executed (take_answer i res s) = sy_executed s"
  "length (sy_tasks (take_answer i res s)) = length (sy_tasks s)"
  by (simp_all add: take_answer_def queue_simps split: storage_call.splits)

lemma deliver_select [queue_simps]:
  "sy_worker (deliver who res s) = sy_worker s" "sy_running (deliver who res s) = sy_running s"
  "sy_queue (deliver who res s) = sy_queue s" "sy_mode (deliver who res s) = sy_mode s" "sy_ticking (deliver who res s) = sy_ticking s" "sy_detached (deliver who res s) = sy_detached s"
  "sy_accepted (deliver who res s) = sy_accepted s" "sy_executed (deliver who res s) = sy_executed s"
  "length (sy_tasks (deliver who res s)) = length (sy_tasks s)"
  by (simp_all add: deliver_def queue_simps split: option.splits)

lemma drop_replies_select [queue_simps]:
  "sy_worker (drop_replies s) = sy_worker s" "sy_running (drop_replies s) = False"
  "sy_queue (drop_replies s) = []" "sy_mode (drop_replies s) = sy_mode s" "sy_ticking (drop_replies s) = sy_ticking s" "sy_detached (drop_replies s) = sy_detached s"
  "sy_accepted (drop_replies s) = sy_accepted s" "sy_executed (drop_replies s) = sy_executed s"
  "length (sy_tasks (drop_replies s)) = length (sy_tasks s)"
  by (simp_all add: drop_replies_def)

text \<open>The two ways a command can go, with the state spelled out.\<close>

definition executed_of ::
    "nat option \<Rightarrow> (partition_key \<Rightarrow> string \<Rightarrow> nat option) \<Rightarrow> nat option \<times> storage_command
     \<Rightarrow> (storage_reply, storage_error) outcome \<Rightarrow> executed" where
  "executed_of clock elapsed front res = \<lparr>ex_task = fst front, ex_command = snd front, ex_clock = clock,
     ex_elapsed = elapsed, ex_result = res\<rparr>"

definition after_command :: "storage_worker \<Rightarrow> executed \<Rightarrow> storage_system \<Rightarrow> storage_system" where
  "after_command w e s = s\<lparr>sy_worker := w, sy_queue := tl (sy_queue s), sy_executed := sy_executed s @ [e]\<rparr>"

lemma after_command_select [queue_simps]:
  "sy_worker (after_command w e s) = w" "sy_running (after_command w e s) = sy_running s"
  "sy_queue (after_command w e s) = tl (sy_queue s)" "sy_mode (after_command w e s) = sy_mode s" "sy_ticking (after_command w e s) = sy_ticking s" "sy_detached (after_command w e s) = sy_detached s"
  "sy_accepted (after_command w e s) = sy_accepted s" "sy_executed (after_command w e s) = sy_executed s @ [e]"
  "sy_tasks (after_command w e s) = sy_tasks s"
  by (simp_all add: after_command_def)

lemma execute_front_cases:
  obtains (ran) res w where "run_command hash settings clock elapsed (snd front) (sy_worker s) = (res, w)" "res \<noteq> Panic"
      "execute_front hash settings clock elapsed front s = deliver (fst front) res (after_command w (executed_of clock elapsed front res) s)"
  | (panicked) w where "run_command hash settings clock elapsed (snd front) (sy_worker s) = (Panic, w)"
      "execute_front hash settings clock elapsed front s = drop_replies (after_command w (executed_of clock elapsed front Panic) s)"
proof -
  obtain res w where r: "run_command hash settings clock elapsed (snd front) (sy_worker s) = (res, w)" by fastforce
  have "execute_front hash settings clock elapsed front s =
      (let s = after_command w (executed_of clock elapsed front res) s in
       case res of Panic \<Rightarrow> drop_replies s | _ \<Rightarrow> deliver (fst front) res s)"
    using r by (cases front; cases res) (simp_all add: execute_front_def after_command_def executed_of_def Let_def)
  with r ran panicked show thesis by (cases res) (auto simp: Let_def)
qed

section \<open>Every call is one moment\<close>

text \<open>The commands of a list ran one after the other, each with the result the list says.\<close>

definition rerun :: "(bytes \<Rightarrow> u32) \<Rightarrow> storage_settings \<Rightarrow> executed \<Rightarrow> storage_worker \<Rightarrow> storage_reply worker_result" where
  "rerun hash settings e = run_command hash settings (ex_clock e) (ex_elapsed e) (ex_command e)"

fun sequential :: "(bytes \<Rightarrow> u32) \<Rightarrow> storage_settings \<Rightarrow> executed list \<Rightarrow> storage_worker \<Rightarrow> storage_worker \<Rightarrow> bool" where
  "sequential hash settings [] w w' \<longleftrightarrow> w' = w"
| "sequential hash settings (e # es) w w' \<longleftrightarrow> fst (rerun hash settings e w) = ex_result e \<and>
     sequential hash settings es (snd (rerun hash settings e w)) w'"

lemma sequential_append:
  "sequential hash settings (es @ es') w w' \<longleftrightarrow> (\<exists>v. sequential hash settings es w v \<and> sequential hash settings es' v w')"
  by (induction es arbitrary: w) auto

definition pair_of :: "executed \<Rightarrow> nat option \<times> storage_command" where
  "pair_of e = (ex_task e, ex_command e)"

definition panicked :: "storage_system \<Rightarrow> bool" where
  "panicked s \<longleftrightarrow> list_ex (\<lambda>e. ex_result e = Panic) (sy_executed s)"

text \<open>The queue in order: bounded, first in first out, nothing lost unless the worker has panicked.\<close>

definition fifo_ok :: "nat \<Rightarrow> storage_system \<Rightarrow> bool" where
  "fifo_ok capacity s \<longleftrightarrow> queue_depth s \<le> capacity \<and>
     (\<exists>lost. sy_accepted s = map pair_of (sy_executed s) @ sy_queue s @ lost \<and> (lost \<noteq> [] \<longrightarrow> panicked s)) \<and>
     (sy_running s \<longrightarrow> \<not> panicked s) \<and> (\<not> sy_running s \<longrightarrow> sy_queue s = [])"

lemma fifo_ok_step: "queue_step hash settings capacity s s' \<Longrightarrow> fifo_ok capacity s \<Longrightarrow> fifo_ok capacity s'"
proof (induction rule: queue_step.induct)
  case (execute s front rest clock elapsed)
  then have q: "sy_accepted s = map pair_of (sy_executed s) @ front # rest" "\<not> panicked s" "length rest < capacity"
    by (auto simp: fifo_ok_def queue_depth_def)
  show ?case
    by (cases rule: execute_front_cases [of hash settings clock elapsed front s])
      (use execute q in \<open>auto simp: fifo_ok_def queue_depth_def queue_simps panicked_def pair_of_def executed_of_def\<close>)
next
  case (enqueue i s)
  then show ?case by (auto simp: fifo_ok_def queue_depth_def queue_simps panicked_def)
next
  case (retention_send s)
  then show ?case by (auto simp: fifo_ok_def queue_depth_def queue_simps panicked_def)
qed (auto simp: fifo_ok_def queue_depth_def queue_simps panicked_def)

text \<open>What was executed for a task and what it still has in the queue.\<close>

definition runs_of :: "storage_system \<Rightarrow> nat \<Rightarrow> executed list" where
  "runs_of s i = filter (\<lambda>e. ex_task e = Some i) (sy_executed s)"

definition waits_of :: "storage_system \<Rightarrow> nat \<Rightarrow> (nat option \<times> storage_command) list" where
  "waits_of s i = filter (\<lambda>p. fst p = Some i) (sy_queue s)"

fun is_poll :: "storage_call \<Rightarrow> bool" where
  "is_poll (Poll _ _ _ _ _) = True"
| "is_poll (Call _) = False"

text \<open>The last command that was executed for a call, which is the only one unless the call is a poll.\<close>

definition last_run :: "storage_call \<Rightarrow> executed list \<Rightarrow> executed \<Rightarrow> bool" where
  "last_run call rs e \<longleftrightarrow> (\<exists>es. rs = es @ [e] \<and> (is_poll call \<or> es = []))"

fun phase_ok :: "executed list \<Rightarrow> (nat option \<times> storage_command) list \<Rightarrow> storage_call \<Rightarrow> call_phase \<Rightarrow> bool" where
  "phase_ok rs qs call Enqueueing \<longleftrightarrow> qs = [] \<and> (is_poll call \<or> rs = [])"
| "phase_ok rs qs call AwaitingReply \<longleftrightarrow> length qs = 1 \<and> (is_poll call \<or> rs = [])"
| "phase_ok rs qs call (Answered res) \<longleftrightarrow> qs = [] \<and> res \<noteq> Panic \<and> (\<exists>e. last_run call rs e \<and> ex_result e = res)"
| "phase_ok rs qs call ReplyDropped \<longleftrightarrow> qs = []"
| "phase_ok rs qs call Parked \<longleftrightarrow> qs = [] \<and> is_poll call \<and> (\<exists>e. last_run call rs e \<and> ex_result e = Ok (RepRecords []))"
| "phase_ok rs qs call (Returned r) \<longleftrightarrow> qs = [] \<and>
     (r = Err BrokerBusy \<and> (is_poll call \<or> rs = []) \<or> r = Err StorageUnavailable \<or>
      (\<exists>e. last_run call rs e \<and> ex_result e \<noteq> Panic \<and> r = map_err ConnStorage (ex_result e)))"
| "phase_ok rs qs call Dropped \<longleftrightarrow> length qs \<le> 1"

definition task_ok :: "executed list \<Rightarrow> (nat option \<times> storage_command) list \<Rightarrow> storage_task \<Rightarrow> bool" where
  "task_ok rs qs t \<longleftrightarrow> (\<forall>e \<in> set rs. ex_command e = call_command (tk_call t)) \<and>
     (\<forall>q \<in> set qs. snd q = call_command (tk_call t)) \<and> phase_ok rs qs (tk_call t) (tk_phase t)"

definition tasks_ok :: "storage_system \<Rightarrow> bool" where
  "tasks_ok s \<longleftrightarrow>
     (\<forall>i < length (sy_tasks s). task_ok (runs_of s i) (waits_of s i) (sy_tasks s ! i)) \<and>
     (\<forall>i. length (sy_tasks s) \<le> i \<longrightarrow> runs_of s i = [] \<and> waits_of s i = [])"

lemma tasks_okI:
  assumes "tasks_ok s" and "length (sy_tasks s') = length (sy_tasks s)" and "i < length (sy_tasks s)"
    and "task_ok (runs_of s' i) (waits_of s' i) (sy_tasks s' ! i)"
    and "\<And>j. j \<noteq> i \<Longrightarrow> runs_of s' j = runs_of s j" and "\<And>j. j \<noteq> i \<Longrightarrow> waits_of s' j = waits_of s j"
    and "\<And>j. j < length (sy_tasks s) \<Longrightarrow> j \<noteq> i \<Longrightarrow> tk_call (sy_tasks s' ! j) = tk_call (sy_tasks s ! j) \<and>
      tk_phase (sy_tasks s' ! j) = tk_phase (sy_tasks s ! j)"
  shows "tasks_ok s'"
proof -
  have "task_ok (runs_of s' j) (waits_of s' j) (sy_tasks s' ! j)" if "j < length (sy_tasks s)" for j
    using assms(1,4-7) that by (cases "j = i") (auto simp: tasks_ok_def task_ok_def)
  moreover have "runs_of s' j = [] \<and> waits_of s' j = []" if "length (sy_tasks s) \<le> j" for j
    using assms(1,3,5,6) that by (cases "j = i") (auto simp: tasks_ok_def)
  ultimately show ?thesis using assms(2) by (auto simp: tasks_ok_def)
qed

lemma tasks_ok_phase:
  assumes "tasks_ok s" and "i < length (sy_tasks s)"
    and "task_ok (runs_of s i) (waits_of s i) (sy_tasks s ! i) \<Longrightarrow> task_ok (runs_of s i) (waits_of s i) ((sy_tasks s ! i)\<lparr>tk_phase := p\<rparr>)"
  shows "tasks_ok (set_phase i p s)"
  by (rule tasks_okI [OF assms(1) _ assms(2)])
    (use assms in \<open>auto simp: queue_simps runs_of_def waits_of_def tasks_ok_def\<close>)

lemma tasks_ok_notify:
  assumes "tasks_ok s"
  shows "tasks_ok (notify_waiters s)"
  using assms by (auto simp: tasks_ok_def task_ok_def queue_simps runs_of_def waits_of_def)

lemma tasks_ok_answer:
  assumes "tasks_ok s" and "i < length (sy_tasks s)" and "phase_of s i = Answered res"
  shows "tasks_ok (take_answer i res s)"
proof (cases "call_of s i")
  case (Call command)
  have "tasks_ok (set_phase i (Returned (map_err ConnStorage res)) (notify_waiters s))"
    by (rule tasks_ok_phase [OF tasks_ok_notify [OF assms(1)]])
      (use assms(2,3) in \<open>auto simp: queue_simps task_ok_def\<close>)
  moreover have "tasks_ok (set_phase i (Returned (map_err ConnStorage res)) s)"
    by (rule tasks_ok_phase [OF assms(1,2)]) (use assms(3) in \<open>auto simp: task_ok_def\<close>)
  ultimately show ?thesis using Call by (simp add: take_answer_def)
next
  case (Poll topic part offset max_bytes max_wait_ms)
  have "tasks_ok (set_phase i (Returned (map_err ConnStorage res)) s)"
    by (rule tasks_ok_phase [OF assms(1,2)]) (use assms(3) in \<open>auto simp: task_ok_def\<close>)
  moreover have "tasks_ok (set_phase i Parked s)" if "res = Ok (RepRecords [])"
    by (rule tasks_ok_phase [OF assms(1,2)]) (use assms(3) that Poll in \<open>auto simp: task_ok_def\<close>)
  ultimately show ?thesis using Poll by (simp add: take_answer_def)
qed

lemma task_ok_waits: "task_ok rs (q # qs) t \<Longrightarrow> qs = [] \<and> snd q = call_command (tk_call t) \<and>
    (tk_phase t = AwaitingReply \<and> (is_poll (tk_call t) \<or> rs = []) \<or> tk_phase t = Dropped)"
  by (cases "tk_phase t") (auto simp: task_ok_def)

lemma front_task:
  assumes "tasks_ok s" and "sy_queue s = front # rest" and "fst front = Some k"
  shows "k < length (sy_tasks s)" "task_ok (runs_of s k) [front] (sy_tasks s ! k)" "waits_of s k = [front]"
    "phase_of s k = AwaitingReply \<and> (is_poll (call_of s k) \<or> runs_of s k = []) \<or> phase_of s k = Dropped"
proof -
  have w: "waits_of s k = front # filter (\<lambda>p. fst p = Some k) rest" using assms(2,3) by (simp add: waits_of_def)
  then have "waits_of s k \<noteq> []" by simp
  then show k: "k < length (sy_tasks s)" using assms(1) by (metis not_less tasks_ok_def)
  with assms(1) have t: "task_ok (runs_of s k) (waits_of s k) (sy_tasks s ! k)" by (simp add: tasks_ok_def)
  note tw = task_ok_waits [OF this [unfolded w]]
  then show "waits_of s k = [front]" using w by simp
  with t show "task_ok (runs_of s k) [front] (sy_tasks s ! k)" by simp
  show "phase_of s k = AwaitingReply \<and> (is_poll (call_of s k) \<or> runs_of s k = []) \<or> phase_of s k = Dropped"
    using tw by blast
qed

lemma phase_ok_no_queue: "phase_ok rs qs call p \<Longrightarrow> p \<noteq> AwaitingReply \<Longrightarrow> phase_ok rs [] call p"
  by (cases p) auto

lemma tasks_ok_panic:
  assumes "tasks_ok s" and "sy_queue s = front # rest" and "ex_task e = fst front" and "ex_command e = snd front"
  shows "tasks_ok (drop_replies (after_command w e s))"
proof -
  let ?s' = "drop_replies (after_command w e s)"
  have len: "length (sy_tasks ?s') = length (sy_tasks s)" and q: "waits_of ?s' i = []" for i
    by (simp_all add: queue_simps waits_of_def)
  have runs: "runs_of ?s' i = runs_of s i @ (if fst front = Some i then [e] else [])" for i
    using assms(3) by (simp add: runs_of_def queue_simps)
  have "task_ok (runs_of ?s' i) [] (sy_tasks ?s' ! i)" if i: "i < length (sy_tasks s)" for i
  proof -
    have t: "task_ok (runs_of s i) (waits_of s i) (sy_tasks s ! i)" using assms(1) i by (simp add: tasks_ok_def)
    have tk: "sy_tasks ?s' ! i = (if phase_of s i = AwaitingReply then (sy_tasks s ! i)\<lparr>tk_phase := ReplyDropped\<rparr> else sy_tasks s ! i)"
      using i by (simp add: drop_replies_def queue_simps)
    show ?thesis
      unfolding runs tk
    proof (cases "fst front = Some i")
      case True
      from front_task [OF assms(1,2) True] assms(4) show "task_ok (runs_of s i @ (if fst front = Some i then [e] else [])) []
        (if phase_of s i = AwaitingReply then (sy_tasks s ! i)\<lparr>tk_phase := ReplyDropped\<rparr> else sy_tasks s ! i)"
        by (auto simp: True task_ok_def)
    next
      case False
      then show "task_ok (runs_of s i @ (if fst front = Some i then [e] else [])) []
        (if phase_of s i = AwaitingReply then (sy_tasks s ! i)\<lparr>tk_phase := ReplyDropped\<rparr> else sy_tasks s ! i)"
        using t phase_ok_no_queue [of "runs_of s i" "waits_of s i" "call_of s i" "phase_of s i"] by (auto simp: task_ok_def)
    qed
  qed
  moreover have "runs_of ?s' i = []" if i: "length (sy_tasks s) \<le> i" for i
    using front_task(1) [OF assms(1,2), of i] assms(1) i by (auto simp: runs tasks_ok_def)
  ultimately show ?thesis unfolding tasks_ok_def len q by blast
qed

lemma tasks_ok_ran:
  assumes "tasks_ok s" and "sy_queue s = front # rest" and "ex_task e = fst front" and "ex_command e = snd front"
    and "ex_result e = res" and "res \<noteq> Panic"
  shows "tasks_ok (deliver (fst front) res (after_command w e s))"
proof (cases "fst front")
  case None
  then show ?thesis using assms by (auto simp: tasks_ok_def runs_of_def waits_of_def queue_simps deliver_def)
next
  case (Some k)
  note k = front_task [OF assms(1,2) Some]
  let ?s' = "deliver (fst front) res (after_command w e s)"
  have "filter (\<lambda>p. fst p = Some k) rest = []" using k(3) assms(2) Some by (simp add: waits_of_def)
  then have rq: "runs_of ?s' k = runs_of s k @ [e]" "waits_of ?s' k = []"
    using Some assms(2,3) by (simp_all add: runs_of_def waits_of_def queue_simps)
  have tk: "sy_tasks ?s' ! k = (if phase_of s k = AwaitingReply then (sy_tasks s ! k)\<lparr>tk_phase := Answered res\<rparr> else sy_tasks s ! k)"
    using Some k(1) by (simp add: deliver_def queue_simps)
  show ?thesis
  proof (rule tasks_okI [OF assms(1) _ k(1)])
    show "task_ok (runs_of ?s' k) (waits_of ?s' k) (sy_tasks ?s' ! k)"
      unfolding rq tk using k(2,4) assms(4-6) by (auto simp: task_ok_def last_run_def)
  qed (use Some assms(2,3) in \<open>auto simp: runs_of_def waits_of_def queue_simps deliver_def\<close>)
qed

lemma tasks_ok_step: "queue_step hash settings capacity s s' \<Longrightarrow> tasks_ok s \<Longrightarrow> tasks_ok s'"
proof (induction rule: queue_step.induct)
  case (begin_call s call)
  let ?s' = "s\<lparr>sy_tasks := sy_tasks s @ [\<lparr>tk_call = call, tk_phase = Enqueueing, tk_notified = False\<rparr>]\<rparr>"
  have "runs_of ?s' i = runs_of s i" "waits_of ?s' i = waits_of s i" for i by (simp_all add: runs_of_def waits_of_def)
  with begin_call show ?case by (auto simp: tasks_ok_def nth_append task_ok_def less_Suc_eq)
next
  case (enqueue i s)
  from enqueue(5,1) have "task_ok (runs_of s i) (waits_of s i) (sy_tasks s ! i)" by (simp add: tasks_ok_def)
  then show ?case
    by (intro tasks_okI [OF enqueue(5) _ enqueue(1)])
      (use enqueue in \<open>auto simp: queue_simps runs_of_def waits_of_def task_ok_def\<close>)
next
  case (execute s front rest clock elapsed)
  show ?case
    by (cases rule: execute_front_cases [of hash settings clock elapsed front s])
      (use execute in \<open>auto simp: executed_of_def intro!: tasks_ok_ran tasks_ok_panic\<close>)
next
  case (wake i s)
  then have "task_ok (runs_of s i) (waits_of s i) (sy_tasks s ! i)" by (simp add: tasks_ok_def)
  then show ?case
    by (intro tasks_okI [OF wake(4) _ wake(1)])
      (use wake in \<open>auto simp: queue_simps runs_of_def waits_of_def task_ok_def\<close>)
next
  case (abort s i)
  show ?case
    by (rule tasks_ok_phase [OF abort(4,2)])
      (use abort(3) in \<open>cases "phase_of s i"; auto simp: task_ok_def\<close>)
next
  case (deadline i s)
  show ?case
    by (rule tasks_ok_phase [OF deadline(3,1)]) (use deadline(2) in \<open>fastforce simp: task_ok_def\<close>)
next
  case (answer i s res)
  then show ?case by (intro tasks_ok_answer)
next
  case (enqueue_timeout i s)
  then show ?case by (intro tasks_ok_phase) (auto simp: task_ok_def)
next
  case (enqueue_closed i s)
  then show ?case by (intro tasks_ok_phase) (auto simp: task_ok_def)
next
  case (no_answer i s)
  then show ?case by (intro tasks_ok_phase) (auto simp: task_ok_def)
qed (simp_all add: tasks_ok_def queue_simps runs_of_def waits_of_def)

text \<open>A call is answered \<open>StorageUnavailable\<close> only when the worker is gone.\<close>

definition gone_ok :: "storage_system \<Rightarrow> bool" where
  "gone_ok s \<longleftrightarrow> (sy_running s \<longrightarrow>
     (\<forall>t \<in> set (sy_tasks s). tk_phase t \<noteq> ReplyDropped \<and> tk_phase t \<noteq> Returned (Err StorageUnavailable)))"

lemma map_err_storage_neq [simp]:
  "map_err ConnStorage res \<noteq> Err StorageUnavailable" "map_err ConnStorage res \<noteq> Err BrokerBusy"
  by (cases res; simp)+

lemma gone_ok_task:
  assumes "gone_ok s" and "tk_phase t \<noteq> ReplyDropped" "tk_phase t \<noteq> Returned (Err StorageUnavailable)"
  shows "gone_ok (set_task i t s)"
proof -
  have "set ((sy_tasks s)[i := t]) \<subseteq> insert t (set (sy_tasks s))" by (rule set_update_subset_insert)
  with assms show ?thesis unfolding gone_ok_def set_task_select by blast
qed

lemma gone_ok_same [simp]:
  "gone_ok (push_command who command s) = gone_ok s" "gone_ok (notify_waiters s) = gone_ok s"
  "gone_ok (after_command w e s) = gone_ok s" "gone_ok (drop_replies s)"
  by (simp_all add: gone_ok_def queue_simps)

lemma gone_ok_phase [simp]:
  "gone_ok s \<Longrightarrow> p \<noteq> ReplyDropped \<Longrightarrow> p \<noteq> Returned (Err StorageUnavailable) \<Longrightarrow> gone_ok (set_phase i p s)"
  unfolding set_phase_def by (rule gone_ok_task) simp_all

lemma gone_ok_step: "queue_step hash settings capacity s s' \<Longrightarrow> gone_ok s \<Longrightarrow> gone_ok s'"
proof (induction rule: queue_step.induct)
  case (execute s front rest clock elapsed)
  show ?case
    by (cases rule: execute_front_cases [of hash settings clock elapsed front s])
      (use execute(3) in \<open>auto simp: deliver_def split: option.splits\<close>)
next
  case (answer i s res)
  then show ?case by (auto simp: take_answer_def split: storage_call.splits)
next
  case (wake i s)
  then show ?case by (intro gone_ok_task) simp_all
next
  case (enqueue_closed i s)
  then show ?case by (simp add: gone_ok_def queue_simps)
next
  case (no_answer i s)
  then have "\<not> sy_running s" by (auto simp: gone_ok_def)
  then show ?case by (simp add: gone_ok_def queue_simps)
next
  case (begin_call s call)
  then show ?case by (auto simp: gone_ok_def)
qed (simp_all, simp_all add: gone_ok_def)

lemma sequential_step:
  assumes "queue_step hash settings capacity s s'" and "sequential hash settings (sy_executed s) w (sy_worker s)"
  shows "sequential hash settings (sy_executed s') w (sy_worker s')"
  using assms
proof (induction rule: queue_step.induct)
  case (execute s front rest clock elapsed)
  show ?case
    by (cases rule: execute_front_cases [of hash settings clock elapsed front s])
      (use execute in \<open>auto simp: queue_simps sequential_append rerun_def executed_of_def\<close>)
qed (simp_all add: queue_simps)

definition system_ok :: "(bytes \<Rightarrow> u32) \<Rightarrow> storage_settings \<Rightarrow> nat \<Rightarrow> storage_worker \<Rightarrow> storage_system \<Rightarrow> bool" where
  "system_ok hash settings capacity w s \<longleftrightarrow> fifo_ok capacity s \<and> tasks_ok s \<and> gone_ok s \<and>
     sequential hash settings (sy_executed s) w (sy_worker s)"

lemma started_system_ok: "system_ok hash settings capacity w (started_system w)"
  by (simp add: system_ok_def fifo_ok_def tasks_ok_def gone_ok_def started_system_def queue_depth_def runs_of_def waits_of_def panicked_def)

lemma system_ok_steps:
  "(queue_step hash settings capacity)\<^sup>*\<^sup>* s s' \<Longrightarrow> system_ok hash settings capacity w s \<Longrightarrow> system_ok hash settings capacity w s'"
  by (induction rule: rtranclp_induct)
    (auto simp: system_ok_def intro: fifo_ok_step tasks_ok_step gone_ok_step sequential_step)

text \<open>Time goes on: tasks keep their calls, what has returned stays so, and what was executed stays executed.\<close>

definition continues :: "storage_system \<Rightarrow> storage_system \<Rightarrow> bool" where
  "continues s s' \<longleftrightarrow> length (sy_tasks s) \<le> length (sy_tasks s') \<and>
     (\<forall>i < length (sy_tasks s). call_of s' i = call_of s i \<and> (finished (phase_of s i) \<longrightarrow> phase_of s' i = phase_of s i)) \<and>
     (\<exists>more. sy_executed s' = sy_executed s @ more)"

lemma continues_refl [simp]: "continues s s"
  by (simp add: continues_def)

lemma continues_trans:
  assumes "continues s s'" and "continues s' s''"
  shows "continues s s''"
proof -
  obtain m m' where "sy_executed s' = sy_executed s @ m" "sy_executed s'' = sy_executed s' @ m'"
    using assms by (auto simp: continues_def)
  then have "\<exists>more. sy_executed s'' = sy_executed s @ more" by simp
  with assms show ?thesis by (fastforce simp: continues_def)
qed

lemma continues_task:
  assumes "i < length (sy_tasks s) \<Longrightarrow> \<not> finished (phase_of s i)" and "tk_call t = call_of s i"
  shows "continues s (set_task i t s)"
  using assms by (auto simp: continues_def queue_simps) (metis nth_list_update_eq nth_list_update_neq)+

lemma continues_phase: "\<not> finished (phase_of s i) \<Longrightarrow> continues s (set_phase i p s)"
  unfolding set_phase_def by (rule continues_task) simp_all

lemma continues_parts [simp]:
  "continues s (push_command who command s)" "continues s (notify_waiters s)" "continues s (after_command w e s)"
  "continues s (drop_replies s)" "continues s (s\<lparr>sy_mode := m\<rparr>)" "continues s (s\<lparr>sy_ticking := b\<rparr>)" "continues s (s\<lparr>sy_detached := n\<rparr>)" "continues s (s\<lparr>sy_running := r\<rparr>)"
  by (auto simp: continues_def queue_simps drop_replies_def)

lemma continues_deliver: "continues s (deliver who res s)"
  by (auto simp: deliver_def intro!: continues_phase split: option.splits)

lemma continues_step: "queue_step hash settings capacity s s' \<Longrightarrow> continues s s'"
proof (induction rule: queue_step.induct)
  case (begin_call s call)
  then show ?case by (simp add: continues_def nth_append)
next
  case (enqueue i s)
  then show ?case by (intro continues_trans [OF continues_phase continues_parts(1)]) simp
next
  case (retention_send s)
  then show ?case by (intro continues_trans [OF continues_parts(6) continues_parts(1)])
next
  case (execute s front rest clock elapsed)
  have "continues s (deliver who res (after_command w e s))" "continues s (drop_replies (after_command w e s))" for who res w e
    by (rule continues_trans [OF continues_parts(3) continues_deliver], rule continues_trans [OF continues_parts(3,4)])
  then show ?case by (cases rule: execute_front_cases [of hash settings clock elapsed front s]) simp_all
next
  case (answer i s res)
  have "\<not> finished (phase_of (notify_waiters s) i)" "\<not> finished (phase_of s i)" using answer by (simp_all add: queue_simps)
  note nf = this
  have "continues s (set_phase i p (notify_waiters s))" "continues s (set_phase i p s)" for p
    using nf by (auto intro: continues_trans [OF continues_parts(2) continues_phase] continues_phase)
  then show ?case by (simp add: take_answer_def split: storage_call.splits)
qed (auto intro!: continues_phase continues_task)

lemma continues_steps: "(queue_step hash settings capacity)\<^sup>*\<^sup>* s s' \<Longrightarrow> continues s s'"
  by (induction rule: rtranclp_induct) (auto intro: continues_trans continues_step)

text \<open>The command of a call ran once, with this result.\<close>

definition took_effect :: "storage_system \<Rightarrow> nat \<Rightarrow> storage_command \<Rightarrow> (storage_reply, storage_error) outcome \<Rightarrow> bool" where
  "took_effect s i command res \<longleftrightarrow> (\<exists>e. runs_of s i = [e] \<and> ex_command e = command \<and> ex_result e = res)"

text \<open>What became of a call that has returned, now and at any later time.\<close>

definition call_outcome :: "storage_system \<Rightarrow> storage_system \<Rightarrow> nat \<Rightarrow> storage_command \<Rightarrow> (storage_reply, connection_error) outcome \<Rightarrow> bool" where
  "call_outcome s s' i command r \<longleftrightarrow>
     r = Err BrokerBusy \<and> runs_of s' i = [] \<and> waits_of s' i = [] \<or>
     r = Err StorageUnavailable \<and> \<not> sy_running s' \<or>
     (\<exists>res. r = map_err ConnStorage res \<and> took_effect s i command res \<and> took_effect s' i command res)"

lemma returned_outcome:
  assumes "system_ok hash settings capacity w s" and "system_ok hash settings capacity w s'" and "continues s s'"
    and "i < length (sy_tasks s)" and "call_of s i = Call command" and "phase_of s i = Returned r"
  shows "call_outcome s s' i command r"
proof -
  have i': "i < length (sy_tasks s')" "call_of s' i = Call command" "phase_of s' i = Returned r"
    using assms(3-6) by (auto simp: continues_def)
  have t: "task_ok (runs_of s i) (waits_of s i) (sy_tasks s ! i)" "task_ok (runs_of s' i) (waits_of s' i) (sy_tasks s' ! i)"
    using assms(1,2,4) i'(1) by (simp_all add: system_ok_def tasks_ok_def)
  obtain more where "sy_executed s' = sy_executed s @ more" using assms(3) by (auto simp: continues_def)
  then obtain xs where runs: "runs_of s' i = runs_of s i @ xs" by (simp add: runs_of_def)
  have gone: "\<not> sy_running s'" if "r = Err StorageUnavailable"
    using assms(2) i' that nth_mem [of i "sy_tasks s'"] by (force simp: system_ok_def gone_ok_def)
  have cmd: "\<forall>e \<in> set (runs_of s i). ex_command e = command" using t(1) assms(5) by (simp add: task_ok_def)
  have p: "r = Err BrokerBusy \<and> rs = [] \<or> r = Err StorageUnavailable \<or> (\<exists>e. rs = [e] \<and> r = map_err ConnStorage (ex_result e))"
    "qs = []" if "task_ok rs qs t" "tk_call t = Call command" "tk_phase t = Returned r" for rs qs t
    using that by (auto simp: task_ok_def last_run_def)
  note ps = p [OF t(1) assms(5,6)] p [OF t(2) i'(2,3)]
  consider "r = Err BrokerBusy" "runs_of s' i = []" "waits_of s' i = []" | "r = Err StorageUnavailable"
    | e where "runs_of s i = [e]" "runs_of s' i = [e]" "r = map_err ConnStorage (ex_result e)"
  proof (cases "\<exists>e. runs_of s i = [e] \<and> r = map_err ConnStorage (ex_result e)")
    case True
    then obtain e where e: "runs_of s i = [e]" "r = map_err ConnStorage (ex_result e)" by blast
    then have "runs_of s' i = [e]" using ps(3) runs by auto
    with e that(3) show thesis by blast
  next
    case False
    with ps(1) have "r = Err BrokerBusy \<or> r = Err StorageUnavailable" by blast
    then show thesis
    proof
      assume "r = Err BrokerBusy"
      with ps(3) have "runs_of s' i = []" by (auto dest: sym)
      with that(1) ps(4) \<open>r = Err BrokerBusy\<close> show thesis by blast
    qed (rule that(2))
  qed
  then show ?thesis
  proof cases
    case (3 e)
    with cmd show ?thesis by (auto simp: call_outcome_def took_effect_def)
  qed (use gone in \<open>simp_all add: call_outcome_def\<close>)
qed

text \<open>C13: The storage worker is shared safely: however many tasks call the storage handle at the same time, and however
  their steps interleave, the state of the storage is what the executed commands give one after the other, each with the result it
  was answered.  A call that returned took effect exactly once, with the result it returned and before every call that
  began after its return; a call that was answered \<open>BrokerBusy\<close> was not executed and never will be; \<open>StorageUnavailable\<close> is answered only when
  the worker is gone.  The queue never exceeds its capacity.\<close>

theorem storage_calls_linearizable:
  assumes "(queue_step hash settings capacity)\<^sup>*\<^sup>* (started_system w) s" and "(queue_step hash settings capacity)\<^sup>*\<^sup>* s s'"
  shows "sequential hash settings (sy_executed s') w (sy_worker s') \<and> queue_depth s' \<le> capacity \<and>
    (\<forall>i command r. i < length (sy_tasks s) \<longrightarrow> call_of s i = Call command \<longrightarrow> phase_of s i = Returned r \<longrightarrow>
       call_outcome s s' i command r) \<and>
    (\<exists>later. sy_executed s' = sy_executed s @ later \<and> (\<forall>j e. length (sy_tasks s) \<le> j \<longrightarrow> e \<in> set (sy_executed s) \<longrightarrow> ex_task e \<noteq> Some j))"
proof -
  have ok: "system_ok hash settings capacity w s" "system_ok hash settings capacity w s'"
    using system_ok_steps assms started_system_ok by blast+
  have c: "continues s s'" using assms(2) by (rule continues_steps)
  have "call_outcome s s' i command r" if "i < length (sy_tasks s)" "call_of s i = Call command" "phase_of s i = Returned r"
    for i command r using returned_outcome [OF ok c that] .
  moreover obtain later where "sy_executed s' = sy_executed s @ later" using c by (auto simp: continues_def)
  moreover have "ex_task e \<noteq> Some j" if "length (sy_tasks s) \<le> j" "e \<in> set (sy_executed s)" for j e
    using ok(1) that by (auto simp: system_ok_def tasks_ok_def runs_of_def filter_empty_conv)
  ultimately show ?thesis using ok(2) by (auto simp: system_ok_def fifo_ok_def)
qed

text \<open>A run with one call, which lists the topics of an empty worker.\<close>

definition listed_system :: storage_system where
  "listed_system = \<lparr>sy_worker = empty_worker, sy_running = True, sy_queue = [], sy_mode = Serving, sy_ticking = False, sy_detached = 0,
     sy_tasks = [\<lparr>tk_call = Call CmdListTopics, tk_phase = Returned (Ok (RepTopics [])), tk_notified = False\<rparr>],
     sy_accepted = [(Some 0, CmdListTopics)],
     sy_executed = [\<lparr>ex_task = Some 0, ex_command = CmdListTopics, ex_clock = Some 5, ex_elapsed = (\<lambda>_ _. None),
       ex_result = Ok (RepTopics [])\<rparr>]\<rparr>"

lemma listed_system_reachable: "(queue_step byte_sum sample_settings 1)\<^sup>*\<^sup>* (started_system empty_worker) listed_system"
proof -
  let ?q = "queue_step byte_sum sample_settings 1"
  let ?s0 = "started_system empty_worker"
  define s1 where "s1 = ?s0\<lparr>sy_tasks := [\<lparr>tk_call = Call CmdListTopics, tk_phase = Enqueueing, tk_notified = False\<rparr>]\<rparr>"
  define s2 where "s2 = push_command (Some 0) CmdListTopics (set_phase 0 AwaitingReply s1)"
  define s3 where "s3 = execute_front byte_sum sample_settings (Some 5) (\<lambda>_ _. None) (Some 0, CmdListTopics) s2"
  have "?q ?s0 s1"
    using queue_step.begin_call [of ?s0 byte_sum sample_settings 1 "Call CmdListTopics"] by (simp add: s1_def started_system_def)
  moreover have "?q s1 s2"
    using queue_step.enqueue [of 0 s1 1 byte_sum sample_settings] by (simp add: s1_def s2_def started_system_def queue_depth_def)
  moreover have "?q s2 s3"
    unfolding s3_def by (rule queue_step.execute [where rest = "[]"]) (simp_all add: s2_def s1_def queue_simps started_system_def)
  moreover have s3: "phase_of s3 0 = Answered (Ok (RepTopics []))" "length (sy_tasks s3) = 1"
    "take_answer 0 (Ok (RepTopics [])) s3 = listed_system"
    by (simp_all add: s3_def s2_def s1_def execute_front_def reply_def storage_topic_metadata_def empty_worker_def started_system_def
        deliver_def set_phase_def set_task_def push_command_def take_answer_def listed_system_def)
  then have "?q s3 listed_system" using queue_step.answer [of 0 s3 "Ok (RepTopics [])" byte_sum sample_settings 1] by simp
  ultimately show ?thesis by (meson converse_rtranclp_into_rtranclp rtranclp.rtrancl_refl)
qed

theorem storage_calls_linearizable_witness:
  "sequential byte_sum sample_settings (sy_executed listed_system) empty_worker empty_worker \<and>
   call_outcome listed_system listed_system 0 CmdListTopics (Ok (RepTopics []))"
  using storage_calls_linearizable [OF listed_system_reachable rtranclp.rtrancl_refl]
  by (simp add: listed_system_def)

section \<open>Stopping\<close>

definition commands_cost :: "(nat option \<times> storage_command) list \<Rightarrow> nat" where
  "commands_cost qs = sum_list (map (\<lambda>q. command_cost (snd q)) qs)"

lemma commands_cost_simps [simp]:
  "commands_cost [] = 0" "commands_cost (q # qs) = command_cost (snd q) + commands_cost qs"
  "commands_cost (qs @ qs') = commands_cost qs + commands_cost qs'"
  by (simp_all add: commands_cost_def)

lemma snd_pair_of: "snd (pair_of e) = ex_command e"
  by (simp add: pair_of_def)

lemma sequential_room:
  assumes "worker_ok hash w" and "settings_ok settings" and "worker_room (commands_cost (map pair_of es) + n) w"
    and "sequential hash settings es w w'"
  shows "list_all (\<lambda>e. ex_result e \<noteq> Panic) es \<and> worker_ok hash w' \<and> worker_room n w'"
  using assms
proof (induction es arbitrary: w)
  case (Cons e es)
  let ?r = "rerun hash settings e w"
  have "worker_room (command_cost (ex_command e) + (commands_cost (map pair_of es) + n)) w"
    using Cons.prems(3) by (simp add: snd_pair_of add.assoc)
  from run_command_room [OF Cons.prems(1,2) this, of "ex_clock e" "ex_elapsed e" "fst ?r" "snd ?r"]
  have "fst ?r \<noteq> Panic" "worker_ok hash (snd ?r)" "worker_room (commands_cost (map pair_of es) + n) (snd ?r)"
    by (simp_all add: rerun_def)
  with Cons show ?case by simp
qed simp

text \<open>With room for everything that was accepted, the worker has not panicked and will not.\<close>

lemma system_room:
  assumes "system_ok hash settings capacity w s" and "worker_ok hash w" and "settings_ok settings"
    and "worker_room (commands_cost (sy_accepted s)) w"
  shows "\<not> panicked s" "worker_ok hash (sy_worker s)" "worker_room (commands_cost (sy_queue s)) (sy_worker s)"
    "sy_accepted s = map pair_of (sy_executed s) @ sy_queue s"
proof -
  obtain lost where l: "sy_accepted s = map pair_of (sy_executed s) @ sy_queue s @ lost" "lost \<noteq> [] \<longrightarrow> panicked s"
    using assms(1) by (auto simp: system_ok_def fifo_ok_def)
  have room: "worker_room (commands_cost (map pair_of (sy_executed s)) + commands_cost (sy_queue s)) w"
    by (rule worker_room_mono [OF assms(4)]) (simp add: l(1))
  have "sequential hash settings (sy_executed s) w (sy_worker s)" using assms(1) by (simp add: system_ok_def)
  from sequential_room [OF assms(2,3) room this]
  show p: "\<not> panicked s" and "worker_ok hash (sy_worker s)" "worker_room (commands_cost (sy_queue s)) (sy_worker s)"
    by (auto simp: panicked_def list_all_iff list_ex_iff)
  from p l show "sy_accepted s = map pair_of (sy_executed s) @ sy_queue s" by auto
qed

lemma deliver_finished:
  assumes "list_all (\<lambda>t. finished (tk_phase t)) (sy_tasks s)" and "\<And>i. who = Some i \<Longrightarrow> i < length (sy_tasks s)"
  shows "deliver who res s = s"
proof (cases who)
  case (Some i)
  then have "finished (phase_of s i)" using assms by (simp add: list_all_length)
  then have "phase_of s i \<noteq> AwaitingReply" by auto
  with Some show ?thesis by (simp add: deliver_def)
qed (simp add: deliver_def)

text \<open>Nobody but the worker moves: it can execute the whole queue.\<close>

definition all_finished :: "storage_system \<Rightarrow> bool" where
  "all_finished s \<longleftrightarrow> sy_mode s = Closed \<and> sy_detached s = 0 \<and> list_all (\<lambda>t. finished (tk_phase t)) (sy_tasks s)"

lemma worker_empties:
  assumes "system_ok hash settings capacity w s" and "worker_ok hash w" and "settings_ok settings"
    and "worker_room (commands_cost (sy_accepted s)) w" and "sy_running s" and "all_finished s"
  shows "\<exists>s'. (queue_step hash settings capacity)\<^sup>*\<^sup>* s s' \<and> sy_queue s' = [] \<and> sy_running s' \<and> all_finished s' \<and>
    sy_accepted s' = sy_accepted s \<and> sy_ticking s' = sy_ticking s"
  using assms(1,4-6)
proof (induction "sy_queue s" arbitrary: s)
  case Nil
  then show ?case by (intro exI [of _ s]) simp
next
  case (Cons front rest)
  obtain res v where r: "run_command hash settings None (\<lambda>_ _. None) (snd front) (sy_worker s) = (res, v)" by fastforce
  note room = system_room [OF Cons.prems(1) assms(2,3) Cons.prems(2)]
  from room(3) Cons.hyps(2) have "worker_room (command_cost (snd front) + commands_cost rest) (sy_worker s)" by (metis commands_cost_simps(2))
  with run_command_room [OF room(2) assms(3) _ r] have res: "res \<noteq> Panic" by blast
  define s1 where "s1 = after_command v (executed_of None (\<lambda>_ _. None) front res) s"
  have "deliver (fst front) res s1 = s1"
    using front_task(1) [of s front rest] Cons.prems(1,4) Cons.hyps(2)
    by (intro deliver_finished) (simp_all add: s1_def queue_simps system_ok_def all_finished_def)
  then have "execute_front hash settings None (\<lambda>_ _. None) front s = s1"
    by (cases rule: execute_front_cases [of hash settings None "\<lambda>_ _. None" front s]) (use r res in \<open>simp_all add: s1_def\<close>)
  moreover have "queue_step hash settings capacity s (execute_front hash settings None (\<lambda>_ _. None) front s)"
    using Cons.prems(3) Cons.hyps(2) by (intro queue_step.execute [where rest = rest]) simp_all
  ultimately have st: "queue_step hash settings capacity s s1" by simp
  have "\<exists>s'. (queue_step hash settings capacity)\<^sup>*\<^sup>* s1 s' \<and> sy_queue s' = [] \<and> sy_running s' \<and> all_finished s' \<and>
      sy_accepted s' = sy_accepted s1 \<and> sy_ticking s' = sy_ticking s1"
  proof (rule Cons.hyps(1))
    show "system_ok hash settings capacity w s1" using system_ok_steps Cons.prems(1) st by blast
  qed (use Cons.prems Cons.hyps(2) in \<open>simp_all add: s1_def queue_simps all_finished_def flip: Cons.hyps(2)\<close>)
  then show ?case using st by (auto simp: s1_def queue_simps intro: converse_rtranclp_into_rtranclp)
qed

text \<open>What the timer still has to send.\<close>

definition pending_tick :: "storage_system \<Rightarrow> (nat option \<times> storage_command) list" where
  "pending_tick s = (if sy_ticking s then [(None, CmdApplyRetention)] else [])"

lemma worker_drains:
  assumes "system_ok hash settings capacity w s" and "worker_ok hash w" and "settings_ok settings" and "0 < capacity"
    and "worker_room (commands_cost (sy_accepted s)) w" and "sy_running s" and "all_finished s"
  shows "\<exists>s'. (queue_step hash settings capacity)\<^sup>*\<^sup>* s s' \<and> sy_queue s' = [] \<and> sy_running s' \<and> all_finished s' \<and>
    sy_accepted s' = sy_accepted s @ pending_tick s \<and> \<not> sy_ticking s'"
proof -
  obtain s1 where s1: "(queue_step hash settings capacity)\<^sup>*\<^sup>* s s1" "sy_queue s1 = []" "sy_running s1" "all_finished s1"
      "sy_accepted s1 = sy_accepted s" "sy_ticking s1 = sy_ticking s"
    using worker_empties [OF assms(1-3,5-7)] by blast
  show ?thesis
  proof (cases "sy_ticking s")
    case True
    define s2 where "s2 = push_command None CmdApplyRetention (s1\<lparr>sy_ticking := False\<rparr>)"
    have st: "queue_step hash settings capacity s1 s2"
      unfolding s2_def by (rule queue_step.retention_send) (use True s1 assms(4) in \<open>simp_all add: queue_depth_def\<close>)
    have reach: "(queue_step hash settings capacity)\<^sup>*\<^sup>* s s2" using s1(1) st by simp
    have "all_finished s2" "sy_running s2" "\<not> sy_ticking s2" "sy_accepted s2 = sy_accepted s @ [(None, CmdApplyRetention)]"
      using s1 by (simp_all add: s2_def queue_simps all_finished_def)
    note s2 = this
    then have "worker_room (commands_cost (sy_accepted s2)) w" using assms(5) by simp
    from worker_empties [OF system_ok_steps [OF reach assms(1)] assms(2,3) this s2(2,1)] obtain s3 where
      s3: "(queue_step hash settings capacity)\<^sup>*\<^sup>* s2 s3" "sy_queue s3 = []" "sy_running s3" "all_finished s3"
      "sy_accepted s3 = sy_accepted s2" "sy_ticking s3 = sy_ticking s2"
      by blast
    then show ?thesis using rtranclp_trans [OF reach s3(1)] s2 True by (intro exI [of _ s3]) (simp add: pending_tick_def)
  next
    case False
    with s1 show ?thesis by (auto simp: pending_tick_def)
  qed
qed

lemma worker_stops:
  assumes "sy_running s" and "all_finished s" and "\<not> sy_ticking s" and "sy_queue s = []"
  shows "queue_step hash settings capacity s (s\<lparr>sy_running := False\<rparr>)"
  by (rule queue_step.worker_ends)
    (use assms in \<open>auto simp: has_senders_def all_finished_def list_ex_iff list_all_iff\<close>)

text \<open>C23: Shutting down loses nothing that was accepted: after the broker has dropped its handle and every task has ended, the
  storage worker can always go on to the end of the queue, with the retention command the timer may still be sending, and stop; and
  whenever it has stopped, with room for what was accepted, the commands it executed are exactly the accepted ones, in the order in which they
  were accepted.\<close>

theorem shutdown_drains_queue:
  assumes "(queue_step hash settings capacity)\<^sup>*\<^sup>* (started_system w) s" and "worker_ok hash w" and "settings_ok settings"
    and "worker_room (commands_cost (sy_accepted s)) w" and "0 < capacity"
  shows "(\<not> sy_running s \<longrightarrow> map pair_of (sy_executed s) = sy_accepted s) \<and>
    (sy_running s \<and> all_finished s \<longrightarrow>
      (\<exists>s'. (queue_step hash settings capacity)\<^sup>*\<^sup>* s s' \<and> \<not> sy_running s' \<and>
        map pair_of (sy_executed s') = sy_accepted s @ pending_tick s))"
proof -
  have ok: "system_ok hash settings capacity w s" using system_ok_steps assms(1) started_system_ok by blast
  have stopped: "map pair_of (sy_executed s') = sy_accepted s'"
    if "system_ok hash settings capacity w s'" "\<not> sy_running s'" "worker_room (commands_cost (sy_accepted s')) w" for s'
  proof -
    have "sy_queue s' = []" using that(1,2) by (simp add: system_ok_def fifo_ok_def)
    with system_room(4) [OF that(1) assms(2,3) that(3)] show ?thesis by simp
  qed
  have "\<exists>s'. (queue_step hash settings capacity)\<^sup>*\<^sup>* s s' \<and> \<not> sy_running s' \<and>
      map pair_of (sy_executed s') = sy_accepted s @ pending_tick s"
    if closed: "sy_running s" "all_finished s"
  proof -
    obtain s1 where s1: "(queue_step hash settings capacity)\<^sup>*\<^sup>* s s1" "sy_queue s1 = []" "sy_running s1" "all_finished s1"
        "sy_accepted s1 = sy_accepted s @ pending_tick s" "\<not> sy_ticking s1"
      using worker_drains [OF ok assms(2,3,5,4) closed] by blast
    define s' where "s' = s1\<lparr>sy_running := False\<rparr>"
    have reach: "(queue_step hash settings capacity)\<^sup>*\<^sup>* s s'"
      using s1(1) worker_stops [OF s1(3,4,6,2)] unfolding s'_def by (rule rtranclp.rtrancl_into_rtrancl)
    have "commands_cost (pending_tick s) = 0" by (simp add: pending_tick_def)
    with stopped [OF system_ok_steps [OF reach ok]] s1(5) assms(4) have
      "map pair_of (sy_executed s') = sy_accepted s @ pending_tick s" by (simp add: s'_def)
    with reach show ?thesis by (auto simp: s'_def)
  qed
  with stopped [OF ok] assms(4) show ?thesis by blast
qed

text \<open>A call that was aborted while its command was in the queue.\<close>

definition abandoned_system :: storage_system where
  "abandoned_system = \<lparr>sy_worker = empty_worker, sy_running = True, sy_queue = [(Some 0, CmdAppend sample_input)], sy_mode = Closed, sy_ticking = False, sy_detached = 0,
     sy_tasks = [\<lparr>tk_call = Call (CmdAppend sample_input), tk_phase = Dropped, tk_notified = False\<rparr>],
     sy_accepted = [(Some 0, CmdAppend sample_input)], sy_executed = []\<rparr>"

lemma abandoned_system_reachable:
  "(queue_step byte_sum sample_settings 1)\<^sup>*\<^sup>* (started_system empty_worker) abandoned_system"
proof -
  let ?q = "queue_step byte_sum sample_settings 1"
  let ?s0 = "started_system empty_worker" and ?c = "CmdAppend sample_input"
  define s1 where "s1 = ?s0\<lparr>sy_tasks := [\<lparr>tk_call = Call ?c, tk_phase = Enqueueing, tk_notified = False\<rparr>]\<rparr>"
  define s2 where "s2 = push_command (Some 0) ?c (set_phase 0 AwaitingReply s1)"
  define s3 where "s3 = s2\<lparr>sy_mode := Stopping\<rparr>"
  define s4 where "s4 = set_phase 0 Dropped s3"
  have "?q ?s0 s1"
    using queue_step.begin_call [of ?s0 byte_sum sample_settings 1 "Call ?c"] by (simp add: s1_def started_system_def)
  moreover have "?q s1 s2"
    using queue_step.enqueue [of 0 s1 1 byte_sum sample_settings] by (simp add: s1_def s2_def started_system_def queue_depth_def)
  moreover have "?q s2 s3"
    unfolding s3_def by (rule queue_step.stop) (simp add: s2_def s1_def queue_simps started_system_def)
  moreover have "?q s3 s4"
    unfolding s4_def by (rule queue_step.abort) (simp_all add: s3_def s2_def s1_def queue_simps started_system_def)
  moreover have "s4\<lparr>sy_mode := Closed\<rparr> = abandoned_system"
    by (simp add: s4_def s3_def s2_def s1_def abandoned_system_def set_phase_def set_task_def push_command_def started_system_def)
  then have "?q s4 abandoned_system"
    using queue_step.drop_handle [of s4 byte_sum sample_settings 1] by (simp add: s4_def s3_def queue_simps)
  ultimately show ?thesis by (meson converse_rtranclp_into_rtranclp rtranclp.rtrancl_refl)
qed

theorem shutdown_drains_queue_witness:
  "\<exists>s'. (queue_step byte_sum sample_settings 1)\<^sup>*\<^sup>* abandoned_system s' \<and> \<not> sy_running s' \<and>
     map pair_of (sy_executed s') = [(Some 0, CmdAppend sample_input)]"
  using shutdown_drains_queue [OF abandoned_system_reachable empty_worker_ok(1,2)] log_capacity_pos
  by (simp add: abandoned_system_def all_finished_def pending_tick_def)

end
