(* ===== verification/Long_Poll.thy ===== *)
theory Long_Poll
  imports Storage_Queue
begin

text \<open>
  The waiting of \<open>StorageHandle::read\<close> (\<open>crates/broker/src/lib.rs\<close>): a poll registers for notifications before it reads, so
  that no append can fall between its read and its waiting.  Shown on the step relation of the storage
  queue: while a poll waits without a notification there is nothing for it to read, or a task is just about to notify it.
\<close>

section \<open>Logs with nothing to read\<close>

definition drained :: "(bytes \<Rightarrow> u32) \<Rightarrow> partition_log \<Rightarrow> u64 \<Rightarrow> bool" where
  "drained hash l offset \<longleftrightarrow> (\<exists>hist low. log_view hash hist low l \<and> (lg_next_offset l \<le> offset \<or> low = length hist))"

lemma read_log_drop:
  assumes "log_view hash hist low l" and "max_bytes \<noteq> 0"
  shows "read_log hash l offset max_bytes = Ok (take_budget max_bytes 0 (drop (unat offset - low) (drop low hist)))"
proof -
  have rep: "log_rep hash hist low l" using assms(1) by (simp add: log_view_def)
  note rd = log_repD [OF rep]
  have "entries_ok hash (length (take low hist)) (drop low hist)"
    using rd(1) entries_ok_append [of hash 0 "take low hist" "drop low hist"] by simp
  then have "filter (\<lambda>(r, c). offset \<le> sr_offset r) (drop low hist) = drop (unat offset - low) (drop low hist)"
    using rd(5) by (simp add: filter_from_offset)
  with read_log_spec [OF rep assms(2)] show ?thesis by (simp add: read_spec_def)
qed

lemma drained_read:
  assumes "drained hash l offset" and "max_bytes \<noteq> 0"
  shows "read_log hash l offset max_bytes = Ok []"
proof -
  obtain hist low where v: "log_view hash hist low l" "lg_next_offset l \<le> offset \<or> low = length hist"
    using assms(1) by (auto simp: drained_def)
  have "unat (lg_next_offset l) = length hist" using log_repD(4) v(1) by (auto simp: log_view_def)
  then have "drop (unat offset - low) (drop low hist) = []" using v(2) by (auto simp: word_le_nat_alt)
  with read_log_drop [OF v(1) assms(2)] show ?thesis by simp
qed

lemma read_drained:
  assumes "log_fine hash l" and "read_log hash l offset max_bytes = Ok []"
  shows "drained hash l offset"
proof -
  obtain hist low where v: "log_view hash hist low l" using assms(1) by (auto simp: log_fine_def)
  have rep: "log_rep hash hist low l" using v by (simp add: log_view_def)
  have m: "max_bytes \<noteq> 0" using assms(2) by (simp add: read_log_def split: if_splits)
  have "take_budget max_bytes 0 es = [] \<longleftrightarrow> es = []" for es by (cases es) auto
  then have "length hist \<le> low + (unat offset - low)" using assms(2) read_log_drop [OF v m] by simp
  with log_repD(4,5) [OF rep] have "lg_next_offset l \<le> offset \<or> low = length hist" by (auto simp: word_le_nat_alt)
  with v show ?thesis by (auto simp: drained_def)
qed

lemma drained_retention:
  assumes "drained hash l offset" and "log_room n l" and "apply_retention elapsed mb ma l = (res, l')"
  shows "drained hash l' offset"
proof -
  obtain hist low where v: "log_view hash hist low l" "lg_next_offset l \<le> offset \<or> low = length hist"
    using assms(1) by (auto simp: drained_def)
  from apply_retention_rep [OF log_viewD(1) [OF v(1) assms(2)] log_room_bytes [OF v(1) assms(2)], of elapsed mb ma]
  obtain k low' where r: "res = Ok k" "low \<le> low'" "log_rep hash hist low' l'" using assms(3) by auto
  have "lg_next_offset l' = lg_next_offset l"
    using log_repD(4) [OF r(3)] log_viewD(2) [OF v(1) assms(2)] by (simp add: word_unat_eq_iff)
  moreover have "low' \<le> length hist" using log_repD(5) [OF r(3)] .
  ultimately show ?thesis using v r by (auto simp: drained_def log_view_def intro!: exI [of _ hist] exI [of _ low'])
qed

lemma drained_truncate:
  assumes "drained hash l offset" and "log_room n l" and "truncate_to hash until l = (res, l')"
  shows "drained hash l' offset"
proof -
  obtain hist low where v: "log_view hash hist low l" "lg_next_offset l \<le> offset \<or> low = length hist"
    using assms(1) by (auto simp: drained_def)
  note vd = log_viewD [OF v(1) assms(2)]
  show ?thesis
  proof (cases "unat until < length hist")
    case False
    then have "\<not> until < lg_next_offset l" using vd(2) by (simp add: word_less_nat_alt)
    then have "l' = l" using assms(3) by (auto simp: truncate_to_def split: if_splits)
    with assms(1) show ?thesis by simp
  next
    case True
    define rs where "rs = map fst (take (unat until - low) (drop low hist))"
    obtain l1 where l1: "truncate_to hash until l = append_all hash rs l1" "log_rep hash [] 0 l1"
      using truncate_to_restart [OF vd(1) True rs_def] by blast
    have v1: "log_view hash [] 0 l1" using l1(2) by (simp add: log_view_def)
    show ?thesis
    proof (cases "low = length hist")
      case low: True
      then have "l' = l1" using l1(1) assms(3) by (simp add: rs_def)
      with v1 show ?thesis by (auto simp: drained_def intro!: exI [of _ "[]"] exI [of _ 0])
    next
      case low: False
      have fine: "log_fine hash l" using v(1) by (auto simp: log_fine_def)
      have "log_room (log_capacity - length hist) l" using vd(2,3) by (simp add: log_room_def)
      note t = truncate_to_fine [OF fine this assms(3)]
      have "length hist \<le> log_capacity" using vd(3) by simp
      with t(3) have "lg_next_offset l' \<le> lg_next_offset l" using vd(2) by (simp add: log_room_def word_le_nat_alt)
      with low v(2) have "lg_next_offset l' \<le> offset" by (meson order_trans)
      with t(2) show ?thesis by (auto simp: drained_def log_fine_def)
    qed
  qed
qed

section \<open>Commands that append nothing\<close>

definition idle :: "(bytes \<Rightarrow> u32) \<Rightarrow> storage_worker \<Rightarrow> partition_key \<Rightarrow> u64 \<Rightarrow> bool" where
  "idle hash w k offset \<longleftrightarrow> (\<exists>log. map_of (sw_logs w) k = Some log \<and> drained hash log offset)"

text \<open>Opening new logs leaves the open ones alone.\<close>

definition keeps_logs :: "storage_worker \<Rightarrow> 'a worker_result \<Rightarrow> bool" where
  "keeps_logs w r \<longleftrightarrow> map_of (sw_logs w) \<subseteq>\<^sub>m map_of (sw_logs (snd r))"

lemma keeps_here [simp]: "keeps_logs w (res, w)"
  by (simp add: keeps_logs_def)

lemma keeps_bind:
  assumes "keeps_logs w r" and "\<And>x w'. r = (Ok x, w') \<Longrightarrow> keeps_logs w' (f x w')"
  shows "keeps_logs w (step_bind r f)"
proof -
  obtain res w' where r: "r = (res, w')" by fastforce
  with assms show ?thesis by (cases res) (auto simp: keeps_logs_def intro: map_le_trans)
qed

lemma keeps_open: "keeps_logs w (open_partition hash settings topic part w)"
  by (simp add: keeps_logs_def open_partition_def Let_def split: prod.splits)

lemma keeps_put: "map_of (sw_logs w) k = None \<Longrightarrow> keeps_logs w (res, put_log k log w)"
  by (auto simp: keeps_logs_def map_le_def dom_def)

lemma open_partition_logs: "open_partition hash settings topic part w = (res, w') \<Longrightarrow> sw_logs w' = sw_logs w"
  by (auto simp: open_partition_def Let_def split: prod.splits if_splits)

lemma keeps_create_partitions: "keeps_logs w (create_partitions hash settings topic parts w)"
proof (induction parts arbitrary: w)
  case (Cons part parts)
  show ?case
  proof (cases "map_of (sw_logs w) (topic, part)")
    case None
    have "keeps_logs w' (create_partitions hash settings topic parts (put_log (topic, part) log w'))"
      if "open_partition hash settings topic part w = (Ok log, w')" for log w'
    proof -
      have "keeps_logs w' (Ok (), put_log (topic, part) log w')"
        using None open_partition_logs [OF that] by (intro keeps_put) simp
      with Cons [of "put_log (topic, part) log w'"] show ?thesis by (auto simp: keeps_logs_def intro: map_le_trans)
    qed
    with None show ?thesis by (simp add: keeps_bind [OF keeps_open])
  qed (use Cons in simp)
qed simp

lemma keeps_create_topic: "keeps_logs w (create_topic hash settings topic partitions w)"
  by (auto simp: create_topic_def Let_def intro!: keeps_bind [OF keeps_create_partitions])
    (simp_all add: keeps_logs_def persist_topic_metadata_def)

lemma keeps_ensure_topic: "keeps_logs w (worker_ensure_topic hash settings topic w)"
  by (auto simp: worker_ensure_topic_def intro!: keeps_bind [OF keeps_create_topic] split: option.splits)

lemma keeps_read_records: "keeps_logs w (read_records hash settings topic part offset max_bytes w)"
  unfolding read_records_def
proof (rule keeps_bind [OF keeps_ensure_topic], rule keeps_bind)
  fix count w1
  show "keeps_logs w1 (if map_of (sw_logs w1) (topic, part) = None then
        (if count \<le> part then (Err (UnknownPartition part), w1)
         else step_bind (open_partition hash settings topic part w1) (\<lambda>log w.
           (Ok (), put_log (topic, part) log w)))
      else (Ok (), w1))"
    by (auto intro!: keeps_bind [OF keeps_open] keeps_put dest: open_partition_logs)
qed (auto intro!: keeps_bind)

lemma keeps_idle: "keeps_logs w (res, w') \<Longrightarrow> idle hash w k offset \<Longrightarrow> idle hash w' k offset"
  unfolding keeps_logs_def idle_def map_le_def snd_conv by (metis domI)

text \<open>Replacing a log by one that has nothing to read either.\<close>

lemma put_log_idle:
  assumes "idle hash w k offset" and "map_of (sw_logs w) k' = Some log" and "drained hash log offset \<Longrightarrow> drained hash log' offset"
  shows "idle hash (put_log k' log' w) k offset"
  using assms by (auto simp: idle_def)

lemma choose_partition_logs: "choose_partition hash count input w = (res, w') \<Longrightarrow> sw_logs w' = sw_logs w"
  by (auto simp: choose_partition_def select_partition_def Let_def split: option.splits if_splits)

lemma append_log_refused:
  assumes "log_fine hash l" and "log_room (Suc n) l" and "append_log hash r l = (Err e, l')"
  shows "l' = l"
proof -
  obtain hist low where v: "log_view hash hist low l" using assms(1) by (auto simp: log_fine_def)
  from log_viewD(1,4) [OF v assms(2)] show ?thesis
    by (cases rule: append_log_cases [of hash hist low l r]) (use assms(3) in auto)
qed

lemma append_to_partition_refused:
  assumes "worker_ok hash w" and "worker_room (Suc n) w" and "append_to_partition hash clock input part w = (Err e, w')"
    and "idle hash w k offset"
  shows "idle hash w' k offset"
proof (cases "map_of (sw_logs w) (ai_topic input, part)")
  case (Some log)
  show ?thesis
  proof (cases "timestamp clock")
    case (Ok ts)
    obtain res log' where a: "append_log hash (input_record input ts) log = (res, log')" by fastforce
    then have e: "res = Err e" "w' = put_log (ai_topic input, part) log' w"
      using assms(3) Some Ok by (cases res; simp add: append_to_partition_def Let_def)+
    from worker_log [OF assms(1,2) Some] append_log_refused a e(1) have "log' = log" by blast
    with put_log_idle [OF assms(4) Some] e(2) show ?thesis by simp
  qed (use assms(3,4) Some in \<open>auto simp: append_to_partition_def Let_def\<close>)
qed (use assms(3,4) in \<open>auto simp: append_to_partition_def Let_def\<close>)

lemma append_record_refused:
  assumes "worker_ok hash w" and "worker_room (Suc n) w" and "settings_ok settings"
    and "append_record hash settings clock input w = (Err e, w')" and "idle hash w k offset"
  shows "idle hash w' k offset"
proof -
  obtain res1 w1 where e1: "worker_ensure_topic hash settings (ai_topic input) w = (res1, w1)" by fastforce
  have i1: "idle hash w1 k offset" using keeps_idle [OF _ assms(5)] keeps_ensure_topic e1 by metis
  have g1: "grows hash (Suc n) w (res1, w1)" using ensure_topic_grows(1) [OF assms(1-3), of "ai_topic input"] e1 by simp
  show ?thesis
  proof (cases res1)
    case (Ok count)
    obtain res2 w2 where e2: "choose_partition hash count input w1 = (res2, w2)" by fastforce
    have w1: "worker_ok hash w1" "worker_room (Suc n) w1" using g1 by (simp_all add: grows_def)
    have "map_of (sw_topics w1) (ai_topic input) = Some count" using ensure_topic_grows(2) [OF assms(1-3)] e1 Ok by blast
    from choose_partition_ok(1) [OF w1 this] e2
    have w2: "worker_ok hash w2" "worker_room (Suc n) w2" by (simp_all add: grows_def)
    have i2: "idle hash w2 k offset" using i1 choose_partition_logs [OF e2] by (simp add: idle_def)
    show ?thesis
    proof (cases res2)
      case Ok2: (Ok part)
      with assms(4) e1 e2 Ok have "append_to_partition hash clock input part w2 = (Err e, w')" by (simp add: append_record_def)
      from append_to_partition_refused [OF w2 this i2] show ?thesis .
    qed (use assms(4) e1 e2 Ok i2 in \<open>auto simp: append_record_def\<close>)
  qed (use assms(4) e1 i1 in \<open>auto simp: append_record_def\<close>)
qed

lemma step_bind_same:
  "step_bind (r, s) f = (res, s') \<Longrightarrow> (\<And>x res'. f x s = (res', s') \<Longrightarrow> s' = s) \<Longrightarrow> s' = s"
  by (cases r) auto

lemma replica_refused:
  assumes "worker_ok hash w" and "worker_room (Suc n) w" and "worker_append_replica hash r w = (Err e, w')"
    and "idle hash w k offset"
  shows "idle hash w' k offset"
proof (cases "map_of (sw_logs w) (rr_topic r, rr_partition r)")
  case (Some log)
  obtain res log' where a: "append_replica hash (rr_offset r) (replica_input r) log = (res, log')" by fastforce
  note lf = worker_log [OF assms(1,2) Some]
  have "log' = log" if "res = Err e'" for e'
  proof (cases "rr_offset r = lg_next_offset log")
    case True
    with a that have "append_log hash (replica_input r) log = (Err e', log')" by (simp add: append_replica_def)
    with lf append_log_refused show ?thesis by blast
  qed (use a in \<open>auto simp: append_replica_def split: if_splits elim!: step_bind_same\<close>)
  with put_log_idle [OF assms(4) Some, of log'] assms(3,4) Some a show ?thesis
    by (cases "map_of (sw_topics w) (rr_topic r)"; cases res)
       (auto simp: worker_append_replica_def Let_def split: if_splits)
qed (use assms(3,4) in \<open>cases "map_of (sw_topics w) (rr_topic r)"; auto simp: worker_append_replica_def Let_def split: if_splits\<close>)

lemma truncate_idle:
  assumes "worker_ok hash w" and "worker_room n w" and "truncate_partition hash topic part until w = (res, w')"
    and "idle hash w k offset"
  shows "idle hash w' k offset"
proof (cases "map_of (sw_logs w) (topic, part)")
  case (Some log)
  obtain r log' where t: "truncate_to hash until log = (r, log')" by fastforce
  from worker_log [OF assms(1,2) Some] have "log_room n log" by simp
  with put_log_idle [OF assms(4) Some] drained_truncate t have "idle hash (put_log (topic, part) log' w) k offset" by blast
  with assms(3) Some t show ?thesis by (simp add: truncate_partition_def)
qed (use assms(3,4) in \<open>simp add: truncate_partition_def\<close>)

lemma retain_idle:
  assumes "worker_ok hash w" and "worker_room n w" and "idle hash w k offset"
  shows "idle hash (snd (retain_logs elapsed settings keys w)) k offset"
  using assms
proof (induction keys arbitrary: w)
  case (Cons key keys)
  obtain topic p where k: "key = (topic, p)" by fastforce
  show ?case
  proof (cases "map_of (sw_logs w) key")
    case (Some log)
    obtain r log' where t: "apply_retention (elapsed key) (st_retention_bytes settings)
        (st_retention_age settings) log = (r, log')" by fastforce
    from worker_log [OF Cons.prems(1,2) Some [unfolded k]] have l: "log_fine hash log" "log_room n log" by auto
    note f = apply_retention_fine [OF l t]
    have "worker_ok hash (put_log key log' w)" "worker_room n (put_log key log' w)"
      using Cons.prems Some f unfolding k by (auto intro!: put_log_ok put_log_room)
    moreover have "idle hash (put_log key log' w) k offset"
      using put_log_idle [OF Cons.prems(3) Some] drained_retention [OF _ l(2) t] by blast
    ultimately have "idle hash (snd (retain_logs elapsed settings keys (put_log key log' w))) k offset" by (rule Cons.IH)
    with f(1) Some t show ?thesis
      by (cases "retain_logs elapsed settings keys (put_log key log' w)"; cases "fst (retain_logs elapsed settings keys (put_log key log' w))") auto
  qed (use Cons in simp)
qed simp

fun is_batch :: "storage_command \<Rightarrow> bool" where
  "is_batch (CmdAppendBatch _) = True"
| "is_batch _ = False"

text \<open>A command that does not end in a notification adds nothing to read; a batch that fails half-way is the exception.\<close>

lemma quiet_command:
  assumes ok: "worker_ok hash w" "settings_ok settings" "worker_room (command_cost command + n) w"
    and run: "run_command hash settings clock elapsed command w = (res, w')"
    and quiet: "\<not> (appends command \<and> (\<exists>r. res = Ok r))" "\<not> (is_batch command \<and> (\<exists>e. res = Err e))"
    and "idle hash w k offset"
  shows "idle hash w' k offset"
proof -
  have np: "res \<noteq> Panic" using run_command_room [OF ok run] by blast
  have room: "worker_room n w" using ok(3) by (rule worker_room_mono) simp
  show ?thesis
  proof (cases command)
    case (CmdAppend input)
    then obtain e where "append_record hash settings clock input w = (Err e, w')"
      using run quiet(1) np by (cases "append_record hash settings clock input w"; cases "fst (append_record hash settings clock input w)")
        (auto simp: reply_def)
    then show ?thesis using append_record_refused [OF ok(1) _ ok(2) _ assms(7)] ok(3) CmdAppend by simp
  next
    case (CmdReplicate r)
    then obtain e where "worker_append_replica hash r w = (Err e, w')"
      using run quiet(1) np by (cases "worker_append_replica hash r w"; cases "fst (worker_append_replica hash r w)") (auto simp: reply_def)
    then show ?thesis using replica_refused [OF ok(1) _ _ assms(7)] ok(3) CmdReplicate by simp
  next
    case (CmdAppendBatch input)
    with quiet np show ?thesis by (cases res) auto
  next
    case (CmdTruncate topic part until)
    then have "truncate_partition hash topic part until w = (fst (truncate_partition hash topic part until w), w')"
      using run by (auto simp: reply_def)
    from truncate_idle [OF ok(1) room this assms(7)] show ?thesis .
  next
    case CmdApplyRetention
    with retain_idle [OF ok(1) room assms(7), of elapsed settings "map fst (sw_logs w)"] run show ?thesis
      by (auto simp: reply_def worker_apply_retention_def)
  next
    case (CmdCreateTopic topic partitions)
    with run have "w' = snd (create_topic hash settings topic partitions w)" by (auto simp: reply_def)
    then show ?thesis using keeps_create_topic keeps_idle [OF _ assms(7)] by (metis prod.collapse)
  next
    case (CmdRead topic part start max_bytes)
    with run have "w' = snd (read_records hash settings topic part start max_bytes w)" by (auto simp: reply_def)
    then show ?thesis using keeps_read_records keeps_idle [OF _ assms(7)] by (metis prod.collapse)
  qed (use run assms(7) in \<open>auto simp: reply_def\<close>)
qed

text \<open>The read of a poll that finds nothing.\<close>

lemma empty_read_idle:
  assumes "worker_ok hash w" and "settings_ok settings" and "worker_room n w"
    and "run_command hash settings clock elapsed (CmdRead topic part offset max_bytes) w = (Ok (RepRecords []), w')"
  shows "idle hash w' (topic, part) offset"
proof -
  have r: "read_records hash settings topic part offset max_bytes w = (Ok [], w')"
    using assms(4) by (cases "read_records hash settings topic part offset max_bytes w";
        cases "fst (read_records hash settings topic part offset max_bytes w)") (auto simp: reply_def)
  then obtain log where log: "map_of (sw_logs w') (topic, part) = Some log" "read_log hash log offset (unat max_bytes) = Ok []"
    by (auto simp: read_records_def step_bind_eq_Ok ok_or_def map_ok_eq_Ok split: option.splits)
  have "worker_ok hash w'" using read_records_grows [OF assms(1,3,2), of topic part offset max_bytes] r by (simp add: grows_def)
  then have "log_fine hash log" using log(1) unfolding worker_ok_def by blast
  from read_drained [OF this log(2)] log(1) show ?thesis by (auto simp: idle_def)
qed

section \<open>Polls that wait\<close>

text \<open>A task that has the answer of a successful append in its hands: its next step notifies the polls.\<close>

definition about_to_notify :: "storage_task \<Rightarrow> bool" where
  "about_to_notify t \<longleftrightarrow> (\<exists>command r. tk_call t = Call command \<and> appends command \<and> tk_phase t = Answered (Ok r))"

fun awaits_records :: "call_phase \<Rightarrow> bool" where
  "awaits_records Parked = True"
| "awaits_records (Answered res) = (res = Ok (RepRecords []))"
| "awaits_records _ = False"

text \<open>A poll that found nothing and has not been notified since.\<close>

definition unaware :: "partition_key \<Rightarrow> u64 \<Rightarrow> storage_task \<Rightarrow> bool" where
  "unaware k offset t \<longleftrightarrow> (\<exists>max_bytes max_wait_ms. tk_call t = Poll (fst k) (snd k) offset max_bytes max_wait_ms) \<and>
     awaits_records (tk_phase t) \<and> \<not> tk_notified t"

text \<open>A call that was dropped and leaves nothing to notify of.\<close>

definition silent_drop :: "storage_task \<Rightarrow> bool" where
  "silent_drop t \<longleftrightarrow> (tk_phase t = Dropped \<longrightarrow> \<not> appends (call_command (tk_call t)))"

definition polls_ok :: "(bytes \<Rightarrow> u32) \<Rightarrow> storage_system \<Rightarrow> bool" where
  "polls_ok hash s \<longleftrightarrow>
     (\<forall>t \<in> set (sy_tasks s). silent_drop t) \<and> (\<forall>c. (None, c) \<in> set (sy_queue s) \<longrightarrow> c = CmdApplyRetention) \<and>
     (\<forall>t \<in> set (sy_tasks s). \<forall>k offset. unaware k offset t \<longrightarrow>
        idle hash (sy_worker s) k offset \<or> (\<exists>t' \<in> set (sy_tasks s). about_to_notify t'))"

lemma notifier_stays:
  assumes "t' \<in> set ts" and "about_to_notify t'" and "\<not> about_to_notify (ts ! i)"
  shows "\<exists>t' \<in> set (ts[i := t]). about_to_notify t'"
proof -
  obtain j where j: "j < length ts" "ts ! j = t'" using assms(1) by (auto simp: in_set_conv_nth)
  then have "j \<noteq> i" using assms(2,3) by auto
  then have "ts[i := t] ! j = t'" using j by simp
  moreover have "ts[i := t] ! j \<in> set (ts[i := t])" using j(1) by (intro nth_mem) simp
  ultimately show ?thesis using assms(2) by auto
qed

text \<open>Replacing a task that was not about to notify by one that is not unaware.\<close>

lemma polls_ok_task:
  assumes "polls_ok hash s" and "i < length (sy_tasks s)" and "\<not> about_to_notify (sy_tasks s ! i)"
    and "silent_drop t" and "\<And>k offset. unaware k offset t \<Longrightarrow> unaware k offset (sy_tasks s ! i)"
  shows "polls_ok hash (set_task i t s)"
proof -
  have sub: "set ((sy_tasks s)[i := t]) \<subseteq> insert t (set (sy_tasks s))" by (rule set_update_subset_insert)
  have keep: "\<exists>t' \<in> set ((sy_tasks s)[i := t]). about_to_notify t'" if "\<exists>t' \<in> set (sy_tasks s). about_to_notify t'"
    using that notifier_stays [OF _ _ assms(3)] by blast
  have "sy_tasks s ! i \<in> set (sy_tasks s)" using assms(2) by simp
  then have "idle hash (sy_worker s) k offset \<or> (\<exists>t' \<in> set (sy_tasks s). about_to_notify t')"
    if "u \<in> set ((sy_tasks s)[i := t])" "unaware k offset u" for u k offset
    using that sub assms(1,5) unfolding polls_ok_def by blast
  with keep assms(1,4) sub show ?thesis unfolding polls_ok_def set_task_select by blast
qed

lemma polls_ok_phase:
  assumes "polls_ok hash s" and "i < length (sy_tasks s)" and "\<not> about_to_notify (sy_tasks s ! i)"
    and "p = Dropped \<longrightarrow> \<not> appends (call_command (call_of s i))" and "\<not> awaits_records p"
  shows "polls_ok hash (set_phase i p s)"
  unfolding set_phase_def by (rule polls_ok_task [OF assms(1-3)]) (use assms(4,5) in \<open>auto simp: unaware_def silent_drop_def\<close>)

lemma polls_ok_notify:
  assumes "polls_ok hash s"
  shows "polls_ok hash (notify_waiters s)" and "t \<in> set (sy_tasks (notify_waiters s)) \<Longrightarrow> \<not> unaware k offset t"
proof -
  show "\<not> unaware k offset t" if t: "t \<in> set (sy_tasks (notify_waiters s))" for t k offset
  proof
    assume u: "unaware k offset t"
    obtain t0 where t0: "t = notify_task t0" using t by (auto simp: queue_simps)
    have "\<not> finished (tk_phase t0)" using u t0 by (cases "tk_phase t0") (auto simp: unaware_def queue_simps)
    with u t0 show False by (auto simp: unaware_def notify_task_def split: storage_call.splits)
  qed
  with assms show "polls_ok hash (notify_waiters s)" by (auto simp: polls_ok_def silent_drop_def queue_simps)
qed

lemma polls_ok_answer:
  assumes "polls_ok hash s" and i: "i < length (sy_tasks s)" and p: "phase_of s i = Answered res"
  shows "polls_ok hash (take_answer i res s)"
proof (cases "call_of s i")
  case (Call command)
  have "polls_ok hash (set_phase i (Returned (map_err ConnStorage res)) s)" if "\<not> (appends command \<and> (\<exists>r. res = Ok r))"
    by (rule polls_ok_phase [OF assms(1) i]) (use that Call p in \<open>auto simp: about_to_notify_def\<close>)
  moreover have "polls_ok hash (set_phase i (Returned (map_err ConnStorage res)) (notify_waiters s))"
  proof -
    let ?s = "set_phase i (Returned (map_err ConnStorage res)) (notify_waiters s)"
    have sub: "set (sy_tasks ?s) \<subseteq> insert ((sy_tasks (notify_waiters s) ! i)\<lparr>tk_phase := Returned (map_err ConnStorage res)\<rparr>)
        (set (sy_tasks (notify_waiters s)))"
      unfolding set_phase_select by (rule set_update_subset_insert)
    have "\<not> unaware k offset t" if "t \<in> set (sy_tasks ?s)" for t k offset
      using subsetD [OF sub that]
    proof
      assume "t = (sy_tasks (notify_waiters s) ! i)\<lparr>tk_phase := Returned (map_err ConnStorage res)\<rparr>"
      then show ?thesis by (simp add: unaware_def)
    qed (rule polls_ok_notify(2) [OF assms(1)])
    moreover have "silent_drop t" if "t \<in> set (sy_tasks ?s)" for t
      using subsetD [OF sub that] polls_ok_notify(1) [OF assms(1)] by (auto simp: polls_ok_def silent_drop_def)
    ultimately show ?thesis using assms(1) by (auto simp: polls_ok_def queue_simps)
  qed
  ultimately show ?thesis using Call by (auto simp: take_answer_def)
next
  case (Poll topic part offset max_bytes max_wait_ms)
  then have nn: "\<not> about_to_notify (sy_tasks s ! i)" by (simp add: about_to_notify_def)
  have "polls_ok hash (set_phase i (Returned (map_err ConnStorage res)) s)"
    by (rule polls_ok_phase [OF assms(1) i nn]) simp_all
  moreover have "polls_ok hash (set_phase i Parked s)" if "res = Ok (RepRecords [])"
    unfolding set_phase_def by (rule polls_ok_task [OF assms(1) i nn]) (use that p in \<open>auto simp: unaware_def silent_drop_def\<close>)
  ultimately show ?thesis using Poll by (simp add: take_answer_def)
qed

text \<open>A command of the worker: what it appended is announced by the task that gets its answer.\<close>

lemma polls_ok_execute:
  assumes "polls_ok hash s" and "tasks_ok s" and q: "sy_queue s = front # rest"
    and ok: "worker_ok hash (sy_worker s)" "settings_ok settings" "worker_room (command_cost (snd front) + n) (sy_worker s)"
    and run: "run_command hash settings clock elapsed (snd front) (sy_worker s) = (res, w)"
    and batch: "\<not> (is_batch (snd front) \<and> (\<exists>e. res = Err e))"
  shows "polls_ok hash (deliver (fst front) res (after_command w e s))"
proof -
  have room: "worker_room n (sy_worker s)" using ok(3) by (rule worker_room_mono) simp
  have quiet: "idle hash w k offset" if "idle hash (sy_worker s) k offset" "\<not> (appends (snd front) \<and> (\<exists>r. res = Ok r))" for k offset
    using quiet_command [OF ok run that(2) batch that(1)] .
  have unheard: "polls_ok hash (after_command w e s)" if "\<not> appends (snd front)"
    using quiet that assms(1) q by (fastforce simp: polls_ok_def queue_simps)
  show ?thesis
  proof (cases "\<exists>i. fst front = Some i \<and> phase_of s i \<noteq> Dropped")
    case False
    show ?thesis
    proof (cases "fst front")
      case None
      with assms(1) q have "snd front = CmdApplyRetention" by (cases front) (auto simp: polls_ok_def)
      with unheard None show ?thesis by (simp add: deliver_def)
    next
      case (Some i)
      note f = front_task [OF assms(2) q Some]
      have d: "phase_of s i = Dropped" using False Some by simp
      have "\<not> appends (snd front)" using assms(1) f(1,2) d by (auto simp: polls_ok_def silent_drop_def task_ok_def)
      with unheard Some d show ?thesis by (simp add: deliver_def queue_simps)
    qed
  next
    case True
    then obtain i where Some: "fst front = Some i" and nd: "phase_of s i \<noteq> Dropped" by blast
    note f = front_task [OF assms(2) q Some]
    from nd have aw: "phase_of s i = AwaitingReply" using f(4) by blast
    have cmd: "snd front = call_command (call_of s i)" using f(2) by (simp add: task_ok_def)
    define t where "t = (sy_tasks s ! i)\<lparr>tk_phase := Answered res\<rparr>"
    have s': "deliver (fst front) res (after_command w e s) = set_task i t (after_command w e s)"
      using Some aw by (simp add: deliver_def queue_simps set_phase_def t_def)
    have tasks: "set ((sy_tasks s)[i := t]) \<subseteq> insert t (set (sy_tasks s))" by (rule set_update_subset_insert)
    have mem: "t \<in> set ((sy_tasks s)[i := t])" using f(1) by (rule set_update_memI)
    have "\<not> about_to_notify (sy_tasks s ! i)" using aw by (simp add: about_to_notify_def)
    then have other: "\<exists>t' \<in> set ((sy_tasks s)[i := t]). about_to_notify t'" if "t' \<in> set (sy_tasks s)" "about_to_notify t'" for t'
      using notifier_stays [OF that] by blast
    have "idle hash w k offset \<or> (\<exists>t' \<in> set ((sy_tasks s)[i := t]). about_to_notify t')"
      if u: "u \<in> set ((sy_tasks s)[i := t])" "unaware k offset u" for u k offset
    proof (cases "appends (snd front) \<and> (\<exists>r. res = Ok r)")
      case True
      then have "about_to_notify t" using cmd by (cases "call_of s i") (auto simp: about_to_notify_def t_def)
      with mem show ?thesis by blast
    next
      case False
      from subsetD [OF tasks u(1)] show ?thesis
      proof
        assume "u = t"
        with u(2) obtain mb wait where "call_of s i = Poll (fst k) (snd k) offset mb wait" "res = Ok (RepRecords [])"
          by (auto simp: unaware_def t_def)
        with run cmd empty_read_idle [OF ok(1,2) room, of clock elapsed "fst k" "snd k" offset mb w]
        show ?thesis by simp
      next
        assume "u \<in> set (sy_tasks s)"
        with u(2) assms(1) consider "idle hash (sy_worker s) k offset" | t' where "t' \<in> set (sy_tasks s)" "about_to_notify t'"
          unfolding polls_ok_def by blast
        then show ?thesis
        proof cases
          case 1
          with quiet False show ?thesis by simp
        next
          case 2
          with other show ?thesis by simp
        qed
      qed
    qed
    moreover have "silent_drop u" if "u \<in> set ((sy_tasks s)[i := t])" for u
      using subsetD [OF tasks that] assms(1) by (auto simp: polls_ok_def t_def silent_drop_def)
    ultimately show ?thesis using assms(1) q by (auto simp: s' polls_ok_def queue_simps)
  qed
qed

definition no_failed_batch :: "storage_system \<Rightarrow> bool" where
  "no_failed_batch s \<longleftrightarrow> list_all (\<lambda>e. \<not> (is_batch (ex_command e) \<and> (\<exists>err. ex_result e = Err err))) (sy_executed s)"

lemma polls_ok_step:
  assumes "queue_step hash settings capacity s s'" and "system_ok hash settings capacity w s" and "polls_ok hash s"
    and "worker_ok hash w" and "settings_ok settings" and "worker_room (commands_cost (sy_accepted s)) w"
    and "no_failed_batch s'" and "sy_mode s' = Serving"
  shows "polls_ok hash s'"
  using assms
proof (induction rule: queue_step.induct)
  case (begin_call s call)
  then show ?case by (auto simp: polls_ok_def unaware_def silent_drop_def)
next
  case (enqueue i s)
  have "polls_ok hash (set_phase i AwaitingReply s)"
    by (rule polls_ok_phase [OF enqueue(6,1)]) (use enqueue(2) in \<open>auto simp: about_to_notify_def\<close>)
  then show ?case by (simp add: polls_ok_def queue_simps)
next
  case (execute s front rest clock elapsed)
  note room = system_room [OF execute(3,5-7)]
  from room(3) execute(2) have cost: "worker_room (command_cost (snd front) + commands_cost rest) (sy_worker s)" by simp
  show ?case
  proof (cases rule: execute_front_cases [of hash settings clock elapsed front s])
    case (ran res v)
    with execute(8) have "\<not> (is_batch (snd front) \<and> (\<exists>e. res = Err e))"
      by (auto simp: no_failed_batch_def queue_simps executed_of_def)
    with polls_ok_execute [OF execute(4) _ execute(2) room(2) execute(6) cost ran(1)] execute(3) show ?thesis
      unfolding ran(3) by (simp add: system_ok_def)
  next
    case (panicked v)
    with run_command_room [OF room(2) execute(6) cost panicked(1)] show ?thesis by simp
  qed
next
  case (answer i s res)
  then show ?case by (intro polls_ok_answer)
next
  case (wake i s)
  then show ?case by (intro polls_ok_task) (auto simp: about_to_notify_def unaware_def silent_drop_def)
next
  case (abort s i)
  then have "\<not> appends (call_command (call_of s i))" by (simp add: queue_simps)
  then show ?case
    by (intro polls_ok_phase) (use abort in \<open>auto simp: about_to_notify_def\<close>)
next
  case (retention_send s)
  then show ?case by (auto simp: polls_ok_def queue_simps)
next
  case (enqueue_timeout i s)
  then show ?case by (intro polls_ok_phase) (auto simp: about_to_notify_def)
next
  case (enqueue_closed i s)
  then show ?case by (intro polls_ok_phase) (auto simp: about_to_notify_def)
next
  case (no_answer i s)
  then show ?case by (intro polls_ok_phase) (auto simp: about_to_notify_def)
next
  case (deadline i s)
  then show ?case by (intro polls_ok_phase) (auto simp: about_to_notify_def)
qed (simp_all add: polls_ok_def queue_simps)

text \<open>The conditions of the property hold earlier when they hold later.\<close>

lemma step_accepted: "queue_step hash settings capacity s s' \<Longrightarrow> \<exists>more. sy_accepted s' = sy_accepted s @ more"
proof (induction rule: queue_step.induct)
  case (execute s front rest clock elapsed)
  show ?case
    by (cases rule: execute_front_cases [of hash settings clock elapsed front s]) (simp_all add: queue_simps)
qed (simp_all add: queue_simps)

lemma step_serving: "queue_step hash settings capacity s s' \<Longrightarrow> sy_mode s' = Serving \<Longrightarrow> sy_mode s = Serving"
proof (induction rule: queue_step.induct)
  case (execute s front rest clock elapsed)
  then show ?case
    by (cases rule: execute_front_cases [of hash settings clock elapsed front s]) (simp_all add: queue_simps)
qed (simp_all add: queue_simps)

lemma reachable_polls_ok:
  assumes "(queue_step hash settings capacity)\<^sup>*\<^sup>* (started_system w) s" and "worker_ok hash w" and "settings_ok settings"
    and "worker_room (commands_cost (sy_accepted s)) w" and "no_failed_batch s" and "sy_mode s = Serving"
  shows "polls_ok hash s"
  using assms(1,4-6)
proof (induction rule: rtranclp_induct)
  case base
  show ?case by (simp add: polls_ok_def started_system_def)
next
  case (step s s')
  have ok: "system_ok hash settings capacity w s" using step(1) system_ok_steps started_system_ok by blast
  obtain more where "sy_accepted s' = sy_accepted s @ more" using step_accepted [OF step(2)] by blast
  then have room: "worker_room (commands_cost (sy_accepted s)) w" using step(4) by (auto intro: worker_room_mono)
  have "no_failed_batch s" using continues_step [OF step(2)] step(5) by (auto simp: continues_def no_failed_batch_def)
  with room step(3) step_serving [OF step(2,6)] have "polls_ok hash s" by blast
  from polls_ok_step [OF step(2) ok this assms(2,3) room step(5,6)] show ?case .
qed

lemma notifier_wakes:
  assumes "j < length (sy_tasks s)" and "about_to_notify (sy_tasks s ! j)" and "i < length (sy_tasks s)"
    and "call_of s i = Poll topic part offset max_bytes max_wait_ms" and "phase_of s i = Parked"
  shows "\<exists>s'. queue_step hash settings capacity s s' \<and> tk_notified (sy_tasks s' ! i)"
proof -
  obtain command r where n: "call_of s j = Call command" "appends command" "phase_of s j = Answered (Ok r)"
    using assms(2) by (auto simp: about_to_notify_def)
  then have "j \<noteq> i" using assms(4) by auto
  then have "tk_notified (sy_tasks (take_answer j (Ok r) s) ! i)"
    using n assms(3-5) by (simp add: take_answer_def queue_simps notify_task_def)
  with queue_step.answer [OF assms(1) n(3)] show ?thesis by blast
qed

text \<open>C14: A long poll misses no record: while a poll waits and has not been notified, its partition has nothing to read from its
  offset on, or a task that has appended is about to notify it, and that step wakes it.  This covers every interleaving of
  appends, replication, truncation and retention with the registration, the read and the waiting of the poll, as long as the
  broker is not stopping, the logs have room for what was accepted and no batch has failed half-way (a
  failed batch does not notify).\<close>

theorem long_poll_misses_nothing:
  assumes "(queue_step hash settings capacity)\<^sup>*\<^sup>* (started_system w) s" and "worker_ok hash w" and "settings_ok settings"
    and "worker_room (commands_cost (sy_accepted s)) w" and "no_failed_batch s" and "sy_mode s = Serving"
    and "i < length (sy_tasks s)" and "call_of s i = Poll topic part offset max_bytes max_wait_ms"
    and "phase_of s i = Parked" and "\<not> tk_notified (sy_tasks s ! i)"
  shows "(\<exists>log. map_of (sw_logs (sy_worker s)) (topic, part) = Some log \<and>
      (\<forall>limit. limit \<noteq> 0 \<longrightarrow> read_log hash log offset limit = Ok [])) \<or>
    (\<exists>s'. queue_step hash settings capacity s s' \<and> tk_notified (sy_tasks s' ! i))"
proof -
  have "unaware (topic, part) offset (sy_tasks s ! i)" using assms(8-10) by (simp add: unaware_def)
  with reachable_polls_ok [OF assms(1-6)] nth_mem [OF assms(7)]
  consider "idle hash (sy_worker s) (topic, part) offset" | t' where "t' \<in> set (sy_tasks s)" "about_to_notify t'"
    unfolding polls_ok_def by blast
  then show ?thesis
  proof cases
    case 1
    then show ?thesis using drained_read by (auto simp: idle_def)
  next
    case (2 t')
    then obtain j where "j < length (sy_tasks s)" "about_to_notify (sy_tasks s ! j)" by (auto simp: in_set_conv_nth)
    from notifier_wakes [OF this assms(7-9)] show ?thesis by blast
  qed
qed

text \<open>A poll on a topic that its own read creates.\<close>

lemma sample_poll_reads:
  obtains w' where "run_command byte_sum sample_settings None (\<lambda>_ _. None) (CmdRead ''t'' 0 0 100) empty_worker = (Ok (RepRecords []), w')"
proof -
  obtain w1 where e: "worker_ensure_topic byte_sum sample_settings ''t'' empty_worker = (Ok 2, w1)"
    "sw_logs w1 = [((''t'', 0), fresh_log 1024 256), ((''t'', 1), fresh_log 1024 256)]"
    using sample_ensure_topic by blast
  have "drained byte_sum (fresh_log 1024 256) 0"
    using fresh_log_fine [of 1024 256 byte_sum] by (auto simp: drained_def log_fine_def fresh_log_def)
  then have "read_log byte_sum (fresh_log 1024 256) 0 100 = Ok []" by (rule drained_read) simp
  with e that show thesis by (simp add: reply_def read_records_def)
qed

lemma sample_poll_waits:
  obtains s where "(queue_step byte_sum sample_settings 1)\<^sup>*\<^sup>* (started_system empty_worker) s"
    "sy_tasks s = [\<lparr>tk_call = Poll ''t'' 0 0 100 1000, tk_phase = Parked, tk_notified = False\<rparr>]"
    "sy_mode s = Serving" "commands_cost (sy_accepted s) = 0" "no_failed_batch s"
proof -
  let ?q = "queue_step byte_sum sample_settings 1" and ?s0 = "started_system empty_worker"
  let ?c = "CmdRead ''t'' 0 0 100"
  obtain w' where w': "run_command byte_sum sample_settings None (\<lambda>_ _. None) ?c empty_worker = (Ok (RepRecords []), w')"
    by (rule sample_poll_reads)
  define s1 where "s1 = ?s0\<lparr>sy_tasks := [\<lparr>tk_call = Poll ''t'' 0 0 100 1000, tk_phase = Enqueueing, tk_notified = False\<rparr>]\<rparr>"
  define s2 where "s2 = push_command (Some 0) ?c (set_phase 0 AwaitingReply s1)"
  define s3 where "s3 = execute_front byte_sum sample_settings None (\<lambda>_ _. None) (Some 0, ?c) s2"
  define s4 where "s4 = take_answer 0 (Ok (RepRecords [])) s3"
  have "?q ?s0 s1"
    using queue_step.begin_call [of ?s0 byte_sum sample_settings 1 "Poll ''t'' 0 0 100 1000"] by (simp add: s1_def started_system_def)
  moreover have "?q s1 s2"
    using queue_step.enqueue [of 0 s1 1 byte_sum sample_settings] by (simp add: s1_def s2_def started_system_def queue_depth_def)
  moreover have "?q s2 s3"
    unfolding s3_def by (rule queue_step.execute [where rest = "[]"]) (simp_all add: s2_def s1_def queue_simps started_system_def)
  moreover have s2: "sy_worker s2 = empty_worker" "sy_queue s2 = [(Some 0, ?c)]" "sy_mode s2 = Serving"
    "sy_tasks s2 = [\<lparr>tk_call = Poll ''t'' 0 0 100 1000, tk_phase = AwaitingReply, tk_notified = False\<rparr>]"
    "sy_accepted s2 = [(Some 0, ?c)]" "sy_executed s2 = []"
    by (simp_all add: s2_def s1_def queue_simps started_system_def)
  then have s3: "sy_tasks s3 = [\<lparr>tk_call = Poll ''t'' 0 0 100 1000, tk_phase = Answered (Ok (RepRecords [])), tk_notified = False\<rparr>]"
    "sy_mode s3 = Serving" "sy_accepted s3 = [(Some 0, ?c)]" "no_failed_batch s3"
    using w' by (simp_all add: s3_def execute_front_def deliver_def queue_simps no_failed_batch_def del: run_command.simps)
  then have "?q s3 s4" unfolding s4_def by (intro queue_step.answer) simp_all
  ultimately have "?q\<^sup>*\<^sup>* ?s0 s4" by (meson converse_rtranclp_into_rtranclp rtranclp.rtrancl_refl)
  with that [of s4] s3 show thesis by (simp add: s4_def take_answer_def queue_simps no_failed_batch_def)
qed

theorem long_poll_misses_nothing_witness:
  "\<exists>s. sy_tasks s = [\<lparr>tk_call = Poll ''t'' 0 0 100 1000, tk_phase = Parked, tk_notified = False\<rparr>] \<and>
    ((\<exists>log. map_of (sw_logs (sy_worker s)) (''t'', 0) = Some log \<and> read_log byte_sum log 0 100 = Ok []) \<or>
     (\<exists>s'. queue_step byte_sum sample_settings 1 s s' \<and> tk_notified (sy_tasks s' ! 0)))"
proof -
  obtain s where s: "(queue_step byte_sum sample_settings 1)\<^sup>*\<^sup>* (started_system empty_worker) s"
    "sy_tasks s = [\<lparr>tk_call = Poll ''t'' 0 0 100 1000, tk_phase = Parked, tk_notified = False\<rparr>]"
    "sy_mode s = Serving" "commands_cost (sy_accepted s) = 0" "no_failed_batch s" by (rule sample_poll_waits)
  from long_poll_misses_nothing [OF s(1) empty_worker_ok(1,2) _ s(5,3), of 0 "''t''" 0 0 100 1000] s(2,4)
  show ?thesis by (intro exI [of _ s]) force
qed

end
