(* ===== verification/Start_Up.thy ===== *)
theory Start_Up
  imports Storage_Recovery Cluster_Config Cluster_Control Replication
begin

text \<open>
  The start of a broker (\<open>run\<close>, \<open>migrate_topic_high_watermarks\<close> and the first part of \<open>start_storage_worker\<close> in
  \<open>crates/broker/src/lib.rs\<close>): configuration, storage recovery, leadership metadata, consumer groups, and the topics
  that are registered with both.  Binding the three listeners succeeds in the model, and the tasks that run
  afterwards are the steps of the other theories.
\<close>

section \<open>State and errors\<close>

datatype broker_error =
    BrokerConfig config_error
  | BrokerIo
  | ReplicationAddress
  | BrokerStorage storage_error
  | BrokerStorageWorker
  | BrokerGroup group_error
  | BrokerLeadership leadership_error
  | InvalidPartitionCount
  | InvalidStorageQueueConfig
  | BrokerStorageUnavailable
  | MissingLocalNode
  | ControllerUnavailable
  | PartitionOutsideConfiguredRange string u32 u32

text \<open>What is under \<open>data_dir\<close>: the partition directories, the topic metadata files, the leadership file and the
  committed offsets.\<close>

record data_directory =
  dd_disk :: "((string \<times> string) \<times> dir) list"
  dd_meta :: "(string \<times> string) list"
  dd_leadership :: "string option"
  dd_offsets :: offset_files

section \<open>Storage\<close>

definition storage_settings_of :: "broker_config \<Rightarrow> storage_settings" where
  "storage_settings_of b = \<lparr>st_max_segment_bytes = bc_max_segment_bytes b,
     st_index_interval_bytes = bc_index_interval_bytes b,
     st_default_partition_count = bc_default_partition_count b,
     st_retention_bytes = (if 0 < bc_retention_bytes b then Some (bc_retention_bytes b) else None),
     st_retention_age = (if 0 < bc_retention_ms b then Some (unat (bc_retention_ms b)) else None),
     st_auto_create_topics = bc_auto_create_topics b\<rparr>"

definition start_storage_worker ::
    "(bytes \<Rightarrow> u32) \<Rightarrow> broker_config \<Rightarrow> data_directory \<Rightarrow> (storage_worker, broker_error) outcome" where
  "start_storage_worker hash config d =
    (if bc_default_partition_count config = 0 then Err InvalidPartitionCount
     else if bc_storage_queue_capacity config = 0 \<or> bc_storage_enqueue_timeout_ms config = 0
     then Err InvalidStorageQueueConfig
     else case recover_storage hash (storage_settings_of config) (dd_disk d) (dd_meta d) of
       (Ok _, w) \<Rightarrow> Ok w
     | (Err e, _) \<Rightarrow> Err (BrokerStorage e)
     | (Panic, _) \<Rightarrow> Err BrokerStorageWorker)"

section \<open>Topics\<close>

fun migrate_partitions ::
    "storage_worker \<Rightarrow> string \<Rightarrow> u32 list \<Rightarrow> leadership_registry \<Rightarrow> (unit, broker_error) outcome \<times> leadership_registry" where
  "migrate_partitions w topic [] reg = (Ok (), reg)"
| "migrate_partitions w topic (part # parts) reg =
    step_bind (map_err (\<lambda>_. BrokerStorageUnavailable) (partition_offset w topic part), reg) (\<lambda>local_end reg.
    case migrate_high_watermark topic part local_end reg of (res, reg) \<Rightarrow>
      step_bind (map_err BrokerLeadership res, reg) (\<lambda>_ reg.
      migrate_partitions w topic parts reg))"

definition migrate_topic_high_watermarks ::
    "storage_worker \<Rightarrow> topic_metadata \<Rightarrow> leadership_registry \<Rightarrow> (unit, broker_error) outcome \<times> leadership_registry" where
  "migrate_topic_high_watermarks w t = migrate_partitions w (tm_topic t) (partition_range (tm_partitions t))"

text \<open>The loop over the recovered topics, on the leadership registry and the coordinator.\<close>

fun register_topics ::
    "storage_worker \<Rightarrow> topic_metadata list \<Rightarrow> leadership_registry \<times> group_coordinator
     \<Rightarrow> (leadership_registry \<times> group_coordinator, broker_error) outcome" where
  "register_topics w [] s = Ok s"
| "register_topics w (t # ts) (reg, groups) =
    (case ensure_topic (tm_topic t) (tm_partitions t) reg of (res, reg) \<Rightarrow>
     try_bind (map_err BrokerLeadership res) (\<lambda>_.
     case migrate_topic_high_watermarks w t reg of (res, reg) \<Rightarrow>
     try_bind res (\<lambda>_.
     case set_topic_partitions (tm_topic t) (tm_partitions t) groups of (res, groups) \<Rightarrow>
     try_bind (map_err BrokerGroup res) (\<lambda>_.
     register_topics w ts (reg, groups)))))"

section \<open>The broker\<close>

definition start_broker ::
    "(bytes \<Rightarrow> u32) \<Rightarrow> (string \<Rightarrow> bool) \<Rightarrow> config \<Rightarrow> data_directory \<Rightarrow> (broker, broker_error) outcome" where
  "start_broker hash parses config d =
    try_bind (map_err BrokerConfig (broker_socket_addr parses (cf_broker config))) (\<lambda>_.
    try_bind (map_err BrokerConfig (cluster_nodes parses config)) (\<lambda>nodes.
    let metadata = \<lparr>cm_responding_broker_id = cc_broker_id (cf_cluster config), cm_nodes = nodes\<rparr> in
    try_bind (start_storage_worker hash (cf_broker config) d) (\<lambda>w.
    try_bind (map_err BrokerConfig (admin_socket_addr parses (cf_admin config))) (\<lambda>_.
    try_bind (ok_or (find (\<lambda>node. cn_id node = cm_responding_broker_id metadata) nodes) MissingLocalNode) (\<lambda>node.
    if \<not> parses (endpoint (cn_host node) (cn_replication_port node)) then Err ReplicationAddress
    else
    try_bind (map_err BrokerLeadership (open_registry (dd_leadership d) metadata)) (\<lambda>reg.
    try_bind (map_err BrokerGroup (open_coordinator (dd_offsets d) (bc_default_partition_count (cf_broker config))
        (unat (bc_group_session_timeout_ms (cf_broker config))))) (\<lambda>groups.
    try_bind (register_topics w (storage_topic_metadata w) (reg, groups)) (\<lambda>(reg, groups).
    Ok \<lparr>bk_settings = storage_settings_of (cf_broker config), bk_storage = w, bk_leadership = reg, bk_groups = groups,
      bk_replication_factor = cc_replication_factor (cf_cluster config),
      bk_min_in_sync_replicas = cc_min_in_sync_replicas (cf_cluster config)\<rparr>))))))))"

text \<open>A started broker other than the controller catches up with the controller before it accepts connections.\<close>

definition run_start ::
    "platform \<Rightarrow> (string \<Rightarrow> bool) \<Rightarrow> config \<Rightarrow> data_directory \<Rightarrow> cluster \<Rightarrow> (unit, broker_error) outcome \<times> cluster" where
  "run_start pf parses config d c =
    step_bind (start_broker (pf_hash pf) parses config d, c) (\<lambda>b c.
    case initial_controller_sync pf (bk_id b) (set_broker (bk_id b) b c) of
      (synchronised, c) \<Rightarrow> (if synchronised then Ok () else Err ControllerUnavailable, c))"

section \<open>Reopening the registry\<close>

lemma parse_lines_distinct:
  "parse_lines ls acc = Ok es \<Longrightarrow> distinct (map fst acc) \<Longrightarrow> distinct (map fst es)"
  by (induction ls arbitrary: acc) (auto simp: try_bind_eq_Ok AList.distinct_update)

lemma open_registry_ok:
  assumes "registry_ok reg"
  shows "\<exists>reg'. open_registry (lr_file reg) (lr_cluster reg) = Ok reg' \<and> registry_ok reg' \<and>
    map_of (lr_entries reg') = map_of (lr_entries reg) \<and> lr_cluster reg' = lr_cluster reg"
proof -
  obtain reg' where o: "open_registry (lr_file reg) (lr_cluster reg) = Ok reg'"
    and m: "map_of (lr_entries reg') = map_of (lr_entries reg)"
    using assms by (auto simp: registry_ok_def synced_def)
  have s: "lr_file reg' = lr_file reg" "lr_cluster reg' = lr_cluster reg"
    using o by (auto simp: open_registry_def try_bind_eq_Ok)
  have d: "distinct (map fst (lr_entries reg'))"
    using o parse_lines_distinct by (auto simp: open_registry_def try_bind_eq_Ok parse_entries_def split: option.splits)
  have "entry_ok (k, l)" if "(k, l) \<in> set (lr_entries reg')" for k l
  proof -
    have "map_of (lr_entries reg) k = Some l" using map_of_is_SomeI [OF d that] m by simp
    then have "(k, l) \<in> set (lr_entries reg)" by (rule map_of_SomeD)
    with assms show ?thesis by (auto simp: registry_ok_def list_all_iff)
  qed
  then have "registry_ok reg'" using assms d o s by (auto simp: registry_ok_def synced_def list_all_iff)
  with o m s show ?thesis by blast
qed

section \<open>Registering the recovered topics\<close>

text \<open>A high watermark of \<open>u64::MAX\<close> marks an entry of an older file; the migration leaves every other one alone.\<close>

definition migrated :: "leadership_registry \<Rightarrow> bool" where
  "migrated reg \<longleftrightarrow> (\<forall>k l. map_of (lr_entries reg) k = Some l \<longrightarrow> pl_high_watermark l \<noteq> - 1)"

lemma migrate_partitions_none:
  assumes "migrated reg" and "\<forall>p \<in> set parts. map_of (lr_entries reg) (topic, p) \<noteq> None \<and> map_of (sw_logs w) (topic, p) \<noteq> None"
  shows "migrate_partitions w topic parts reg = (Ok (), reg)"
  using assms(2)
proof (induction parts)
  case (Cons p ps)
  then obtain l log where "map_of (lr_entries reg) (topic, p) = Some l" "map_of (sw_logs w) (topic, p) = Some log" by auto
  with Cons assms(1) show ?case by (simp add: migrated_def migrate_high_watermark_def partition_offset_def ok_or_def)
qed simp

lemma ensure_topic_migrated:
  assumes "registry_ok reg" and "migrated reg" and "clean topic"
  shows "\<exists>reg'. ensure_topic topic n reg = (Ok (), reg') \<and> registry_ok reg' \<and> migrated reg' \<and>
    map_of (lr_entries reg) \<subseteq>\<^sub>m map_of (lr_entries reg') \<and> (\<forall>p < n. map_of (lr_entries reg') (topic, p) \<noteq> None) \<and>
    lr_cluster reg' = lr_cluster reg"
proof -
  obtain reg' where e: "ensure_topic topic n reg = (Ok (), reg')" "registry_ok reg'"
    "map_of (lr_entries reg') = ensured topic (partition_range n) reg"
    using ensure_topic_spec [OF assms(1,3)] by blast
  have "migrated reg'"
    using assms(2) by (auto simp: migrated_def e(3) ensured_def initial_leadership_def split: option.splits if_splits)
  moreover have "map_of (lr_entries reg) \<subseteq>\<^sub>m map_of (lr_entries reg')"
    by (auto simp: map_le_def e(3) ensured_def)
  moreover have "map_of (lr_entries reg') (topic, p) \<noteq> None" if "p < n" for p
    using that by (auto simp: e(3) ensured_def set_partition_range split: option.splits)
  moreover have "lr_cluster reg' = lr_cluster reg"
  proof -
    have c: "lr_cluster (snd (ensure_partitions topic ps ch r)) = lr_cluster r" for ps ch r
    proof (induction ps arbitrary: ch r)
      case (Cons q ps)
      then show ?case by (cases "deterministic_leader (lr_cluster r) q") auto
    qed simp
    obtain ch r1 where "ensure_partitions topic (partition_range n) False reg = (Ok ch, r1)"
      using e(1) by (auto simp: ensure_topic_def step_bind_eq_Ok)
    with c [of "partition_range n" False reg] e(1) show ?thesis by (auto simp: ensure_topic_def split: if_splits)
  qed
  ultimately show ?thesis using e by blast
qed

lemma reload_offsets_ok:
  "files_ok (gc_files c) \<Longrightarrow> \<exists>c'. reload_offsets topic n c keys = (Ok (), c') \<and> gc_files c' = gc_files c"
proof (induction keys arbitrary: c)
  case (Cons k keys)
  obtain grp t where k: "k = (grp, t)" by fastforce
  obtain offsets where o: "load_offsets (gc_files c) grp t n = Ok offsets"
    using load_offset_list_ok [OF Cons.prems, of grp t "partition_range n"] by (auto simp: load_offsets_def)
  show ?case
  proof (cases "map_of (gc_groups c) (grp, t)")
    case (Some g)
    define c1 where "c1 = set_group (grp, t) (g\<lparr>cg_committed_offsets := fold (\<lambda>(p, x) m. AList.update p x m) offsets
      (cg_committed_offsets g)\<rparr>) c"
    have "gc_files c1 = gc_files c" by (simp add: c1_def)
    with Cons.IH [of c1] Cons.IH [of c] Cons.prems Some o k show ?thesis by (auto simp: c1_def)
  qed (use Cons k in simp)
qed simp

lemma set_topic_partitions_ok:
  "files_ok (gc_files c) \<Longrightarrow> \<exists>c'. set_topic_partitions topic n c = (Ok (), c') \<and> gc_files c' = gc_files c"
  using reload_offsets_ok [of "c\<lparr>gc_topic_partition_counts := AList.update topic n (gc_topic_partition_counts c)\<rparr>"]
  by (simp add: set_topic_partitions_def)

lemma register_topics_ok:
  assumes "registry_ok reg" and "migrated reg" and "files_ok (gc_files groups)"
    and "\<forall>t \<in> set ts. clean (tm_topic t) \<and> (\<forall>p < tm_partitions t. map_of (sw_logs w) (tm_topic t, p) \<noteq> None)"
  shows "\<exists>reg' groups'. register_topics w ts (reg, groups) = Ok (reg', groups') \<and> registry_ok reg' \<and> migrated reg' \<and>
    map_of (lr_entries reg) \<subseteq>\<^sub>m map_of (lr_entries reg') \<and>
    (\<forall>t \<in> set ts. \<forall>p < tm_partitions t. map_of (lr_entries reg') (tm_topic t, p) \<noteq> None) \<and>
    lr_cluster reg' = lr_cluster reg \<and> gc_files groups' = gc_files groups"
  using assms
proof (induction ts arbitrary: reg groups)
  case (Cons t ts)
  have t: "clean (tm_topic t)" "\<forall>p < tm_partitions t. map_of (sw_logs w) (tm_topic t, p) \<noteq> None" using Cons.prems(4) by auto
  obtain reg1 where e: "ensure_topic (tm_topic t) (tm_partitions t) reg = (Ok (), reg1)" "registry_ok reg1" "migrated reg1"
    "map_of (lr_entries reg) \<subseteq>\<^sub>m map_of (lr_entries reg1)" "\<forall>p < tm_partitions t. map_of (lr_entries reg1) (tm_topic t, p) \<noteq> None"
    "lr_cluster reg1 = lr_cluster reg"
    using ensure_topic_migrated [OF Cons.prems(1,2) t(1)] by blast
  have m: "migrate_topic_high_watermarks w t reg1 = (Ok (), reg1)"
    unfolding migrate_topic_high_watermarks_def using e(3,5) t(2)
    by (intro migrate_partitions_none) (auto simp: set_partition_range)
  obtain groups1 where g: "set_topic_partitions (tm_topic t) (tm_partitions t) groups = (Ok (), groups1)"
    "gc_files groups1 = gc_files groups"
    using set_topic_partitions_ok [OF Cons.prems(3)] by blast
  obtain reg' groups' where r: "register_topics w ts (reg1, groups1) = Ok (reg', groups')" "registry_ok reg'" "migrated reg'"
    "map_of (lr_entries reg1) \<subseteq>\<^sub>m map_of (lr_entries reg')"
    "\<forall>t \<in> set ts. \<forall>p < tm_partitions t. map_of (lr_entries reg') (tm_topic t, p) \<noteq> None"
    "lr_cluster reg' = lr_cluster reg1" "gc_files groups' = gc_files groups1"
    using Cons.IH [OF e(2,3), of groups1] Cons.prems(3,4) g(2) by auto
  have "map_of (lr_entries reg') (tm_topic t, p) \<noteq> None" if "p < tm_partitions t" for p
    using e(5) that r(4) by (auto simp: map_le_def dom_def)
  moreover have "map_of (lr_entries reg) \<subseteq>\<^sub>m map_of (lr_entries reg')" using map_le_trans [OF e(4) r(4)] .
  ultimately show ?case using e m g r by auto
qed simp

section \<open>Restart after a crash\<close>

lemma cluster_nodes_local:
  assumes "cluster_nodes parses c = Ok nodes"
  shows "\<exists>node. find (\<lambda>node. cn_id node = cc_broker_id (cf_cluster c)) nodes = Some node \<and>
    parses (endpoint (cn_host node) (cn_replication_port node))"
proof -
  obtain ns ids where ns: "check_nodes parses [] [] ns = Ok ids" "cc_broker_id (cf_cluster c) \<in> set ids"
    and nodes: "nodes = sort_key cn_id ns"
    using assms by (auto simp: cluster_nodes_def try_bind_eq_Ok split: if_splits)
  note ok = check_nodes_Ok [OF ns(1), simplified]
  obtain node where f: "find (\<lambda>node. cn_id node = cc_broker_id (cf_cluster c)) nodes = Some node"
    using ns(2) ok by (fastforce simp: nodes find_None_iff simp flip: not_None_eq)
  then have "node \<in> set nodes" by (auto simp: find_Some_iff)
  then have "node \<in> set ns" by (simp add: nodes)
  with f ok show ?thesis by (auto simp: list_all_iff node_ports_def)
qed

text \<open>A configuration under which the broker of the given membership starts.\<close>

definition configured :: "(string \<Rightarrow> bool) \<Rightarrow> config \<Rightarrow> cluster_metadata \<Rightarrow> bool" where
  "configured parses config m \<longleftrightarrow>
     (\<exists>a. broker_socket_addr parses (cf_broker config) = Ok a) \<and> (\<exists>a. admin_socket_addr parses (cf_admin config) = Ok a) \<and>
     cluster_nodes parses config = Ok (cm_nodes m) \<and> cc_broker_id (cf_cluster config) = cm_responding_broker_id m \<and>
     bc_default_partition_count (cf_broker config) \<noteq> 0 \<and> bc_storage_queue_capacity (cf_broker config) \<noteq> 0 \<and>
     bc_storage_enqueue_timeout_ms (cf_broker config) \<noteq> 0 \<and> settings_ok (storage_settings_of (cf_broker config))"

text \<open>The state of a running broker, and what a crash leaves of it: the leadership file and the offset files are replaced
  as a whole, the partition logs may have torn tails.\<close>

definition sound :: "(bytes \<Rightarrow> u32) \<Rightarrow> broker \<Rightarrow> bool" where
  "sound hash b \<longleftrightarrow> worker_ok hash (bk_storage b) \<and> registry_ok (bk_leadership b) \<and> migrated (bk_leadership b) \<and>
     files_ok (gc_files (bk_groups b))"

definition left_by_crash :: "(bytes \<Rightarrow> u32) \<Rightarrow> broker \<Rightarrow> data_directory \<Rightarrow> bool" where
  "left_by_crash hash b d \<longleftrightarrow> crash_image hash (bk_storage b) (dd_disk d) \<and>
     dd_leadership d = lr_file (bk_leadership b) \<and> dd_offsets d = gc_files (bk_groups b)"

lemma recover_logs_topics_distinct:
  "recover_logs hash settings keys w = (Ok (), w') \<Longrightarrow> distinct (map fst (sw_topics w)) \<Longrightarrow> distinct (map fst (sw_topics w'))"
proof (induction keys arbitrary: w)
  case (Cons k keys)
  obtain topic part where k: "k = (topic, part)" by fastforce
  obtain log w1 where o: "open_partition hash settings topic part w = (Ok log, w1)"
    using Cons.prems(1) by (auto simp: k step_bind_eq_Ok)
  then have "sw_topics w1 = sw_topics w" by (auto simp: open_partition_def Let_def split: prod.splits)
  with Cons o show ?case by (auto simp: k put_log_def AList.distinct_update split: option.splits)
qed simp

lemma recover_storage_topics_distinct:
  "recover_storage hash settings disk meta = (Ok (), w') \<Longrightarrow> distinct (map fst (sw_topics w'))"
  using recover_logs_topics_distinct
  by (fastforce simp: recover_storage_def Let_def step_bind_eq_Ok persist_topics_select)

lemma start_storage_worker_ok:
  assumes "sound hash b" and "left_by_crash hash b d" and "configured parses config m" and "untrimmed (bk_storage b)"
  shows "\<exists>w'. start_storage_worker hash (cf_broker config) d = Ok w' \<and>
    (\<forall>topic n. bare_topic topic n \<in> set (storage_topic_metadata w') \<longleftrightarrow> map_of (sw_topics w') topic = Some n) \<and>
    (\<forall>t \<in> set (storage_topic_metadata w'). clean (tm_topic t) \<and>
       (\<forall>p < tm_partitions t. map_of (sw_logs w') (tm_topic t, p) \<noteq> None)) \<and>
    (\<forall>topic p log. map_of (sw_logs (bk_storage b)) (topic, p) = Some log \<longrightarrow>
       (\<exists>n log'. map_of (sw_topics w') topic = Some n \<and> p < n \<and> map_of (sw_topics (bk_storage b)) topic = Some n \<and>
          map_of (sw_logs w') (topic, p) = Some log' \<and> same_log hash log log'))"
proof -
  define w where "w = bk_storage b"
  have w: "worker_ok hash w" "crash_image hash w (dd_disk d)" "untrimmed w"
    using assms(1,2,4) by (auto simp: sound_def left_by_crash_def w_def)
  obtain w' where w': "recover_storage hash (storage_settings_of (cf_broker config)) (dd_disk d) (dd_meta d) = (Ok (), w')"
    "\<And>topic n. map_of (sw_topics w') topic = Some n \<longleftrightarrow>
       map_of (sw_topics w) topic = Some n \<and> (\<exists>p. map_of (sw_logs w) (topic, p) \<noteq> None)"
    "\<And>topic p log. map_of (sw_logs w) (topic, p) = Some log \<Longrightarrow>
       \<exists>log'. map_of (sw_logs w') (topic, p) = Some log' \<and> same_log hash log log'"
    using recover_storage_holds [OF w(1,2) _ w(3), of "storage_settings_of (cf_broker config)" "dd_meta d"] assms(3)
    unfolding configured_def by blast
  have start: "start_storage_worker hash (cf_broker config) d = Ok w'"
    using assms(3) w'(1) by (simp add: start_storage_worker_def configured_def)
  have known: "validate_log_topic topic = Ok () \<and> (\<exists>n. map_of (sw_topics w) topic = Some n \<and> p < n)"
    if "map_of (sw_logs w) (topic, p) = Some log" for topic p log
    using w(2) that unfolding crash_image_def by blast
  have listed: "bare_topic topic n \<in> set (storage_topic_metadata w') \<longleftrightarrow> map_of (sw_topics w') topic = Some n" for topic n
    using recover_storage_topics_distinct [OF w'(1)]
    by (auto simp: storage_topic_metadata_def bare_topic_def dest: map_of_SomeD intro: rev_image_eqI)
  have topics: "clean topic \<and> (\<forall>p < n. map_of (sw_logs w') (topic, p) \<noteq> None)" if n: "map_of (sw_topics w') topic = Some n" for topic n
  proof -
    obtain p log where "map_of (sw_logs w) (topic, p) = Some log" "map_of (sw_topics w) topic = Some n"
      using w'(2) [of topic n] n by auto
    then have "validate_log_topic topic = Ok ()" "\<forall>p < n. map_of (sw_logs w) (topic, p) \<noteq> None"
      using known w(1) unfolding worker_ok_def by blast+
    then show ?thesis using w'(3) [of topic] clean_id [of topic]
      by (fastforce simp: validate_log_topic_def split: if_splits)
  qed
  have t: "clean (tm_topic t) \<and> (\<forall>p < tm_partitions t. map_of (sw_logs w') (tm_topic t, p) \<noteq> None)"
    if t: "t \<in> set (storage_topic_metadata w')" for t
  proof -
    obtain topic n where "t = bare_topic topic n" using t by (auto simp: storage_topic_metadata_def)
    then show ?thesis using topics [of topic n] t listed [of topic n] by (simp add: bare_topic_def)
  qed
  have "\<exists>n log'. map_of (sw_topics w') topic = Some n \<and> p < n \<and> map_of (sw_topics w) topic = Some n \<and>
      map_of (sw_logs w') (topic, p) = Some log' \<and> same_log hash log log'"
    if k: "map_of (sw_logs w) (topic, p) = Some log" for topic p log
    using known [OF k] w'(3) [OF k] w'(2) [of topic] k by auto
  with start listed t show ?thesis unfolding w_def by blast
qed

lemma register_recovered:
  assumes "sound hash b" and "left_by_crash hash b d" and "configured parses config (bk_metadata b)"
    and "\<forall>t \<in> set ts. clean (tm_topic t) \<and> (\<forall>p < tm_partitions t. map_of (sw_logs w') (tm_topic t, p) \<noteq> None)"
  shows "\<exists>reg groups reg' groups'. open_registry (dd_leadership d) (bk_metadata b) = Ok reg \<and>
    open_coordinator (dd_offsets d) n timeout = Ok groups \<and> register_topics w' ts (reg, groups) = Ok (reg', groups') \<and>
    map_of (lr_entries (bk_leadership b)) \<subseteq>\<^sub>m map_of (lr_entries reg') \<and>
    (\<forall>t \<in> set ts. \<forall>p < tm_partitions t. map_of (lr_entries reg') (tm_topic t, p) \<noteq> None) \<and>
    lr_cluster reg' = bk_metadata b \<and> gc_files groups' = gc_files (bk_groups b)"
proof -
  have s: "registry_ok (bk_leadership b)" "migrated (bk_leadership b)" "files_ok (dd_offsets d)"
    "dd_leadership d = lr_file (bk_leadership b)" "dd_offsets d = gc_files (bk_groups b)"
    using assms(1,2) by (auto simp: sound_def left_by_crash_def)
  obtain reg where r: "open_registry (dd_leadership d) (bk_metadata b) = Ok reg" "registry_ok reg"
    "map_of (lr_entries reg) = map_of (lr_entries (bk_leadership b))" "lr_cluster reg = bk_metadata b"
    using open_registry_ok [OF s(1)] by (auto simp: s(4))
  have m: "migrated reg" using s(2) by (simp add: migrated_def r(3))
  obtain groups where g: "open_coordinator (dd_offsets d) n timeout = Ok groups" "gc_files groups = dd_offsets d"
    using open_coordinator_ok [OF s(3)] by blast
  have f: "files_ok (gc_files groups)" using s(3) g(2) by simp
  obtain reg' groups' where reg': "register_topics w' ts (reg, groups) = Ok (reg', groups')"
    "map_of (lr_entries reg) \<subseteq>\<^sub>m map_of (lr_entries reg')"
    "\<forall>t \<in> set ts. \<forall>p < tm_partitions t. map_of (lr_entries reg') (tm_topic t, p) \<noteq> None"
    "lr_cluster reg' = lr_cluster reg" "gc_files groups' = gc_files groups"
    using register_topics_ok [OF r(2) m f assms(4)] by blast
  show ?thesis
    by (intro exI [of _ reg] exI [of _ groups] exI [of _ reg'] exI [of _ groups'] conjI)
      (use r g reg' s(5) in simp_all)
qed


definition sample_node :: cluster_node where
  "sample_node = \<lparr>cn_id = 1, cn_host = ''127.0.0.1'', cn_port = 7400, cn_admin_port = 7401, cn_replication_port = 7500\<rparr>"

definition crashing_broker :: broker where
  "crashing_broker = \<lparr>bk_settings = sample_settings, bk_storage = sample_worker,
     bk_leadership = \<lparr>lr_file = None, lr_cluster = \<lparr>cm_responding_broker_id = 1, cm_nodes = [sample_node]\<rparr>, lr_entries = []\<rparr>,
     bk_groups = sample_coordinator, bk_replication_factor = 1, bk_min_in_sync_replicas = 1\<rparr>"

definition crashed_directory :: data_directory where
  "crashed_directory = \<lparr>dd_disk = [((''t'', show_nat (unat (0 :: u32))), [(segment_file 0, [])])], dd_meta = [],
     dd_leadership = None, dd_offsets = []\<rparr>"

lemma crashing_broker_sound: "sound byte_sum crashing_broker" "left_by_crash byte_sum crashing_broker crashed_directory"
  using sample_worker_ok sample_crash
  by (simp_all add: sound_def left_by_crash_def crashing_broker_def crashed_directory_def registry_ok_def synced_def
      open_registry_def migrated_def files_ok_def sample_coordinator_def)

lemma sample_configured: "configured (\<lambda>_. True) sample_config (bk_metadata crashing_broker)"
  by (simp add: configured_def crashing_broker_def sample_node_def broker_socket_addr_def admin_socket_addr_def cluster_nodes_def
      configured_nodes_def sample_config_def default_cluster_config_def default_admin_config_def checked_add_def node_ports_def
      node_endpoints_def Let_def settings_ok_def storage_settings_of_def)


end
