(* ===== verification/Server.thy ===== *)
theory Server
  imports Start_Up Storage_Queue Observability
begin

text \<open>
  The server process (\<open>bin/sevlamqd/src/main.rs\<close>, \<open>Config::from_file\<close> in \<open>crates/common/src/lib.rs\<close>) and what runs around the
  handlers in \<open>crates/broker/src/lib.rs\<close>: the accept loop with its set of connection tasks, the identifiers and the gauge of
  client connections, the turns of the background tasks, and \<open>run\<close> as a whole.  What the operating system and the peers
  do arrives as a list of events, in any order.
\<close>

section \<open>Connection tasks\<close>

datatype listener_kind = ClientPort | AdminPort | ReplicationPort

text \<open>A task of the \<open>JoinSet\<close>.  A client task gets an identifier when it is spawned; when it first runs it opens its guard, which
  counts it as an active connection until the task is dropped.\<close>

record connection_task =
  ct_kind :: listener_kind
  ct_id :: u64
  ct_guarded :: bool
  ct_done :: bool

record server =
  sv_connections :: "connection_task list"
  sv_next_connection_id :: u64
  sv_metrics :: runtime_metrics

definition started_server :: server where
  "started_server = \<lparr>sv_connections = [], sv_next_connection_id = 1, sv_metrics = runtime_metrics_default\<rparr>"

definition spawn_connection :: "listener_kind \<Rightarrow> server \<Rightarrow> server" where
  "spawn_connection kind s =
    (if kind = ClientPort
     then s\<lparr>sv_next_connection_id := sv_next_connection_id s + 1, sv_connections := sv_connections s @
        [\<lparr>ct_kind = ClientPort, ct_id = sv_next_connection_id s, ct_guarded = False, ct_done = False\<rparr>]\<rparr>
     else s\<lparr>sv_connections := sv_connections s @ [\<lparr>ct_kind = kind, ct_id = 0, ct_guarded = False, ct_done = False\<rparr>]\<rparr>)"

text \<open>The first lines of \<open>handle_connection\<close>.\<close>

definition open_guard :: "nat \<Rightarrow> server \<Rightarrow> server" where
  "open_guard i s =
    (let t = sv_connections s ! i in
     if i < length (sv_connections s) \<and> ct_kind t = ClientPort \<and> \<not> ct_guarded t \<and> \<not> ct_done t
     then s\<lparr>sv_connections := (sv_connections s)[i := t\<lparr>ct_guarded := True\<rparr>], sv_metrics := metrics_connection_opened (sv_metrics s)\<rparr>
     else s)"

text \<open>\<open>Drop\<close> of the guard, when there is one.\<close>

definition drop_guard :: "connection_task \<Rightarrow> runtime_metrics \<Rightarrow> runtime_metrics" where
  "drop_guard t m = (if ct_guarded t then metrics_connection_closed m else m)"

text \<open>A task returns; its result waits in the set until it is joined.\<close>

definition finish_task :: "nat \<Rightarrow> server \<Rightarrow> server" where
  "finish_task i s =
    (let t = sv_connections s ! i in
     if i < length (sv_connections s) \<and> \<not> ct_done t
     then s\<lparr>sv_connections := (sv_connections s)[i := t\<lparr>ct_guarded := False, ct_done := True\<rparr>], sv_metrics := drop_guard t (sv_metrics s)\<rparr>
     else s)"

definition join_task :: "nat \<Rightarrow> server \<Rightarrow> server" where
  "join_task i s =
    (if i < length (sv_connections s) \<and> ct_done (sv_connections s ! i)
     then s\<lparr>sv_connections := take i (sv_connections s) @ drop (Suc i) (sv_connections s)\<rparr> else s)"

text \<open>\<open>abort_all\<close> and the joins after it, at the end of the loop.\<close>

definition abort_connections :: "server \<Rightarrow> server" where
  "abort_connections s = s\<lparr>sv_connections := [], sv_metrics := fold drop_guard (sv_connections s) (sv_metrics s)\<rparr>"

section \<open>The accept loop\<close>

text \<open>What the loop and its tasks meet: the shutdown signal (or a failure to wait for it), a connection on one of
  the listeners or an error of \<open>accept\<close>, a task that runs for the first time or returns, and a task that is joined.\<close>

datatype server_event =
    Signal bool
  | Accepted listener_kind bool
  | TaskRuns nat
  | TaskReturns nat
  | TaskJoined nat

text \<open>\<open>None\<close>: the loop still runs when the events end.  An error leaves the function at once: the set of tasks is dropped, which asks the
  runtime to abort them but waits for none, so that they and their guards are still there when the function has returned; they
  are dropped one after the other later, as by \<open>finish_task\<close>.\<close>

fun accept_connections :: "server_event list \<Rightarrow> server \<Rightarrow> (unit, broker_error) outcome option \<times> server" where
  "accept_connections [] s = (None, s)"
| "accept_connections (Signal ok # events) s = (if ok then (Some (Ok ()), abort_connections s) else (Some (Err BrokerIo), s))"
| "accept_connections (Accepted kind ok # events) s =
    (if ok then accept_connections events (spawn_connection kind s) else (Some (Err BrokerIo), s))"
| "accept_connections (TaskRuns i # events) s = accept_connections events (open_guard i s)"
| "accept_connections (TaskReturns i # events) s = accept_connections events (finish_task i s)"
| "accept_connections (TaskJoined i # events) s = accept_connections events (join_task i s)"

section \<open>Background tasks\<close>

text \<open>Turns of the leader monitor, which only the controller has; an error ends the turn, a panic the task.\<close>

fun monitor_turns :: "platform list \<Rightarrow> u32 \<Rightarrow> failures \<times> cluster \<Rightarrow> failures \<times> cluster" where
  "monitor_turns [] self s = s"
| "monitor_turns (pf # pfs) self s =
    (case monitor_partition_leaders pf self s of
       (Panic, s) \<Rightarrow> s
     | (_, s) \<Rightarrow> monitor_turns pfs self s)"

definition leader_monitor :: "platform list \<Rightarrow> u32 \<Rightarrow> cluster \<Rightarrow> cluster" where
  "leader_monitor turns self c =
    (case cl_brokers c self of
       Some b \<Rightarrow> if is_controller b then snd (monitor_turns turns self ([], c)) else c
     | None \<Rightarrow> c)"

text \<open>Turns of the follower recovery.\<close>

definition follower_recovery :: "platform list \<Rightarrow> u32 \<Rightarrow> cluster \<Rightarrow> cluster" where
  "follower_recovery turns self = fold (\<lambda>pf. follower_recovery_cycle pf self) turns"

text \<open>A turn of the session sweeper: an error is only logged.\<close>

definition sweep_sessions :: "platform \<Rightarrow> broker \<Rightarrow> broker" where
  "sweep_sessions pf b = b\<lparr>bk_groups := snd (expire_sessions (pf_now pf) (bk_groups b))\<rparr>"

section \<open>The process\<close>

text \<open>\<open>run\<close>: the start, the accept loop, and the end of the storage worker, which is awaited only when the loop ended
  without an error.\<close>

definition run ::
    "platform \<Rightarrow> (string \<Rightarrow> bool) \<Rightarrow> config \<Rightarrow> data_directory \<Rightarrow> server_event list \<Rightarrow> bool \<Rightarrow> cluster
     \<Rightarrow> (unit, broker_error) outcome option \<times> cluster" where
  "run pf parses config d events worker_panicked c =
    (case run_start pf parses config d c of
       (Ok _, c) \<Rightarrow>
         (case fst (accept_connections events started_server) of
            Some (Ok _) \<Rightarrow> Some (if worker_panicked then Err BrokerStorageWorker else Ok ())
          | res \<Rightarrow> res, c)
     | (Err e, c) \<Rightarrow> (Some (Err e), c)
     | (Panic, c) \<Rightarrow> (Some Panic, c))"

datatype app_error = AppConfig config_error | AppBroker broker_error

text \<open>The first argument, or the default path.  The file system and the TOML parser are parameters.\<close>

definition config_path :: "string list \<Rightarrow> string" where
  "config_path args = (case args of _ # path # _ \<Rightarrow> path | _ \<Rightarrow> ''config/sevlamq.toml'')"

definition from_file :: "(string \<Rightarrow> string option) \<Rightarrow> (string \<Rightarrow> config option) \<Rightarrow> string \<Rightarrow> (config, config_error) outcome" where
  "from_file read_to_string from_str path =
    try_bind (ok_or (read_to_string path) ConfigRead) (\<lambda>contents.
    ok_or (from_str contents) ConfigParse)"

definition main ::
    "(string \<Rightarrow> string option) \<Rightarrow> (string \<Rightarrow> config option) \<Rightarrow> platform \<Rightarrow> (string \<Rightarrow> bool) \<Rightarrow> string list
     \<Rightarrow> data_directory \<Rightarrow> server_event list \<Rightarrow> bool \<Rightarrow> cluster \<Rightarrow> (unit, app_error) outcome option \<times> cluster" where
  "main read_to_string from_str pf parses args d events worker_panicked c =
    (case from_file read_to_string from_str (config_path args) of
       Ok config \<Rightarrow>
         (case run pf parses config d events worker_panicked c of (res, c) \<Rightarrow> (map_option (map_err AppBroker) res, c))
     | Err e \<Rightarrow> (Some (Err (AppConfig e)), c)
     | Panic \<Rightarrow> (Some Panic, c))"

section \<open>The gauge of active connections\<close>

definition guarded :: "server \<Rightarrow> connection_task list" where
  "guarded s = filter ct_guarded (sv_connections s)"

definition client_ids :: "server \<Rightarrow> u64 list" where
  "client_ids s = map ct_id (filter (\<lambda>t. ct_kind t = ClientPort) (sv_connections s))"

text \<open>The gauge counts the open guards, only running client tasks have one, and the identifiers in use are distinct and
  were given before the next one, as long as \<open>n\<close> more connections do not exhaust them.\<close>

definition server_ok :: "nat \<Rightarrow> server \<Rightarrow> bool" where
  "server_ok n s \<longleftrightarrow> rm_active_connections (sv_metrics s) = of_nat (length (guarded s)) \<and>
     (\<forall>t \<in> set (sv_connections s). ct_guarded t \<longrightarrow> ct_kind t = ClientPort \<and> \<not> ct_done t) \<and>
     distinct (client_ids s) \<and> (\<forall>i \<in> set (client_ids s). i < sv_next_connection_id s) \<and>
     unat (sv_next_connection_id s) + n < 2 ^ 64"

lemma length_filter_update:
  assumes "i < length xs" and "\<not> P (xs ! i)" and "P y"
  shows "length (filter P (xs[i := y])) = Suc (length (filter P xs))"
  using assms by (induction xs arbitrary: i) (auto simp: less_Suc_eq_0_disj)

lemma length_filter_remove:
  assumes "i < length xs" and "P (xs ! i)" and "\<not> P y"
  shows "Suc (length (filter P (xs[i := y]))) = length (filter P xs)"
  using assms by (induction xs arbitrary: i) (auto simp: less_Suc_eq_0_disj)

lemma map_filter_update:
  assumes "i < length xs" and "P y = P (xs ! i)" and "f y = f (xs ! i)"
  shows "map f (filter P (xs[i := y])) = map f (filter P xs)"
  using assms by (induction xs arbitrary: i) (auto simp: less_Suc_eq_0_disj)

lemma filter_without:
  assumes "i < length xs" and "\<not> P (xs ! i)"
  shows "filter P (take i xs @ drop (Suc i) xs) = filter P xs"
proof -
  have "xs = take i xs @ xs ! i # drop (Suc i) xs" using assms(1) by (rule id_take_nth_drop)
  then have "filter P xs = filter P (take i xs @ xs ! i # drop (Suc i) xs)" by simp
  with assms(2) show ?thesis by simp
qed

lemma server_ok_mono: "server_ok n s \<Longrightarrow> m \<le> n \<Longrightarrow> server_ok m s"
  by (simp add: server_ok_def)

lemma server_ok_spawn:
  assumes "server_ok (Suc n) s"
  shows "server_ok n (spawn_connection kind s)"
proof -
  let ?i = "sv_next_connection_id s"
  have "unat ?i + 1 < 2 ^ 64" using assms by (simp add: server_ok_def)
  then have u: "unat (?i + 1) = unat ?i + 1" by (simp add: unat_word_ariths)
  then have "j < ?i \<Longrightarrow> j < ?i + 1" "?i < ?i + 1" for j by (simp_all add: word_less_nat_alt)
  with assms u show ?thesis
    by (auto simp: server_ok_def spawn_connection_def guarded_def client_ids_def)
qed

lemma server_ok_open:
  assumes "server_ok n s"
  shows "server_ok n (open_guard i s)"
proof (cases "i < length (sv_connections s) \<and> ct_kind (sv_connections s ! i) = ClientPort \<and>
    \<not> ct_guarded (sv_connections s ! i) \<and> \<not> ct_done (sv_connections s ! i)")
  case True
  define t where "t = (sv_connections s ! i)\<lparr>ct_guarded := True\<rparr>"
  have s': "open_guard i s = s\<lparr>sv_connections := (sv_connections s)[i := t],
      sv_metrics := metrics_connection_opened (sv_metrics s)\<rparr>"
    using True by (simp add: open_guard_def t_def)
  have "length (guarded (open_guard i s)) = Suc (length (guarded s))"
    using True length_filter_update [of i "sv_connections s" ct_guarded t] by (simp add: s' guarded_def t_def)
  moreover have "client_ids (open_guard i s) = client_ids s"
    using True map_filter_update [of i "sv_connections s" "\<lambda>t. ct_kind t = ClientPort" t ct_id] by (simp add: s' client_ids_def t_def)
  moreover have "set (sv_connections (open_guard i s)) \<subseteq> insert t (set (sv_connections s))"
    by (simp add: s' set_update_subset_insert)
  ultimately show ?thesis
    using assms True unfolding server_ok_def by (auto simp: s' metrics_connection_opened_def t_def)
qed (use assms in \<open>auto simp: open_guard_def\<close>)

lemma server_ok_finish:
  assumes "server_ok n s"
  shows "server_ok n (finish_task i s)"
proof (cases "i < length (sv_connections s) \<and> \<not> ct_done (sv_connections s ! i)")
  case True
  define t where "t = sv_connections s ! i"
  define t' where "t' = t\<lparr>ct_guarded := False, ct_done := True\<rparr>"
  have s': "finish_task i s = s\<lparr>sv_connections := (sv_connections s)[i := t'], sv_metrics := drop_guard t (sv_metrics s)\<rparr>"
    using True by (simp add: finish_task_def t_def t'_def Let_def)
  have "rm_active_connections (drop_guard t (sv_metrics s)) = of_nat (length (guarded (finish_task i s)))"
  proof (cases "ct_guarded t")
    case g: True
    then have "length (guarded s) = Suc (length (guarded (finish_task i s)))"
      using True length_filter_remove [of i "sv_connections s" ct_guarded t'] by (simp add: s' guarded_def t_def t'_def)
    with assms g show ?thesis by (simp add: server_ok_def drop_guard_def metrics_connection_closed_def)
  next
    case g: False
    then have "length (guarded (finish_task i s)) = length (guarded s)"
      using True map_filter_update [of i "sv_connections s" ct_guarded t' ct_kind]
      by (simp add: s' guarded_def t_def t'_def) (metis length_map)
    with assms g show ?thesis by (simp add: server_ok_def drop_guard_def)
  qed
  moreover have "client_ids (finish_task i s) = client_ids s"
    using True map_filter_update [of i "sv_connections s" "\<lambda>t. ct_kind t = ClientPort" t' ct_id]
    by (simp add: s' client_ids_def t_def t'_def)
  moreover have "set (sv_connections (finish_task i s)) \<subseteq> insert t' (set (sv_connections s))"
    by (simp add: s' set_update_subset_insert)
  ultimately show ?thesis using assms unfolding server_ok_def by (auto simp: s' t'_def)
qed (use assms in \<open>auto simp: finish_task_def\<close>)

lemma server_ok_join:
  assumes "server_ok n s"
  shows "server_ok n (join_task i s)"
proof (cases "i < length (sv_connections s) \<and> ct_done (sv_connections s ! i)")
  case True
  let ?xs = "sv_connections s"
  have "\<not> ct_guarded (?xs ! i)" using assms True nth_mem [of i ?xs] by (auto simp: server_ok_def)
  then have "guarded (join_task i s) = guarded s" using True filter_without [of i ?xs ct_guarded] by (simp add: join_task_def guarded_def)
  moreover have "set (take i ?xs @ drop (Suc i) ?xs) \<subseteq> set ?xs" by (auto dest: in_set_takeD in_set_dropD)
  moreover have "?xs = take i ?xs @ ?xs ! i # drop (Suc i) ?xs" using True by (simp add: id_take_nth_drop)
  then have "client_ids s = client_ids (s\<lparr>sv_connections := take i ?xs @ ?xs ! i # drop (Suc i) ?xs\<rparr>)" by (simp add: client_ids_def)
  then have "set (client_ids (join_task i s)) \<subseteq> set (client_ids s)" "distinct (client_ids s) \<Longrightarrow> distinct (client_ids (join_task i s))"
    using True by (auto simp: join_task_def client_ids_def split: if_splits)
  ultimately show ?thesis using assms True unfolding server_ok_def by (auto simp: join_task_def)
qed (use assms in \<open>auto simp: join_task_def\<close>)

lemma abort_gauge:
  "rm_active_connections (fold drop_guard ts m) = rm_active_connections m - of_nat (length (filter ct_guarded ts))"
  by (induction ts arbitrary: m) (simp_all add: drop_guard_def metrics_connection_closed_def)

lemma abort_ok:
  "server_ok n s \<Longrightarrow> sv_connections (abort_connections s) = [] \<and> rm_active_connections (sv_metrics (abort_connections s)) = 0"
  by (simp add: abort_connections_def abort_gauge server_ok_def guarded_def)

text \<open>Whatever happens, the events can be followed one by one.\<close>

lemma accept_keeps_ok:
  "server_ok (length events) s \<Longrightarrow> accept_connections events s = (res, s') \<Longrightarrow>
     (res \<noteq> Some (Ok ()) \<longrightarrow> server_ok 0 s') \<and>
     (res = Some (Ok ()) \<longrightarrow> sv_connections s' = [] \<and> rm_active_connections (sv_metrics s') = 0)"
proof (induction events s rule: accept_connections.induct)
  case (2 ok events s)
  then show ?case using abort_ok [OF 2(1)] server_ok_mono [OF 2(1)] by (auto split: if_splits)
next
  case (3 kind ok events s)
  have "server_ok (Suc (length events)) s" using 3(2) by simp
  note ok = server_ok_spawn [OF this] server_ok_mono [OF this]
  show ?case
  proof (cases ok)
    case True
    with 3(1) [OF True ok(1)] 3(3) show ?thesis by simp
  next
    case False
    with 3(3) ok(2) [of 0] show ?thesis by auto
  qed
next
  case (4 i events s)
  then have "server_ok (length events) (open_guard i s)" by (intro server_ok_open server_ok_mono [OF 4(2)]) simp
  with 4 show ?case by simp
next
  case (5 i events s)
  then have "server_ok (length events) (finish_task i s)" by (intro server_ok_finish server_ok_mono [OF 5(2)]) simp
  with 5 show ?case by simp
next
  case (6 i events s)
  then have "server_ok (length events) (join_task i s)" by (intro server_ok_join server_ok_mono [OF 6(2)]) simp
  with 6 show ?case by simp
qed auto

lemma server_ok_finishes: "server_ok n s \<Longrightarrow> server_ok n (fold finish_task tasks s)"
  by (induction tasks arbitrary: s) (simp_all add: server_ok_finish)

text \<open>C39: The gauge of active connections is exact: at every moment it is the number of client connections that have been opened and not
  closed, whatever the order in which connections arrive, run, end and are joined, and connections that are open at the same time have
  different identifiers.  This also holds after the accept loop has ended with an error, while the connections it leaves are
  dropped one by one.  When the loop has ended by the shutdown signal, no connection is left and the gauge is 0.\<close>

theorem active_connections_exact:
  assumes "accept_connections events started_server = (res, s)" and "length events < 2 ^ 64 - 1"
  shows "rm_active_connections (sv_metrics s) = of_nat (length (guarded s)) \<and> distinct (client_ids s) \<and>
    (res = Some (Ok ()) \<longrightarrow> sv_connections s = [] \<and> rm_active_connections (sv_metrics s) = 0) \<and>
    (\<forall>tasks. rm_active_connections (sv_metrics (fold finish_task tasks s)) = of_nat (length (guarded (fold finish_task tasks s))))"
proof -
  have "server_ok (length events) started_server"
    using assms(2) by (simp add: server_ok_def started_server_def guarded_def client_ids_def runtime_metrics_default_def)
  note kept = accept_keeps_ok [OF this assms(1)]
  show ?thesis
  proof (cases "res = Some (Ok ())")
    case True
    then have e: "sv_connections s = []" "rm_active_connections (sv_metrics s) = 0" using kept by simp_all
    have "fold finish_task tasks s = s" for tasks by (induction tasks) (simp_all add: finish_task_def e(1))
    with e True show ?thesis by (simp add: guarded_def client_ids_def)
  next
    case False
    then have "server_ok 0 s" using kept by simp
    with server_ok_finishes [OF this] False show ?thesis by (simp add: server_ok_def)
  qed
qed

theorem active_connections_exact_witness:
  "let s = snd (accept_connections [Accepted ClientPort True, Accepted AdminPort True, TaskRuns 0, Accepted ClientPort True, TaskRuns 2,
       TaskReturns 0, TaskJoined 0, Accepted ReplicationPort False] started_server) in
   rm_active_connections (sv_metrics s) = 1 \<and> length (guarded s) = 1 \<and> client_ids s = [2] \<and>
   rm_active_connections (sv_metrics (fold finish_task [1] s)) = 0"
proof -
  let ?es = "[Accepted ClientPort True, Accepted AdminPort True, TaskRuns 0, Accepted ClientPort True, TaskRuns 2, TaskReturns 0, TaskJoined 0,
    Accepted ReplicationPort False]"
  obtain res s where r: "accept_connections ?es started_server = (res, s)" by fastforce
  then have "length (guarded s) = 1" "client_ids s = [2]" "guarded (fold finish_task [1] s) = []"
    by (auto simp: started_server_def spawn_connection_def open_guard_def finish_task_def join_task_def guarded_def client_ids_def
        drop_guard_def Let_def)
  moreover have "length ?es < 2 ^ 64 - 1" by simp
  ultimately show ?thesis using active_connections_exact [OF r] r by (simp del: fold.simps)
qed

text \<open>An error of \<open>accept\<close> on any listener ends the loop, and with it the broker, with all its connections.\<close>

lemma accept_append:
  "fst (accept_connections events s) = None \<Longrightarrow>
     accept_connections (events @ rest) s = accept_connections rest (snd (accept_connections events s))"
  by (induction events s rule: accept_connections.induct) (auto split: if_splits)

lemma accept_error_ends_broker:
  assumes "fst (accept_connections events started_server) = None" and "run_start pf parses config d c = (Ok (), c')"
  shows "run pf parses config d (events @ Accepted kind False # rest) worker_panicked c = (Some (Err BrokerIo), c')"
  using assms by (simp add: run_def accept_append)

end
