(* ===== verification/Leader_Monitor.thy ===== *)
theory Leader_Monitor
  imports Cluster_Election Server
begin

text \<open>
  The patience of the leader monitor (\<open>monitor_partition_leaders\<close> in \<open>crates/broker/src/lib.rs\<close>): the controller touches no broker for a
  partition before three probes of its leader in a row have failed.
\<close>

section \<open>The turns of one partition\<close>

text \<open>A turn of the monitor at one partition: its platform, the leadership entry it reads and the cluster it finds.\<close>

type_synonym monitor_turn = "platform \<times> partition_leadership \<times> cluster"

fun probing :: "u32 \<Rightarrow> u32 \<Rightarrow> monitor_turn \<Rightarrow> bool" where
  "probing self part (pf, l, c) \<longleftrightarrow> pl_partition l = part \<and> pl_leader_id l \<noteq> self \<and>
     (\<exists>b node. cl_brokers c self = Some b \<and>
        find (\<lambda>node. cn_id node = pl_leader_id l) (cm_nodes (bk_metadata b)) = Some node)"

fun probe_failed :: "string \<Rightarrow> monitor_turn \<Rightarrow> bool" where
  "probe_failed topic (pf, l, c) \<longleftrightarrow> fst (query_partition_offset (pl_leader_id l) topic (pl_partition l) c) = None"

text \<open>The failure counts after some turns, with anything happening to the cluster in between.\<close>

fun failures_after :: "u32 \<Rightarrow> string \<Rightarrow> monitor_turn list \<Rightarrow> failures \<Rightarrow> failures" where
  "failures_after self topic [] failures = failures"
| "failures_after self topic ((pf, l, c) # turns) failures =
    failures_after self topic turns (fst (snd (monitor_partition pf self topic l (failures, c))))"

lemma failures_after_append:
  "failures_after self topic (turns @ turns') failures = failures_after self topic turns' (failures_after self topic turns failures)"
  by (induction turns arbitrary: failures) auto

section \<open>One turn\<close>

lemma query_keeps_brokers: "cl_brokers (snd (query_partition_offset i topic part c)) = cl_brokers c"
proof -
  have "snd (handle_partition_offset topic part b) = b" for b by (simp add: handle_partition_offset_def on_storage_def)
  then have "cl_brokers (snd (at_broker i (handle_partition_offset topic part) c')) = cl_brokers c'" for c'
    by (rule at_broker_pure_state)
  then show ?thesis
    by (auto simp: query_partition_offset_def ask_def Let_def split: list.splits prod.splits outcome.splits)
      (metis cluster.select_convs(1) cluster.surjective cluster.update_convs(2) snd_conv)+
qed

lemma failed_attempts_simps:
  "failed_attempts k (AList.update k n fs) = n" "failed_attempts k (AList.delete k fs) = 0"
  by (simp_all add: failed_attempts_def AList.update_conv' AList.delete_conv')

text \<open>A probing turn, spelled out.\<close>

lemma probing_turn:
  assumes "probing self part (pf, l, c)"
  shows "monitor_partition pf self topic l (fs, c) =
    (case query_partition_offset (pl_leader_id l) topic part c of
       (Some _, c) \<Rightarrow> (Ok (), (AList.delete (topic, part) fs, c))
     | (None, c) \<Rightarrow>
         let attempts = saturating_add (failed_attempts (topic, part) fs) 1;
             s = (AList.update (topic, part) attempts fs, c) in
         if attempts < 3 then (Ok (), s) else replace_leader pf self topic l s)"
proof -
  obtain b node where b: "cl_brokers c self = Some b" and n: "find (\<lambda>node. cn_id node = pl_leader_id l) (cm_nodes (bk_metadata b)) = Some node"
    using assms by auto
  have info: "cluster_info self c = (Ok (bk_metadata b), c)"
    using b by (simp add: cluster_info_def at_broker_def set_broker_def fun_upd_idem)
  have "cn_id node = pl_leader_id l" using n by (auto simp: find_Some_iff)
  with assms n info show ?thesis
    by (simp add: monitor_partition_def in_cluster_def forget_def Let_def split: prod.splits option.splits)
qed

lemma replace_leader_failures:
  "fst (snd (replace_leader pf self topic l s)) = fst s \<or>
   fst (snd (replace_leader pf self topic l s)) = AList.delete (topic, pl_partition l) (fst s)"
proof -
  obtain r1 c1 where 1: "select_automatic_candidate self topic l (snd s) = (r1, c1)" by fastforce
  show ?thesis
  proof (cases "\<exists>candidate. r1 = Ok (Some candidate)")
    case True
    then obtain candidate where r1: "r1 = Ok (Some candidate)" by blast
    obtain r2 c2 where 2: "promote_leader pf self \<lparr>pm_topic = topic, pm_partition = pl_partition l, pm_leader_id = candidate\<rparr> c1 = (r2, c2)"
      by fastforce
    show ?thesis
      using 1 2 r1 by (cases r2) (auto simp: replace_leader_def in_cluster_def forget_def split: response.splits)
  next
    case False
    with 1 show ?thesis by (cases r1) (auto simp: replace_leader_def in_cluster_def split: option.splits)
  qed
qed

text \<open>A turn touches a broker only when the probe failed with two failures before it; a failed probe counts at most one, and an
  answered one resets the count.\<close>

lemma turn_effect:
  assumes "probing self part (pf, l, c)" and "monitor_partition pf self topic l (fs, c) = (res, fs', c')"
  shows "cl_brokers c' = cl_brokers c \<or> probe_failed topic (pf, l, c) \<and> 2 \<le> unat (failed_attempts (topic, part) fs)"
    "unat (failed_attempts (topic, part) fs') \<le> (if probe_failed topic (pf, l, c) then unat (failed_attempts (topic, part) fs) + 1 else 0)"
proof -
  define key where "key = (topic, part)"
  obtain answer c1 where q: "query_partition_offset (pl_leader_id l) topic part c = (answer, c1)" by fastforce
  have b: "cl_brokers c1 = cl_brokers c" using query_keeps_brokers [of "pl_leader_id l" topic part c] q by simp
  have p: "pl_partition l = part" using assms(1) by simp
  define n where "n = saturating_add (failed_attempts key fs) 1"
  have le: "unat n \<le> unat (failed_attempts key fs) + 1" using unat_saturating_add_le [of "failed_attempts key fs" 1] by (simp add: n_def)
  note turn = probing_turn [OF assms(1), of topic fs, unfolded q assms(2) key_def [symmetric], simplified, folded n_def]
  have "(cl_brokers c' = cl_brokers c \<or> probe_failed topic (pf, l, c) \<and> 2 \<le> unat (failed_attempts key fs)) \<and>
    unat (failed_attempts key fs') \<le> (if probe_failed topic (pf, l, c) then unat (failed_attempts key fs) + 1 else 0)"
  proof (cases answer)
    case (Some offset)
    with turn b show ?thesis by (simp add: failed_attempts_simps)
  next
    case None
    have f: "probe_failed topic (pf, l, c)" using q None p by simp
    show ?thesis
    proof (cases "n < 3")
      case True
      with turn None b le f show ?thesis by (simp add: failed_attempts_simps Let_def)
    next
      case False
      then have "2 \<le> unat (failed_attempts key fs)" using le by (simp add: word_less_nat_alt)
      moreover have "replace_leader pf self topic l (AList.update key n fs, c1) = (res, fs', c')"
        using turn None False by (simp add: Let_def)
      then have "fs' = AList.update key n fs \<or> fs' = AList.delete key (AList.update key n fs)"
        using replace_leader_failures [of pf self topic l "(AList.update key n fs, c1)"] p by (simp add: key_def)
      ultimately show ?thesis using f le by (auto simp: failed_attempts_simps)
    qed
  qed
  then show "cl_brokers c' = cl_brokers c \<or> probe_failed topic (pf, l, c) \<and> 2 \<le> unat (failed_attempts (topic, part) fs)"
    "unat (failed_attempts (topic, part) fs') \<le> (if probe_failed topic (pf, l, c) then unat (failed_attempts (topic, part) fs) + 1 else 0)"
    unfolding key_def by blast+
qed

text \<open>The count never exceeds the number of failed probes at the end of the turns.\<close>

lemma count_consecutive:
  "list_all (probing self part) turns \<Longrightarrow>
     unat (failed_attempts (topic, part) (failures_after self topic turns [])) \<le> length (takeWhile (probe_failed topic) (rev turns))"
proof (induction turns rule: rev_induct)
  case (snoc t turns)
  obtain pf l c where t: "t = (pf, l, c)" by (cases t)
  define fs where "fs = failures_after self topic turns []"
  obtain res fs' c' where m: "monitor_partition pf self topic l (fs, c) = (res, fs', c')" by (metis prod.exhaust)
  have "failures_after self topic (turns @ [t]) [] = fs'" using m by (simp add: failures_after_append fs_def t)
  moreover have "probing self part (pf, l, c)" using snoc.prems t by simp
  note turn_effect(2) [OF this m]
  moreover have "unat (failed_attempts (topic, part) fs) \<le> length (takeWhile (probe_failed topic) (rev turns))"
    using snoc by (simp add: fs_def)
  ultimately show ?case by (simp add: t split: if_splits)
qed (simp add: failed_attempts_def)

text \<open>C15: A leader is not replaced before three consecutive probes have failed: over any number of turns of the leader monitor at a
  partition, with anything happening to the cluster in between, a turn leaves every broker as it was unless its own probe and the
  probes of the two turns before it failed.\<close>

theorem monitor_waits_for_three_failures:
  assumes "list_all (probing self part) (turns @ [(pf, l, c)])"
    and "\<not> (\<exists>earlier t1 t2. turns = earlier @ [t1, t2] \<and> probe_failed topic t1 \<and> probe_failed topic t2 \<and> probe_failed topic (pf, l, c))"
  shows "cl_brokers (snd (snd (monitor_partition pf self topic l (failures_after self topic turns [], c)))) = cl_brokers c"
proof (rule ccontr)
  assume changed: "\<not> ?thesis"
  obtain res fs' c' where m: "monitor_partition pf self topic l (failures_after self topic turns [], c) = (res, fs', c')" by (metis prod.exhaust)
  have "probing self part (pf, l, c)" using assms(1) by simp
  from turn_effect(1) [OF this m] changed m
  have f: "probe_failed topic (pf, l, c)" "2 \<le> unat (failed_attempts (topic, part) (failures_after self topic turns []))" by auto
  then have two: "2 \<le> length (takeWhile (probe_failed topic) (rev turns))"
    using count_consecutive [of self part turns topic] assms(1) by simp
  then obtain t2 t1 earlier where "rev turns = t2 # t1 # rev earlier" "probe_failed topic t2" "probe_failed topic t1"
    by (cases "rev turns" rule: list.exhaust; cases "tl (rev turns)") (auto split: if_splits intro: that [where earlier = "rev _"])
  then have "turns = earlier @ [t1, t2]" by (simp add: rev_swap)
  with f(1) assms(2) \<open>probe_failed topic t1\<close> \<open>probe_failed topic t2\<close> show False by blast
qed

theorem monitor_waits_for_three_failures_witness:
  "cl_brokers (snd (snd (monitor_partition sample_platform 2 ''t'' (sample_entry_of 1) ([], two_brokers [RequestLost])))) =
     cl_brokers (two_brokers [RequestLost])"
proof -
  have "list_all (probing 2 0) ([] @ [(sample_platform, sample_entry_of 1, two_brokers [RequestLost])])"
    by (simp add: two_brokers_def sample_broker_def sample_entry_of_def two_nodes_def sample_cluster_def)
  from monitor_waits_for_three_failures [OF this, of "''t''"] show ?thesis by simp
qed

end
