(* ===== verification/Spec2Isabelle.thy ===== *)
theory Spec2Isabelle
  imports Wire_Request Wire_Response Wire_Replication Consumer_Groups Storage_Recovery Cluster_Config
    Cluster_Election Replica_Fence Produce_Fetch Client_Service Retry_Service Consumer Commands Connection Admin
    Long_Poll Leader_Monitor
begin

text \<open>
  SevlaMQ: a verification of the message broker, its client library and its command line.

  \<^bold>\<open>The program.\<close>  A SevlaMQ cluster is a fixed set of brokers.  Producers append records to the partitions of
  topics; each partition is an append-only log on disk, split into segments with sparse indexes, and has one leader
  and some followers, which the leader sends every record to.  A record is visible to consumers below
  the high watermark of its partition.  The broker with the smallest identifier is the
  controller: it creates topics, promotes leaders by hand or after failed probes, and is where the other brokers
  learn topics and leaders.  Consumers form groups whose coordinator assigns
  partitions, fences members by generations and stores committed offsets.  Everything speaks a binary protocol of
  length-prefixed frames.

  \<^bold>\<open>Theories, in the order of the layers.\<close>

  \<^item> \<open>Mq_Prelude\<close>: machine integers, the outcome type (\<open>Ok\<close>, \<open>Err\<close>, \<open>Panic\<close>) and its sequencing, byte buffers, UTF-8
    strings, decimal text; the collections \<open>outcome_simps\<close>, \<open>buf_simps\<close>, \<open>word_simps\<close>.
  \<^item> \<open>Wire_Types\<close>, \<open>Wire_Frame\<close>, \<open>Wire_Request\<close>, \<open>Wire_Response\<close>, \<open>Wire_Replication\<close> (\<open>crates/protocol/src/lib.rs\<close>): the
    types with their validating constructors, framing, and the three codecs.  The locale \<open>framed_codec\<close> is what an
    encoder and a decoder owe to a connection; it is interpreted for requests, responses, replicated records and
    acknowledgements.  Results: every encodable message arrives as it was sent, for any chunking of the stream;
    the decoders never panic on arbitrary bytes and return only values that satisfy the type invariants.
  \<^item> \<open>Record_Codec\<close>, \<open>Partition_Log\<close>, \<open>Log_Files\<close>, \<open>Log_Invariant\<close>, \<open>Log_Append\<close>, \<open>Log_Recovery\<close>, \<open>Log_Maintenance\<close>,
    \<open>Log_Service\<close> (\<open>crates/storage/src/lib.rs\<close>): \<open>encode_record\<close>/\<open>decode_record\<close> and \<open>PartitionLog\<close> with every operation,
    on a directory of files.  The representation invariant \<open>log_rep\<close> relates a log to the abstract history of
    its records.  Results: all outcomes of \<open>append\<close>, reading as a scan of the history, producer
    idempotence, recovery after a crash, truncation, retention, convergence of a follower
    (locale \<open>replica_store\<close>).
  \<^item> \<open>Leadership\<close> (\<open>crates/broker/src/leadership.rs\<close>): the registry of partition leaders and its file; locale \<open>epoch_registry\<close>.
    One leader per epoch; the file always parses back to the entries.
  \<^item> \<open>Consumer_Groups\<close> (\<open>crates/broker/src/groups.rs\<close>): the coordinator; locale \<open>generation_fence\<close>, which the replication
    protocol uses again with epochs for generations.  Rebalancing, one owner per generation, durable commits.
  \<^item> \<open>Storage_Worker\<close>, \<open>Storage_Recovery\<close> (\<open>run_storage_worker\<close> and its helpers in \<open>crates/broker/src/lib.rs\<close>): all commands on
    the logs of all topics, an invariant they keep, reading what was written, fair partitioning, and recovery.
  \<^item> \<open>Storage_Queue\<close>, \<open>Long_Poll\<close> (\<open>StorageHandle\<close>, \<open>start_storage_worker\<close>): the step relation of any number of tasks that send commands
    through the bounded queue to the worker thread, wait for answers and for new records, time out and are aborted, and of the retention
    timer.  Calls are linearizable, polls miss nothing, shutdown executes what was accepted.
  \<^item> \<open>Cluster_Config\<close> (\<open>crates/common/src/lib.rs\<close>): validation of the membership.
  \<^item> \<open>Broker\<close>, \<open>Cluster\<close>, \<open>Cluster_Control\<close> (\<open>crates/broker/src/lib.rs\<close>): one broker with its handles and guards; the brokers
    together with replication, commits, announcements, promotion, the leader monitor, the selection of candidates; the
    synchronisation with the controller, the recovery of followers and the request dispatch.
  \<^item> \<open>Replication\<close>, \<open>Cluster_Safety\<close>, \<open>Cluster_Progress\<close>, \<open>Cluster_Election\<close>, \<open>Produce_Fetch\<close>: what the protocol guarantees.  A
    durable acknowledgement means enough replicas hold the record; fetches see committed records only; a lagging follower
    catches up; an automatically selected candidate has every record a quorum has (locale \<open>quorum_system\<close>); what a
    promotion keeps; reading one's writes.
  \<^item> \<open>Replica_Fence\<close> (\<open>handle_replication_connection\<close>): the handling of a replicated record split at the points where it waits, and the step
    relation of a follower with every interleaving of its connections and other tasks.  Without interruption the turns are
    \<open>receive_replica\<close>.  A follower has one writer per epoch: records that are not checked yet when a newer epoch is admitted
    are refused.  A record that was checked before is not stopped (\<open>stale_record_stored\<close>).
  \<^item> \<open>Connection\<close> (\<open>handle_connection\<close>, \<open>handle_replication_connection\<close>): the step relation of many connections that read and
    write bytes, and its refinement of sessions of whole requests and answers (locale \<open>listener\<close>, interpreted for
    both ports).
  \<^item> \<open>Start_Up\<close> (\<open>run\<close> until it accepts connections): a broker restarted on what a crash left has everything it had stored, as
    long as retention has removed nothing: a log whose first segment is gone cannot be opened (\<open>reopen_after_retention_fails\<close>), so the results on
    recovery assume that no log was trimmed.
  \<^item> \<open>Server\<close>, \<open>Leader_Monitor\<close> (\<open>bin/sevlamqd/src/main.rs\<close>, \<open>accept_connections\<close>, \<open>run\<close> and the background tasks): the connection tasks and their
    gauge, the process as a whole, and the three failed probes before a promotion.
  \<^item> \<open>Observability\<close>, \<open>Admin\<close> (\<open>crates/broker/src/observability.rs\<close>, \<open>handle_admin_connection\<close>): metrics and their text.
    Histograms count what they claim, labels cannot be broken out of, the answer does not depend on how a request
    arrives, totals are exact until they saturate.
  \<^item> \<open>Client\<close>, \<open>Client_Service\<close> (\<open>crates/client/src/lib.rs\<close>): every client operation with its routing; client and broker agree on
    partitions, and what a durable acknowledgement means to the caller.
  \<^item> \<open>Retry\<close>, \<open>Retry_Service\<close>, \<open>Consumer\<close>, \<open>Commands\<close> (\<open>bin/sevlamq-cli/src\<close>): retry envelopes and dead letters, whose path ends in
    the dead-letter topic when the client library acknowledges each publish; the coordinated consumer and its
    delivery guarantees (locale \<open>event_discipline\<close>), and the other commands.

  \<^bold>\<open>How the code is modelled.\<close>  A method on \<open>&mut self\<close> takes the state and returns it with an outcome; every early
  return, error and panic (an index out of range, a remainder by zero, an overflow that is not checked) is
  a branch.  Structures are records, enums datatypes, hash maps association lists.  \<open>u8\<close> to \<open>u64\<close> are words; \<open>usize\<close> is \<open>nat\<close>, for
  a 64-bit platform.  Strings are lists of characters that stand for their UTF-8 bytes.  A directory is a list of files with
  their bytes; a data directory is addressed by topic and partition name, for topics other than \<open>.\<close> and \<open>..\<close> (which the code
  accepts, see \<open>dot_ids_escape\<close>).  Writing, flushing and synchronising succeed; failures that the directory decides (a
  missing or existing file) are modelled.

  Parameters stand for what is not in the repository: \<open>crc32fast\<close> (any function to 32 bits), \<open>zstd\<close> (hypothesis \<open>zstd_roundtrips\<close>:
  it decompresses what it compressed), the parsing of socket addresses, the clock, the age of files, and the
  handler program of a consumer.

  The network between brokers, and between clients and brokers, is a list of deliveries: each message takes one entry and
  arrives, is lost, or its answer is lost.  The list is also the fuel of \<open>catch_up\<close> and of the recovery loop: every turn sends
  a message, so they end, and \<open>follower_catches_up\<close> shows how many deliveries are enough.  The turns of the consumer
  and the events of the accept loop are inputs of the same kind.  In the cluster theories the handlers of the brokers run one after the other, and the handling of a replicated record is one of their steps; the
  step relations of \<open>Storage_Queue\<close>, of \<open>Connection\<close>, of \<open>Replica_Fence\<close>, of the groups and of the registry interleave the parts of handlers
  in every order.

  \<^bold>\<open>Not modelled.\<close>  The parsing of command-line arguments (\<open>clap\<close>, driven by attributes); the TOML parser, a parameter of \<open>from_file\<close>; the
  log subscriber and the log lines; poisoned locks; the length of the intervals and timeouts, which end at any moment.  The handlers of
  the broker model do not update the metrics, and they call the storage worker without its queue: that the queue makes no difference but for
  \<open>BrokerBusy\<close> and \<open>StorageUnavailable\<close>, which they answer as errors, is \<open>storage_calls_linearizable\<close>.  For them the waiting of a
  long-polling fetch is the read it makes last; the waiting itself is in \<open>Long_Poll\<close>.  A message between two modelled parties is handed over
  as a value; that its bytes carry it is the subject of the wire theories and of \<open>Connection\<close>, and a
  response larger than the frame limit, which the client would refuse, is delivered.
\<close>

end
